(* ===== verification/Prelude.thy ===== *)
theory Prelude
  imports Main "HOL-Library.Word" "HOL-Library.Char_ord" "HOL-Library.List_Lexorder"
begin

text \<open>
  Shared vocabulary of the development: machine integers at their width, Rust's
  \<open>Result\<close> as a sum, bytes and strings, the part of the Rust standard library the
  components use (decimal text, big-endian words, \<open>BTreeMap\<close>, checked arithmetic,
  UTF-8 validation), and the lemma collections the component theories draw on.

  A byte is an Isabelle \<open>char\<close>, which has exactly eight bits; a Rust \<open>String\<close> or
  \<open>Vec<u8>\<close> is a list of bytes, so \<open>length\<close> is Rust's \<open>len()\<close> and the order
  on lists is the lexicographic byte order.
\<close>

section \<open>Types and results\<close>

type_synonym byte = char
type_synonym bytes = "char list"
type_synonym u32 = "32 word"
type_synonym u64 = "64 word"
type_synonym i64 = "64 word"

text \<open>\<open>Result<'a, 'e>\<close> is \<open>'e + 'a\<close>: \<open>Inl\<close> is Rust's \<open>Err\<close>, \<open>Inr\<close> its \<open>Ok\<close>.
  \<open>result_bind\<close> is the \<open>?\<close> operator.\<close>

named_theorems result_simps \<open>unfolding of the Result combinators\<close>

fun result_bind :: "'e + 'a \<Rightarrow> ('a \<Rightarrow> 'e + 'b) \<Rightarrow> 'e + 'b" where
  "result_bind (Inl e) f = Inl e"
| "result_bind (Inr x) f = f x"

definition ensure :: "bool \<Rightarrow> 'e \<Rightarrow> 'e + unit" where
  "ensure c e = (if c then Inr () else Inl e)"

definition ok_or :: "'a option \<Rightarrow> 'e \<Rightarrow> 'e + 'a" where
  "ok_or m e = (case m of None \<Rightarrow> Inl e | Some x \<Rightarrow> Inr x)"

definition is_ok :: "'e + 'a \<Rightarrow> bool" where
  "is_ok r = (case r of Inl _ \<Rightarrow> False | Inr _ \<Rightarrow> True)"

lemma result_bind_Inr_iff [result_simps]:
  "result_bind m f = Inr y \<longleftrightarrow> (\<exists>x. m = Inr x \<and> f x = Inr y)"
  by (cases m) auto

lemma result_bind_Inl_iff [result_simps]:
  "result_bind m f = Inl e \<longleftrightarrow> m = Inl e \<or> (\<exists>x. m = Inr x \<and> f x = Inl e)"
  by (cases m) auto

lemma result_bind_sym_iff [result_simps]:
  "Inr y = result_bind m f \<longleftrightarrow> (\<exists>x. m = Inr x \<and> f x = Inr y)"
  "Inl e = result_bind m f \<longleftrightarrow> m = Inl e \<or> (\<exists>x. m = Inr x \<and> f x = Inl e)"
  by (cases m; auto)+

lemma ensure_Inr_iff [simp]: "ensure c e = Inr u \<longleftrightarrow> c"
  by (simp add: ensure_def)

lemma ensure_Inl_iff [simp]: "ensure c e = Inl d \<longleftrightarrow> \<not> c \<and> d = e"
  by (auto simp: ensure_def)

lemma ensure_True [simp]: "ensure True e = Inr ()"
  by (simp add: ensure_def)

lemma ensure_False [simp]: "ensure False e = Inl e"
  by (simp add: ensure_def)

lemma ok_or_simps [simp]: "ok_or None e = Inl e" "ok_or (Some x) e = Inr x"
  by (simp_all add: ok_or_def)

lemma ok_or_Inr_iff [simp]: "ok_or m e = Inr x \<longleftrightarrow> m = Some x"
  by (cases m) simp_all

lemma ok_or_Inl_iff [simp]: "ok_or m e = Inl d \<longleftrightarrow> m = None \<and> d = e"
  by (cases m) auto

lemma is_ok_simps [simp]: "is_ok (Inl e) = False" "is_ok (Inr x) = True"
  by (simp_all add: is_ok_def)

lemma is_ok_iff: "is_ok r \<longleftrightarrow> (\<exists>x. r = Inr x)"
  by (cases r) simp_all

lemma result_bind_cong [fundef_cong]:
  "m = m' \<Longrightarrow> (\<And>x. m' = Inr x \<Longrightarrow> f x = f' x) \<Longrightarrow> result_bind m f = result_bind m' f'"
  by (cases m') simp_all

section \<open>Checked machine arithmetic\<close>

text \<open>\<open>checked_add\<close> and \<open>checked_sub\<close> on \<open>u64\<close>; on \<open>usize\<close>, a 64-bit
  target's index type, kept as \<open>nat\<close> with its bound written out.\<close>

definition checked_add_u64 :: "u64 \<Rightarrow> u64 \<Rightarrow> u64 option" where
  "checked_add_u64 a b = (if unat a + unat b < 2 ^ 64 then Some (a + b) else None)"

definition checked_mul_u64 :: "u64 \<Rightarrow> u64 \<Rightarrow> u64 option" where
  "checked_mul_u64 a b = (if unat a * unat b < 2 ^ 64 then Some (a * b) else None)"

definition checked_add_u32 :: "u32 \<Rightarrow> u32 \<Rightarrow> u32 option" where
  "checked_add_u32 a b = (if unat a + unat b < 2 ^ 32 then Some (a + b) else None)"

definition checked_sub_u32 :: "u32 \<Rightarrow> u32 \<Rightarrow> u32 option" where
  "checked_sub_u32 a b = (if unat b \<le> unat a then Some (a - b) else None)"

definition usize_limit :: nat where
  "usize_limit = 2 ^ 64"

definition checked_add_usize :: "nat \<Rightarrow> nat \<Rightarrow> nat option" where
  "checked_add_usize a b = (if a + b < usize_limit then Some (a + b) else None)"

definition checked_mul_usize :: "nat \<Rightarrow> nat \<Rightarrow> nat option" where
  "checked_mul_usize a b = (if a * b < usize_limit then Some (a * b) else None)"

lemma checked_add_u64_Some:
  "checked_add_u64 a b = Some c \<longleftrightarrow> unat a + unat b < 2 ^ 64 \<and> unat c = unat a + unat b"
  by (auto simp: checked_add_u64_def unat_word_ariths word_unat_eq_iff)

lemma checked_add_u32_Some:
  "checked_add_u32 a b = Some c \<longleftrightarrow> unat a + unat b < 2 ^ 32 \<and> unat c = unat a + unat b"
  by (auto simp: checked_add_u32_def unat_word_ariths word_unat_eq_iff)

lemma checked_sub_u32_Some:
  "checked_sub_u32 a b = Some c \<longleftrightarrow> unat b \<le> unat a \<and> unat c = unat a - unat b"
  by (auto simp: checked_sub_u32_def word_unat_eq_iff unat_sub_if_size)

lemma checked_add_usize_Some [simp]:
  "checked_add_usize a b = Some c \<longleftrightarrow> c = a + b \<and> a + b < usize_limit"
  by (auto simp: checked_add_usize_def)

lemma checked_mul_usize_Some [simp]:
  "checked_mul_usize a b = Some c \<longleftrightarrow> c = a * b \<and> a * b < usize_limit"
  by (auto simp: checked_mul_usize_def)

section \<open>ASCII classes of bytes\<close>

definition is_ascii_digit :: "byte \<Rightarrow> bool" where
  "is_ascii_digit c \<longleftrightarrow> CHR ''0'' \<le> c \<and> c \<le> CHR ''9''"

definition is_ascii_lowercase :: "byte \<Rightarrow> bool" where
  "is_ascii_lowercase c \<longleftrightarrow> CHR ''a'' \<le> c \<and> c \<le> CHR ''z''"

definition is_ascii_uppercase :: "byte \<Rightarrow> bool" where
  "is_ascii_uppercase c \<longleftrightarrow> CHR ''A'' \<le> c \<and> c \<le> CHR ''Z''"

definition is_ascii_alphabetic :: "byte \<Rightarrow> bool" where
  "is_ascii_alphabetic c \<longleftrightarrow> is_ascii_lowercase c \<or> is_ascii_uppercase c"

definition is_ascii_alphanumeric :: "byte \<Rightarrow> bool" where
  "is_ascii_alphanumeric c \<longleftrightarrow> is_ascii_alphabetic c \<or> is_ascii_digit c"

definition is_ascii_graphic :: "byte \<Rightarrow> bool" where
  "is_ascii_graphic c \<longleftrightarrow> CHR ''!'' \<le> c \<and> c \<le> CHR ''~''"

lemmas ascii_defs = is_ascii_digit_def is_ascii_lowercase_def is_ascii_uppercase_def
  is_ascii_alphabetic_def is_ascii_alphanumeric_def is_ascii_graphic_def

section \<open>Prefixes and pieces of strings\<close>

text \<open>\<open>strip_prefix\<close> of \<open>str\<close> and of byte slices.\<close>

definition strip_prefix :: "string \<Rightarrow> string \<Rightarrow> string option" where
  "strip_prefix p s = (if take (length p) s = p then Some (drop (length p) s) else None)"

lemma strip_prefix_append [simp]: "strip_prefix p (p @ s) = Some s"
  by (simp add: strip_prefix_def)

lemma strip_prefix_Some: "strip_prefix p s = Some r \<longleftrightarrow> s = p @ r"
  by (auto simp: strip_prefix_def) (metis append_take_drop_id)

text \<open>\<open>str::split\<close> on one byte: the pieces between the separators, one more than there
  are separators.\<close>

fun split_on :: "byte \<Rightarrow> string \<Rightarrow> string list" where
  "split_on c [] = [[]]"
| "split_on c (x # xs) =
     (if x = c then [] # split_on c xs
      else case split_on c xs of [] \<Rightarrow> [[x]] | p # ps \<Rightarrow> (x # p) # ps)"

text \<open>\<open>str::split_once\<close> on a two-byte separator: the first occurrence.\<close>

fun split_once2 :: "byte \<Rightarrow> byte \<Rightarrow> string \<Rightarrow> (string \<times> string) option" where
  "split_once2 a b (x # y # r) =
     (if x = a \<and> y = b then Some ([], r)
      else map_option (\<lambda>(p, q). (x # p, q)) (split_once2 a b (y # r)))"
| "split_once2 a b _ = None"

lemma split_on_no_sep [simp]: "c \<notin> set p \<Longrightarrow> split_on c p = [p]"
  by (induction p) auto

lemma split_on_append: "c \<notin> set p \<Longrightarrow> split_on c (p @ c # s) = p # split_on c s"
  by (induction p) auto

lemma split_on_not_Nil [simp]: "split_on c s \<noteq> []"
  by (cases s) (auto split: list.split)

lemma split_on_join:
  "split_on c s = ps \<Longrightarrow> s = hd ps @ concat (map ((#) c) (tl ps))"
  by (induction c s arbitrary: ps rule: split_on.induct)
    (auto split: list.splits if_splits simp: neq_Nil_conv)

text \<open>The inverse of splitting: the pieces with the separator between them.\<close>

fun join_on :: "byte \<Rightarrow> string list \<Rightarrow> string" where
  "join_on c [] = []"
| "join_on c [p] = p"
| "join_on c (p # q # ps) = p @ c # join_on c (q # ps)"

lemma split_on_pieces: "p \<in> set (split_on c s) \<Longrightarrow> c \<notin> set p"
  by (induction c s arbitrary: p rule: split_on.induct) (auto split: list.splits if_splits)

lemma join_split_on [simp]: "join_on c (split_on c s) = s"
proof (induction c s rule: split_on.induct)
  case (2 c x xs)
  then show ?case by (cases "split_on c xs"; cases "tl (split_on c xs)") auto
qed simp

lemma split_join_on: "ps \<noteq> [] \<Longrightarrow> (\<forall>p\<in>set ps. c \<notin> set p) \<Longrightarrow> split_on c (join_on c ps) = ps"
  by (induction c ps rule: join_on.induct) (auto simp: split_on_append)

lemma split_on_append_gen: "split_on c (a @ c # b) = split_on c a @ split_on c b"
  by (induction a) (auto split: list.split)

lemma split_once2_append:
  assumes "a \<notin> set p"
  shows "split_once2 a b (p @ a # b # r) = Some (p, r)"
  using assms
proof (induction p)
  case (Cons x p)
  then show ?case by (cases p) auto
qed simp

lemma split_once2_Some: "split_once2 a b s = Some (p, q) \<Longrightarrow> s = p @ a # b # q"
  by (induction a b s arbitrary: p q rule: split_once2.induct) (auto split: if_splits)

section \<open>Decimal text\<close>

text \<open>\<open>Display\<close> for unsigned integers, and \<open>str::parse\<close> on a string of ASCII digits:
  the value is read digit by digit, most significant first.\<close>

definition digit_char :: "nat \<Rightarrow> byte" where
  "digit_char d = char_of (48 + d)"

definition digit_val :: "byte \<Rightarrow> nat" where
  "digit_val c = of_char c - 48"

fun show_nat :: "nat \<Rightarrow> string" where
  "show_nat n = (if n < 10 then [digit_char n] else show_nat (n div 10) @ [digit_char (n mod 10)])"

declare show_nat.simps [simp del]

definition dec_value :: "string \<Rightarrow> nat" where
  "dec_value s = foldl (\<lambda>v c. 10 * v + digit_val c) 0 s"

lemma digit_val_digit_char [simp]: "d < 10 \<Longrightarrow> digit_val (digit_char d) = d"
  by (simp add: digit_val_def digit_char_def)

lemma is_ascii_digit_digit_char [simp]: "d < 10 \<Longrightarrow> is_ascii_digit (digit_char d)"
  by (simp add: is_ascii_digit_def digit_char_def less_eq_char_def)

lemma digit_char_neq_0 [simp]: "d < 10 \<Longrightarrow> digit_char d = CHR ''0'' \<longleftrightarrow> d = 0"
proof -
  assume "d < 10"
  have "digit_char d = CHR ''0'' \<longleftrightarrow> of_char (digit_char d) = (of_char CHR ''0'' :: nat)"
    by (simp only: of_char_eq_iff)
  with \<open>d < 10\<close> show ?thesis by (simp add: digit_char_def)
qed

lemma is_ascii_digit_val: "is_ascii_digit c \<Longrightarrow> digit_val c < 10 \<and> digit_char (digit_val c) = c"
  by (auto simp: is_ascii_digit_def digit_val_def digit_char_def less_eq_char_def)

lemma show_nat_not_Nil [simp]: "show_nat n \<noteq> []"
  by (subst show_nat.simps) simp

lemma show_nat_digits: "c \<in> set (show_nat n) \<Longrightarrow> is_ascii_digit c"
proof (induction n rule: show_nat.induct)
  case (1 n)
  from "1.prems" show ?case
    by (subst (asm) show_nat.simps) (auto split: if_splits dest: "1.IH")
qed

lemma dec_value_append_digit: "dec_value (s @ [c]) = 10 * dec_value s + digit_val c"
  by (simp add: dec_value_def)

lemma dec_value_show_nat [simp]: "dec_value (show_nat n) = n"
proof (induction n rule: show_nat.induct)
  case (1 n)
  show ?case
    by (subst show_nat.simps) (auto simp: "1.IH" dec_value_append_digit, simp add: dec_value_def)
qed

lemma show_nat_inject [simp]: "show_nat m = show_nat n \<longleftrightarrow> m = n"
  by (metis dec_value_show_nat)

lemma show_nat_hd: "length (show_nat n) > 1 \<Longrightarrow> hd (show_nat n) \<noteq> CHR ''0''"
proof (induction n rule: show_nat.induct)
  case (1 n)
  show ?case
  proof (cases "n < 10")
    case True
    with "1.prems" show ?thesis by (simp add: show_nat.simps)
  next
    case False
    then have e: "show_nat n = show_nat (n div 10) @ [digit_char (n mod 10)]"
      by (subst show_nat.simps) simp
    show ?thesis
    proof (cases "n div 10 < 10")
      case True
      with e False show ?thesis by (auto simp: show_nat.simps [of "n div 10"])
    next
      case f: False
      then have "length (show_nat (n div 10)) > 1"
        by (subst show_nat.simps) (simp add: length_greater_0_conv [symmetric])
      with "1.IH" [OF False] e show ?thesis by simp
    qed
  qed
qed

lemma dec_value_Cons:
  "dec_value (c # s) = digit_val c * 10 ^ length s + dec_value s"
proof -
  have "foldl (\<lambda>v c. 10 * v + digit_val c) a s = a * 10 ^ length s + dec_value s" for a
    unfolding dec_value_def
  proof (induction s arbitrary: a)
    case Nil
    show ?case by simp
  next
    case (Cons d s)
    show ?case
      using Cons [of "10 * a + digit_val d"] Cons [of "digit_val d"]
      by (simp add: algebra_simps)
  qed
  from this [of "digit_val c"] show ?thesis by (simp add: dec_value_def)
qed

text \<open>A canonical decimal: digits only, at least one, no leading zero but for zero itself.\<close>

definition canonical_decimal :: "string \<Rightarrow> bool" where
  "canonical_decimal s \<longleftrightarrow>
     s \<noteq> [] \<and> list_all is_ascii_digit s \<and> \<not> (length s > 1 \<and> hd s = CHR ''0'')"

lemma canonical_decimal_show_nat [simp]: "canonical_decimal (show_nat n)"
  using show_nat_digits show_nat_hd by (auto simp: canonical_decimal_def list_all_iff)

lemma dec_value_pos: "list_all is_ascii_digit (c # s) \<Longrightarrow> c \<noteq> CHR ''0'' \<Longrightarrow> 0 < dec_value (c # s)"
proof -
  assume a: "list_all is_ascii_digit (c # s)" "c \<noteq> CHR ''0''"
  then have d: "digit_val c < 10" "digit_char (digit_val c) = c"
    using is_ascii_digit_val [of c] by simp_all
  have "digit_val c \<noteq> 0"
  proof
    assume "digit_val c = 0"
    with d(2) have "c = digit_char 0" by simp
    with a(2) show False using digit_char_neq_0 [of 0] by simp
  qed
  then show ?thesis by (simp add: dec_value_Cons)
qed

lemma show_nat_dec_value: "canonical_decimal s \<Longrightarrow> show_nat (dec_value s) = s"
proof (induction s rule: rev_induct)
  case Nil
  then show ?case by (simp add: canonical_decimal_def)
next
  case (snoc c s)
  from snoc.prems have c: "digit_val c < 10" "digit_char (digit_val c) = c"
    by (auto simp: canonical_decimal_def dest: is_ascii_digit_val)
  show ?case
  proof (cases s)
    case Nil
    with c show ?thesis by (simp add: dec_value_def show_nat.simps)
  next
    case (Cons d t)
    with snoc.prems have s: "canonical_decimal s" and "d \<noteq> CHR ''0''"
      by (auto simp: canonical_decimal_def)
    with Cons have pos: "0 < dec_value s"
      by (metis canonical_decimal_def dec_value_pos)
    then have "show_nat (10 * dec_value s + digit_val c) = show_nat (dec_value s) @ [digit_char (digit_val c)]"
      using c(1) by (subst show_nat.simps) simp
    with snoc.IH [OF s] c show ?thesis by (simp add: dec_value_append_digit)
  qed
qed

lemma length_show_nat: "n < 10 ^ k \<Longrightarrow> 0 < k \<Longrightarrow> length (show_nat n) \<le> k"
proof (induction k arbitrary: n)
  case (Suc k)
  show ?case
  proof (cases "n < 10")
    case True
    then show ?thesis by (simp add: show_nat.simps)
  next
    case False
    with Suc.prems have "n div 10 < 10 ^ k" and "k \<noteq> 0"
      by (auto intro: gr0I)
    with Suc.IH [of "n div 10"] False show ?thesis by (subst show_nat.simps) simp
  qed
qed simp

lemma dec_value_bound: "list_all is_ascii_digit s \<Longrightarrow> dec_value s < 10 ^ length s"
proof (induction s rule: rev_induct)
  case (snoc c s)
  then have "dec_value s < 10 ^ length s" "digit_val c < 10"
    using is_ascii_digit_val by auto
  then show ?case by (simp add: dec_value_append_digit)
qed (simp add: dec_value_def)

lemma dec_value_zeros [simp]: "dec_value (replicate k (CHR ''0'') @ s) = dec_value s"
  by (induction k) (simp_all add: dec_value_Cons digit_val_def)

lemma dec_value_inject:
  assumes "list_all is_ascii_digit s" "list_all is_ascii_digit t" "length s = length t" "dec_value s = dec_value t"
  shows "s = t"
  using assms
proof (induction s arbitrary: t rule: rev_induct)
  case (snoc c s)
  then obtain t' d where t: "t = t' @ [d]" by (cases t rule: rev_cases) auto
  with snoc.prems have d: "digit_val c < 10" "digit_val d < 10" "digit_char (digit_val c) = c"
      "digit_char (digit_val d) = d"
    using is_ascii_digit_val by auto
  with snoc.prems(4) t have "digit_val c = digit_val d \<and> dec_value s = dec_value t'"
    by (simp add: dec_value_append_digit) presburger
  with snoc t d show ?case by (metis append_same_eq length_append_singleton list_all_append nat.inject)
qed simp

end
