(* ===== verification/Ordered_Map.thy ===== *)
theory Ordered_Map
  imports Prelude
begin

text \<open>
  Rust's \<open>BTreeMap\<close>, as far as the components use it: \<open>get\<close>, \<open>insert\<close>,
  \<open>remove\<close>, \<open>len\<close> and iteration in ascending key order. The model is the list of
  entries in that order; \<open>bt_wf\<close> says that the keys ascend strictly. The locale
  \<open>keyed_store\<close> is what a client relies on: after which operation which key is
  present, how the number of entries moves, and that the representation invariant is kept.
\<close>

type_synonym ('k, 'v) btree_map = "('k \<times> 'v) list"

definition bt_empty :: "('k, 'v) btree_map" where
  "bt_empty = []"

definition bt_get :: "('k, 'v) btree_map \<Rightarrow> 'k \<Rightarrow> 'v option" where
  "bt_get m k = map_of m k"

fun bt_insert :: "'k::linorder \<Rightarrow> 'v \<Rightarrow> ('k, 'v) btree_map \<Rightarrow> ('k, 'v) btree_map" where
  "bt_insert k v [] = [(k, v)]"
| "bt_insert k v ((k', v') # m) =
     (if k = k' then (k, v) # m
      else if k < k' then (k, v) # (k', v') # m
      else (k', v') # bt_insert k v m)"

fun bt_remove :: "'k \<Rightarrow> ('k, 'v) btree_map \<Rightarrow> ('k, 'v) btree_map" where
  "bt_remove k [] = []"
| "bt_remove k ((k', v') # m) = (if k = k' then m else (k', v') # bt_remove k m)"

definition bt_len :: "('k, 'v) btree_map \<Rightarrow> nat" where
  "bt_len m = length m"

definition bt_values :: "('k, 'v) btree_map \<Rightarrow> 'v list" where
  "bt_values m = map snd m"

definition bt_contains :: "('k, 'v) btree_map \<Rightarrow> 'k \<Rightarrow> bool" where
  "bt_contains m k \<longleftrightarrow> bt_get m k \<noteq> None"

fun bt_wf :: "('k::linorder, 'v) btree_map \<Rightarrow> bool" where
  "bt_wf [] = True"
| "bt_wf ((k, v) # m) = ((\<forall>k' \<in> fst ` set m. k < k') \<and> bt_wf m)"

lemma bt_get_insert: "bt_get (bt_insert k v m) = (bt_get m)(k := Some v)"
  by (induction k v m rule: bt_insert.induct) (auto simp: bt_get_def fun_eq_iff)

lemma bt_insert_keys: "fst ` set (bt_insert k v m) = insert k (fst ` set m)"
  by (induction k v m rule: bt_insert.induct) auto

lemma bt_remove_subset: "set (bt_remove k m) \<subseteq> set m"
  by (induction k m rule: bt_remove.induct) auto

lemma bt_wf_insert: "bt_wf m \<Longrightarrow> bt_wf (bt_insert k v m)"
proof (induction k v m rule: bt_insert.induct)
  case (2 k v k' v' m)
  then show ?case by (auto simp: bt_insert_keys simp del: image_iff)
qed simp

lemma bt_wf_remove: "bt_wf m \<Longrightarrow> bt_wf (bt_remove k m)"
proof (induction k m rule: bt_remove.induct)
  case (2 k k' v' m)
  then show ?case using bt_remove_subset [of k m] by auto
qed simp

lemma bt_get_None_iff: "bt_get m k = None \<longleftrightarrow> k \<notin> fst ` set m"
  by (simp add: bt_get_def map_of_eq_None_iff)

lemma bt_wf_distinct: "bt_wf m \<Longrightarrow> distinct (map fst m)"
  by (induction m rule: bt_wf.induct) auto

lemma bt_get_remove: "bt_wf m \<Longrightarrow> bt_get (bt_remove k m) = (bt_get m)(k := None)"
proof (induction k m rule: bt_remove.induct)
  case (2 k k' v' m)
  then have "k = k' \<Longrightarrow> bt_get m k = None"
    by (auto simp: bt_get_None_iff)
  with 2 show ?case by (auto simp: bt_get_def fun_eq_iff)
qed (simp add: bt_get_def fun_eq_iff)

lemma bt_len_insert:
  "bt_wf m \<Longrightarrow> bt_len (bt_insert k v m) = bt_len m + (if bt_get m k = None then 1 else 0)"
proof (induction k v m rule: bt_insert.induct)
  case (2 k v k' v' m)
  have "k < k' \<Longrightarrow> bt_get m k = None"
    using "2.prems" by (force simp: bt_get_None_iff)
  with 2 show ?case by (auto simp: bt_len_def bt_get_def)
qed (simp add: bt_len_def bt_get_def)

lemma bt_len_remove:
  "bt_wf m \<Longrightarrow> bt_len (bt_remove k m) = bt_len m - (if bt_get m k = None then 0 else 1)"
proof (induction k m rule: bt_remove.induct)
  case (2 k k' v' m)
  have "bt_get m k \<noteq> None \<Longrightarrow> bt_len m > 0"
    by (cases m) (auto simp: bt_get_def bt_len_def)
  with 2 show ?case by (auto simp: bt_len_def bt_get_def)
qed (simp add: bt_len_def bt_get_def)

section \<open>The interface its clients use\<close>

locale keyed_store =
  fixes get :: "'m \<Rightarrow> 'k \<Rightarrow> 'v option"
    and ins :: "'k \<Rightarrow> 'v \<Rightarrow> 'm \<Rightarrow> 'm"
    and del :: "'k \<Rightarrow> 'm \<Rightarrow> 'm"
    and len :: "'m \<Rightarrow> nat"
    and empty :: "'m"
    and inv :: "'m \<Rightarrow> bool"
  assumes get_empty: "get empty k = None"
    and get_ins: "inv m \<Longrightarrow> get (ins k v m) = (get m)(k := Some v)"
    and get_del: "inv m \<Longrightarrow> get (del k m) = (get m)(k := None)"
    and len_empty: "len empty = 0"
    and len_ins: "inv m \<Longrightarrow> len (ins k v m) = len m + (if get m k = None then 1 else 0)"
    and len_del: "inv m \<Longrightarrow> len (del k m) = len m - (if get m k = None then 0 else 1)"
    and inv_empty: "inv empty"
    and inv_ins: "inv m \<Longrightarrow> inv (ins k v m)"
    and inv_del: "inv m \<Longrightarrow> inv (del k m)"
begin

lemma dom_ins: "inv m \<Longrightarrow> dom (get (ins k v m)) = insert k (dom (get m))"
  by (simp add: get_ins)

lemma dom_del: "inv m \<Longrightarrow> dom (get (del k m)) = dom (get m) - {k}"
  by (simp add: get_del)

text \<open>Admission under a capacity: a client that inserts only while the store is below its
  capacity never exceeds it.\<close>

lemma len_admit: "inv m \<Longrightarrow> len m < cap \<Longrightarrow> len (ins k v m) \<le> cap"
  by (simp add: len_ins)

lemma len_del_le: "inv m \<Longrightarrow> len (del k m) \<le> len m"
  by (simp add: len_del)

text \<open>Inserting a fresh key and removing it again leaves every lookup as it was.\<close>

lemma del_ins_fresh: "inv m \<Longrightarrow> get m k = None \<Longrightarrow> get (del k (ins k v m)) = get m"
  by (simp add: get_del get_ins inv_ins fun_eq_iff)

end

interpretation btm: keyed_store bt_get bt_insert bt_remove bt_len bt_empty
    "bt_wf :: ('k::linorder, 'v) btree_map \<Rightarrow> bool"
  by unfold_locales
    (simp_all add: bt_get_insert bt_get_remove bt_len_insert bt_len_remove bt_wf_insert
      bt_wf_remove bt_empty_def, simp_all add: bt_get_def bt_len_def)

lemmas btree_simps = bt_get_insert bt_get_remove bt_len_insert bt_len_remove bt_wf_insert
  bt_wf_remove

end
