(* ===== verification/Json_Value.thy ===== *)
theory Json_Value
  imports Ordered_Map
begin

text \<open>
  JSON values and the strict reading of them (\<open>josh-protocol/src/strict_json.rs\<close>).
  The text parser itself is the \<open>serde_json\<close> crate: it is a parameter
  \<open>json_syntax\<close> of the model, which gives the tree of visitor calls it makes for a
  text, or \<open>None\<close> for a text that is not JSON. What the repository adds, the UTF-8
  check and the visitor that refuses duplicate keys, is defined here.
\<close>

section \<open>UTF-8\<close>

text \<open>\<open>std::str::from_utf8\<close>: the well-formed byte sequences of the Unicode standard.\<close>

definition in_range :: "nat \<Rightarrow> nat \<Rightarrow> byte \<Rightarrow> bool" where
  "in_range lo hi c \<longleftrightarrow> lo \<le> of_char c \<and> of_char c \<le> hi"

definition utf8_cont :: "byte \<Rightarrow> bool" where
  "utf8_cont c \<longleftrightarrow> in_range 128 191 c"

fun utf8_valid :: "bytes \<Rightarrow> bool" where
  "utf8_valid [] = True"
| "utf8_valid (b # bs) =
    (if in_range 0 127 b then utf8_valid bs
     else if in_range 194 223 b then
       (case bs of c # r \<Rightarrow> utf8_cont c \<and> utf8_valid r | _ \<Rightarrow> False)
     else if in_range 224 239 b then
       (case bs of c # d # r \<Rightarrow>
          (if of_char b = (224::nat) then in_range 160 191 c
           else if of_char b = (237::nat) then in_range 128 159 c
           else utf8_cont c) \<and> utf8_cont d \<and> utf8_valid r
        | _ \<Rightarrow> False)
     else if in_range 240 244 b then
       (case bs of c # d # e # r \<Rightarrow>
          (if of_char b = (240::nat) then in_range 144 191 c
           else if of_char b = (244::nat) then in_range 128 143 c
           else utf8_cont c) \<and> utf8_cont d \<and> utf8_cont e \<and> utf8_valid r
        | _ \<Rightarrow> False)
     else False)"

lemma utf8_valid_ascii_Cons [simp]: "in_range 0 127 b \<Longrightarrow> utf8_valid (b # bs) = utf8_valid bs"
  by simp

lemma utf8_valid_ascii: "list_all (in_range 0 127) s \<Longrightarrow> utf8_valid s"
  by (induction s) auto

lemma utf8_valid_append: "utf8_valid xs \<Longrightarrow> utf8_valid (xs @ ys) = utf8_valid ys"
proof (induction xs rule: utf8_valid.induct)
  case 1
  show ?case by simp
next
  case (2 b bs)
  from "2.prems" show ?case
    by (simp split: if_splits list.splits add: "2.IH")
qed

section \<open>Values\<close>

text \<open>\<open>serde_json::Value\<close>; an object is a map ordered by key. A float is kept as its bits.\<close>

datatype json_number = PosInt u64 | NegInt i64 | FloatNum u64

datatype json =
    JNull
  | JBool bool
  | JNumber json_number
  | JString string
  | JArray "json list"
  | JObject "(string \<times> json) list"

text \<open>The calls the parser makes on its visitor: one constructor for each \<open>visit_*\<close>.\<close>

datatype json_event =
    EvUnit
  | EvBool bool
  | EvI64 i64
  | EvU64 u64
  | EvF64 u64
  | EvStr string
  | EvSeq "json_event list"
  | EvMap "(string \<times> json_event) list"

definition is_finite_bits :: "u64 \<Rightarrow> bool" where
  "is_finite_bits b \<longleftrightarrow> take_bit 11 (drop_bit 52 b) \<noteq> 2047"

definition number_of_i64 :: "i64 \<Rightarrow> json_number" where
  "number_of_i64 i = (if 0 \<le> sint i then PosInt i else NegInt i)"

text \<open>\<open>ValueVisitor\<close>: every object key is refused when the object built so far has it.
  \<open>None\<close> stands for the error, whose text the library composes.\<close>

function (sequential) visit_value :: "json_event \<Rightarrow> json option"
  and visit_seq :: "json_event list \<Rightarrow> json list option"
  and visit_map :: "(string \<times> json_event) list \<Rightarrow> (string, json) btree_map \<Rightarrow>
    (string, json) btree_map option" where
  "visit_value EvUnit = Some JNull"
| "visit_value (EvBool b) = Some (JBool b)"
| "visit_value (EvI64 i) = Some (JNumber (number_of_i64 i))"
| "visit_value (EvU64 u) = Some (JNumber (PosInt u))"
| "visit_value (EvF64 b) = (if is_finite_bits b then Some (JNumber (FloatNum b)) else None)"
| "visit_value (EvStr s) = Some (JString s)"
| "visit_value (EvSeq es) = map_option JArray (visit_seq es)"
| "visit_value (EvMap ms) = map_option JObject (visit_map ms bt_empty)"
| "visit_seq [] = Some []"
| "visit_seq (e # es) =
     (case visit_value e of None \<Rightarrow> None
      | Some v \<Rightarrow> map_option ((#) v) (visit_seq es))"
| "visit_map [] acc = Some acc"
| "visit_map ((k, e) # ms) acc =
     (if bt_contains acc k then None
      else case visit_value e of None \<Rightarrow> None
        | Some v \<Rightarrow> visit_map ms (bt_insert k v acc))"
  by pat_completeness auto
termination
  by (relation "measure (\<lambda>x. case x of Inl e \<Rightarrow> size e
        | Inr (Inl es) \<Rightarrow> size_list size es
        | Inr (Inr (ms, acc)) \<Rightarrow> size_list (size_prod (\<lambda>_. 0) size) ms)") auto

section \<open>Protocol errors and the strict parser\<close>

text \<open>\<open>ProtocolError\<close> of \<open>message.rs\<close>. A text written in the repository is kept; a text
  composed by a library (\<open>error.to_string()\<close>) is \<open>LibraryText\<close>.\<close>

datatype error_text = Text string | LibraryText

datatype protocol_error =
    Io error_text
  | UnexpectedEof
  | HeaderLineTooLong
  | InvalidHeader
  | InvalidLength
  | FrameTooLarge
  | InvalidUtf8
  | InvalidJson error_text
  | InvalidMessage error_text

definition strict_parse :: "(string \<Rightarrow> json_event option) \<Rightarrow> bytes \<Rightarrow> protocol_error + json" where
  "strict_parse json_syntax input =
     (if \<not> utf8_valid input then Inl InvalidUtf8
      else case json_syntax input of
        None \<Rightarrow> Inl (InvalidJson LibraryText)
      | Some ev \<Rightarrow> (case visit_value ev of
          None \<Rightarrow> Inl (InvalidJson LibraryText)
        | Some v \<Rightarrow> Inr v))"

section \<open>What strictness means\<close>

text \<open>The specification of the visitor: no object, at any depth, repeats a key, and every
  float is finite. A value is well formed when its objects have strictly ascending keys,
  negative integers are negative and floats are finite.\<close>

fun strict_event :: "json_event \<Rightarrow> bool" where
  "strict_event (EvF64 b) = is_finite_bits b"
| "strict_event (EvSeq es) = list_all strict_event es"
| "strict_event (EvMap ms) = (distinct (map fst ms) \<and> list_all (\<lambda>m. strict_event (snd m)) ms)"
| "strict_event _ = True"

text \<open>The value a tree stands for, said without the visitor: an object is the list of its members in
  ascending order of their keys.\<close>

fun event_value :: "json_event \<Rightarrow> json" where
  "event_value EvUnit = JNull"
| "event_value (EvBool b) = JBool b"
| "event_value (EvI64 i) = JNumber (if sint i < 0 then NegInt i else PosInt i)"
| "event_value (EvU64 u) = JNumber (PosInt u)"
| "event_value (EvF64 b) = JNumber (FloatNum b)"
| "event_value (EvStr s) = JString s"
| "event_value (EvSeq es) = JArray (map event_value es)"
| "event_value (EvMap ms) = JObject (sort_key fst (map (\<lambda>m. (fst m, event_value (snd m))) ms))"

fun wf_number :: "json_number \<Rightarrow> bool" where
  "wf_number (PosInt u) = True"
| "wf_number (NegInt i) = (sint i < 0)"
| "wf_number (FloatNum b) = is_finite_bits b"

fun wf_json :: "json \<Rightarrow> bool" where
  "wf_json (JNumber n) = wf_number n"
| "wf_json (JArray vs) = list_all wf_json vs"
| "wf_json (JObject ms) = (bt_wf ms \<and> list_all (\<lambda>m. wf_json (snd m)) ms)"
| "wf_json _ = True"

fun event_of_number :: "json_number \<Rightarrow> json_event" where
  "event_of_number (PosInt u) = EvU64 u"
| "event_of_number (NegInt i) = EvI64 i"
| "event_of_number (FloatNum b) = EvF64 b"

text \<open>The visitor calls for the text of a value.\<close>

fun events_of :: "json \<Rightarrow> json_event" where
  "events_of JNull = EvUnit"
| "events_of (JBool b) = EvBool b"
| "events_of (JNumber n) = event_of_number n"
| "events_of (JString s) = EvStr s"
| "events_of (JArray vs) = EvSeq (map events_of vs)"
| "events_of (JObject ms) = EvMap (map (\<lambda>m. (fst m, events_of (snd m))) ms)"

lemma bt_contains_insert [simp]:
  "bt_contains (bt_insert k v m) k' \<longleftrightarrow> k' = k \<or> bt_contains m k'"
  by (auto simp: bt_contains_def bt_get_insert)

lemma bt_contains_empty [simp]: "\<not> bt_contains bt_empty k"
  by (simp add: bt_contains_def bt_get_def bt_empty_def)

text \<open>The three visitors accept exactly the strict trees.\<close>

lemma visit_None_iff:
  "visit_value e = None \<longleftrightarrow> \<not> strict_event e"
  "visit_seq es = None \<longleftrightarrow> \<not> list_all strict_event es"
  "visit_map ms acc = None \<longleftrightarrow>
     \<not> (distinct (map fst ms) \<and> (\<forall>k \<in> fst ` set ms. \<not> bt_contains acc k) \<and>
        list_all (\<lambda>m. strict_event (snd m)) ms)"
proof (induction e and es and ms acc rule: visit_value_visit_seq_visit_map.induct)
  case (12 k e ms acc)
  then show ?case
    by (cases "visit_value e") auto
qed (auto split: option.splits)

lemma bt_insert_values: "set (bt_insert k v m) \<subseteq> insert (k, v) (set m)"
  by (induction k v m rule: bt_insert.induct) auto

lemma visit_wf:
  "visit_value e = Some v \<Longrightarrow> wf_json v"
  "visit_seq es = Some vs \<Longrightarrow> list_all wf_json vs"
  "visit_map ms acc = Some m \<Longrightarrow> bt_wf acc \<Longrightarrow> list_all (\<lambda>m. wf_json (snd m)) acc \<Longrightarrow>
     bt_wf m \<and> list_all (\<lambda>m. wf_json (snd m)) m"
proof (induction e and es and ms acc arbitrary: v and vs and m
    rule: visit_value_visit_seq_visit_map.induct)
  case (12 k e ms acc)
  from "12.prems"(1) obtain v where v: "visit_value e = Some v"
    and m: "visit_map ms (bt_insert k v acc) = Some m" and nc: "\<not> bt_contains acc k"
    by (auto split: if_splits option.splits)
  from "12.IH"(1) [OF nc v] have "wf_json v" .
  then have "list_all (\<lambda>m. wf_json (snd m)) (bt_insert k v acc)"
    using "12.prems"(3) bt_insert_values [of k v acc] by (auto simp: list_all_iff)
  with "12.IH"(2) [OF nc v m] "12.prems"(2) show ?case by (simp add: bt_wf_insert)
qed (auto simp: number_of_i64_def bt_empty_def split: if_splits option.splits)

text \<open>Reading the members of an object in any order builds the same ordered map.\<close>

fun bt_of_members :: "('k::linorder \<times> 'v) list \<Rightarrow> ('k, 'v) btree_map \<Rightarrow> ('k, 'v) btree_map" where
  "bt_of_members [] acc = acc"
| "bt_of_members ((k, v) # ms) acc = bt_of_members ms (bt_insert k v acc)"

lemma visit_map_events:
  assumes "\<And>m. m \<in> set ms \<Longrightarrow> visit_value (events_of (snd m)) = Some (snd m)"
    and "distinct (map fst ms)" and "\<forall>k \<in> fst ` set ms. \<not> bt_contains acc k"
  shows "visit_map (map (\<lambda>m. (fst m, events_of (snd m))) ms) acc = Some (bt_of_members ms acc)"
  using assms
proof (induction ms acc rule: bt_of_members.induct)
  case (2 k v ms acc)
  from "2.prems"(1) [of "(k, v)"] have "visit_value (events_of v) = Some v" by simp
  moreover from 2 have "visit_map (map (\<lambda>m. (fst m, events_of (snd m))) ms) (bt_insert k v acc) =
      Some (bt_of_members ms (bt_insert k v acc))"
    by (intro "2.IH") (auto simp: image_iff)
  ultimately show ?case using "2.prems"(3) by simp
qed simp

lemma bt_insert_last:
  "\<forall>k' \<in> fst ` set m. k' < k \<Longrightarrow> bt_insert k v m = m @ [(k, v)]"
  by (induction m) (auto dest: less_imp_neq less_not_sym)

lemma bt_of_members_sorted:
  "bt_wf ms \<Longrightarrow> \<forall>k \<in> fst ` set acc. \<forall>k' \<in> fst ` set ms. k < k' \<Longrightarrow>
   bt_of_members ms acc = acc @ ms"
  by (induction ms acc rule: bt_of_members.induct) (auto simp: bt_insert_last)

lemma visit_seq_events:
  "(\<And>v. v \<in> set vs \<Longrightarrow> visit_value (events_of v) = Some v) \<Longrightarrow>
   visit_seq (map events_of vs) = Some vs"
  by (induction vs) auto

lemma visit_events_of: "wf_json v \<Longrightarrow> visit_value (events_of v) = Some v"
proof (induction v rule: events_of.induct)
  case (3 n)
  then show ?case by (cases n) (auto simp: number_of_i64_def)
next
  case (5 vs)
  then have "visit_seq (map events_of vs) = Some vs"
    by (intro visit_seq_events) (auto simp: list_all_iff)
  then show ?case by simp
next
  case (6 ms)
  then have "visit_map (map (\<lambda>m. (fst m, events_of (snd m))) ms) bt_empty =
      Some (bt_of_members ms bt_empty)"
    by (intro visit_map_events) (auto simp: list_all_iff bt_wf_distinct)
  with "6.prems" show ?case
    by (simp add: bt_of_members_sorted bt_empty_def)
qed simp_all

lemma bt_wf_ascending: "bt_wf m \<longleftrightarrow> sorted (map fst m) \<and> distinct (map fst m)"
  by (induction m rule: bt_wf.induct) (auto simp: less_le)

lemma bt_insert_fresh: "\<not> bt_contains m k \<Longrightarrow> set (bt_insert k v m) = insert (k, v) (set m)"
  by (induction k v m rule: bt_insert.induct) (auto simp: bt_contains_def bt_get_def split: if_splits)

lemma bt_of_members_set:
  "distinct (map fst ms) \<Longrightarrow> \<forall>k \<in> fst ` set ms. \<not> bt_contains acc k \<Longrightarrow> bt_wf acc \<Longrightarrow>
   set (bt_of_members ms acc) = set ms \<union> set acc \<and> bt_wf (bt_of_members ms acc)"
  by (induction ms acc rule: bt_of_members.induct) (auto simp: bt_insert_fresh bt_wf_insert image_iff)

text \<open>Inserting members with different keys one by one sorts them.\<close>

lemma bt_of_members_sort:
  assumes "distinct (map fst ms)"
  shows "bt_of_members ms bt_empty = sort_key fst ms"
proof (rule map_sorted_distinct_set_unique [where f = fst])
  have b: "set (bt_of_members ms bt_empty) = set ms" "bt_wf (bt_of_members ms bt_empty)"
    using bt_of_members_set [OF assms, of bt_empty] by (simp_all add: bt_empty_def bt_contains_def bt_get_def)
  then show "inj_on fst (set (bt_of_members ms bt_empty) \<union> set (sort_key fst ms))"
    using assms by (simp add: distinct_map)
  show "sorted (map fst (bt_of_members ms bt_empty))" "distinct (map fst (bt_of_members ms bt_empty))"
    using b(2) by (simp_all add: bt_wf_ascending)
  show "sorted (map fst (sort_key fst ms))" "distinct (map fst (sort_key fst ms))"
    using assms by (simp_all add: distinct_map)
  show "set (bt_of_members ms bt_empty) = set (sort_key fst ms)" using b(1) by simp
qed

lemma visit_event_value: "strict_event e \<Longrightarrow> visit_value e = Some (event_value e)"
proof (induction e rule: event_value.induct)
  case (7 es)
  then have "visit_seq es = Some (map event_value es)" by (induction es) auto
  then show ?case by simp
next
  case (8 ms)
  let ?vs = "map (\<lambda>m. (fst m, event_value (snd m)))"
  have "visit_map ns acc = Some (bt_of_members (?vs ns) acc)"
    if "set ns \<subseteq> set ms" "distinct (map fst ns)" "\<forall>k \<in> fst ` set ns. \<not> bt_contains acc k" for ns acc
    using that
  proof (induction ns arbitrary: acc)
    case (Cons n ns)
    have "visit_value (snd n) = Some (event_value (snd n))"
      using Cons.prems(1) 8 by (auto simp: list_all_iff)
    moreover have "\<forall>k \<in> fst ` set ns. \<not> bt_contains (bt_insert (fst n) (event_value (snd n)) acc) k"
      using Cons.prems(2,3) unfolding bt_contains_insert by (metis distinct.simps(2) image_eqI image_insert insertCI list.set(2) list.simps(9) set_map)
    with Cons have "visit_map ns (bt_insert (fst n) (event_value (snd n)) acc) =
        Some (bt_of_members (?vs ns) (bt_insert (fst n) (event_value (snd n)) acc))" by simp
    ultimately show ?case using Cons.prems(3) by (cases n) simp
  qed simp
  from this [of ms bt_empty] "8.prems" show ?case
    by (simp add: bt_of_members_sort comp_def del: bt_of_members.simps)
qed (auto simp: number_of_i64_def)

section \<open>Properties\<close>

text \<open>(C19) What the strict reader returns for every input: an input that is not UTF-8 is refused as such;
  any other is accepted exactly when the library reads it as JSON and no object in it, at any depth,
  repeats a key and no float is infinite or NaN, and then the result is the value of the text, each
  member with its own value and the members of an object in ascending order of their keys.\<close>

theorem strict_parse_accepts:
  "strict_parse json_syntax input =
     (if \<not> utf8_valid input then Inl InvalidUtf8
      else case json_syntax input of
        None \<Rightarrow> Inl (InvalidJson LibraryText)
      | Some ev \<Rightarrow> if strict_event ev then Inr (event_value ev) else Inl (InvalidJson LibraryText))"
proof (cases "json_syntax input")
  case (Some ev)
  then show ?thesis
    using visit_None_iff(1) [of ev] visit_event_value [of ev] by (auto simp: strict_parse_def)
qed (simp add: strict_parse_def)

end
