(* ===== verification/Json_Text.thy ===== *)
theory Json_Text
  imports Json_Value
begin

text \<open>
  What the protocol relies on of the text layer of the \<open>serde_json\<close> crate, which is not part of the
  repository: the trees whose text reads back as the tree itself, and the contract between its
  writer and its parser on them. A compact writer and a recursive-descent parser for JSON without
  fractions, written from the JSON grammar, satisfy the contract, so it can hold; the closed
  instances of the properties that assume it use them.
\<close>

section \<open>Trees whose text reads back\<close>

text \<open>Outside these trees the crate does not promise it: a float need not read back without its
  \<open>float_roundtrip\<close> feature and NaN is written as null; an integer that is not negative reads back as
  unsigned; strings are UTF-8; the parser refuses arrays and objects nested deeper than 127. The
  number is the nesting left.\<close>

fun portable :: "nat \<Rightarrow> json_event \<Rightarrow> bool" where
  "portable d (EvI64 i) = (sint i < 0)"
| "portable d (EvF64 b) = False"
| "portable d (EvStr s) = utf8_valid s"
| "portable d (EvSeq es) = (0 < d \<and> list_all (portable (d - 1)) es)"
| "portable d (EvMap ms) = (0 < d \<and> list_all (\<lambda>m. utf8_valid (fst m) \<and> portable (d - 1) (snd m)) ms)"
| "portable d _ = True"

definition MAX_NESTING :: nat where
  "MAX_NESTING = 127"

text \<open>The text written for such a tree is UTF-8, not empty, and read as the same tree.\<close>

definition json_text_contract ::
    "(string \<Rightarrow> json_event option) \<Rightarrow> (json_event \<Rightarrow> bytes option) \<Rightarrow> bool" where
  "json_text_contract json_syntax to_vec \<longleftrightarrow>
     (\<forall>ev bs. portable MAX_NESTING ev \<longrightarrow> to_vec ev = Some bs \<longrightarrow>
        bs \<noteq> [] \<and> utf8_valid bs \<and> json_syntax bs = Some ev)"

section \<open>A compact writer\<close>

abbreviation quote_char :: byte where
  "quote_char \<equiv> CHR 0x22"

abbreviation escape_char :: byte where
  "escape_char \<equiv> CHR 0x5C"

definition short_escapes :: "(byte \<times> byte) list" where
  "short_escapes = [(CHR 0x08, CHR ''b''), (CHR 0x0C, CHR ''f''), (CHR 0x0A, CHR ''n''),
     (CHR 0x0D, CHR ''r''), (CHR 0x09, CHR ''t'')]"

definition hex_char :: "nat \<Rightarrow> byte" where
  "hex_char n = ''0123456789abcdef'' ! n"

definition escape_byte :: "byte \<Rightarrow> string" where
  "escape_byte c =
     (if c = quote_char \<or> c = escape_char then [escape_char, c]
      else if of_char c < (32::nat) then
        (case map_of short_escapes c of
           Some d \<Rightarrow> [escape_char, d]
         | None \<Rightarrow> escape_char # ''u00'' @ [hex_char (of_char c div 16), hex_char (of_char c mod 16)])
      else [c])"

definition write_string :: "string \<Rightarrow> string" where
  "write_string s = quote_char # concat (map escape_byte s) @ [quote_char]"

fun write_json :: "json_event \<Rightarrow> string" where
  "write_json EvUnit = ''null''"
| "write_json (EvBool b) = (if b then ''true'' else ''false'')"
| "write_json (EvI64 i) = (if sint i < 0 then ''-'' @ show_nat (nat (- sint i)) else show_nat (nat (sint i)))"
| "write_json (EvU64 u) = show_nat (unat u)"
| "write_json (EvF64 b) = ''null''"
| "write_json (EvStr s) = write_string s"
| "write_json (EvSeq es) = ''['' @ join_on (CHR '','') (map write_json es) @ '']''"
| "write_json (EvMap ms) =
     ''{'' @ join_on (CHR '','') (map (\<lambda>m. write_string (fst m) @ '':'' @ write_json (snd m)) ms) @ ''}''"

section \<open>A recursive-descent parser\<close>

definition skip_ws :: "string \<Rightarrow> string" where
  "skip_ws s = dropWhile (\<lambda>c. c \<in> {CHR '' '', CHR 0x09, CHR 0x0A, CHR 0x0D}) s"

definition hex_value :: "byte \<Rightarrow> nat option" where
  "hex_value c =
     (if is_ascii_digit c then Some (of_char c - 48)
      else if in_range 97 102 c then Some (of_char c - 87)
      else if in_range 65 70 c then Some (of_char c - 55)
      else None)"

text \<open>The rest of a string after its opening quote. An escaped character beyond ASCII is not supported.\<close>

fun parse_chars :: "string \<Rightarrow> (string \<times> string) option" where
  "parse_chars [] = None"
| "parse_chars (c # r) =
     (if c = quote_char then Some ([], r)
      else if c = escape_char then
        (case r of
           [] \<Rightarrow> None
         | d # r \<Rightarrow>
             if d = quote_char \<or> d = escape_char \<or> d = CHR ''/'' then map_option (\<lambda>(t, q). (d # t, q)) (parse_chars r)
             else if d = CHR ''u'' then
               (case r of
                  h1 # h2 # h3 # h4 # r \<Rightarrow>
                    (case (hex_value h1, hex_value h2, hex_value h3, hex_value h4) of
                       (Some 0, Some 0, Some x, Some y) \<Rightarrow>
                         if x < 8 then map_option (\<lambda>(t, q). (char_of (16 * x + y) # t, q)) (parse_chars r) else None
                     | _ \<Rightarrow> None)
                | _ \<Rightarrow> None)
             else
               (case find (\<lambda>(x, e). e = d) short_escapes of
                  Some (x, e) \<Rightarrow> map_option (\<lambda>(t, q). (x # t, q)) (parse_chars r)
                | None \<Rightarrow> None))
      else if of_char c < (32::nat) then None
      else map_option (\<lambda>(t, q). (c # t, q)) (parse_chars r))"

text \<open>Integers: no leading zero, and within 64 bits.\<close>

definition parse_natural :: "string \<Rightarrow> (nat \<times> string) option" where
  "parse_natural s =
     (let ds = takeWhile is_ascii_digit s
      in if canonical_decimal ds then Some (dec_value ds, dropWhile is_ascii_digit s) else None)"

definition parse_number :: "string \<Rightarrow> (json_event \<times> string) option" where
  "parse_number s =
     (if s \<noteq> [] \<and> hd s = CHR ''-''
      then (case parse_natural (tl s) of
              Some (n, r) \<Rightarrow> if 0 < n \<and> n \<le> 2 ^ 63 then Some (EvI64 (of_int (- int n)), r) else None
            | None \<Rightarrow> None)
      else (case parse_natural s of
              Some (n, r) \<Rightarrow> if n < 2 ^ 64 then Some (EvU64 (of_nat n), r) else None
            | None \<Rightarrow> None))"

definition parse_literal :: "string \<Rightarrow> (json_event \<times> string) option" where
  "parse_literal s =
     (if take 4 s = ''null'' then Some (EvUnit, drop 4 s)
      else if take 4 s = ''true'' then Some (EvBool True, drop 4 s)
      else if take 5 s = ''false'' then Some (EvBool False, drop 5 s)
      else None)"

text \<open>The first argument bounds the nesting of the calls; the length of the text is enough.\<close>

fun parse_value :: "nat \<Rightarrow> string \<Rightarrow> (json_event \<times> string) option"
  and parse_elems :: "nat \<Rightarrow> string \<Rightarrow> (json_event list \<times> string) option"
  and parse_members :: "nat \<Rightarrow> string \<Rightarrow> ((string \<times> json_event) list \<times> string) option" where
  "parse_value 0 s = None"
| "parse_value (Suc n) s =
     (case skip_ws s of
        [] \<Rightarrow> None
      | c # r \<Rightarrow>
          if c = quote_char then map_option (\<lambda>(t, q). (EvStr t, q)) (parse_chars r)
          else if c = CHR ''['' then
            (if take 1 (skip_ws r) = '']'' then Some (EvSeq [], tl (skip_ws r))
             else map_option (\<lambda>(es, q). (EvSeq es, q)) (parse_elems n r))
          else if c = CHR ''{'' then
            (if take 1 (skip_ws r) = ''}'' then Some (EvMap [], tl (skip_ws r))
             else map_option (\<lambda>(ms, q). (EvMap ms, q)) (parse_members n r))
          else if c = CHR ''-'' \<or> is_ascii_digit c then parse_number (c # r)
          else parse_literal (c # r))"
| "parse_elems 0 s = None"
| "parse_elems (Suc n) s =
     (case parse_value n s of
        None \<Rightarrow> None
      | Some (e, r) \<Rightarrow>
          (case skip_ws r of
             [] \<Rightarrow> None
           | c # r \<Rightarrow>
               if c = CHR '']'' then Some ([e], r)
               else if c = CHR '','' then map_option (\<lambda>(es, q). (e # es, q)) (parse_elems n r)
               else None))"
| "parse_members 0 s = None"
| "parse_members (Suc n) s =
     (case skip_ws s of
        [] \<Rightarrow> None
      | c # r \<Rightarrow>
          if c \<noteq> quote_char then None
          else (case parse_chars r of
                  None \<Rightarrow> None
                | Some (k, r) \<Rightarrow>
                    if take 1 (skip_ws r) \<noteq> '':'' then None
                    else (case parse_value n (tl (skip_ws r)) of
                            None \<Rightarrow> None
                          | Some (e, r) \<Rightarrow>
                              (case skip_ws r of
                                 [] \<Rightarrow> None
                               | c # r \<Rightarrow>
                                   if c = CHR ''}'' then Some ([(k, e)], r)
                                   else if c = CHR '','' then map_option (\<lambda>(ms, q). ((k, e) # ms, q)) (parse_members n r)
                                   else None))))"

definition read_json :: "string \<Rightarrow> json_event option" where
  "read_json s =
     (case parse_value (length s) s of
        Some (e, r) \<Rightarrow> if skip_ws r = [] then Some e else None
      | None \<Rightarrow> None)"

definition compact_text :: "json_event \<Rightarrow> bytes option" where
  "compact_text ev = (if portable MAX_NESTING ev then Some (write_json ev) else None)"

section \<open>Strings and numbers\<close>

lemma hex_value_char: "n < 16 \<Longrightarrow> hex_value (hex_char n) = Some n"
proof -
  have "list_all (\<lambda>n. hex_value (hex_char n) = Some n) [0..<16]"
    by (simp add: upt_rec hex_value_def hex_char_def is_ascii_digit_def less_eq_char_def in_range_def)
  moreover assume "n < 16"
  ultimately show ?thesis by (simp add: list_all_iff)
qed

lemma parse_short: "map_of short_escapes c = Some d \<Longrightarrow>
  parse_chars (escape_char # d # s) = map_option (\<lambda>(t, q). (c # t, q)) (parse_chars s)"
  by (auto simp: short_escapes_def split: if_splits)

lemma parse_control:
  assumes "of_char c < (32::nat)"
  shows "parse_chars (escape_char # ''u00'' @ hex_char (of_char c div 16) # hex_char (of_char c mod 16) # s) =
    map_option (\<lambda>(t, q). (c # t, q)) (parse_chars s)"
proof -
  have "hex_value (CHR ''0'') = Some 0" by (simp add: hex_value_def is_ascii_digit_def)
  moreover have "char_of (16 * (of_char c div 16) + of_char c mod 16 :: nat) = c" by simp
  moreover have "of_char c div 16 < (8::nat)" using assms by linarith
  ultimately show ?thesis using assms hex_value_char [of "of_char c div 16"] hex_value_char [of "of_char c mod 16"]
    by simp
qed

lemma parse_escape:
  "parse_chars (escape_byte c @ s) = map_option (\<lambda>(t, q). (c # t, q)) (parse_chars s)"
proof (cases "of_char c < (32::nat)")
  case True
  then have "c \<noteq> quote_char" "c \<noteq> escape_char" by auto
  then have "escape_byte c = (case map_of short_escapes c of Some d \<Rightarrow> [escape_char, d]
      | None \<Rightarrow> escape_char # ''u00'' @ [hex_char (of_char c div 16), hex_char (of_char c mod 16)])"
    using True by (simp add: escape_byte_def)
  then show ?thesis using parse_short [of c _ s] parse_control [OF True, of s]
    by (cases "map_of short_escapes c") (simp_all del: parse_chars.simps)
qed (auto simp: escape_byte_def)

lemma parse_string_written: "parse_chars (concat (map escape_byte s) @ quote_char # r) = Some (s, r)"
  by (induction s) (simp_all add: parse_escape)

text \<open>Where a number ends.\<close>

definition ends_number :: "string \<Rightarrow> bool" where
  "ends_number r \<longleftrightarrow> r = [] \<or> \<not> is_ascii_digit (hd r)"

lemma parse_show_nat: "ends_number r \<Longrightarrow> parse_natural (show_nat n @ r) = Some (n, r)"
proof -
  assume r: "ends_number r"
  have d: "\<forall>c\<in>set (show_nat n). is_ascii_digit c" using show_nat_digits by blast
  have "takeWhile is_ascii_digit r = []" "dropWhile is_ascii_digit r = r"
    using r by (cases r; simp add: ends_number_def)+
  with d show ?thesis by (simp add: parse_natural_def Let_def takeWhile_append dropWhile_append)
qed

lemma parse_natural_number: "ends_number r \<Longrightarrow> parse_number (show_nat (unat u) @ r) = Some (EvU64 u, r)"
proof -
  assume r: "ends_number r"
  have "is_ascii_digit (hd (show_nat (unat u)))" by (rule show_nat_digits [of _ "unat u"]) simp
  then have "hd (show_nat (unat u) @ r) \<noteq> CHR ''-''" by (auto simp: is_ascii_digit_def less_eq_char_def)
  moreover have "unat u < 2 ^ 64" using unsigned_less [of u] by simp
  ultimately show ?thesis by (simp add: parse_number_def parse_show_nat [OF r])
qed

lemma parse_negative_number:
  assumes "ends_number r" "sint i < 0"
  shows "parse_number (CHR ''-'' # show_nat (nat (- sint i)) @ r) = Some (EvI64 i, r)"
proof -
  have "- sint i \<le> 2 ^ 63" using sint_ge [of i] by simp
  then have "nat (- sint i) \<le> 2 ^ 63" by (simp add: nat_le_iff)
  with assms show ?thesis by (simp add: parse_number_def parse_show_nat [OF assms(1)])
qed

lemma skip_ws_visible: "c \<notin> {CHR '' '', CHR 0x09, CHR 0x0A, CHR 0x0D} \<Longrightarrow> skip_ws (c # s) = c # s"
  by (simp add: skip_ws_def)

lemma digit_visible: "is_ascii_digit c \<Longrightarrow> skip_ws (c # s) = c # s"
  by (rule skip_ws_visible) (auto simp: is_ascii_digit_def less_eq_char_def)

section \<open>The parser reads what is written\<close>

text \<open>The nesting of calls a text takes, at most its length.\<close>

fun nesting_calls :: "json_event \<Rightarrow> nat" where
  "nesting_calls (EvSeq es) = 1 + sum_list (map (\<lambda>e. 1 + nesting_calls e) es)"
| "nesting_calls (EvMap ms) = 1 + sum_list (map (\<lambda>m. 1 + nesting_calls (snd m)) ms)"
| "nesting_calls _ = 1"

lemma length_join_on: "ts \<noteq> [] \<Longrightarrow> length (join_on c ts) + 1 = sum_list (map (\<lambda>t. 1 + length t) ts)"
  by (induction c ts rule: join_on.induct) auto

lemma calls_length: "nesting_calls e \<le> length (write_json e)"
proof (induction e rule: nesting_calls.induct)
  case (1 es)
  then have "sum_list (map (\<lambda>e. 1 + nesting_calls e) es) \<le> sum_list (map (\<lambda>e. 1 + length (write_json e)) es)"
    by (intro sum_list_mono) simp
  with length_join_on [of "map write_json es" "CHR '',''"] show ?case by (cases es) (auto simp: comp_def)
next
  case (2 ms)
  let ?w = "\<lambda>m. write_string (fst m) @ '':'' @ write_json (snd m)"
  from 2 have "sum_list (map (\<lambda>m. 1 + nesting_calls (snd m)) ms) \<le> sum_list (map (\<lambda>m. 1 + length (?w m)) ms)"
    by (intro sum_list_mono) (fastforce intro: trans_le_add2)
  with length_join_on [of "map ?w ms" "CHR '',''"] show ?case by (cases ms) (auto simp: comp_def)
qed (auto simp: write_string_def Suc_le_eq)

text \<open>Punctuation after a value is not skipped and ends a number.\<close>

lemma punctuation [simp]:
  "skip_ws (CHR '','' # s) = CHR '','' # s" "skip_ws (CHR '']'' # s) = CHR '']'' # s"
  "skip_ws (CHR ''}'' # s) = CHR ''}'' # s" "skip_ws (CHR '':'' # s) = CHR '':'' # s"
  "skip_ws (quote_char # s) = quote_char # s" "skip_ws [] = []"
  "ends_number (CHR '','' # s)" "ends_number (CHR '']'' # s)" "ends_number (CHR ''}'' # s)" "ends_number []"
  by (simp_all add: skip_ws_def ends_number_def is_ascii_digit_def less_eq_char_def)

lemma show_nat_Cons: "\<exists>c t. show_nat n = c # t \<and> is_ascii_digit c"
  using show_nat_digits [of "hd (show_nat n)" n] by (cases "show_nat n") auto

lemma write_starts: "\<exists>c t. write_json e = c # t \<and> c \<notin> {CHR '']'', CHR '' '', CHR 0x09, CHR 0x0A, CHR 0x0D}"
proof -
  have digits: "\<exists>c t. show_nat n = c # t \<and> c \<notin> {CHR '']'', CHR '' '', CHR 0x09, CHR 0x0A, CHR 0x0D}" for n
    using show_nat_Cons [of n] by (auto simp: is_ascii_digit_def less_eq_char_def)
  show ?thesis
  proof (cases e)
    case (EvI64 i)
    then show ?thesis using digits [of "nat (sint i)"] by simp
  next
    case (EvU64 u)
    then show ?thesis using digits [of "unat u"] by simp
  qed (simp_all add: write_string_def)
qed

text \<open>What a value's parser does on the written values carries over to lists of them.\<close>

definition reads_back :: "json_event \<Rightarrow> bool" where
  "reads_back e \<longleftrightarrow> (\<forall>n r. nesting_calls e \<le> n \<longrightarrow> ends_number r \<longrightarrow> parse_value n (write_json e @ r) = Some (e, r))"

lemma readsD: "reads_back e \<Longrightarrow> nesting_calls e \<le> n \<Longrightarrow> ends_number r \<Longrightarrow> parse_value n (write_json e @ r) = Some (e, r)"
  by (simp add: reads_back_def)

lemma parse_elems_written:
  "list_all reads_back (e # es) \<Longrightarrow> sum_list (map (\<lambda>e. 1 + nesting_calls e) (e # es)) \<le> n \<Longrightarrow>
   parse_elems n (join_on (CHR '','') (map write_json (e # es)) @ CHR '']'' # r) = Some (e # es, r)"
proof (induction es arbitrary: e n)
  case Nil
  then obtain k where "n = Suc k" "nesting_calls e \<le> k" by (cases n) auto
  with Nil show ?case using readsD [of e k "CHR '']'' # r"] by simp
next
  case (Cons f es)
  then obtain k where k: "n = Suc k" by (cases n) auto
  let ?rest = "join_on (CHR '','') (map write_json (f # es)) @ CHR '']'' # r"
  have "parse_value k (write_json e @ CHR '','' # ?rest) = Some (e, CHR '','' # ?rest)"
    using Cons.prems k by (intro readsD) auto
  moreover have "parse_elems k ?rest = Some (f # es, r)" using Cons.prems k by (intro Cons.IH) auto
  ultimately show ?case using k by simp
qed

lemma parse_member_written:
  assumes "reads_back e" "nesting_calls e \<le> n" "ends_number r"
  shows "parse_members (Suc n) (write_string k @ '':'' @ write_json e @ r) =
    (case skip_ws r of
       [] \<Rightarrow> None
     | c # r \<Rightarrow>
         if c = CHR ''}'' then Some ([(k, e)], r)
         else if c = CHR '','' then map_option (\<lambda>(ms, q). ((k, e) # ms, q)) (parse_members n r)
         else None)"
  using readsD [OF assms] by (simp add: write_string_def parse_string_written)

lemma parse_members_written:
  "list_all (\<lambda>m. reads_back (snd m)) (m # ms) \<Longrightarrow> sum_list (map (\<lambda>m. 1 + nesting_calls (snd m)) (m # ms)) \<le> n \<Longrightarrow>
   parse_members n (join_on (CHR '','') (map (\<lambda>m. write_string (fst m) @ '':'' @ write_json (snd m)) (m # ms)) @ CHR ''}'' # r)
     = Some (m # ms, r)"
proof (induction ms arbitrary: m n)
  case Nil
  then obtain k where "n = Suc k" "nesting_calls (snd m) \<le> k" by (cases n) auto
  with Nil show ?case
    using parse_member_written [of "snd m" k "CHR ''}'' # r" "fst m"] by (simp del: parse_members.simps)
next
  case (Cons o' ms)
  then obtain k where k: "n = Suc k" "nesting_calls (snd m) \<le> k" "sum_list (map (\<lambda>m. 1 + nesting_calls (snd m)) (o' # ms)) \<le> k"
    by (cases n) auto
  from Cons.IH [OF _ this(3)] Cons.prems(1) k(1,2) show ?case
    using parse_member_written [of "snd m" k "CHR '','' # join_on (CHR '','')
      (map (\<lambda>m. write_string (fst m) @ '':'' @ write_json (snd m)) (o' # ms)) @ CHR ''}'' # r" "fst m"]
    by (simp del: parse_members.simps)
qed

lemma portable_reads: "portable d e \<Longrightarrow> reads_back e"
proof (induction e arbitrary: d rule: write_json.induct)
  case (3 i)
  then have "parse_value (Suc n) (write_json (EvI64 i) @ r) = Some (EvI64 i, r)" if "ends_number r" for n r
    using parse_negative_number [OF that, of i] by (simp add: skip_ws_def)
  then show ?case by (auto simp: reads_back_def le_Suc_eq Suc_le_eq gr0_conv_Suc simp del: write_json.simps parse_value.simps)
next
  case (4 u)
  have "parse_value (Suc n) (write_json (EvU64 u) @ r) = Some (EvU64 u, r)" if "ends_number r" for n r
  proof -
    obtain c t where c: "show_nat (unat u) = c # t" "is_ascii_digit c" using show_nat_Cons by blast
    then have "c \<noteq> quote_char" "c \<noteq> CHR ''[''" "c \<noteq> CHR ''{''" by (auto simp: is_ascii_digit_def less_eq_char_def)
    with c parse_natural_number [OF that, of u] show ?thesis by (simp add: digit_visible)
  qed
  then show ?case by (auto simp: reads_back_def Suc_le_eq gr0_conv_Suc simp del: write_json.simps parse_value.simps)
next
  case (7 es)
  then have "list_all reads_back es" by (auto simp: list_all_iff)
  then show ?case
  proof (cases es)
    case (Cons e fs)
    note es = this
    show ?thesis unfolding reads_back_def
    proof (intro allI impI)
      fix n r
      assume n: "nesting_calls (EvSeq es) \<le> n" and "ends_number r"
      then obtain k where k: "n = Suc k" "sum_list (map (\<lambda>e. 1 + nesting_calls e) (e # fs)) \<le> k" using es by (cases n) auto
      let ?t = "join_on (CHR '','') (map write_json (e # fs)) @ CHR '']'' # r"
      have "parse_elems k ?t = Some (e # fs, r)" using \<open>list_all reads_back es\<close> es k by (intro parse_elems_written) auto
      moreover have "take 1 (skip_ws ?t) \<noteq> '']''"
        using write_starts [of e] by (cases fs) (auto simp: skip_ws_visible)
      ultimately show "parse_value n (write_json (EvSeq es) @ r) = Some (EvSeq es, r)"
        using es k(1) by (simp add: skip_ws_visible)
    qed
  qed (auto simp: reads_back_def Suc_le_eq gr0_conv_Suc skip_ws_visible)
next
  case (8 ms)
  then have "list_all (\<lambda>m. reads_back (snd m)) ms" by (auto simp: list_all_iff)
  then show ?case
  proof (cases ms)
    case (Cons m ns)
    note ms = this
    show ?thesis unfolding reads_back_def
    proof (intro allI impI)
      fix n r
      assume n: "nesting_calls (EvMap ms) \<le> n" and "ends_number r"
      then obtain k where k: "n = Suc k" "sum_list (map (\<lambda>m. 1 + nesting_calls (snd m)) (m # ns)) \<le> k" using ms by (cases n) auto
      let ?t = "join_on (CHR '','') (map (\<lambda>m. write_string (fst m) @ '':'' @ write_json (snd m)) (m # ns)) @ CHR ''}'' # r"
      have "parse_members k ?t = Some (m # ns, r)"
        using \<open>list_all (\<lambda>m. reads_back (snd m)) ms\<close> ms k by (intro parse_members_written) auto
      moreover have "take 1 (skip_ws ?t) \<noteq> ''}''" by (cases ns) (simp_all add: write_string_def)
      ultimately show "parse_value n (write_json (EvMap ms) @ r) = Some (EvMap ms, r)"
        using ms k(1) by (simp add: skip_ws_visible)
    qed
  qed (auto simp: reads_back_def Suc_le_eq gr0_conv_Suc skip_ws_visible)
qed (auto simp: reads_back_def Suc_le_eq gr0_conv_Suc skip_ws_visible write_string_def parse_string_written
    parse_literal_def is_ascii_digit_def less_eq_char_def)

section \<open>The contract holds of them\<close>

lemma utf8_ascii_digits: "utf8_valid (show_nat n)"
proof (rule utf8_valid_ascii)
  have "is_ascii_digit c \<Longrightarrow> in_range 0 127 c" for c
    by (auto simp: is_ascii_digit_def less_eq_char_def in_range_def)
  then show "list_all (in_range 0 127) (show_nat n)" using show_nat_digits by (auto simp: list_all_iff)
qed

lemma utf8_escape: "utf8_valid s \<Longrightarrow> utf8_valid (concat (map escape_byte s))"
proof -
  have ascii: "in_range 0 127 c \<Longrightarrow> list_all (in_range 0 127) (escape_byte c)" for c
  proof -
    have "n < 16 \<Longrightarrow> in_range 0 127 (hex_char n)" for n
    proof -
      have "list_all (\<lambda>n. in_range 0 127 (hex_char n)) [0..<16]" by (simp add: upt_rec hex_char_def in_range_def)
      then show "n < 16 \<Longrightarrow> in_range 0 127 (hex_char n)" by (simp add: list_all_iff)
    qed
    from this [of "of_char c div 16"] this [of "of_char c mod 16"] show "in_range 0 127 c \<Longrightarrow> list_all (in_range 0 127) (escape_byte c)"
      by (auto simp: escape_byte_def short_escapes_def in_range_def)
  qed
  have high: "128 \<le> (of_char c :: nat) \<Longrightarrow> escape_byte c = [c]" for c by (auto simp: escape_byte_def)
  show "utf8_valid s \<Longrightarrow> utf8_valid (concat (map escape_byte s))"
  proof (induction s rule: utf8_valid.induct)
    case (2 b bs)
    show ?case
    proof (cases "in_range 0 127 b")
      case True
      with 2 utf8_valid_append [OF utf8_valid_ascii [OF ascii [OF True]]] show ?thesis by simp
    next
      case False
      with 2 show ?thesis
        by (auto simp: in_range_def utf8_cont_def high split: if_splits list.splits)
    qed
  qed simp
qed

lemma utf8_string: "utf8_valid s \<Longrightarrow> utf8_valid (write_string s)"
  using utf8_valid_append [OF utf8_escape, of s "[quote_char]"] by (simp add: write_string_def in_range_def)

lemma utf8_join: "list_all utf8_valid ts \<Longrightarrow> utf8_valid (join_on (CHR '','') ts)"
  by (induction "CHR '',''" ts rule: join_on.induct) (auto simp: utf8_valid_append in_range_def)

lemma utf8_written: "portable d e \<Longrightarrow> utf8_valid (write_json e)"
proof (induction e arbitrary: d rule: write_json.induct)
  case (7 es)
  then have "list_all utf8_valid (map write_json es)" by (auto simp: list_all_iff)
  from utf8_valid_append [OF utf8_join [OF this], of "'']''"] show ?case by (simp add: in_range_def)
next
  case (8 ms)
  then have "list_all utf8_valid (map (\<lambda>m. write_string (fst m) @ '':'' @ write_json (snd m)) ms)"
    by (auto simp: list_all_iff utf8_valid_append utf8_string in_range_def)
  from utf8_valid_append [OF utf8_join [OF this], of "''}''"] show ?case by (simp add: in_range_def)
qed (auto simp: utf8_string utf8_ascii_digits in_range_def)

lemma compact_text_contract: "json_text_contract read_json compact_text"
proof (unfold json_text_contract_def, intro allI impI)
  fix ev bs
  assume p: "portable MAX_NESTING ev" and "compact_text ev = Some bs"
  then have bs: "bs = write_json ev" by (simp add: compact_text_def)
  have "parse_value (length bs) (bs @ []) = Some (ev, [])"
    unfolding bs by (rule readsD [OF portable_reads [OF p] calls_length]) simp
  then have "read_json bs = Some ev" by (simp add: read_json_def)
  moreover have "bs \<noteq> []" using write_starts [of ev] bs by auto
  ultimately show "bs \<noteq> [] \<and> utf8_valid bs \<and> read_json bs = Some ev" using utf8_written [OF p] bs by simp
qed

end
