(* ===== verification/Wire_Message.thy ===== *)
theory Wire_Message
  imports Json_Text
begin

text \<open>
  Wire messages (\<open>josh-protocol/src/message.rs\<close>): the message type, the validation of
  its scalars, its serialisation, and the strict decoding of the four envelopes.

  The envelopes are structs with serde's derived, unknown-field-denying deserialisers; what
  their declarations promise is written out: every listed field present with its type, no
  other field, an \<open>Option\<close> field absent or null for \<open>None\<close>. Serialisation gives the
  tree of fields in declaration order; turning a tree into text and back is
  \<open>serde_json\<close>, the parameters \<open>to_vec\<close> and \<open>json_syntax\<close>.
\<close>

section \<open>Data\<close>

definition WIRE_PROTOCOL :: string where
  "WIRE_PROTOCOL = ''josh/1''"

datatype wire_error_code =
    RequestInvalid | RequestMethodNotFound | RequestInvalidState | RequestLimit
  | RequestCancelled | ProjectionInvalid | ProjectionMismatch | CatalogInvalid
  | CatalogMismatch | ProgramInvalid | ProgramUnsatisfied | ExecutionDuplicate
  | ExecutionFailed | ToolDenied | ToolUnavailable | AgentDenied | AgentUnavailable
  | ModelDenied | ModelUnavailable | UserDenied | UserUnavailable | SubAgentDenied
  | SubAgentUnavailable | ReplayDiverged | PermissionUnavailable | ProtocolViolation

text \<open>The variants with their serde names, in declaration order.\<close>

definition error_code_names :: "(string \<times> wire_error_code) list" where
  "error_code_names =
    [(''request.invalid'', RequestInvalid),
     (''request.method_not_found'', RequestMethodNotFound),
     (''request.invalid_state'', RequestInvalidState),
     (''request.limit'', RequestLimit),
     (''request.cancelled'', RequestCancelled),
     (''projection.invalid'', ProjectionInvalid),
     (''projection.mismatch'', ProjectionMismatch),
     (''catalog.invalid'', CatalogInvalid),
     (''catalog.mismatch'', CatalogMismatch),
     (''program.invalid'', ProgramInvalid),
     (''program.unsatisfied'', ProgramUnsatisfied),
     (''execution.duplicate'', ExecutionDuplicate),
     (''execution.failed'', ExecutionFailed),
     (''tool.denied'', ToolDenied),
     (''tool.unavailable'', ToolUnavailable),
     (''agent.denied'', AgentDenied),
     (''agent.unavailable'', AgentUnavailable),
     (''model.denied'', ModelDenied),
     (''model.unavailable'', ModelUnavailable),
     (''user.denied'', UserDenied),
     (''user.unavailable'', UserUnavailable),
     (''sub_agent.denied'', SubAgentDenied),
     (''sub_agent.unavailable'', SubAgentUnavailable),
     (''replay.diverged'', ReplayDiverged),
     (''permission.unavailable'', PermissionUnavailable),
     (''protocol.violation'', ProtocolViolation)]"

definition code_of_name :: "string \<Rightarrow> wire_error_code option" where
  "code_of_name s = map_of error_code_names s"

fun name_of_code :: "wire_error_code \<Rightarrow> string" where
  "name_of_code c = (case find (\<lambda>p. snd p = c) error_code_names of Some p \<Rightarrow> fst p | None \<Rightarrow> [])"

record wire_error =
  we_code :: wire_error_code
  we_message :: string
  we_data :: "json option"

datatype wire_message =
    Request string string json
  | Response string "json option" "wire_error option"
  | Notification string json
  | Cancel string "string option"

section \<open>Validation\<close>

abbreviation invalid :: "string \<Rightarrow> protocol_error" where
  "invalid s \<equiv> InvalidMessage (Text s)"

definition validate_id :: "string \<Rightarrow> protocol_error + unit" where
  "validate_id i =
     ensure (1 \<le> length i \<and> length i \<le> 64 \<and> list_all is_ascii_graphic i)
       (invalid ''ID must be 1 through 64 non-whitespace printable ASCII bytes'')"

definition method_byte :: "byte \<Rightarrow> bool" where
  "method_byte b \<longleftrightarrow> is_ascii_lowercase b \<or> is_ascii_digit b \<or> b = CHR ''_'' \<or> b = CHR ''/''"

definition validate_method :: "string \<Rightarrow> protocol_error + unit" where
  "validate_method m =
     (if \<not> (1 \<le> length m \<and> length m \<le> 64)
       \<or> take 1 m = ''/''
       \<or> last m = CHR ''/''
       \<or> list_ex (\<lambda>p. p = []) (split_on (CHR ''/'') m)
       \<or> \<not> list_all method_byte m
      then Inl (invalid ''method is not canonical lower-case ASCII'')
      else Inr ())"

definition validate_reason :: "string \<Rightarrow> protocol_error + unit" where
  "validate_reason r = ensure (length r \<le> 1024) (invalid ''reason exceeds 1,024 UTF-8 bytes'')"

definition wire_error_validate :: "wire_error \<Rightarrow> protocol_error + unit" where
  "wire_error_validate e =
     ensure (length (we_message e) \<le> 1024) (invalid ''wire error message exceeds 1,024 UTF-8 bytes'')"

fun wire_message_validate :: "wire_message \<Rightarrow> protocol_error + unit" where
  "wire_message_validate (Request i m p) = result_bind (validate_id i) (\<lambda>_. validate_method m)"
| "wire_message_validate (Response i r e) =
     result_bind (validate_id i) (\<lambda>_.
       if (r \<noteq> None) = (e \<noteq> None)
       then Inl (invalid ''response must contain exactly one of result or error'')
       else case e of Some err \<Rightarrow> wire_error_validate err | None \<Rightarrow> Inr ())"
| "wire_message_validate (Notification m p) = validate_method m"
| "wire_message_validate (Cancel i r) =
     result_bind (validate_id i) (\<lambda>_.
       case r of Some reason \<Rightarrow> validate_reason reason | None \<Rightarrow> Inr ())"

fun wire_message_id :: "wire_message \<Rightarrow> string option" where
  "wire_message_id (Request i m p) = Some i"
| "wire_message_id (Response i r e) = Some i"
| "wire_message_id (Cancel i r) = Some i"
| "wire_message_id (Notification m p) = None"

section \<open>Serialisation\<close>

definition serialize_error :: "wire_error \<Rightarrow> json_event" where
  "serialize_error e = EvMap
     ([(''code'', EvStr (name_of_code (we_code e))), (''message'', EvStr (we_message e))]
      @ (case we_data e of None \<Rightarrow> [] | Some d \<Rightarrow> [(''data'', events_of d)]))"

fun serialize_message :: "wire_message \<Rightarrow> json_event" where
  "serialize_message (Request i m p) = EvMap
     [(''protocol'', EvStr WIRE_PROTOCOL), (''kind'', EvStr ''request''), (''id'', EvStr i),
      (''method'', EvStr m), (''params'', events_of p)]"
| "serialize_message (Response i r e) = EvMap
     ([(''protocol'', EvStr WIRE_PROTOCOL), (''kind'', EvStr ''response''), (''id'', EvStr i)]
      @ (case r of Some v \<Rightarrow> [(''result'', events_of v)]
         | None \<Rightarrow> (case e of Some err \<Rightarrow> [(''error'', serialize_error err)] | None \<Rightarrow> [])))"
| "serialize_message (Notification m p) = EvMap
     [(''protocol'', EvStr WIRE_PROTOCOL), (''kind'', EvStr ''notification''),
      (''method'', EvStr m), (''params'', events_of p)]"
| "serialize_message (Cancel i r) = EvMap
     ([(''protocol'', EvStr WIRE_PROTOCOL), (''kind'', EvStr ''cancel''), (''id'', EvStr i)]
      @ (case r of Some t \<Rightarrow> [(''reason'', EvStr t)] | None \<Rightarrow> []))"

definition encode_message ::
    "(json_event \<Rightarrow> bytes option) \<Rightarrow> wire_message \<Rightarrow> protocol_error + bytes" where
  "encode_message to_vec m =
     result_bind (wire_message_validate m)
       (\<lambda>_. ok_or (to_vec (serialize_message m)) (InvalidJson LibraryText))"

section \<open>Decoding\<close>

abbreviation bad_shape :: "protocol_error" where
  "bad_shape \<equiv> InvalidMessage LibraryText"

type_synonym json_object = "(string, json) btree_map"

definition known_fields :: "string list \<Rightarrow> json_object \<Rightarrow> bool" where
  "known_fields allowed obj \<longleftrightarrow> list_all (\<lambda>m. fst m \<in> set allowed) obj"

definition field :: "json_object \<Rightarrow> string \<Rightarrow> protocol_error + json" where
  "field obj k = ok_or (bt_get obj k) bad_shape"

fun as_string :: "json \<Rightarrow> string option" where
  "as_string (JString s) = Some s"
| "as_string _ = None"

definition string_field :: "json_object \<Rightarrow> string \<Rightarrow> protocol_error + string" where
  "string_field obj k = result_bind (field obj k) (\<lambda>v. ok_or (as_string v) bad_shape)"

text \<open>A unit variant is its name, or an object of that one key with a null value.\<close>

fun code_of_json :: "json \<Rightarrow> wire_error_code option" where
  "code_of_json (JString s) = code_of_name s"
| "code_of_json (JObject [(k, JNull)]) = code_of_name k"
| "code_of_json _ = None"

definition opt_of_json :: "json \<Rightarrow> json option" where
  "opt_of_json v = (if v = JNull then None else Some v)"

definition make_error :: "json \<Rightarrow> json \<Rightarrow> json option \<Rightarrow> wire_error option" where
  "make_error c m d = (case (code_of_json c, as_string m) of
     (Some code, Some text) \<Rightarrow> Some \<lparr>we_code = code, we_message = text, we_data = d\<rparr>
   | _ \<Rightarrow> None)"

fun error_of_json :: "json \<Rightarrow> wire_error option" where
  "error_of_json (JObject obj) =
     (if known_fields [''code'', ''message'', ''data''] obj then
        (case (bt_get obj ''code'', bt_get obj ''message'') of
          (Some c, Some m) \<Rightarrow> make_error c m (Option.bind (bt_get obj ''data'') opt_of_json)
        | _ \<Rightarrow> None)
      else None)"
| "error_of_json (JArray [c, m, d]) = make_error c m (opt_of_json d)"
| "error_of_json _ = None"

definition check_protocol :: "string \<Rightarrow> protocol_error + unit" where
  "check_protocol p = ensure (p = WIRE_PROTOCOL) (invalid ''protocol must be josh/1'')"

definition decode_request :: "json_object \<Rightarrow> protocol_error + wire_message" where
  "decode_request obj =
     result_bind (ensure (known_fields [''protocol'', ''kind'', ''id'', ''method'', ''params''] obj) bad_shape) (\<lambda>_.
     result_bind (string_field obj ''protocol'') (\<lambda>protocol.
     result_bind (string_field obj ''id'') (\<lambda>i.
     result_bind (string_field obj ''method'') (\<lambda>m.
     result_bind (field obj ''params'') (\<lambda>params.
     result_bind (check_protocol protocol) (\<lambda>_.
     Inr (Request i m params)))))))"

definition decode_result :: "json_object \<Rightarrow> protocol_error + wire_message" where
  "decode_result obj =
     result_bind (ensure (known_fields [''protocol'', ''kind'', ''id'', ''result''] obj) bad_shape) (\<lambda>_.
     result_bind (string_field obj ''protocol'') (\<lambda>protocol.
     result_bind (string_field obj ''id'') (\<lambda>i.
     result_bind (field obj ''result'') (\<lambda>r.
     result_bind (check_protocol protocol) (\<lambda>_.
     Inr (Response i (Some r) None))))))"

definition decode_error :: "json_object \<Rightarrow> protocol_error + wire_message" where
  "decode_error obj =
     result_bind (ensure (known_fields [''protocol'', ''kind'', ''id'', ''error''] obj) bad_shape) (\<lambda>_.
     result_bind (string_field obj ''protocol'') (\<lambda>protocol.
     result_bind (string_field obj ''id'') (\<lambda>i.
     result_bind (field obj ''error'') (\<lambda>v.
     result_bind (ok_or (error_of_json v) bad_shape) (\<lambda>e.
     result_bind (check_protocol protocol) (\<lambda>_.
     Inr (Response i None (Some e))))))))"

definition decode_notification :: "json_object \<Rightarrow> protocol_error + wire_message" where
  "decode_notification obj =
     result_bind (ensure (known_fields [''protocol'', ''kind'', ''method'', ''params''] obj) bad_shape) (\<lambda>_.
     result_bind (string_field obj ''protocol'') (\<lambda>protocol.
     result_bind (string_field obj ''method'') (\<lambda>m.
     result_bind (field obj ''params'') (\<lambda>params.
     result_bind (check_protocol protocol) (\<lambda>_.
     Inr (Notification m params))))))"

definition decode_reason :: "json option \<Rightarrow> protocol_error + string option" where
  "decode_reason v = (case v of
     None \<Rightarrow> Inr None
   | Some JNull \<Rightarrow> Inr None
   | Some w \<Rightarrow> result_bind (ok_or (as_string w) bad_shape) (\<lambda>t. Inr (Some t)))"

definition decode_cancel :: "json_object \<Rightarrow> protocol_error + wire_message" where
  "decode_cancel obj =
     result_bind (ensure (known_fields [''protocol'', ''kind'', ''id'', ''reason''] obj) bad_shape) (\<lambda>_.
     result_bind (string_field obj ''protocol'') (\<lambda>protocol.
     result_bind (string_field obj ''id'') (\<lambda>i.
     result_bind (decode_reason (bt_get obj ''reason'')) (\<lambda>r.
     result_bind (check_protocol protocol) (\<lambda>_.
     Inr (Cancel i r))))))"

definition decode_envelope :: "string \<Rightarrow> json_object \<Rightarrow> protocol_error + wire_message" where
  "decode_envelope kind obj =
    (if kind = ''request'' then decode_request obj
     else if kind = ''response'' then
       (if bt_contains obj ''result'' \<and> \<not> bt_contains obj ''error'' then decode_result obj
        else if bt_contains obj ''error'' \<and> \<not> bt_contains obj ''result'' then decode_error obj
        else Inl (invalid ''response must contain exactly one of result or error''))
     else if kind = ''notification'' then decode_notification obj
     else if kind = ''cancel'' then decode_cancel obj
     else Inl (invalid ''message kind is unknown''))"

fun decode_object :: "json \<Rightarrow> protocol_error + wire_message" where
  "decode_object (JObject obj) =
     (case Option.bind (bt_get obj ''kind'') as_string of
        None \<Rightarrow> Inl (invalid ''message kind is missing or invalid'')
      | Some kind \<Rightarrow> result_bind (decode_envelope kind obj)
          (\<lambda>m. result_bind (wire_message_validate m) (\<lambda>_. Inr m)))"
| "decode_object _ = Inl (invalid ''message must be a JSON object'')"

definition decode_message ::
    "(string \<Rightarrow> json_event option) \<Rightarrow> bytes \<Rightarrow> protocol_error + wire_message" where
  "decode_message json_syntax input = result_bind (strict_parse json_syntax input) decode_object"

section \<open>Round trip\<close>

text \<open>A message whose values are well-formed JSON. An error's data is not the null value: the
  field is omitted for \<open>None\<close>, and a null field reads as \<open>None\<close>.\<close>

fun wf_message :: "wire_message \<Rightarrow> bool" where
  "wf_message (Request i m p) = wf_json p"
| "wf_message (Response i r e) =
     (pred_option wf_json r \<and> pred_option (\<lambda>err. pred_option (\<lambda>d. wf_json d \<and> d \<noteq> JNull) (we_data err)) e)"
| "wf_message (Notification m p) = wf_json p"
| "wf_message (Cancel i r) = True"

text \<open>A message whose tree the text layer reads back as it was: no floats, UTF-8 strings, and the
  nesting the parser allows.\<close>

definition portable_message :: "wire_message \<Rightarrow> bool" where
  "portable_message m \<longleftrightarrow> portable MAX_NESTING (serialize_message m)"

lemmas string_order_simps = less_char_def less_eq_char_def

lemma code_of_name_of_code [simp]: "code_of_name (name_of_code c) = Some c"
  by (cases c) (simp_all add: error_code_names_def code_of_name_def)

lemma error_of_serialize:
  assumes "pred_option (\<lambda>d. wf_json d \<and> d \<noteq> JNull) (we_data e)"
  shows "\<exists>v. visit_value (serialize_error e) = Some v \<and> error_of_json v = Some e"
proof (cases "we_data e")
  case None
  then show ?thesis
    by (simp add: serialize_error_def bt_contains_def bt_get_def bt_empty_def string_order_simps
        known_fields_def make_error_def del: name_of_code.simps)
next
  case (Some d)
  with assms have "visit_value (events_of d) = Some d" and "d \<noteq> JNull"
    by (simp_all add: visit_events_of)
  with Some show ?thesis
    by (simp add: serialize_error_def bt_contains_def bt_get_def bt_empty_def string_order_simps
        known_fields_def make_error_def opt_of_json_def del: name_of_code.simps)
qed

lemmas envelope_simps = bt_contains_def bt_get_def bt_empty_def string_order_simps
  known_fields_def field_def string_field_def check_protocol_def decode_envelope_def

lemma decode_serialize:
  assumes "wf_message m" and "wire_message_validate m = Inr ()"
  shows "\<exists>v. visit_value (serialize_message m) = Some v \<and> decode_object v = Inr m"
proof (cases m)
  case (Request i k p)
  with assms have "visit_value (events_of p) = Some p" by (simp add: visit_events_of)
  with assms Request show ?thesis
    by (simp add: envelope_simps decode_request_def)
next
  case (Response i r e)
  show ?thesis
  proof (cases r)
    case (Some v)
    with assms Response have "visit_value (events_of v) = Some v" and "e = None"
      by (auto simp: visit_events_of result_simps split: if_splits)
    with assms Response Some show ?thesis
      by (simp add: envelope_simps decode_result_def)
  next
    case None
    with assms Response obtain err where e: "e = Some err"
      by (auto simp: result_simps split: if_splits)
    with assms Response obtain v where "visit_value (serialize_error err) = Some v"
      and "error_of_json v = Some err"
      using error_of_serialize [of err] by auto
    with assms Response None e show ?thesis
      by (simp add: envelope_simps decode_error_def)
  qed
next
  case (Notification k p)
  with assms have "visit_value (events_of p) = Some p" by (simp add: visit_events_of)
  with assms Notification show ?thesis
    by (simp add: envelope_simps decode_notification_def)
next
  case (Cancel i r)
  with assms show ?thesis
    by (cases r) (simp_all add: envelope_simps decode_cancel_def decode_reason_def)
qed

lemma decode_encode_message_aux:
  assumes "json_text_contract json_syntax to_vec" and "wf_message m" and "portable_message m"
    and "encode_message to_vec m = Inr bs"
  shows "bs \<noteq> [] \<and> decode_message json_syntax bs = Inr m"
proof -
  from assms(4) have v: "wire_message_validate m = Inr ()" and t: "to_vec (serialize_message m) = Some bs"
    by (auto simp: encode_message_def result_simps)
  from assms(1,3) t have "bs \<noteq> []" "utf8_valid bs" "json_syntax bs = Some (serialize_message m)"
    by (auto simp: json_text_contract_def portable_message_def)
  with decode_serialize [OF assms(2) v] show ?thesis
    by (auto simp: decode_message_def strict_parse_def)
qed

lemma decode_message_valid:
  "decode_message json_syntax bs = Inr m \<Longrightarrow> wire_message_validate m = Inr ()"
  by (auto simp: decode_message_def result_simps split: json.splits option.splits
      elim!: decode_object.elims)

section \<open>Properties\<close>

text \<open>(C18) Decoding undoes encoding: with every JSON library that reads back the text it writes for
  trees without floats, with UTF-8 strings and at most 127 nested arrays and objects, a message of
  any of the four kinds that encodes, whose JSON values are well formed and without floats, nested
  no deeper, and whose error data is not null, is decoded to itself from the bytes it encodes to.\<close>

theorem decode_encode_message:
  assumes "json_text_contract json_syntax to_vec" and "wf_message m" and "portable_message m"
    and "encode_message to_vec m = Inr bs"
  shows "decode_message json_syntax bs = Inr m"
  using decode_encode_message_aux [OF assms] by simp

definition sample_message :: wire_message where
  "sample_message = Request ''r1'' ''session/open''
     (JObject [(''limit'', JNumber (NegInt (- 5))), (''names'', JArray [JString [CHR ''a'', CHR 0x0A], JNull])])"

definition sample_bytes :: bytes where
  "sample_bytes = write_json (serialize_message sample_message)"

lemma sample_portable: "wf_message sample_message \<and> portable_message sample_message"
  by (simp add: sample_message_def portable_message_def MAX_NESTING_def WIRE_PROTOCOL_def in_range_def string_order_simps)

lemma sample_encodes: "encode_message compact_text sample_message = Inr sample_bytes"
proof -
  have "wire_message_validate sample_message = Inr ()"
    by (simp add: sample_message_def validate_id_def validate_method_def is_ascii_graphic_def method_byte_def less_eq_char_def ascii_defs)
  with sample_portable show ?thesis
    by (simp add: encode_message_def sample_bytes_def compact_text_def portable_message_def)
qed

theorem decode_encode_message_witness:
  "decode_message read_json sample_bytes = Inr sample_message"
  using decode_encode_message [OF compact_text_contract _ _ sample_encodes] sample_portable by simp

text \<open>Nothing invalid gets in: every message the decoder returns passes the same validation that
  outgoing messages must pass, so its identifier, method, reason and error text are within
  their bounds and a response carries exactly one of result and error.\<close>

theorem decoded_messages_valid:
  assumes "decode_message json_syntax bs = Inr m"
  shows "wire_message_validate m = Inr () \<and>
    (\<forall>i. wire_message_id m = Some i \<longrightarrow> 1 \<le> length i \<and> length i \<le> 64 \<and> list_all is_ascii_graphic i) \<and>
    (\<forall>i r e. m = Response i r e \<longrightarrow> (r = None) \<noteq> (e = None))"
proof -
  from assms have v: "wire_message_validate m = Inr ()" by (rule decode_message_valid)
  then show ?thesis
    by (cases m) (auto simp: result_simps validate_id_def split: if_splits)
qed

theorem decoded_messages_valid_witness:
  "wire_message_validate sample_message = Inr ()"
proof -
  have "decode_message read_json sample_bytes = Inr sample_message"
    using decode_encode_message_aux [OF compact_text_contract _ _ sample_encodes] sample_portable by simp
  from decoded_messages_valid [OF this] show ?thesis by blast
qed

end
