(* ===== verification/Framing.thy ===== *)
theory Framing
  imports Wire_Message
begin

text \<open>
  Frames (\<open>josh-protocol/src/framing.rs\<close>): \<open>FrameReader::read_body\<close> over the bytes
  still to come from the stream, and \<open>encode_frame\<close>. The reader's state is the list of
  bytes not yet read; an I/O failure other than the end of the stream has no model here.
\<close>

section \<open>Constants and header lines\<close>

definition DEFAULT_MAX_FRAME_BYTES :: nat where
  "DEFAULT_MAX_FRAME_BYTES = 4194304"

definition MAX_HEADER_LINE_BYTES :: nat where
  "MAX_HEADER_LINE_BYTES = 1024"

definition CONTENT_TYPE_LINE :: bytes where
  "CONTENT_TYPE_LINE = ''Content-Type: application/josh+json; charset=utf-8''"

abbreviation CR :: byte where "CR \<equiv> CHR 0x0D"
abbreviation LF :: byte where "LF \<equiv> CHR 0x0A"

text \<open>\<open>read_crlf_line\<close>: one byte at a time into \<open>line\<close>. The result is the line, or
  \<open>None\<close> for a clean end of the stream, with the rest of the input.\<close>

fun read_crlf_loop :: "bool \<Rightarrow> bytes \<Rightarrow> bytes \<Rightarrow> protocol_error + (bytes option \<times> bytes)" where
  "read_crlf_loop clean_eof line [] =
     (if line = [] \<and> clean_eof then Inr (None, []) else Inl UnexpectedEof)"
| "read_crlf_loop clean_eof line (b # rest) =
     (if b = LF then
        (if line = [] \<or> last line \<noteq> CR then Inl InvalidHeader
         else Inr (Some (butlast line), rest))
      else if length line + 1 > MAX_HEADER_LINE_BYTES + 1 then Inl HeaderLineTooLong
      else read_crlf_loop clean_eof (line @ [b]) rest)"

definition read_crlf_line :: "bool \<Rightarrow> bytes \<Rightarrow> protocol_error + (bytes option \<times> bytes)" where
  "read_crlf_line clean_eof input = read_crlf_loop clean_eof [] input"

section \<open>Reading a frame\<close>

text \<open>\<open>text.parse::<usize>()\<close> on a non-empty string of digits fails only on overflow.\<close>

definition parse_usize :: "bytes \<Rightarrow> nat option" where
  "parse_usize s = (if dec_value s < usize_limit then Some (dec_value s) else None)"

definition content_length :: "bytes \<Rightarrow> protocol_error + nat" where
  "content_length line =
     result_bind (ok_or (strip_prefix ''Content-Length: '' line) InvalidHeader) (\<lambda>digits.
     result_bind (ensure (\<not> (digits = [] \<or> (length digits > 1 \<and> hd digits = CHR ''0'')
         \<or> \<not> list_all is_ascii_digit digits)) InvalidLength) (\<lambda>_.
     case parse_usize digits of
       None \<Rightarrow> Inl InvalidLength
     | Some n \<Rightarrow> (if n > 0 then Inr n else Inl InvalidLength)))"

text \<open>\<open>read_body\<close>: \<open>Inr (None, _)\<close> is a clean end before a frame.\<close>

definition read_header_line :: "bytes \<Rightarrow> protocol_error + (bytes \<times> bytes)" where
  "read_header_line input =
     result_bind (read_crlf_line False input) (\<lambda>(line, rest).
     result_bind (ok_or line UnexpectedEof) (\<lambda>l. Inr (l, rest)))"

definition read_body :: "nat \<Rightarrow> bytes \<Rightarrow> protocol_error + (bytes option \<times> bytes)" where
  "read_body max_frame_bytes input =
     result_bind (read_crlf_line True input) (\<lambda>(first, rest).
     case first of
       None \<Rightarrow> Inr (None, rest)
     | Some line \<Rightarrow>
         result_bind (content_length line) (\<lambda>len.
         result_bind (ensure (len \<le> max_frame_bytes) FrameTooLarge) (\<lambda>_.
         result_bind (read_header_line rest) (\<lambda>(content_type, rest).
         result_bind (ensure (content_type = CONTENT_TYPE_LINE) InvalidHeader) (\<lambda>_.
         result_bind (read_header_line rest) (\<lambda>(empty_line, rest).
         result_bind (ensure (empty_line = []) InvalidHeader) (\<lambda>_.
         if length rest < len then Inl UnexpectedEof
         else Inr (Some (take len rest), drop len rest))))))))"

definition read_message :: "(string \<Rightarrow> json_event option) \<Rightarrow> nat \<Rightarrow> bytes \<Rightarrow>
    protocol_error + (wire_message option \<times> bytes)" where
  "read_message json_syntax max_frame_bytes input =
     result_bind (read_body max_frame_bytes input) (\<lambda>(body, rest).
     case body of
       None \<Rightarrow> Inr (None, rest)
     | Some b \<Rightarrow> result_bind (decode_message json_syntax b) (\<lambda>m. Inr (Some m, rest)))"

definition read_value :: "(string \<Rightarrow> json_event option) \<Rightarrow> nat \<Rightarrow> bytes \<Rightarrow>
    protocol_error + (json option \<times> bytes)" where
  "read_value json_syntax max_frame_bytes input =
     result_bind (read_body max_frame_bytes input) (\<lambda>(body, rest).
     case body of
       None \<Rightarrow> Inr (None, rest)
     | Some b \<Rightarrow> result_bind (strict_parse json_syntax b) (\<lambda>v. Inr (Some v, rest)))"

section \<open>Writing a frame\<close>

definition frame_header :: "nat \<Rightarrow> bytes" where
  "frame_header n = ''Content-Length: '' @ show_nat n @ [CR, LF]
     @ ''Content-Type: application/josh+json; charset=utf-8'' @ [CR, LF] @ [CR, LF]"

definition encode_frame :: "(json_event \<Rightarrow> bytes option) \<Rightarrow> wire_message \<Rightarrow> nat \<Rightarrow>
    protocol_error + bytes" where
  "encode_frame to_vec m max_frame_bytes =
     result_bind (encode_message to_vec m) (\<lambda>body.
     if body = [] \<or> length body > max_frame_bytes then Inl FrameTooLarge
     else Inr (frame_header (length body) @ body))"

section \<open>Lines\<close>

lemma read_crlf_loop_line:
  assumes "LF \<notin> set xs" and "length line + length xs + 1 \<le> MAX_HEADER_LINE_BYTES + 1"
  shows "read_crlf_loop c line (xs @ CR # LF # rest) = Inr (Some (line @ xs), rest)"
  using assms
proof (induction xs arbitrary: line)
  case Nil
  then show ?case by simp
next
  case (Cons x xs)
  from Cons.IH [of "line @ [x]"] Cons.prems show ?case by auto
qed

lemma read_crlf_line_line:
  "LF \<notin> set xs \<Longrightarrow> length xs \<le> MAX_HEADER_LINE_BYTES \<Longrightarrow>
   read_crlf_line c (xs @ CR # LF # rest) = Inr (Some xs, rest)"
  unfolding read_crlf_line_def by (subst read_crlf_loop_line) simp_all

text \<open>A successful read consumes the line, a carriage return and a line feed, and nothing else.\<close>

lemma read_crlf_loop_inv:
  "read_crlf_loop c line input = Inr (Some l, rest) \<Longrightarrow> length line \<le> MAX_HEADER_LINE_BYTES + 1 \<Longrightarrow>
   line @ input = l @ CR # LF # rest \<and> length l \<le> MAX_HEADER_LINE_BYTES"
proof (induction c line input rule: read_crlf_loop.induct)
  case (2 c line b rest')
  show ?case
  proof (cases "b = LF")
    case True
    with "2.prems" have "line \<noteq> []" "last line = CR" "l = butlast line" "rest = rest'"
      by (auto split: if_splits)
    then have "line = l @ [CR]" by (metis append_butlast_last_id)
    with True \<open>rest = rest'\<close> "2.prems"(2) show ?thesis by simp
  next
    case False
    with 2 show ?thesis by (auto split: if_splits)
  qed
qed (auto split: if_splits)

lemma read_crlf_line_inv:
  "read_crlf_line c input = Inr (Some l, rest) \<Longrightarrow>
   input = l @ CR # LF # rest \<and> length l \<le> MAX_HEADER_LINE_BYTES"
  unfolding read_crlf_line_def using read_crlf_loop_inv [of c "[]" input l rest] by simp

section \<open>Content length\<close>

lemma content_length_iff:
  "content_length line = Inr n \<longleftrightarrow>
     line = ''Content-Length: '' @ show_nat n \<and> 0 < n \<and> n < usize_limit"
proof
  assume "content_length line = Inr n"
  then obtain digits where line: "line = ''Content-Length: '' @ digits"
    and canon: "canonical_decimal digits" and n: "parse_usize digits = Some n" and "0 < n"
    by (auto simp: content_length_def result_simps strip_prefix_Some canonical_decimal_def
        split: option.splits if_splits)
  with show_nat_dec_value [OF canon] show
    "line = ''Content-Length: '' @ show_nat n \<and> 0 < n \<and> n < usize_limit"
    by (auto simp: parse_usize_def split: if_splits)
next
  assume a: "line = ''Content-Length: '' @ show_nat n \<and> 0 < n \<and> n < usize_limit"
  have "canonical_decimal (show_nat n)" by simp
  with a show "content_length line = Inr n"
    by (simp only: content_length_def strip_prefix_append canonical_decimal_def)
      (auto simp: parse_usize_def)
qed

section \<open>Frames\<close>

lemma show_nat_no_LF [simp]: "LF \<notin> set (show_nat n)"
  using show_nat_digits [of LF n] by (auto simp: is_ascii_digit_def less_eq_char_def)

lemma read_header_line_iff:
  "read_header_line input = Inr (l, rest) \<longleftrightarrow> read_crlf_line False input = Inr (Some l, rest)"
  by (auto simp: read_header_line_def result_simps)

text \<open>The digits of a frame length that fits \<open>usize\<close> leave the header line far below its limit.\<close>

lemma length_show_usize: "n < usize_limit \<Longrightarrow> length (show_nat n) \<le> 20"
  by (rule length_show_nat) (simp_all add: usize_limit_def)

lemma read_body_frame:
  assumes "0 < length body" and "length body \<le> mx" and "length body < usize_limit"
  shows "read_body mx (frame_header (length body) @ body @ rest) = Inr (Some body, rest)"
proof -
  let ?first = "''Content-Length: '' @ show_nat (length body)"
  have f: "read_crlf_line True (?first @ CR # LF # r) = Inr (Some ?first, r)" for r
    using length_show_usize [OF assms(3)]
    by (intro read_crlf_line_line) (auto simp: MAX_HEADER_LINE_BYTES_def)
  have t: "read_header_line (CONTENT_TYPE_LINE @ CR # LF # r) = Inr (CONTENT_TYPE_LINE, r)" for r
    unfolding read_header_line_iff
    by (rule read_crlf_line_line) (simp_all add: CONTENT_TYPE_LINE_def MAX_HEADER_LINE_BYTES_def)
  have e: "read_header_line (CR # LF # r) = Inr ([], r)" for r
    unfolding read_header_line_iff
    using read_crlf_line_line [of "[]" False r] by (simp add: MAX_HEADER_LINE_BYTES_def)
  have eq: "frame_header (length body) @ body @ rest =
      ?first @ CR # LF # (CONTENT_TYPE_LINE @ CR # LF # (CR # LF # (body @ rest)))"
    by (simp add: frame_header_def CONTENT_TYPE_LINE_def)
  have len: "content_length ?first = Inr (length body)"
    using assms by (simp add: content_length_iff)
  show ?thesis
    unfolding read_body_def eq f using len assms(2)
    by (simp only: t e result_bind.simps case_prod_conv option.case ensure_True) simp
qed

text \<open>Conversely every accepted frame is the one frame of its body: the reader tolerates no
  other spelling of the header.\<close>

lemma read_body_inv:
  assumes "read_body mx input = Inr (Some body, rest)"
  shows "input = frame_header (length body) @ body @ rest \<and> 0 < length body \<and> length body \<le> mx"
proof -
  from assms obtain line r1 n r2 r3 where
    1: "read_crlf_line True input = Inr (Some line, r1)" and n: "content_length line = Inr n"
    and mx: "n \<le> mx" and 2: "read_crlf_line False r1 = Inr (Some CONTENT_TYPE_LINE, r2)"
    and 3: "read_crlf_line False r2 = Inr (Some [], r3)" and r3: "n \<le> length r3"
    and b: "body = take n r3" "rest = drop n r3"
    by (auto simp: read_body_def result_simps read_header_line_iff
        split: option.splits if_splits)
  have "input = line @ CR # LF # CONTENT_TYPE_LINE @ CR # LF # CR # LF # r3"
    using read_crlf_line_inv [OF 1] read_crlf_line_inv [OF 2] read_crlf_line_inv [OF 3] by simp
  moreover from n have "line = ''Content-Length: '' @ show_nat n" "0 < n"
    by (simp_all add: content_length_iff)
  moreover from b r3 have "length body = n" "r3 = body @ rest" by simp_all
  ultimately show ?thesis using mx
    by (simp add: frame_header_def CONTENT_TYPE_LINE_def)
qed

lemma read_body_clean_eof: "read_body mx [] = Inr (None, [])"
  by (simp add: read_body_def read_crlf_line_def)

lemma read_body_None: "read_body mx input = Inr (None, rest) \<Longrightarrow> input = []"
proof -
  have "read_crlf_loop c line bs = Inr (None, r) \<Longrightarrow> line @ bs = []" for c line bs r
    by (induction c line bs rule: read_crlf_loop.induct) (auto split: if_splits)
  then show "read_body mx input = Inr (None, rest) \<Longrightarrow> input = []"
    by (auto simp: read_body_def read_crlf_line_def result_simps split: option.splits if_splits)
qed

text \<open>A header determines the length it announces, whatever follows it.\<close>

lemma digits_then_CR:
  assumes "xs @ CR # us = ys @ CR # vs" and "list_all is_ascii_digit xs" and "list_all is_ascii_digit ys"
  shows "xs = ys \<and> us = vs"
  using assms
proof (induction xs arbitrary: ys)
  case Nil
  then show ?case by (cases ys) (auto simp: is_ascii_digit_def less_eq_char_def)
next
  case (Cons x xs)
  then show ?case by (cases ys) (auto simp: is_ascii_digit_def less_eq_char_def)
qed

lemma frame_header_inject: "frame_header m @ us = frame_header n @ vs \<Longrightarrow> m = n \<and> us = vs"
proof -
  assume "frame_header m @ us = frame_header n @ vs"
  then have "show_nat m @ CR # LF # CONTENT_TYPE_LINE @ CR # LF # CR # LF # us =
      show_nat n @ CR # LF # CONTENT_TYPE_LINE @ CR # LF # CR # LF # vs"
    by (simp add: frame_header_def CONTENT_TYPE_LINE_def)
  from digits_then_CR [OF this] show ?thesis
    using show_nat_digits by (auto simp: list_all_iff)
qed

section \<open>Streams\<close>

text \<open>The loop that reads one message after another until the stream ends cleanly.\<close>

lemma read_message_shorter:
  "read_message json_syntax mx input = Inr (Some m, rest) \<Longrightarrow> length rest < length input"
  by (auto simp: read_message_def result_simps split: option.splits dest!: read_body_inv)

function read_stream :: "(string \<Rightarrow> json_event option) \<Rightarrow> nat \<Rightarrow> bytes \<Rightarrow>
    protocol_error + wire_message list" where
  "read_stream json_syntax mx input =
     (case read_message json_syntax mx input of
        Inl e \<Rightarrow> Inl e
      | Inr (None, rest) \<Rightarrow> Inr []
      | Inr (Some m, rest) \<Rightarrow> result_bind (read_stream json_syntax mx rest) (\<lambda>ms. Inr (m # ms)))"
  by pat_completeness auto
termination
  by (relation "measure (\<lambda>(json_syntax, mx, input). length input)") (auto intro: read_message_shorter)

declare read_stream.simps [simp del]

lemma read_message_frame:
  assumes "json_text_contract json_syntax to_vec" and "wf_message m" and "portable_message m"
    and "encode_frame to_vec m mx = Inr frame" and "length frame < usize_limit"
  shows "read_message json_syntax mx (frame @ rest) = Inr (Some m, rest)"
proof -
  from assms(4) obtain body where b: "encode_message to_vec m = Inr body" "body \<noteq> []"
    "length body \<le> mx" and f: "frame = frame_header (length body) @ body"
    by (auto simp: encode_frame_def result_simps split: if_splits)
  with assms(5) have "read_body mx (frame @ rest) = Inr (Some body, rest)"
    by (simp add: read_body_frame)
  with decode_encode_message_aux [OF assms(1,2,3) b(1)] show ?thesis
    by (simp add: read_message_def)
qed

lemma read_stream_frames:
  assumes "json_text_contract json_syntax to_vec"
    and "list_all2 (\<lambda>m f. wf_message m \<and> portable_message m \<and> encode_frame to_vec m mx = Inr f \<and> length f < usize_limit) ms fs"
  shows "read_stream json_syntax mx (concat fs) = Inr ms"
  using assms(2)
proof (induction ms fs rule: list_all2_induct)
  case Nil
  show ?case by (subst read_stream.simps) (simp add: read_message_def read_body_clean_eof)
next
  case (Cons m ms f fs)
  then have "read_message json_syntax mx (f @ concat fs) = Inr (Some m, concat fs)"
    using read_message_frame [OF assms(1)] by blast
  with Cons show ?case by (subst read_stream.simps) simp
qed

section \<open>Properties\<close>

text \<open>(C14) Frames round-trip: reading the frame written for a message gives the message back and
  leaves the rest of the stream untouched, for every continuation of the stream, with every JSON
  library that reads back the text it writes for trees without floats and of allowed nesting, and
  for the messages whose values are such: well-formed JSON without floats, error data not null, and
  a frame shorter than the address space.\<close>

theorem frame_round_trip:
  assumes "json_text_contract json_syntax to_vec" and "wf_message m" and "portable_message m"
    and "encode_frame to_vec m mx = Inr frame" and "length frame < usize_limit"
  shows "read_message json_syntax mx (frame @ rest) = Inr (Some m, rest)"
  by (rule read_message_frame [OF assms])

lemma sample_frame:
  assumes "length sample_bytes \<le> 1000"
  shows "encode_frame compact_text sample_message 1000 = Inr (frame_header (length sample_bytes) @ sample_bytes)"
  using assms sample_encodes
    decode_encode_message_aux [OF compact_text_contract _ _ sample_encodes] sample_portable
  by (simp add: encode_frame_def)

lemma sample_length: "length sample_bytes = 115"
  by (simp add: sample_bytes_def sample_message_def write_string_def escape_byte_def short_escapes_def WIRE_PROTOCOL_def show_nat.simps)

theorem frame_round_trip_witness:
  "read_message read_json 1000 (frame_header (length sample_bytes) @ sample_bytes @ ''more'') =
     Inr (Some sample_message, ''more'')"
proof -
  have "length (frame_header (length sample_bytes) @ sample_bytes) < usize_limit"
    by (simp add: sample_length frame_header_def usize_limit_def show_nat.simps)
  then show ?thesis
    using frame_round_trip [OF compact_text_contract _ _ sample_frame, of "''more''"] sample_portable
    by (simp add: sample_length)
qed

text \<open>(C15) One spelling per frame: whatever input the reader accepts is, byte for byte, the frame that
  the writer would produce for the body it returns, followed by the unread rest; the body is
  not empty and within the negotiated bound. A lenient header that another implementation
  could read differently is never accepted.\<close>

theorem accepted_frames_are_canonical:
  assumes "read_body mx input = Inr (Some body, rest)"
  shows "input = frame_header (length body) @ body @ rest \<and> 0 < length body \<and> length body \<le> mx"
  by (rule read_body_inv [OF assms])

theorem accepted_frames_are_canonical_witness:
  "frame_header 2 @ ''{}'' = frame_header (length ''{}'') @ ''{}'' @ [] \<and> length ''{}'' \<le> 8"
proof -
  have "read_body 8 (frame_header (length ''{}'') @ ''{}'' @ []) = Inr (Some ''{}'', [])"
    by (rule read_body_frame) (simp_all add: usize_limit_def)
  from accepted_frames_are_canonical [OF this] show ?thesis by (simp add: eval_nat_numeral)
qed

text \<open>A truncated frame is never a message: any non-empty strict prefix of a frame is refused
  with an error, so a peer that dies while writing cannot make the reader act on a partial
  message.\<close>

theorem truncated_frames_refused:
  assumes "encode_frame to_vec m mx = Inr frame" and "frame = p @ q" and "p \<noteq> []" and "q \<noteq> []"
  shows "\<exists>e. read_body mx' p = Inl e"
proof (cases "read_body mx' p")
  case (Inr r)
  then obtain b rest where r: "read_body mx' p = Inr (b, rest)" by (cases r) auto
  from assms(1) obtain body where f: "frame = frame_header (length body) @ body"
    by (auto simp: encode_frame_def result_simps split: if_splits)
  have False
  proof (cases b)
    case None
    with r read_body_None assms(3) show False by blast
  next
    case (Some b')
    with r have "p = frame_header (length b') @ b' @ rest" using read_body_inv by blast
    with f assms(2) have "frame_header (length body) @ body = frame_header (length b') @ (b' @ rest @ q)"
      by simp
    from frame_header_inject [OF this] assms(4) show False by auto
  qed
  then show ?thesis ..
qed blast

theorem truncated_frames_refused_witness:
  "\<exists>e. read_body 64 (butlast (frame_header (length sample_bytes) @ sample_bytes)) = Inl e"
proof -
  let ?f = "frame_header (length sample_bytes) @ sample_bytes"
  have f: "?f \<noteq> []" "length ?f > 1" by (simp_all add: frame_header_def)
  show ?thesis
    by (rule truncated_frames_refused [OF sample_frame, where q = "[last ?f]"])
      (use f in \<open>auto simp: sample_length simp del: append_is_Nil_conv dest: arg_cong [where f = length]\<close>)
qed

end
