(* ===== verification/Writer.thy ===== *)
theory Writer
  imports Framing Machine
begin

text \<open>
  \<open>SerializedWriter\<close> (\<open>josh-protocol/src/framing.rs\<close>): the ticketed writer that several
  threads share. \<open>write_frame\<close> first takes a ticket with an atomic \<open>fetch_add\<close>, then
  waits under the lock until \<open>serving\<close> is its ticket, writes its frame, and passes the turn
  on. The two atomic sections are two operations of the model, so every interleaving of any
  number of calls is a sequence of them; \<open>waiting\<close> holds the calls between their two
  sections. The sink behind the writer is the parameter \<open>write_all\<close>, which may fail.
  Tickets are 64-bit and wrap around.
\<close>

section \<open>State and operations\<close>

record 'w writer =
  next_ticket :: u64
  serving :: u64
  waiting :: "(u64 \<times> bytes) list"
  sink :: 'w

type_synonym 'w sink_op = "bytes \<Rightarrow> 'w \<Rightarrow> (protocol_error + unit) \<times> 'w"

definition writer_new :: "'w \<Rightarrow> 'w writer" where
  "writer_new w = \<lparr>next_ticket = 0, serving = 0, waiting = [], sink = w\<rparr>"

definition take_ticket :: "bytes \<Rightarrow> 'w writer \<Rightarrow> u64 \<times> 'w writer" where
  "take_ticket frame s =
     (next_ticket s,
      s\<lparr>next_ticket := next_ticket s + 1, waiting := waiting s @ [(next_ticket s, frame)]\<rparr>)"

text \<open>The critical section of the call that holds ticket \<open>k\<close>: enabled when it is served.
  The turn passes on also when the write fails.\<close>

definition serve_turn :: "'w sink_op \<Rightarrow> u64 \<Rightarrow> 'w writer \<Rightarrow> ((protocol_error + unit) \<times> 'w writer) option" where
  "serve_turn write_all k s =
     (if serving s \<noteq> k then None
      else case map_of (waiting s) k of
        None \<Rightarrow> None
      | Some frame \<Rightarrow>
          (let (r, w) = write_all frame (sink s)
           in Some (r, s\<lparr>sink := w, serving := serving s + 1, waiting := bt_remove k (waiting s)\<rparr>)))"

definition write_message_frame :: "(json_event \<Rightarrow> bytes option) \<Rightarrow> nat \<Rightarrow> wire_message \<Rightarrow> 'w writer \<Rightarrow>
    protocol_error + (u64 \<times> 'w writer)" where
  "write_message_frame to_vec max_frame_bytes m s =
     result_bind (encode_frame to_vec m max_frame_bytes) (\<lambda>frame. Inr (take_ticket frame s))"

datatype writer_event = Arrive bytes | Turn u64

text \<open>A \<open>Turn\<close> of a call whose ticket is not served is that call waiting on: no change.\<close>

fun writer_step :: "'w sink_op \<Rightarrow> writer_event \<Rightarrow> 'w writer \<Rightarrow> 'w writer" where
  "writer_step write_all (Arrive frame) s = snd (take_ticket frame s)"
| "writer_step write_all (Turn k) s =
     (case serve_turn write_all k s of None \<Rightarrow> s | Some (r, s') \<Rightarrow> s')"

fun writer_run :: "'w sink_op \<Rightarrow> writer_event list \<Rightarrow> 'w writer \<Rightarrow> 'w writer" where
  "writer_run write_all [] s = s"
| "writer_run write_all (e # es) s = writer_run write_all es (writer_step write_all e s)"

fun arrivals :: "writer_event list \<Rightarrow> bytes list" where
  "arrivals [] = []"
| "arrivals (Arrive f # es) = f # arrivals es"
| "arrivals (Turn k # es) = arrivals es"

section \<open>Order\<close>

text \<open>The tickets of the waiting calls are consecutive from the one served.\<close>

definition ticketed :: "u64 \<Rightarrow> bytes list \<Rightarrow> (u64 \<times> bytes) list" where
  "ticketed k fs = zip (map (\<lambda>j. k + of_nat j) [0..<length fs]) fs"

definition write_frames :: "'w sink_op \<Rightarrow> bytes list \<Rightarrow> 'w \<Rightarrow> 'w" where
  "write_frames write_all fs w = fold (\<lambda>f w. snd (write_all f w)) fs w"

definition in_order :: "'w sink_op \<Rightarrow> 'w \<Rightarrow> bytes list \<Rightarrow> nat \<Rightarrow> 'w writer \<Rightarrow> bool" where
  "in_order write_all w0 fs k s \<longleftrightarrow>
     k \<le> length fs \<and> serving s = of_nat k \<and> next_ticket s = of_nat (length fs)
     \<and> waiting s = ticketed (of_nat k) (drop k fs)
     \<and> sink s = write_frames write_all (take k fs) w0"

lemma length_ticketed [simp]: "length (ticketed k fs) = length fs"
  by (simp add: ticketed_def)

lemma ticketed_Nil [simp]: "ticketed k [] = []"
  by (simp add: ticketed_def)

lemma ticketed_Cons: "ticketed k (f # fs) = (k, f) # ticketed (k + 1) fs"
proof -
  have "map (\<lambda>j. k + of_nat j) [0..<length (f # fs)] =
      k # map (\<lambda>j. (k + 1) + of_nat j) [0..<length fs]"
    by (simp add: upt_conv_Cons map_Suc_upt [symmetric] comp_def algebra_simps del: upt_Suc)
  then show ?thesis by (simp add: ticketed_def)
qed

lemma ticketed_snoc: "ticketed k (fs @ [f]) = ticketed k fs @ [(k + of_nat (length fs), f)]"
  by (simp add: ticketed_def)

lemma ticketed_eq_Nil [simp]: "ticketed k fs = [] \<longleftrightarrow> fs = []"
  by (metis length_0_conv length_ticketed)

lemma write_frames_snoc: "write_frames write_all (fs @ [f]) w = snd (write_all f (write_frames write_all fs w))"
  by (simp add: write_frames_def)

lemma in_order_arrive:
  "in_order write_all w0 fs k s \<Longrightarrow>
   in_order write_all w0 (fs @ [f]) k (writer_step write_all (Arrive f) s)"
  by (auto simp: in_order_def take_ticket_def ticketed_snoc)

lemma in_order_turn:
  assumes "in_order write_all w0 fs k s"
  shows "\<exists>k'. k \<le> k' \<and> in_order write_all w0 fs k' (writer_step write_all (Turn t) s)"
proof (cases "serving s = t \<and> k < length fs")
  case True
  then have d: "drop k fs = fs ! k # drop (Suc k) fs" by (simp add: Cons_nth_drop_Suc)
  from True assms have k: "t = of_nat k" by (simp add: in_order_def)
  from assms d k have w: "waiting s = (t, fs ! k) # ticketed (t + 1) (drop (Suc k) fs)"
    by (simp add: in_order_def ticketed_Cons)
  obtain r w' where wr: "write_all (fs ! k) (sink s) = (r, w')"
    by (cases "write_all (fs ! k) (sink s)")
  have st: "writer_step write_all (Turn t) s =
      s\<lparr>sink := w', serving := serving s + 1, waiting := ticketed (t + 1) (drop (Suc k) fs)\<rparr>"
    using True w wr by (simp add: serve_turn_def)
  have "sink s = write_frames write_all (take k fs) w0" using assms by (simp add: in_order_def)
  with wr True have "w' = write_frames write_all (take (Suc k) fs) w0"
    by (simp add: take_Suc_conv_app_nth write_frames_snoc)
  then have "in_order write_all w0 fs (Suc k) (writer_step write_all (Turn t) s)"
    unfolding st using True assms k by (simp add: in_order_def ac_simps)
  then show ?thesis by (meson le_SucI order_refl)
next
  case False
  have "writer_step write_all (Turn t) s = s"
  proof (cases "serving s = t")
    case True
    with False have "length fs \<le> k" by simp
    then have "waiting s = []" using assms by (simp add: in_order_def)
    then show ?thesis by (simp add: serve_turn_def)
  qed (simp add: serve_turn_def)
  with assms show ?thesis by auto
qed

lemma writer_run_in_order:
  "in_order write_all w0 fs k s \<Longrightarrow>
   \<exists>k'. in_order write_all w0 (fs @ arrivals es) k' (writer_run write_all es s)"
proof (induction es arbitrary: fs k s rule: arrivals.induct)
  case (2 f es)
  from "2.IH" [OF in_order_arrive [OF "2.prems"]] show ?case by simp
next
  case (3 t es)
  from in_order_turn [OF "3.prems", of t] obtain k' where
    "in_order write_all w0 fs k' (writer_step write_all (Turn t) s)" by blast
  from "3.IH" [OF this] show ?case by simp
qed auto

lemma in_order_new: "in_order write_all w [] 0 (writer_new w)"
  by (simp add: in_order_def writer_new_def write_frames_def)

lemma ticketed_distinct:
  "length fs \<le> 2 ^ 64 \<Longrightarrow> distinct (map fst (ticketed k fs))"
proof -
  assume l: "length fs \<le> 2 ^ 64"
  have "inj_on (\<lambda>j. k + of_nat j :: u64) (set [0..<length fs])"
  proof (rule inj_onI)
    fix x y assume xy: "x \<in> set [0..<length fs]" "y \<in> set [0..<length fs]"
      and e: "k + of_nat x = (k + of_nat y :: u64)"
    from e have "unat (of_nat x :: u64) = unat (of_nat y :: u64)" by simp
    with xy l show "x = y" by (simp add: unat_of_nat)
  qed
  then show ?thesis by (simp add: ticketed_def distinct_map)
qed

section \<open>Properties\<close>

text \<open>(C16) The shared writer commits frames in call order and never interleaves them: after any
  interleaving of any number of calls, the sink has received, in the order in which the calls
  took their tickets and one whole frame at a time, exactly the frames of the calls served so
  far; the calls still waiting are exactly the remaining ones, in order. It holds across the
  wrap-around of the 64-bit tickets and when writes fail.\<close>

theorem frames_in_call_order:
  "\<exists>k \<le> length (arrivals es).
     sink (writer_run write_all es (writer_new w)) = write_frames write_all (take k (arrivals es)) w \<and>
     map snd (waiting (writer_run write_all es (writer_new w))) = drop k (arrivals es)"
proof -
  from writer_run_in_order [OF in_order_new, of write_all w es] obtain k where
    "in_order write_all w (arrivals es) k (writer_run write_all es (writer_new w))" by auto
  then show ?thesis
    by (intro exI [of _ k]) (auto simp: in_order_def ticketed_def)
qed

text \<open>(C17) The writer cannot deadlock, and a call that runs does its work: whenever calls are waiting, the
  first of them holds the ticket being served; its turn hands exactly its frame to the sink, returns what the
  sink returns, also when that is an error, passes the turn to the next ticket and leaves the other
  calls waiting; and with at most two to the 64 calls in flight no other call can run.\<close>

theorem writer_makes_progress:
  assumes "s = writer_run write_all es (writer_new w)"
    and "waiting s = (k, frame) # rest" and "length (waiting s) \<le> 2 ^ 64"
  shows "serve_turn write_all k s =
      Some (fst (write_all frame (sink s)),
        s\<lparr>sink := snd (write_all frame (sink s)), serving := k + 1, waiting := rest\<rparr>) \<and>
    (rest \<noteq> [] \<longrightarrow> fst (hd rest) = k + 1) \<and>
    (\<forall>(k', frame')\<in>set rest. serve_turn write_all k' s = None)"
proof -
  from writer_run_in_order [OF in_order_new, of write_all w es] obtain n where
    ord: "in_order write_all w (arrivals es) n s" by (auto simp: assms(1))
  with assms(2) obtain f r where d: "drop n (arrivals es) = f # r"
    by (cases "drop n (arrivals es)") (auto simp: in_order_def)
  with ord have "waiting s = (serving s, f) # ticketed (serving s + 1) r"
    by (simp add: in_order_def ticketed_Cons)
  with assms(2) have k: "k = serving s" "rest = ticketed (serving s + 1) r" by auto
  from ord assms(3) have "distinct (map fst (waiting s))"
    by (simp add: in_order_def ticketed_distinct)
  with assms(2) have "k \<notin> fst ` set rest" by simp
  then have "\<forall>(k', frame')\<in>set rest. serve_turn write_all k' s = None"
    using k by (force simp: serve_turn_def)
  moreover have "rest \<noteq> [] \<longrightarrow> fst (hd rest) = k + 1" using k by (cases r) (simp_all add: ticketed_Cons)
  ultimately show ?thesis using assms(2) k by (simp add: serve_turn_def split: prod.split)
qed

definition append_sink :: "bytes sink_op" where
  "append_sink f w = (Inr (), w @ f)"

theorem writer_makes_progress_witness:
  "\<exists>s'. serve_turn append_sink 1 (writer_run append_sink [Arrive ''ab'', Arrive ''cd'', Turn 0] (writer_new [])) =
     Some (Inr (), s') \<and> sink s' = ''abcd'' \<and> serving s' = 2"
proof -
  let ?s = "writer_run append_sink [Arrive ''ab'', Arrive ''cd'', Turn 0] (writer_new [])"
  have w: "waiting ?s = [(1, ''cd'')]" "sink ?s = ''ab''"
    by (simp_all add: writer_new_def take_ticket_def serve_turn_def append_sink_def)
  have "length (waiting ?s) \<le> 2 ^ 64" by (simp only: w) simp
  from writer_makes_progress [OF refl w(1) this] show ?thesis
    by (simp add: w(2) append_sink_def del: writer_run.simps)
qed

end
