(* ===== verification/Versions.thy ===== *)
theory Versions
  imports Prelude
begin

text \<open>
  Versions and version ranges of tools (\<open>allen-schema/src/version.rs\<close>): parsing, printing,
  the derived order and membership. The only error value, \<open>VersionError\<close>, is \<open>None\<close>.
\<close>

section \<open>Data and order\<close>

datatype exact_version = ExactVersion (ev_major: u64) (ev_minor: u64) (ev_patch: u64)

text \<open>The derived \<open>Ord\<close> is lexicographic on the fields.\<close>

instantiation exact_version :: linorder
begin

definition less_exact_version :: "exact_version \<Rightarrow> exact_version \<Rightarrow> bool" where
  "v < w \<longleftrightarrow> ev_major v < ev_major w \<or> ev_major v = ev_major w \<and>
     (ev_minor v < ev_minor w \<or> ev_minor v = ev_minor w \<and> ev_patch v < ev_patch w)"

definition less_eq_exact_version :: "exact_version \<Rightarrow> exact_version \<Rightarrow> bool" where
  "v \<le> w \<longleftrightarrow> v < w \<or> v = (w :: exact_version)"

instance
proof
  fix v w x :: exact_version
  show "v < w \<longleftrightarrow> v \<le> w \<and> \<not> w \<le> v"
    by (auto simp: less_eq_exact_version_def less_exact_version_def)
  show "v \<le> v" by (simp add: less_eq_exact_version_def)
  show "v \<le> w \<Longrightarrow> w \<le> x \<Longrightarrow> v \<le> x"
    by (auto simp: less_eq_exact_version_def less_exact_version_def)
  show "v \<le> w \<Longrightarrow> w \<le> v \<Longrightarrow> v = w"
    by (auto simp: less_eq_exact_version_def less_exact_version_def)
  show "v \<le> w \<or> w \<le> v"
    by (cases v; cases w) (auto simp: less_eq_exact_version_def less_exact_version_def)
qed

end

datatype version_range = VersionRange (vr_lower: exact_version) (vr_upper: exact_version)

section \<open>Parsing and printing\<close>

definition parse_component :: "string \<Rightarrow> u64 option" where
  "parse_component s =
     (if s = [] \<or> \<not> list_all is_ascii_digit s \<or> length s > 1 \<and> hd s = CHR ''0'' then None
      else if dec_value s < 2 ^ 64 then Some (of_nat (dec_value s)) else None)"

definition exact_version_parse :: "string \<Rightarrow> exact_version option" where
  "exact_version_parse s =
     (case split_on (CHR ''.'') s of
        [a, b, c] \<Rightarrow>
          (case (parse_component a, parse_component b, parse_component c) of
             (Some x, Some y, Some z) \<Rightarrow> Some (ExactVersion x y z)
           | _ \<Rightarrow> None)
      | _ \<Rightarrow> None)"

definition exact_version_text :: "exact_version \<Rightarrow> string" where
  "exact_version_text v = show_nat (unat (ev_major v)) @ ''.'' @ show_nat (unat (ev_minor v)) @ ''.''
     @ show_nat (unat (ev_patch v))"

definition version_range_text :: "version_range \<Rightarrow> string" where
  "version_range_text r = ''>='' @ exact_version_text (vr_lower r) @ '', <'' @ exact_version_text (vr_upper r)"

definition version_range_parse :: "string \<Rightarrow> version_range option" where
  "version_range_parse s =
     Option.bind (split_once2 (CHR '','') (CHR '' '') s) (\<lambda>(lo, up).
     Option.bind (strip_prefix ''>='' lo) (\<lambda>lo.
     Option.bind (exact_version_parse lo) (\<lambda>l.
     Option.bind (strip_prefix ''<'' up) (\<lambda>up.
     Option.bind (exact_version_parse up) (\<lambda>u.
     if l \<ge> u then None
     else let r = VersionRange l u in if version_range_text r \<noteq> s then None else Some r)))))"

definition version_range_contains :: "version_range \<Rightarrow> exact_version \<Rightarrow> bool" where
  "version_range_contains r v \<longleftrightarrow> vr_lower r \<le> v \<and> v < vr_upper r"

section \<open>Correctness\<close>

lemma parse_component_Some:
  "parse_component s = Some w \<longleftrightarrow> s = show_nat (unat w)"
proof
  assume a: "parse_component s = Some w"
  then have c: "canonical_decimal s" and l: "dec_value s < 2 ^ 64" and w: "w = of_nat (dec_value s)"
    by (auto simp: parse_component_def canonical_decimal_def split: if_splits)
  from l w have "unat w = dec_value s" by (simp add: unat_of_nat)
  with show_nat_dec_value [OF c] show "s = show_nat (unat w)" by simp
next
  assume s: "s = show_nat (unat w)"
  have "canonical_decimal s" by (simp add: s)
  moreover have "dec_value s < 2 ^ 64" using unsigned_less [of w, where ?'a = nat] by (simp add: s)
  ultimately show "parse_component s = Some w"
    by (auto simp: parse_component_def canonical_decimal_def s)
qed

lemma parse_component_show: "parse_component (show_nat (unat w)) = Some w"
  by (simp add: parse_component_Some)

lemma digits_no_char: "\<not> is_ascii_digit c \<Longrightarrow> c \<notin> set (show_nat n)"
  using show_nat_digits by blast

lemma not_digit [simp]: "\<not> is_ascii_digit CHR ''.''" "\<not> is_ascii_digit CHR '',''"
  "\<not> is_ascii_digit CHR ''>''" "\<not> is_ascii_digit CHR ''<''" "\<not> is_ascii_digit CHR ''=''"
  by (simp_all add: is_ascii_digit_def less_eq_char_def)

lemma split_version: "split_on CHR ''.'' (show_nat a @ CHR ''.'' # show_nat b @ CHR ''.'' # show_nat c) =
    [show_nat a, show_nat b, show_nat c]"
  by (simp add: split_on_append digits_no_char)

lemma exact_version_parse_iff: "exact_version_parse s = Some v \<longleftrightarrow> s = exact_version_text v"
proof
  assume p: "exact_version_parse s = Some v"
  then obtain a b c where sp: "split_on CHR ''.'' s = [a, b, c]"
    by (auto simp: exact_version_parse_def split: list.splits)
  with p have "a = show_nat (unat (ev_major v))" "b = show_nat (unat (ev_minor v))"
    "c = show_nat (unat (ev_patch v))"
    by (auto simp: exact_version_parse_def parse_component_Some split: option.splits)
  with split_on_join [OF sp] show "s = exact_version_text v"
    by (simp add: exact_version_text_def)
next
  assume "s = exact_version_text v"
  then show "exact_version_parse s = Some v"
    by (cases v) (simp add: exact_version_parse_def exact_version_text_def split_version
        parse_component_show)
qed

lemma version_text_no_comma: "CHR '','' \<notin> set (exact_version_text v)"
  by (simp add: exact_version_text_def digits_no_char)

lemma range_parts:
  "split_once2 CHR '','' CHR '' '' (version_range_text r) =
     Some (''>='' @ exact_version_text (vr_lower r), ''<'' @ exact_version_text (vr_upper r))"
  "strip_prefix ''>='' (''>='' @ s) = Some s" "strip_prefix ''<'' (''<'' @ s) = Some s"
  using split_once2_append [of "CHR '',''" "''>='' @ exact_version_text (vr_lower r)" "CHR '' ''"
      "''<'' @ exact_version_text (vr_upper r)"] version_text_no_comma [of "vr_lower r"]
  by (simp_all add: version_range_text_def strip_prefix_def)

lemma version_range_parse_iff:
  "version_range_parse s = Some r \<longleftrightarrow> s = version_range_text r \<and> vr_lower r < vr_upper r"
proof
  assume "version_range_parse s = Some r"
  then show "s = version_range_text r \<and> vr_lower r < vr_upper r"
    by (auto simp: version_range_parse_def bind_eq_Some_conv Let_def not_le split: if_splits)
next
  assume a: "s = version_range_text r \<and> vr_lower r < vr_upper r"
  have "exact_version_parse (exact_version_text v) = Some v" for v
    by (simp add: exact_version_parse_iff)
  moreover have "\<not> vr_upper r \<le> vr_lower r" using a by (simp add: not_le)
  ultimately show "version_range_parse s = Some r"
    using a by (simp add: version_range_parse_def range_parts del: append.simps)
qed

section \<open>Properties\<close>

text \<open>Versions have one spelling: a text parses to a version exactly when it is the text the
  version prints as, so parsing and printing are inverse to each other and no second text, with
  leading zeros, signs, extra components or an overflowing component, names a version.\<close>

theorem version_text_unique:
  "exact_version_parse s = Some v \<longleftrightarrow> s = exact_version_text v"
  by (rule exact_version_parse_iff)

text \<open>Ranges have one spelling and are never empty: a text parses to a range exactly when it is
  the range's own text and its lower bound is strictly below its upper bound; a parsed range
  contains its lower and not its upper bound.\<close>

theorem version_range_text_unique:
  "(version_range_parse s = Some r \<longleftrightarrow> s = version_range_text r \<and> vr_lower r < vr_upper r) \<and>
   (version_range_parse s = Some r \<longrightarrow>
      version_range_contains r (vr_lower r) \<and> \<not> version_range_contains r (vr_upper r))"
  using version_range_parse_iff [of s r] by (auto simp: version_range_contains_def)

theorem version_range_text_unique_witness:
  "version_range_contains (VersionRange (ExactVersion 1 0 0) (ExactVersion 2 0 0)) (ExactVersion 1 0 0)"
proof -
  have "version_range_parse (version_range_text (VersionRange (ExactVersion 1 0 0) (ExactVersion 2 0 0))) =
      Some (VersionRange (ExactVersion 1 0 0) (ExactVersion 2 0 0))"
    by (simp add: version_range_parse_iff less_exact_version_def)
  with version_range_text_unique
    [of "version_range_text (VersionRange (ExactVersion 1 0 0) (ExactVersion 2 0 0))"
        "VersionRange (ExactVersion 1 0 0) (ExactVersion 2 0 0)"]
  show ?thesis by simp
qed

end
