(* ===== verification/Handshake.thy ===== *)
theory Handshake
  imports Wire_Message Versions
begin

text \<open>
  The handshake parameters (\<open>josh-protocol/src/handshake.rs\<close>, \<open>version.rs\<close>) with the
  scalar validators of \<open>payload.rs\<close> they call. Semantic versions are the
  \<open>semver\<close> crate: its parser, its order and its printing are the fields of the parameter
  \<open>semver_lib\<close>.
\<close>

section \<open>Versions\<close>

definition PROTOCOL_VERSION :: string where
  "PROTOCOL_VERSION = ''josh/1.6''"

definition LANGUAGE_VERSION :: string where
  "LANGUAGE_VERSION = ''0.1.1''"

definition FEATURES :: "string list" where
  "FEATURES = [''agent'', ''catalog-provenance'', ''exec-run'', ''external-fs-grants'',
     ''host-projection'', ''model'', ''record-replay'', ''structured-prompts'',
     ''structured-transcript'', ''sub-agents'', ''typed-responses'', ''typed-tools'',
     ''user-interaction'']"

record semver =
  sv_major :: u64
  sv_minor :: u64
  sv_patch :: u64
  sv_pre :: string
  sv_build :: string

record semver_lib =
  sv_parse :: "string \<Rightarrow> semver option"
  sv_less :: "semver \<Rightarrow> semver \<Rightarrow> bool"
  sv_text :: "semver \<Rightarrow> string"

definition exact :: "u64 \<Rightarrow> u64 \<Rightarrow> u64 \<Rightarrow> semver" where
  "exact a b c = \<lparr>sv_major = a, sv_minor = b, sv_patch = c, sv_pre = [], sv_build = []\<rparr>"

section \<open>Scalar validators\<close>

text \<open>\<open>chars().any(char::is_control)\<close> on the UTF-8 bytes of a string: C0 controls, DEL, and
  the C1 controls, whose encodings are the byte 194 followed by 128 to 159.\<close>

fun has_control :: "string \<Rightarrow> bool" where
  "has_control [] = False"
| "has_control (c # cs) =
     (in_range 0 31 c \<or> of_char c = (127::nat)
      \<or> (of_char c = (194::nat) \<and> cs \<noteq> [] \<and> in_range 128 159 (hd cs))
      \<or> has_control cs)"

definition validate_session_id :: "string \<Rightarrow> protocol_error + unit" where
  "validate_session_id s =
     (if s = [] \<or> length s > 256 \<or> has_control s
      then Inl (invalid ''invoking session ID is invalid'') else Inr ())"

definition validate_semver :: "semver_lib \<Rightarrow> string \<Rightarrow> protocol_error + unit" where
  "validate_semver L v =
     (case sv_parse L v of
        None \<Rightarrow> Inl (invalid ''version is not semantic version text'')
      | Some p \<Rightarrow>
          (if sv_pre p \<noteq> [] \<or> sv_build p \<noteq> [] \<or> sv_text L p \<noteq> v
           then Inl (invalid ''version is not a canonical exact semantic version'')
           else Inr ()))"

definition validate_language_range :: "semver_lib \<Rightarrow> string \<Rightarrow> protocol_error + unit" where
  "validate_language_range L rng =
     (case split_once2 (CHR '','') (CHR '' '') rng of
        None \<Rightarrow> Inl (invalid ''language range must have one lower and one upper bound'')
      | Some (lower, upper) \<Rightarrow>
        (case strip_prefix ''>='' lower of
           None \<Rightarrow> Inl (invalid ''language range lower bound is invalid'')
         | Some lower \<Rightarrow>
           (case strip_prefix ''<'' upper of
              None \<Rightarrow> Inl (invalid ''language range upper bound is invalid'')
            | Some upper \<Rightarrow>
                result_bind (validate_semver L lower) (\<lambda>_.
                result_bind (validate_semver L upper) (\<lambda>_.
                result_bind (ok_or (sv_parse L lower) (invalid ''language range is invalid'')) (\<lambda>lo.
                result_bind (ok_or (sv_parse L upper) (invalid ''language range is invalid'')) (\<lambda>hi.
                if \<not> sv_less L lo hi then Inl (invalid ''language range is empty'') else Inr ())))))))"

text \<open>The version the range is asked about is the literal \<open>0.1.0\<close> of the source.\<close>

definition range_contains_language :: "semver_lib \<Rightarrow> string \<Rightarrow> bool" where
  "range_contains_language L rng =
     (case split_once2 (CHR '','') (CHR '' '') rng of
        None \<Rightarrow> False
      | Some (lower, upper) \<Rightarrow>
        (case (strip_prefix ''>='' lower, strip_prefix ''<'' upper) of
           (Some lower, Some upper) \<Rightarrow>
             (case (sv_parse L lower, sv_parse L upper) of
                (Some lo, Some hi) \<Rightarrow>
                  (let current = exact 0 1 0 in \<not> sv_less L current lo \<and> sv_less L current hi)
              | _ \<Rightarrow> False)
         | _ \<Rightarrow> False))"

fun strictly_ascending :: "'a::linorder list \<Rightarrow> bool" where
  "strictly_ascending (x # y # r) = (x < y \<and> strictly_ascending (y # r))"
| "strictly_ascending _ = True"

definition validate_sorted_unique :: "string list \<Rightarrow> string \<Rightarrow> protocol_error + unit" where
  "validate_sorted_unique values name =
     ensure (strictly_ascending values) (invalid (name @ '' must be sorted and unique''))"

section \<open>Parameters and their validation\<close>

record peer_info =
  pi_name :: string
  pi_version :: string

definition peer_info_validate :: "semver_lib \<Rightarrow> peer_info \<Rightarrow> protocol_error + unit" where
  "peer_info_validate L p =
     (if \<not> (1 \<le> length (pi_name p) \<and> length (pi_name p) \<le> 128)
      then Inl (invalid ''peer name must be 1 through 128 UTF-8 bytes'')
      else validate_semver L (pi_version p))"

record protocol_limits =
  max_frame_bytes :: u64
  max_active_requests :: u64
  max_loaded_programs :: u64
  max_total_executions :: u64
  max_catalog_tools :: u64
  max_catalog_bytes :: u64

definition protocol_limits_validate :: "protocol_limits \<Rightarrow> protocol_error + unit" where
  "protocol_limits_validate l =
     (if list_ex (\<lambda>x. x = 0) [max_frame_bytes l, max_active_requests l, max_loaded_programs l,
         max_total_executions l, max_catalog_tools l, max_catalog_bytes l]
      then Inl (invalid ''protocol limits must be positive integers'') else Inr ())"

datatype execution_mode = Unattended | Attached

datatype invoking_session_id = NullSession | SessionId string

record initialize_params =
  ip_host :: peer_info
  ip_protocol_versions :: "string list"
  ip_language_versions :: "string list"
  ip_execution_mode :: execution_mode
  ip_invoking_session_id :: invoking_session_id
  ip_standard_capabilities :: "string list"
  ip_limits :: protocol_limits
  ip_extensions :: "string list"

definition validate_protocol_version :: "initialize_params \<Rightarrow> protocol_error + unit" where
  "validate_protocol_version p =
     (case ip_protocol_versions p of
        [v] \<Rightarrow> (if v = PROTOCOL_VERSION then Inr ()
                else Inl (invalid ''protocol_versions must contain exactly the current protocol version''))
      | _ \<Rightarrow> Inl (invalid ''protocol_versions must contain exactly the current protocol version''))"

fun bound_session_id :: "invoking_session_id \<Rightarrow> string option" where
  "bound_session_id (SessionId s) = Some s"
| "bound_session_id NullSession = None"

fun try_all :: "('a \<Rightarrow> 'e + unit) \<Rightarrow> 'a list \<Rightarrow> 'e + unit" where
  "try_all f [] = Inr ()"
| "try_all f (x # xs) = result_bind (f x) (\<lambda>_. try_all f xs)"

definition validate_languages :: "semver_lib \<Rightarrow> string list \<Rightarrow> protocol_error + unit" where
  "validate_languages L ranges =
     (if ranges = [] \<or> \<not> list_ex (\<lambda>r. is_ok (validate_language_range L r) \<and> range_contains_language L r) ranges
      then Inl (invalid ''language_versions must contain 0.1.1'')
      else try_all (validate_language_range L) ranges)"

definition standard_capability :: "string \<Rightarrow> bool" where
  "standard_capability c \<longleftrightarrow>
     c \<in> {''fs.read'', ''fs.write'', ''net.http_get'', ''permission.request_external_fs''}"

fun validate_session_mode :: "execution_mode \<Rightarrow> invoking_session_id \<Rightarrow> protocol_error + unit" where
  "validate_session_mode Unattended NullSession = Inr ()"
| "validate_session_mode Attached (SessionId s) = validate_session_id s"
| "validate_session_mode _ _ =
     Inl (invalid ''josh/1.6 invoking_session_id does not match execution_mode'')"

definition initialize_params_validate :: "semver_lib \<Rightarrow> initialize_params \<Rightarrow> protocol_error + unit" where
  "initialize_params_validate L p =
     result_bind (peer_info_validate L (ip_host p)) (\<lambda>_.
     result_bind (validate_protocol_version p) (\<lambda>_.
     result_bind (validate_languages L (ip_language_versions p)) (\<lambda>_.
     result_bind (validate_sorted_unique (ip_standard_capabilities p) ''standard_capabilities'') (\<lambda>_.
     result_bind (try_all (\<lambda>c. ensure (standard_capability c)
         (invalid ''standard capability is not implemented'')) (ip_standard_capabilities p)) (\<lambda>_.
     result_bind (protocol_limits_validate (ip_limits p)) (\<lambda>_.
     result_bind (ensure (ip_extensions p = []) (invalid ''extensions must be empty'')) (\<lambda>_.
     validate_session_mode (ip_execution_mode p) (ip_invoking_session_id p))))))))"

record initialize_result =
  ir_protocol_version :: string
  ir_runtime :: peer_info
  ir_language_version :: string
  ir_features :: "string list"
  ir_limits :: protocol_limits

definition initialize_result_validate :: "semver_lib \<Rightarrow> initialize_result \<Rightarrow> protocol_error + unit" where
  "initialize_result_validate L r =
     (if ir_protocol_version r \<noteq> PROTOCOL_VERSION \<or> ir_language_version r \<noteq> LANGUAGE_VERSION
      then Inl (invalid ''initialize result selected an unsupported version'')
      else result_bind (peer_info_validate L (ir_runtime r)) (\<lambda>_.
        if ir_features r \<noteq> FEATURES
        then Inl (invalid ''initialize result features do not match the current protocol'')
        else protocol_limits_validate (ir_limits r)))"

section \<open>What a valid handshake guarantees\<close>

lemma try_all_ok: "try_all f xs = Inr () \<longleftrightarrow> (\<forall>x \<in> set xs. f x = Inr ())"
  by (induction xs) (auto simp: result_simps)

lemma validate_session_mode_ok:
  "validate_session_mode m s = Inr () \<Longrightarrow> (m = Attached \<longleftrightarrow> bound_session_id s \<noteq> None)"
  by (cases "(m, s)" rule: validate_session_mode.cases) auto

lemma initialize_params_session:
  "initialize_params_validate L p = Inr () \<Longrightarrow>
   (ip_execution_mode p = Attached \<longleftrightarrow> bound_session_id (ip_invoking_session_id p) \<noteq> None)"
  using validate_session_mode_ok by (auto simp: initialize_params_validate_def result_simps)


subsection \<open>Semantic versions\<close>

text \<open>What the validators rely on of the \<open>semver\<close> crate: canonical exact versions parse to
  their components and print back, and precedence on them is lexicographic.\<close>

definition semver_contract :: "semver_lib \<Rightarrow> bool" where
  "semver_contract L \<longleftrightarrow>
     (\<forall>a b c. sv_parse L (exact_version_text (ExactVersion a b c)) = Some (exact a b c)) \<and>
     (\<forall>a b c. sv_text L (exact a b c) = exact_version_text (ExactVersion a b c)) \<and>
     (\<forall>a b c a' b' c'. sv_less L (exact a b c) (exact a' b' c') \<longleftrightarrow>
        ExactVersion a b c < ExactVersion a' b' c')"

abbreviation exact_of :: "exact_version \<Rightarrow> semver" where
  "exact_of v \<equiv> exact (ev_major v) (ev_minor v) (ev_patch v)"

lemma semver_contractD:
  assumes "semver_contract L"
  shows "sv_parse L (exact_version_text v) = Some (exact_of v)"
    and "sv_text L (exact_of v) = exact_version_text v"
    and "sv_less L (exact_of v) (exact_of w) \<longleftrightarrow> v < w"
  using assms by (cases v; cases w; simp add: semver_contract_def)+

lemma validate_semver_ok:
  assumes L: "semver_contract L"
  shows "validate_semver L s = Inr () \<longleftrightarrow> (\<exists>v. s = exact_version_text v)"
proof
  assume "validate_semver L s = Inr ()"
  then obtain p where p: "sv_pre p = []" "sv_build p = []" "sv_text L p = s"
    by (auto simp: validate_semver_def split: option.splits if_splits)
  then have "p = exact_of (ExactVersion (sv_major p) (sv_minor p) (sv_patch p))"
    by (cases p) (simp add: exact_def)
  with p semver_contractD(2) [OF L] show "\<exists>v. s = exact_version_text v" by metis
next
  assume "\<exists>v. s = exact_version_text v"
  then obtain v where "s = exact_version_text v" by blast
  then show "validate_semver L s = Inr ()"
    by (simp add: validate_semver_def semver_contractD [OF L]) (simp add: exact_def)
qed

lemma validate_semver_text:
  "semver_contract L \<Longrightarrow> validate_semver L (exact_version_text v) = Inr ()"
  by (auto simp: validate_semver_ok)

lemma validate_language_range_ok:
  assumes L: "semver_contract L"
  shows "validate_language_range L s = Inr () \<longleftrightarrow> (\<exists>r. version_range_parse s = Some r)"
proof
  assume "validate_language_range L s = Inr ()"
  then obtain lo up l u x y where sp: "split_once2 CHR '','' CHR '' '' s = Some (lo, up)"
      "strip_prefix ''>='' lo = Some l" "strip_prefix ''<'' up = Some u"
    and ok: "validate_semver L l = Inr ()" "validate_semver L u = Inr ()"
    and less: "sv_parse L l = Some x" "sv_parse L u = Some y" "sv_less L x y"
    by (auto simp: validate_language_range_def result_simps split: option.splits if_splits)
  from ok obtain v w where vw: "l = exact_version_text v" "u = exact_version_text w"
    by (auto simp: validate_semver_ok [OF L])
  with less have "v < w" by (auto simp: semver_contractD [OF L])
  moreover have "s = version_range_text (VersionRange v w)"
    using split_once2_Some [OF sp(1)] sp(2,3) vw
    by (simp add: version_range_text_def strip_prefix_Some)
  ultimately have "version_range_parse s = Some (VersionRange v w)"
    by (simp add: version_range_parse_iff)
  then show "\<exists>r. version_range_parse s = Some r" by blast
next
  assume "\<exists>r. version_range_parse s = Some r"
  then obtain r where r: "s = version_range_text r" "vr_lower r < vr_upper r"
    by (auto simp: version_range_parse_iff)
  then show "validate_language_range L s = Inr ()"
    by (simp add: validate_language_range_def range_parts semver_contractD [OF L]
        validate_semver_text [OF L] result_simps del: append.simps)
qed

lemma range_contains_language_iff:
  assumes L: "semver_contract L" and r: "version_range_parse s = Some r"
  shows "range_contains_language L s \<longleftrightarrow> version_range_contains r (ExactVersion 0 1 0)"
proof -
  have s: "s = version_range_text r" using r by (simp add: version_range_parse_iff)
  have "exact 0 1 0 = exact_of (ExactVersion 0 1 0)" by simp
  then show ?thesis
    unfolding s range_contains_language_def version_range_contains_def
    by (simp only: range_parts semver_contractD [OF L] option.case prod.case Let_def not_less)
qed

lemma validate_languages_one:
  assumes "semver_contract L" "version_range_parse s = Some r"
  shows "validate_languages L [s] =
    (if version_range_contains r (ExactVersion 0 1 0) then Inr ()
     else Inl (invalid ''language_versions must contain 0.1.1''))"
proof -
  have "validate_language_range L s = Inr ()" using validate_language_range_ok assms by blast
  then show ?thesis
    by (simp add: validate_languages_def range_contains_language_iff [OF assms] is_ok_def result_simps)
qed

lemma range_after: "version_range_parse ''>=0.1.1, <0.2.0'' =
    Some (VersionRange (ExactVersion 0 1 1) (ExactVersion 0 2 0))"
  and range_before: "version_range_parse ''>=0.1.0, <0.1.1'' =
    Some (VersionRange (ExactVersion 0 1 0) (ExactVersion 0 1 1))"
  by (simp_all add: version_range_parse_iff version_range_text_def exact_version_text_def
      less_exact_version_def show_nat.simps digit_char_def char_of_def bit_0)

section \<open>Properties\<close>

text \<open>The protocol crate and the schema crate accept the same version ranges: a language range
  passes the handshake's validator exactly when the schema crate parses it.\<close>

theorem language_ranges_agree:
  assumes "semver_contract L"
  shows "validate_language_range L s = Inr () \<longleftrightarrow> (\<exists>r. version_range_parse s = Some r)"
  by (rule validate_language_range_ok [OF assms])

text \<open>(C20) Version negotiation tests the wrong version: of the ranges it can read, a single offered
  range is accepted exactly when it contains 0.1.0, although the language version the runtime then
  selects, and the one the error message names, is 0.1.1. So the range that starts at 0.1.1 is
  refused, and one that ends before 0.1.1 is accepted.\<close>

theorem negotiation_tests_0_1_0:
  assumes "semver_contract L"
  shows "(version_range_parse s = Some r \<longrightarrow>
      validate_languages L [s] = Inr () \<longleftrightarrow> version_range_contains r (ExactVersion 0 1 0)) \<and>
    LANGUAGE_VERSION = exact_version_text (ExactVersion 0 1 1) \<and>
    validate_languages L [''>=0.1.1, <0.2.0''] = Inl (invalid ''language_versions must contain 0.1.1'') \<and>
    validate_languages L [''>=0.1.0, <0.1.1''] = Inr ()"
proof -
  have "version_range_parse s = Some r \<longrightarrow>
      (validate_languages L [s] = Inr () \<longleftrightarrow> version_range_contains r (ExactVersion 0 1 0))"
    by (simp add: validate_languages_one [OF assms])
  moreover have "LANGUAGE_VERSION = exact_version_text (ExactVersion 0 1 1)"
    by (simp add: LANGUAGE_VERSION_def exact_version_text_def show_nat.simps digit_char_def char_of_def bit_0)
  ultimately show ?thesis
    using validate_languages_one [OF assms range_after] validate_languages_one [OF assms range_before]
    by (simp add: version_range_contains_def less_eq_exact_version_def less_exact_version_def)
qed

text \<open>The contract holds of the schema crate's own parser, printer and order.\<close>

definition sample_semver :: semver_lib where
  "sample_semver = \<lparr>sv_parse = (\<lambda>s. map_option exact_of (exact_version_parse s)),
     sv_less = (\<lambda>p q. ExactVersion (sv_major p) (sv_minor p) (sv_patch p)
                  < ExactVersion (sv_major q) (sv_minor q) (sv_patch q)),
     sv_text = (\<lambda>p. exact_version_text (ExactVersion (sv_major p) (sv_minor p) (sv_patch p)))\<rparr>"

lemma sample_semver_contract: "semver_contract sample_semver"
proof -
  have "exact_version_parse (exact_version_text v) = Some v" for v
    by (simp add: exact_version_parse_iff)
  then show ?thesis by (simp add: semver_contract_def sample_semver_def exact_def)
qed

theorem language_ranges_agree_witness:
  "validate_language_range sample_semver ''>=0.1.0, <0.1.1'' = Inr ()"
  using language_ranges_agree [OF sample_semver_contract] range_before by blast

theorem negotiation_tests_0_1_0_witness:
  "validate_languages sample_semver [''>=0.1.1, <0.2.0''] \<noteq> Inr () \<and>
   version_range_contains (VersionRange (ExactVersion 0 1 1) (ExactVersion 0 2 0)) (ExactVersion 0 1 1)"
  using negotiation_tests_0_1_0 [OF sample_semver_contract, of "''>=0.1.1, <0.2.0''"]
  by (simp add: version_range_contains_def less_eq_exact_version_def less_exact_version_def)

end
