(* ===== verification/Tracker.thy ===== *)
theory Tracker
  imports Handshake
begin

text \<open>
  \<open>ProtocolTracker\<close> (\<open>josh-protocol/src/state.rs\<close>): the connection state and the
  request identifiers active in each direction, one definition per method of the source.
  A \<open>&mut self\<close> method takes the tracker and returns its result with the new tracker, so
  that what a failing call leaves behind is visible.

  The typed parameters of the bound requests and notifications are read by
  \<open>request_params\<close> and \<open>notification_params\<close> over the structs of \<open>payload.rs\<close>,
  which this theory does not open: they are the fields of the parameter \<open>payloads\<close>, each
  giving the identities a well-formed payload carries, or \<open>None\<close> for a payload that does
  not deserialise or does not validate.
\<close>

section \<open>State\<close>

datatype peer_role = Host | Runtime

datatype connection_state =
    New | Initialized | Projected | CatalogFrozen | ProgramLoaded | Disconnected

datatype receive_action =
    RequestAccepted
  | ResponseAccepted string
  | NotificationAccepted
  | CancelObserved bool bool

record request_state_error =
  rse_code :: wire_error_code
  rse_fatal :: bool
  rse_message :: error_text

definition fatal :: "string \<Rightarrow> request_state_error" where
  "fatal m = \<lparr>rse_code = ProtocolViolation, rse_fatal = True, rse_message = Text m\<rparr>"

definition request_error :: "wire_error_code \<Rightarrow> string \<Rightarrow> request_state_error" where
  "request_error c m = \<lparr>rse_code = c, rse_fatal = False, rse_message = Text m\<rparr>"

record tracker =
  t_role :: peer_role
  t_state :: connection_state
  t_max_active :: nat
  t_incoming :: "(string, string) btree_map"
  t_outgoing :: "(string, string) btree_map"
  t_cancelled_incoming :: "string set"
  t_late_outgoing :: "string set"
  t_late_order :: "string list"
  t_late_limit :: nat
  t_active_execution :: bool
  t_active_execution_id :: "string option"
  t_execution_mode :: "execution_mode option"
  t_invoking_session_id :: "string option"

definition tracker_new :: "peer_role \<Rightarrow> nat \<Rightarrow> tracker" where
  "tracker_new role max_active =
     \<lparr>t_role = role, t_state = New, t_max_active = max_active, t_incoming = bt_empty,
      t_outgoing = bt_empty, t_cancelled_incoming = {}, t_late_outgoing = {}, t_late_order = [],
      t_late_limit = max max_active 1, t_active_execution = False, t_active_execution_id = None,
      t_execution_mode = None, t_invoking_session_id = None\<rparr>"

definition set_max_active_requests :: "nat \<Rightarrow> tracker \<Rightarrow> tracker" where
  "set_max_active_requests limit t = t\<lparr>t_max_active := limit, t_late_limit := max limit 1\<rparr>"

section \<open>Methods, directions and states\<close>

definition bound_agent_methods :: "string list" where
  "bound_agent_methods = [''agent/message'', ''agent/ask'', ''agent/transcript'', ''permission/request'']"

definition bound_execution_methods :: "string list" where
  "bound_execution_methods = [''model/request'', ''user/ask'', ''sub_agent/create'', ''sub_agent/run'',
     ''sub_agent/message'', ''sub_agent/ask'']"

definition host_methods :: "string list" where
  "host_methods = [''initialize'', ''host/project'', ''catalog/set'', ''program/load'', ''execution/start'']"

definition is_bound_request :: "string \<Rightarrow> bool" where
  "is_bound_request m \<longleftrightarrow> m \<in> set bound_agent_methods \<or> m \<in> set bound_execution_methods"

fun sender_role :: "peer_role \<Rightarrow> bool \<Rightarrow> peer_role" where
  "sender_role Host True = Runtime"
| "sender_role Runtime False = Runtime"
| "sender_role Host False = Host"
| "sender_role Runtime True = Host"

definition defined_sender :: "string \<Rightarrow> peer_role option" where
  "defined_sender m =
     (if m \<in> set host_methods then Some Host
      else if m = ''tool/invoke'' \<or> m \<in> set bound_agent_methods \<or> m \<in> set bound_execution_methods
      then Some Runtime else None)"

definition valid_state :: "tracker \<Rightarrow> string \<Rightarrow> bool" where
  "valid_state t m =
    (if m = ''initialize'' then t_state t = New
     else if m = ''host/project'' then t_state t = Initialized
     else if m = ''catalog/set'' then t_state t = Projected
     else if m = ''program/load'' then t_state t = CatalogFrozen \<or> t_state t = ProgramLoaded
     else if m = ''execution/start'' then t_state t = ProgramLoaded \<and> \<not> t_active_execution t
     else if m = ''tool/invoke'' then t_state t = ProgramLoaded \<and> t_active_execution t
     else if m \<in> set bound_agent_methods then
       t_state t = ProgramLoaded \<and> t_active_execution t \<and> t_execution_mode t = Some Attached
       \<and> t_invoking_session_id t \<noteq> None \<and> t_active_execution_id t \<noteq> None
     else if m \<in> set bound_execution_methods then
       t_state t = ProgramLoaded \<and> t_active_execution t \<and> t_active_execution_id t \<noteq> None
     else False)"

definition check_method :: "tracker \<Rightarrow> string \<Rightarrow> bool \<Rightarrow> request_state_error + unit" where
  "check_method t m incoming =
     (case defined_sender m of
        None \<Rightarrow> Inl (request_error RequestMethodNotFound ''request method is unknown'')
      | Some sender \<Rightarrow>
          (if sender \<noteq> sender_role (t_role t) incoming
           then Inl (request_error RequestMethodNotFound ''request method has the wrong direction'')
           else if \<not> valid_state t m
           then Inl (request_error RequestInvalidState ''request method is invalid in the current state'')
           else Inr ()))"

definition notification_ok :: "tracker \<Rightarrow> string \<Rightarrow> peer_role \<Rightarrow> bool" where
  "notification_ok t m sender =
    (if m = ''runtime/ready'' then sender = Runtime \<and> t_state t = New
     else if m = ''execution/event'' then
       sender = Runtime \<and> t_state t = ProgramLoaded \<and> t_active_execution t
     else if m = ''permission/revoke'' then
       sender = Host \<and> t_state t = ProgramLoaded \<and> t_active_execution t
       \<and> t_execution_mode t = Some Attached \<and> t_invoking_session_id t \<noteq> None
       \<and> t_active_execution_id t \<noteq> None
     else False)"

definition check_notification :: "tracker \<Rightarrow> string \<Rightarrow> bool \<Rightarrow> request_state_error + unit" where
  "check_notification t m incoming =
    (if notification_ok t m (sender_role (t_role t) incoming) then Inr ()
     else if m \<in> {''runtime/ready'', ''execution/event'', ''permission/revoke''}
     then Inl (fatal ''notification is invalid in the current state or direction'')
     else Inl (fatal ''notification method is unknown''))"

section \<open>Identity bindings\<close>

record payloads =
  bound_params :: "string \<Rightarrow> json \<Rightarrow> (string \<times> string) option"
  execution_params :: "string \<Rightarrow> json \<Rightarrow> string option"
  revoke_params :: "json \<Rightarrow> (string \<times> string) option"
  event_params :: "json \<Rightarrow> (string \<times> bool) option"

definition params_invalid :: request_state_error where
  "params_invalid = \<lparr>rse_code = RequestInvalid, rse_fatal = False, rse_message = LibraryText\<rparr>"

definition fatal_malformed :: request_state_error where
  "fatal_malformed = \<lparr>rse_code = ProtocolViolation, rse_fatal = True, rse_message = LibraryText\<rparr>"

definition ensure_bound_identities :: "tracker \<Rightarrow> string \<Rightarrow> string \<Rightarrow> request_state_error + unit" where
  "ensure_bound_identities t execution_id session_id =
     (if t_active_execution_id t \<noteq> Some execution_id \<or> t_invoking_session_id t \<noteq> Some session_id
      then Inl (fatal ''message identities do not match the active attached binding'')
      else Inr ())"

definition ensure_active_execution :: "tracker \<Rightarrow> string \<Rightarrow> request_state_error + unit" where
  "ensure_active_execution t execution_id =
     (if t_active_execution_id t \<noteq> Some execution_id
      then Inl (fatal ''message execution identity does not match the active execution'')
      else Inr ())"

fun validate_request_binding :: "payloads \<Rightarrow> tracker \<Rightarrow> wire_message \<Rightarrow> request_state_error + unit" where
  "validate_request_binding P t (Request i m p) =
     (if m \<in> set bound_agent_methods then
        (case bound_params P m p of
           None \<Rightarrow> Inl params_invalid
         | Some (execution_id, session_id) \<Rightarrow> ensure_bound_identities t execution_id session_id)
      else if m \<in> set bound_execution_methods then
        (case execution_params P m p of
           None \<Rightarrow> Inl params_invalid
         | Some execution_id \<Rightarrow> ensure_active_execution t execution_id)
      else Inr ())"
| "validate_request_binding P t _ = Inl (request_error RequestInvalid ''expected request message'')"

text \<open>The second component of \<open>event_params\<close> is \<open>kind == EventKind::PermissionDecision\<close>.\<close>

fun validate_notification_binding ::
    "payloads \<Rightarrow> tracker \<Rightarrow> wire_message \<Rightarrow> request_state_error + unit" where
  "validate_notification_binding P t (Notification m p) =
     (if m = ''permission/revoke'' then
        (case revoke_params P p of
           None \<Rightarrow> Inl fatal_malformed
         | Some (execution_id, session_id) \<Rightarrow> ensure_bound_identities t execution_id session_id)
      else if m = ''execution/event'' then
        (case event_params P p of
           None \<Rightarrow> Inl fatal_malformed
         | Some (execution_id, permission_decision) \<Rightarrow>
             (if (case t_active_execution_id t of Some e \<Rightarrow> e \<noteq> execution_id | None \<Rightarrow> False)
              then Inl (fatal ''execution event does not match the active execution'')
              else if permission_decision \<and> t_active_execution_id t = None
              then Inl (fatal ''permission decision event requires an active execution'')
              else Inr ()))
      else Inr ())"
| "validate_notification_binding P t _ = Inl (fatal ''expected notification message'')"

section \<open>Outgoing messages\<close>

definition insert_outgoing :: "string \<Rightarrow> string \<Rightarrow> tracker \<Rightarrow> (request_state_error + unit) \<times> tracker" where
  "insert_outgoing i m t =
     (if bt_contains (t_outgoing t) i
      then (Inl (fatal ''duplicate active outgoing request ID''), t)
      else if bt_len (t_outgoing t) \<ge> t_max_active t
      then (Inl (request_error RequestLimit ''outgoing active request limit reached''), t)
      else (Inr (), t\<lparr>t_outgoing := bt_insert i m (t_outgoing t)\<rparr>))"

definition register_outgoing_request ::
    "string \<Rightarrow> string \<Rightarrow> tracker \<Rightarrow> (request_state_error + unit) \<times> tracker" where
  "register_outgoing_request i m t =
     (if is_bound_request m
      then (Inl (request_error RequestInvalid
        ''bound requests must be registered with their complete message''), t)
      else case check_method t m False of
        Inl e \<Rightarrow> (Inl e, t)
      | Inr _ \<Rightarrow> insert_outgoing i m t)"

fun register_outgoing_message ::
    "payloads \<Rightarrow> wire_message \<Rightarrow> tracker \<Rightarrow> (request_state_error + unit) \<times> tracker" where
  "register_outgoing_message P (Request i m p) t =
     (case check_method t m False of
        Inl e \<Rightarrow> (Inl e, t)
      | Inr _ \<Rightarrow>
          (case validate_request_binding P t (Request i m p) of
             Inl e \<Rightarrow> (Inl e, t)
           | Inr _ \<Rightarrow> insert_outgoing i m t))"
| "register_outgoing_message P _ t =
     (Inl (request_error RequestInvalid ''outgoing message is not a request''), t)"

fun validate_outgoing_notification ::
    "payloads \<Rightarrow> tracker \<Rightarrow> wire_message \<Rightarrow> request_state_error + unit" where
  "validate_outgoing_notification P t (Notification m p) =
     result_bind (check_notification t m False) (\<lambda>_.
       validate_notification_binding P t (Notification m p))"
| "validate_outgoing_notification P t _ = Inl (fatal ''outgoing message is not a notification'')"

text \<open>The \<open>while\<close> loop of \<open>cancel_outgoing\<close>: the oldest identifiers are dropped until the
  queue is within its limit.\<close>

fun expire_late :: "nat \<Rightarrow> string list \<Rightarrow> string set \<Rightarrow> string list \<times> string set" where
  "expire_late limit [] late = ([], late)"
| "expire_late limit (x # xs) late =
     (if length (x # xs) > limit then expire_late limit xs (late - {x}) else (x # xs, late))"

definition cancel_outgoing :: "string \<Rightarrow> tracker \<Rightarrow> bool \<times> tracker" where
  "cancel_outgoing i t =
     (if bt_get (t_outgoing t) i = None then (False, t)
      else
        (let out = bt_remove i (t_outgoing t);
             order = (if i \<in> t_late_outgoing t then t_late_order t else t_late_order t @ [i]);
             late = insert i (t_late_outgoing t);
             (order', late') = expire_late (t_late_limit t) order late
         in (True, t\<lparr>t_outgoing := out, t_late_order := order', t_late_outgoing := late'\<rparr>)))"

section \<open>Incoming messages\<close>

text \<open>The three set-up requests are singletons: none may start while one of its method is active
  in either direction.\<close>

definition singleton_active :: "tracker \<Rightarrow> string \<Rightarrow> bool" where
  "singleton_active t m \<longleftrightarrow>
     m \<in> {''initialize'', ''host/project'', ''catalog/set''}
     \<and> m \<in> set (bt_values (t_incoming t) @ bt_values (t_outgoing t))"

definition receive_request :: "payloads \<Rightarrow> string \<Rightarrow> string \<Rightarrow> json \<Rightarrow> tracker \<Rightarrow>
    (request_state_error + receive_action) \<times> tracker" where
  "receive_request P i m p t =
     (if bt_contains (t_incoming t) i
      then (Inl (fatal ''duplicate active incoming request ID''), t)
      else case check_method t m True of
        Inl e \<Rightarrow> (Inl e, t)
      | Inr _ \<Rightarrow>
        (case validate_request_binding P t (Request i m p) of
           Inl e \<Rightarrow> (Inl e, t)
         | Inr _ \<Rightarrow>
           (if singleton_active t m
            then (Inl (request_error RequestInvalidState
              ''singleton request method is already active''), t)
            else if bt_len (t_incoming t) \<ge> t_max_active t
            then (Inl (request_error RequestLimit ''incoming active request limit reached''), t)
            else (Inr RequestAccepted, t\<lparr>t_incoming := bt_insert i m (t_incoming t)\<rparr>))))"

definition receive_response ::
    "string \<Rightarrow> tracker \<Rightarrow> (request_state_error + receive_action) \<times> tracker" where
  "receive_response i t =
     (case bt_get (t_outgoing t) i of
        Some m \<Rightarrow> (Inr (ResponseAccepted m), t\<lparr>t_outgoing := bt_remove i (t_outgoing t)\<rparr>)
      | None \<Rightarrow>
          (if i \<in> t_late_outgoing t
           then (Inl (fatal ''response arrived after its outgoing request was cancelled''),
                 t\<lparr>t_late_outgoing := t_late_outgoing t - {i},
                   t_late_order := filter (\<lambda>c. c \<noteq> i) (t_late_order t)\<rparr>)
           else (Inl (fatal ''response has an unknown or terminal request ID''), t)))"

fun receive :: "payloads \<Rightarrow> wire_message \<Rightarrow> tracker \<Rightarrow>
    (request_state_error + receive_action) \<times> tracker" where
  "receive P (Request i m p) t = receive_request P i m p t"
| "receive P (Response i r e) t = receive_response i t"
| "receive P (Notification m p) t =
     (result_bind (check_notification t m True) (\<lambda>_.
      result_bind (validate_notification_binding P t (Notification m p)) (\<lambda>_.
      Inr NotificationAccepted)), t)"
| "receive P (Cancel i r) t =
     (let active = bt_contains (t_incoming t) i;
          first = (active \<and> i \<notin> t_cancelled_incoming t)
      in (Inr (CancelObserved active first),
          if active then t\<lparr>t_cancelled_incoming := insert i (t_cancelled_incoming t)\<rparr> else t))"

definition commit_response :: "string \<Rightarrow> tracker \<Rightarrow> (request_state_error + string) \<times> tracker" where
  "commit_response i t =
     (case bt_get (t_incoming t) i of
        None \<Rightarrow> (Inl (fatal ''response commits an unknown incoming ID''), t)
      | Some m \<Rightarrow> (Inr m, t\<lparr>t_incoming := bt_remove i (t_incoming t),
                           t_cancelled_incoming := t_cancelled_incoming t - {i}\<rparr>))"

definition is_cancelled :: "tracker \<Rightarrow> string \<Rightarrow> bool" where
  "is_cancelled t i \<longleftrightarrow> i \<in> t_cancelled_incoming t"

section \<open>Connection life cycle\<close>

definition initialize_binding :: "execution_mode \<Rightarrow> string option \<Rightarrow> tracker \<Rightarrow>
    (request_state_error + unit) \<times> tracker" where
  "initialize_binding mode session t =
     (if t_state t \<noteq> New then (Inl (fatal ''initialize state transition is invalid''), t)
      else (Inr (), t\<lparr>t_execution_mode := Some mode, t_invoking_session_id := session,
                      t_state := Initialized\<rparr>))"

definition initialize_succeeded :: "tracker \<Rightarrow> (request_state_error + unit) \<times> tracker" where
  "initialize_succeeded t = initialize_binding Unattended None t"

definition initialize_succeeded_with :: "semver_lib \<Rightarrow> initialize_params \<Rightarrow> tracker \<Rightarrow>
    (request_state_error + unit) \<times> tracker" where
  "initialize_succeeded_with L params t =
     (case initialize_params_validate L params of
        Inl e \<Rightarrow> (Inl params_invalid, t)
      | Inr _ \<Rightarrow> initialize_binding (ip_execution_mode params)
          (bound_session_id (ip_invoking_session_id params)) t)"

definition projection_succeeded :: "tracker \<Rightarrow> (request_state_error + unit) \<times> tracker" where
  "projection_succeeded t =
     (if t_state t \<noteq> Initialized then (Inl (fatal ''host projection state transition is invalid''), t)
      else (Inr (), t\<lparr>t_state := Projected\<rparr>))"

definition catalog_succeeded :: "tracker \<Rightarrow> (request_state_error + unit) \<times> tracker" where
  "catalog_succeeded t =
     (if t_state t \<noteq> Projected then (Inl (fatal ''catalog state transition is invalid''), t)
      else (Inr (), t\<lparr>t_state := CatalogFrozen\<rparr>))"

definition program_loaded :: "tracker \<Rightarrow> (request_state_error + unit) \<times> tracker" where
  "program_loaded t =
     (if \<not> (t_state t = CatalogFrozen \<or> t_state t = ProgramLoaded)
      then (Inl (fatal ''program state transition is invalid''), t)
      else (Inr (), t\<lparr>t_state := ProgramLoaded\<rparr>))"

definition execution_started_binding ::
    "string option \<Rightarrow> tracker \<Rightarrow> (request_state_error + unit) \<times> tracker" where
  "execution_started_binding execution_id t =
     (if t_state t \<noteq> ProgramLoaded \<or> t_active_execution t
      then (Inl (request_error RequestInvalidState ''execution cannot start in the current state''), t)
      else (Inr (), t\<lparr>t_active_execution := True, t_active_execution_id := execution_id\<rparr>))"

definition execution_started :: "tracker \<Rightarrow> (request_state_error + unit) \<times> tracker" where
  "execution_started t = execution_started_binding None t"

definition execution_started_with :: "string \<Rightarrow> tracker \<Rightarrow> (request_state_error + unit) \<times> tracker" where
  "execution_started_with execution_id t =
     (if execution_id = [] \<or> length execution_id > 128 \<or> has_control execution_id
      then (Inl (request_error RequestInvalid ''execution ID is invalid''), t)
      else execution_started_binding (Some execution_id) t)"

definition execution_finished :: "tracker \<Rightarrow> tracker" where
  "execution_finished t = t\<lparr>t_active_execution := False, t_active_execution_id := None\<rparr>"

definition disconnect :: "tracker \<Rightarrow> tracker" where
  "disconnect t = t\<lparr>t_state := Disconnected, t_incoming := bt_empty, t_outgoing := bt_empty,
     t_cancelled_incoming := {}, t_late_outgoing := {}, t_late_order := [],
     t_active_execution := False, t_active_execution_id := None, t_execution_mode := None,
     t_invoking_session_id := None\<rparr>"

end
