(* ===== verification/Tracker_Safety.thy ===== *)
theory Tracker_Safety
  imports Tracker Machine
begin

text \<open>
  Safety of the connection tracker: every public operation as one step, the invariant of the
  tracker's fields, and what it gives for whole connections.
\<close>

section \<open>Operations and steps\<close>

datatype tracker_op =
    OpSetMax nat
  | OpRegister string string
  | OpRegisterMessage wire_message
  | OpReceive wire_message
  | OpCommit string
  | OpCancelOutgoing string
  | OpInitialize
  | OpInitializeWith initialize_params
  | OpProjection
  | OpCatalog
  | OpProgram
  | OpStart
  | OpStartWith string
  | OpFinish
  | OpDisconnect

fun apply_op :: "semver_lib \<Rightarrow> payloads \<Rightarrow> tracker_op \<Rightarrow> tracker \<Rightarrow> tracker" where
  "apply_op L P (OpSetMax n) t = set_max_active_requests n t"
| "apply_op L P (OpRegister i m) t = snd (register_outgoing_request i m t)"
| "apply_op L P (OpRegisterMessage w) t = snd (register_outgoing_message P w t)"
| "apply_op L P (OpReceive w) t = snd (receive P w t)"
| "apply_op L P (OpCommit i) t = snd (commit_response i t)"
| "apply_op L P (OpCancelOutgoing i) t = snd (cancel_outgoing i t)"
| "apply_op L P OpInitialize t = snd (initialize_succeeded t)"
| "apply_op L P (OpInitializeWith p) t = snd (initialize_succeeded_with L p t)"
| "apply_op L P OpProjection t = snd (projection_succeeded t)"
| "apply_op L P OpCatalog t = snd (catalog_succeeded t)"
| "apply_op L P OpProgram t = snd (program_loaded t)"
| "apply_op L P OpStart t = snd (execution_started t)"
| "apply_op L P (OpStartWith i) t = snd (execution_started_with i t)"
| "apply_op L P OpFinish t = execution_finished t"
| "apply_op L P OpDisconnect t = disconnect t"

fun apply_ops :: "semver_lib \<Rightarrow> payloads \<Rightarrow> tracker_op list \<Rightarrow> tracker \<Rightarrow> tracker" where
  "apply_ops L P [] t = t"
| "apply_ops L P (x # xs) t = apply_ops L P xs (apply_op L P x t)"

inductive tracker_step :: "semver_lib \<Rightarrow> payloads \<Rightarrow> tracker \<Rightarrow> tracker \<Rightarrow> bool" for L P where
  "tracker_step L P t (apply_op L P x t)"

inductive_simps tracker_step_simps: "tracker_step L P t u"

section \<open>The invariant\<close>

definition tracker_inv :: "tracker \<Rightarrow> bool" where
  "tracker_inv t \<longleftrightarrow>
     bt_wf (t_incoming t) \<and> bt_wf (t_outgoing t)
     \<and> t_cancelled_incoming t \<subseteq> dom (bt_get (t_incoming t))
     \<and> set (t_late_order t) = t_late_outgoing t \<and> distinct (t_late_order t)
     \<and> t_late_limit t = max (t_max_active t) 1
     \<and> (t_active_execution_id t \<noteq> None \<longrightarrow> t_active_execution t)
     \<and> (t_active_execution t \<longrightarrow> t_state t = ProgramLoaded)
     \<and> (t_execution_mode t = None \<longleftrightarrow> t_state t \<in> {New, Disconnected})
     \<and> (t_execution_mode t = Some Attached \<longleftrightarrow> t_invoking_session_id t \<noteq> None)
     \<and> (t_state t = Disconnected \<longrightarrow> t_incoming t = [] \<and> t_outgoing t = [])"

lemma tracker_inv_new: "tracker_inv (tracker_new role n)"
  by (simp add: tracker_inv_def tracker_new_def bt_empty_def)

text \<open>What every message-handling operation keeps: the connection phase and the execution
  binding change only through the life-cycle operations.\<close>

lemma expire_late_inv:
  "set order = late \<Longrightarrow> distinct order \<Longrightarrow> expire_late n order late = (order', late') \<Longrightarrow>
   set order' = late' \<and> distinct order' \<and> length order' \<le> max n 0 \<and> (\<exists>k. order' = drop k order)"
proof (induction n order late rule: expire_late.induct)
  case (2 limit x xs late)
  show ?case
  proof (cases "length (x # xs) > limit")
    case True
    with 2 have "set order' = late' \<and> distinct order' \<and> length order' \<le> max limit 0 \<and>
        (\<exists>k. order' = drop k xs)"
      by auto
    then obtain k where "order' = drop (Suc k) (x # xs)" and
      "set order' = late' \<and> distinct order' \<and> length order' \<le> max limit 0" by auto
    then show ?thesis by blast
  next
    case False
    with 2 have "order' = drop 0 (x # xs)" by auto
    with False 2 show ?thesis by (metis (no_types, lifting) Pair_inject expire_late.simps(2)
        linorder_not_less max_0R)
  qed
qed (auto intro: exI [of _ 0])

lemma insert_outgoing_cases:
  "(\<exists>e. insert_outgoing i m t = (Inl e, t)) \<or>
   insert_outgoing i m t = (Inr (), t\<lparr>t_outgoing := bt_insert i m (t_outgoing t)\<rparr>) \<and>
   bt_get (t_outgoing t) i = None \<and> bt_len (t_outgoing t) < t_max_active t"
  by (simp add: insert_outgoing_def bt_contains_def not_le)

lemma check_method_ok:
  "check_method t m inc = Inr u \<longleftrightarrow>
     defined_sender m = Some (sender_role (t_role t) inc) \<and> valid_state t m"
  by (auto simp: check_method_def split: option.splits if_splits)

lemma valid_state_connected: "valid_state t m \<Longrightarrow> t_state t \<noteq> Disconnected"
  by (auto simp: valid_state_def split: if_splits)

lemma inv_insert_outgoing:
  "tracker_inv t \<Longrightarrow> t_state t \<noteq> Disconnected \<Longrightarrow> tracker_inv (snd (insert_outgoing i m t))"
  using insert_outgoing_cases [of i m t]
  by (elim disjE exE) (auto simp: tracker_inv_def bt_wf_insert)

lemma inv_register_outgoing_request:
  "tracker_inv t \<Longrightarrow> tracker_inv (snd (register_outgoing_request i m t))"
  by (auto simp: register_outgoing_request_def check_method_ok
      intro!: inv_insert_outgoing dest: valid_state_connected split: sum.splits)

lemma inv_register_outgoing_message:
  "tracker_inv t \<Longrightarrow> tracker_inv (snd (register_outgoing_message P w t))"
  by (cases w) (auto simp: check_method_ok intro!: inv_insert_outgoing
      dest: valid_state_connected split: sum.splits)

lemma inv_cancel_outgoing: "tracker_inv t \<Longrightarrow> tracker_inv (snd (cancel_outgoing i t))"
proof -
  assume inv: "tracker_inv t"
  define order where "order = (if i \<in> t_late_outgoing t then t_late_order t else t_late_order t @ [i])"
  obtain order' late' where e: "expire_late (t_late_limit t) order (insert i (t_late_outgoing t)) = (order', late')"
    by (cases "expire_late (t_late_limit t) order (insert i (t_late_outgoing t))") auto
  have "set order = insert i (t_late_outgoing t)" "distinct order"
    using inv by (auto simp: order_def tracker_inv_def)
  from expire_late_inv [OF this e] have l: "set order' = late'" "distinct order'" by auto
  show ?thesis
  proof (cases "bt_get (t_outgoing t) i = None")
    case True
    with inv show ?thesis by (simp add: cancel_outgoing_def)
  next
    case False
    then have r: "snd (cancel_outgoing i t) = t\<lparr>t_outgoing := bt_remove i (t_outgoing t),
        t_late_order := order', t_late_outgoing := late'\<rparr>"
      using e by (auto simp: cancel_outgoing_def order_def Let_def)
    have "t_state t = Disconnected \<Longrightarrow> bt_remove i (t_outgoing t) = []"
      using inv by (simp add: tracker_inv_def)
    then show ?thesis using inv l unfolding r by (simp add: tracker_inv_def bt_wf_remove)
  qed
qed

lemma receive_request_cases:
  "(\<exists>e. receive_request P i m p t = (Inl e, t)) \<or>
   receive_request P i m p t = (Inr RequestAccepted, t\<lparr>t_incoming := bt_insert i m (t_incoming t)\<rparr>) \<and>
   bt_get (t_incoming t) i = None \<and> check_method t m True = Inr () \<and>
   validate_request_binding P t (Request i m p) = Inr () \<and> bt_len (t_incoming t) < t_max_active t"
  by (cases "check_method t m True"; cases "validate_request_binding P t (Request i m p)")
    (simp_all add: receive_request_def bt_contains_def not_le del: validate_request_binding.simps)

lemma inv_receive_request: "tracker_inv t \<Longrightarrow> tracker_inv (snd (receive_request P i m p t))"
  using receive_request_cases [of P i m p t] valid_state_connected [of t m]
  by (elim disjE exE) (auto simp: tracker_inv_def bt_wf_insert bt_get_insert check_method_ok)

lemma inv_receive_response: "tracker_inv t \<Longrightarrow> tracker_inv (snd (receive_response i t))"
  by (auto simp: receive_response_def tracker_inv_def bt_wf_remove bt_get_def
      split: option.splits)

lemma inv_receive: "tracker_inv t \<Longrightarrow> tracker_inv (snd (receive P w t))"
proof (cases w)
  case (Request i m p)
  then show "tracker_inv t \<Longrightarrow> ?thesis" using inv_receive_request by simp
next
  case (Response i r e)
  then show "tracker_inv t \<Longrightarrow> ?thesis" using inv_receive_response by simp
next
  case (Cancel i r)
  then show "tracker_inv t \<Longrightarrow> ?thesis"
    by (auto simp: tracker_inv_def bt_contains_def Let_def)
qed simp

lemma inv_commit_response: "tracker_inv t \<Longrightarrow> tracker_inv (snd (commit_response i t))"
  by (auto simp: commit_response_def tracker_inv_def bt_wf_remove bt_get_remove
      bt_get_def split: option.splits)

lemma inv_initialize_binding:
  "tracker_inv t \<Longrightarrow> (mode = Attached \<longleftrightarrow> session \<noteq> None) \<Longrightarrow>
   tracker_inv (snd (initialize_binding mode session t))"
  by (auto simp: initialize_binding_def tracker_inv_def)

lemma inv_initialize_succeeded_with:
  "tracker_inv t \<Longrightarrow> tracker_inv (snd (initialize_succeeded_with L p t))"
  by (auto simp: initialize_succeeded_with_def split: sum.splits
      intro!: inv_initialize_binding dest: initialize_params_session)

lemma inv_lifecycle:
  "tracker_inv t \<Longrightarrow> tracker_inv (snd (projection_succeeded t))"
  "tracker_inv t \<Longrightarrow> tracker_inv (snd (catalog_succeeded t))"
  "tracker_inv t \<Longrightarrow> tracker_inv (snd (program_loaded t))"
  "tracker_inv t \<Longrightarrow> tracker_inv (snd (execution_started_binding eid t))"
  "tracker_inv t \<Longrightarrow> tracker_inv (execution_finished t)"
  "tracker_inv t \<Longrightarrow> tracker_inv (disconnect t)"
  "tracker_inv t \<Longrightarrow> tracker_inv (set_max_active_requests n t)"
  by (auto simp: projection_succeeded_def catalog_succeeded_def program_loaded_def
      execution_started_binding_def execution_finished_def disconnect_def
      set_max_active_requests_def tracker_inv_def bt_empty_def)

lemma inv_apply_op: "tracker_inv t \<Longrightarrow> tracker_inv (apply_op L P x t)"
  by (cases x) (simp_all add: inv_register_outgoing_request inv_register_outgoing_message
      inv_receive inv_commit_response inv_cancel_outgoing inv_initialize_binding
      inv_initialize_succeeded_with inv_lifecycle initialize_succeeded_def
      execution_started_def execution_started_with_def del: receive.simps)

section \<open>Phases of a connection\<close>

fun phase_rank :: "connection_state \<Rightarrow> nat" where
  "phase_rank New = 0"
| "phase_rank Initialized = 1"
| "phase_rank Projected = 2"
| "phase_rank CatalogFrozen = 3"
| "phase_rank ProgramLoaded = 4"
| "phase_rank Disconnected = 5"

lemma receive_state [simp]: "t_state (snd (receive P w t)) = t_state t"
proof (cases w)
  case (Request i m p)
  then show ?thesis using receive_request_cases [of P i m p t] by auto
qed (auto simp: receive_response_def Let_def split: option.splits)

lemma insert_outgoing_keeps [simp]: "t_state (snd (insert_outgoing i m t)) = t_state t"
  by (simp add: insert_outgoing_def)

lemma register_state [simp]:
  "t_state (snd (register_outgoing_request i m t)) = t_state t"
  "t_state (snd (register_outgoing_message P w t)) = t_state t"
  by (auto simp: register_outgoing_request_def split: sum.splits)
    (cases w, auto split: sum.splits)

lemma cancel_commit_state [simp]:
  "t_state (snd (cancel_outgoing i t)) = t_state t"
  "t_state (snd (commit_response i t)) = t_state t"
  by (auto simp: cancel_outgoing_def commit_response_def Let_def split: prod.splits option.splits)

text \<open>One operation moves the connection by at most one phase, and only forward.\<close>

lemma phase_step:
  "let s = t_state t; u = t_state (apply_op L P x t)
   in u = s \<or> u = Disconnected \<or> phase_rank u = Suc (phase_rank s) \<and> s \<noteq> ProgramLoaded"
  by (cases x) (auto simp: set_max_active_requests_def initialize_succeeded_def
      initialize_succeeded_with_def initialize_binding_def projection_succeeded_def
      catalog_succeeded_def program_loaded_def execution_started_def execution_started_with_def
      execution_started_binding_def execution_finished_def disconnect_def Let_def
      simp del: receive.simps split: sum.splits)

lemma phase_rank_le_5: "phase_rank s \<le> 5"
  by (cases s) simp_all

lemma phase_rank_step: "phase_rank (t_state t) \<le> phase_rank (t_state (apply_op L P x t))"
  using phase_step [of t L P x] phase_rank_le_5 [of "t_state t"] by (auto simp: Let_def)

interpretation trk: monotone_measure "tracker_step L P" tracker_inv "\<lambda>t. phase_rank (t_state t)"
  by unfold_locales (auto simp: tracker_step_simps inv_apply_op phase_rank_step)

section \<open>Counting requests and answers\<close>

text \<open>How often a run accepts an incoming request under an identifier, and how often it commits
  the answer to it.\<close>

fun accepts :: "payloads \<Rightarrow> string \<Rightarrow> tracker_op \<Rightarrow> tracker \<Rightarrow> bool" where
  "accepts P i (OpReceive (Request j m p)) t \<longleftrightarrow>
     j = i \<and> fst (receive P (Request j m p) t) = Inr RequestAccepted"
| "accepts P i _ t \<longleftrightarrow> False"

fun commits :: "string \<Rightarrow> tracker_op \<Rightarrow> tracker \<Rightarrow> bool" where
  "commits i (OpCommit j) t \<longleftrightarrow> j = i \<and> is_ok (fst (commit_response j t))"
| "commits i _ t \<longleftrightarrow> False"

fun accepted_count :: "semver_lib \<Rightarrow> payloads \<Rightarrow> string \<Rightarrow> tracker_op list \<Rightarrow> tracker \<Rightarrow> nat" where
  "accepted_count L P i [] t = 0"
| "accepted_count L P i (x # xs) t =
     (if accepts P i x t then 1 else 0) + accepted_count L P i xs (apply_op L P x t)"

fun committed_count :: "semver_lib \<Rightarrow> payloads \<Rightarrow> string \<Rightarrow> tracker_op list \<Rightarrow> tracker \<Rightarrow> nat" where
  "committed_count L P i [] t = 0"
| "committed_count L P i (x # xs) t =
     (if commits i x t then 1 else 0) + committed_count L P i xs (apply_op L P x t)"

text \<open>A disconnect clears the table of active requests: those it holds are never answered.\<close>

fun drops :: "string \<Rightarrow> tracker_op \<Rightarrow> tracker \<Rightarrow> bool" where
  "drops i OpDisconnect t \<longleftrightarrow> bt_contains (t_incoming t) i"
| "drops i _ t \<longleftrightarrow> False"

fun dropped_count :: "semver_lib \<Rightarrow> payloads \<Rightarrow> string \<Rightarrow> tracker_op list \<Rightarrow> tracker \<Rightarrow> nat" where
  "dropped_count L P i [] t = 0"
| "dropped_count L P i (x # xs) t =
     (if drops i x t then 1 else 0) + dropped_count L P i xs (apply_op L P x t)"

abbreviation active_in :: "string \<Rightarrow> tracker \<Rightarrow> nat" where
  "active_in i t \<equiv> (if bt_contains (t_incoming t) i then 1 else 0)"

lemma other_ops_incoming:
  "t_incoming (snd (insert_outgoing i m t)) = t_incoming t"
  "t_incoming (snd (register_outgoing_request i m t)) = t_incoming t"
  "t_incoming (snd (register_outgoing_message P w t)) = t_incoming t"
  "t_incoming (snd (cancel_outgoing i t)) = t_incoming t"
  "t_incoming (snd (receive_response i t)) = t_incoming t"
  "t_incoming (snd (initialize_binding mode session t)) = t_incoming t"
  "t_incoming (snd (initialize_succeeded_with L ip t)) = t_incoming t"
  "t_incoming (snd (projection_succeeded t)) = t_incoming t"
  "t_incoming (snd (catalog_succeeded t)) = t_incoming t"
  "t_incoming (snd (program_loaded t)) = t_incoming t"
  "t_incoming (snd (execution_started_binding eid t)) = t_incoming t"
  "t_incoming (execution_finished t) = t_incoming t"
  "t_incoming (set_max_active_requests n t) = t_incoming t"
proof -
  show ins: "t_incoming (snd (insert_outgoing i m t)) = t_incoming t" for i m
    by (simp add: insert_outgoing_def)
  show "t_incoming (snd (register_outgoing_request i m t)) = t_incoming t"
    by (simp add: register_outgoing_request_def ins split: sum.split)
  show "t_incoming (snd (register_outgoing_message P w t)) = t_incoming t"
    by (cases w) (simp_all add: ins del: validate_request_binding.simps split: sum.split)
  show "t_incoming (snd (cancel_outgoing i t)) = t_incoming t"
    by (simp add: cancel_outgoing_def Let_def split: prod.split)
  show "t_incoming (snd (receive_response i t)) = t_incoming t"
    by (simp add: receive_response_def split: option.split)
  show ib: "t_incoming (snd (initialize_binding mode session t)) = t_incoming t" for mode session
    by (simp add: initialize_binding_def)
  show "t_incoming (snd (initialize_succeeded_with L ip t)) = t_incoming t"
    by (simp add: initialize_succeeded_with_def ib split: sum.split)
qed (simp_all add: projection_succeeded_def catalog_succeeded_def program_loaded_def
    execution_started_binding_def execution_finished_def set_max_active_requests_def)

lemma receive_request_incoming:
  "tracker_inv t \<Longrightarrow>
   active_in i (snd (receive_request P j m p t)) =
     active_in i t + (if j = i \<and> fst (receive_request P j m p t) = Inr RequestAccepted then 1 else 0)"
  using receive_request_cases [of P j m p t]
  by (elim disjE exE) (auto simp: bt_contains_def bt_get_insert)

lemma commit_response_incoming:
  "tracker_inv t \<Longrightarrow>
   active_in i (snd (commit_response j t)) + (if j = i \<and> is_ok (fst (commit_response j t)) then 1 else 0) =
     active_in i t"
  by (auto simp: commit_response_def tracker_inv_def bt_contains_def bt_get_remove
      split: option.splits)

lemma balance_step:
  assumes "tracker_inv t"
  shows "active_in i (apply_op L P x t) + (if commits i x t then 1 else 0) + (if drops i x t then 1 else 0) =
    active_in i t + (if accepts P i x t then 1 else 0)"
proof (cases x)
  case (OpReceive w)
  then show ?thesis
  proof (cases w)
    case (Request j m p)
    with OpReceive receive_request_incoming [OF assms(1), of P j m p i] show ?thesis by simp
  qed (auto simp: other_ops_incoming Let_def bt_contains_def)
next
  case (OpCommit j)
  with commit_response_incoming [OF assms(1), of j i] show ?thesis by simp
next
  case OpDisconnect
  then show ?thesis by (simp add: disconnect_def)
qed (use assms in \<open>simp_all add: other_ops_incoming initialize_succeeded_def execution_started_def
    execution_started_with_def\<close>)

lemma balance_run:
  "tracker_inv t \<Longrightarrow>
   committed_count L P i xs t + dropped_count L P i xs t + active_in i (apply_ops L P xs t) =
     accepted_count L P i xs t + active_in i t"
proof (induction xs arbitrary: t)
  case (Cons x xs)
  have "committed_count L P i xs (apply_op L P x t) + dropped_count L P i xs (apply_op L P x t)
      + active_in i (apply_ops L P xs (apply_op L P x t)) =
      accepted_count L P i xs (apply_op L P x t) + active_in i (apply_op L P x t)"
    using Cons.prems by (intro Cons.IH inv_apply_op) auto
  with balance_step [OF Cons.prems(1), where i = i and L = L and P = P and x = x] show ?case
    by (simp only: committed_count.simps accepted_count.simps dropped_count.simps apply_ops.simps)
qed simp

section \<open>Capacity\<close>

text \<open>Everything the tracker holds, and the limit in force, is within a bound \<open>K\<close>.\<close>

definition within_capacity :: "nat \<Rightarrow> tracker \<Rightarrow> bool" where
  "within_capacity K t \<longleftrightarrow>
     bt_len (t_incoming t) \<le> K \<and> bt_len (t_outgoing t) \<le> K \<and> length (t_late_order t) \<le> max K 1 \<and>
     t_max_active t \<le> K"

text \<open>The limit that a history leaves in force, and the greatest it had in force.\<close>

fun limit_in_force :: "nat \<Rightarrow> tracker_op list \<Rightarrow> nat" where
  "limit_in_force k [] = k"
| "limit_in_force k (x # xs) = limit_in_force (case x of OpSetMax n \<Rightarrow> n | _ \<Rightarrow> k) xs"

fun greatest_limit :: "nat \<Rightarrow> tracker_op list \<Rightarrow> nat" where
  "greatest_limit k [] = k"
| "greatest_limit k (x # xs) = max k (greatest_limit (case x of OpSetMax n \<Rightarrow> n | _ \<Rightarrow> k) xs)"

lemma len_admit_below: "bt_wf m \<Longrightarrow> bt_get m i = None \<Longrightarrow> bt_len m < n \<Longrightarrow> n \<le> K \<Longrightarrow> bt_len (bt_insert i v m) \<le> K"
  using btm.len_admit by fastforce

lemma capacity_insert_outgoing:
  "tracker_inv t \<Longrightarrow> within_capacity K t \<Longrightarrow> within_capacity K (snd (insert_outgoing i m t))"
  using insert_outgoing_cases [of i m t]
  by (elim disjE exE) (auto simp: within_capacity_def tracker_inv_def intro: len_admit_below)

lemma capacity_register:
  assumes "tracker_inv t" and "within_capacity K t"
  shows "within_capacity K (snd (register_outgoing_request i m t))"
    and "within_capacity K (snd (register_outgoing_message P w t))"
  using assms
  by (auto simp: register_outgoing_request_def capacity_insert_outgoing split: sum.split)
    (cases w, auto simp: capacity_insert_outgoing simp del: validate_request_binding.simps
      split: sum.split)

lemma capacity_receive:
  assumes "tracker_inv t" and "within_capacity K t"
  shows "within_capacity K (snd (receive P w t))"
proof (cases w)
  case (Request i m p)
  then show ?thesis
    using assms receive_request_cases [of P i m p t]
    by (elim disjE exE) (auto simp: within_capacity_def tracker_inv_def intro: len_admit_below)
next
  case (Response i r e)
  have "bt_len (bt_remove i (t_outgoing t)) \<le> K"
    using assms btm.len_del_le [of "t_outgoing t" i] by (simp add: within_capacity_def tracker_inv_def)
  moreover have "length (filter (\<lambda>c. c \<noteq> i) (t_late_order t)) \<le> max K 1"
    by (rule le_trans [OF length_filter_le]) (use assms(2) in \<open>simp add: within_capacity_def\<close>)
  ultimately show ?thesis using Response assms
    by (auto simp: within_capacity_def receive_response_def split: option.split)
qed (use assms in \<open>simp_all add: within_capacity_def Let_def\<close>)

lemma capacity_commit_cancel:
  assumes "tracker_inv t" and "within_capacity K t"
  shows "within_capacity K (snd (commit_response i t))"
    and "within_capacity K (snd (cancel_outgoing i t))"
proof -
  have len: "bt_len (bt_remove i (t_incoming t)) \<le> K" "bt_len (bt_remove i (t_outgoing t)) \<le> K"
    using assms btm.len_del_le [of "t_incoming t" i] btm.len_del_le [of "t_outgoing t" i]
    by (simp_all add: within_capacity_def tracker_inv_def)
  with assms(2) show "within_capacity K (snd (commit_response i t))"
    by (auto simp: within_capacity_def commit_response_def split: option.split)
  define order where "order = (if i \<in> t_late_outgoing t then t_late_order t else t_late_order t @ [i])"
  obtain order' late' where e: "expire_late (t_late_limit t) order (insert i (t_late_outgoing t)) = (order', late')"
    by (cases "expire_late (t_late_limit t) order (insert i (t_late_outgoing t))") auto
  have "set order = insert i (t_late_outgoing t)" "distinct order"
    using assms(1) by (auto simp: order_def tracker_inv_def)
  from expire_late_inv [OF this e] have "length order' \<le> t_late_limit t" by auto
  then have "length order' \<le> max K 1" using assms by (auto simp: within_capacity_def tracker_inv_def)
  with len assms(2) e show "within_capacity K (snd (cancel_outgoing i t))"
    by (auto simp: within_capacity_def cancel_outgoing_def order_def Let_def)
qed

lemma capacity_apply_op:
  assumes "tracker_inv t" and "within_capacity K t" and "\<forall>n. x = OpSetMax n \<longrightarrow> n \<le> K"
  shows "within_capacity K (apply_op L P x t)"
proof (cases x)
  case (OpInitializeWith p)
  with assms show ?thesis
    by (simp add: initialize_succeeded_with_def initialize_binding_def within_capacity_def
        split: sum.split)
qed (use assms in \<open>simp_all add: capacity_register capacity_receive capacity_commit_cancel
    del: receive.simps register_outgoing_message.simps\<close>,
  auto simp: within_capacity_def initialize_succeeded_def initialize_binding_def
    projection_succeeded_def catalog_succeeded_def program_loaded_def execution_started_def
    execution_started_with_def execution_started_binding_def execution_finished_def
    disconnect_def set_max_active_requests_def bt_empty_def bt_len_def)

lemma max_active_apply_op: "\<forall>n. x \<noteq> OpSetMax n \<Longrightarrow> t_max_active (apply_op L P x t) = t_max_active t"
proof (cases x)
  case (OpReceive w)
  show ?thesis
  proof (cases w)
    case (Request i m p)
    with OpReceive show ?thesis using receive_request_cases [of P i m p t] by auto
  qed (use OpReceive in \<open>auto simp: receive_response_def Let_def split: option.split\<close>)
next
  case (OpRegisterMessage w)
  then show ?thesis
    by (cases w) (simp_all add: insert_outgoing_def del: validate_request_binding.simps
        split: sum.split)
qed (auto simp: register_outgoing_request_def insert_outgoing_def commit_response_def
    cancel_outgoing_def initialize_succeeded_def initialize_succeeded_with_def
    initialize_binding_def projection_succeeded_def catalog_succeeded_def program_loaded_def
    execution_started_def execution_started_with_def execution_started_binding_def
    execution_finished_def disconnect_def Let_def split: sum.split option.split prod.split)

lemma max_active_run: "t_max_active (apply_ops L P xs t) = limit_in_force (t_max_active t) xs"
proof (induction xs arbitrary: t)
  case (Cons x xs)
  have "t_max_active (apply_op L P x t) = (case x of OpSetMax n \<Rightarrow> n | _ \<Rightarrow> t_max_active t)"
    by (cases "\<exists>n. x = OpSetMax n") (auto simp: max_active_apply_op set_max_active_requests_def split: tracker_op.split)
  with Cons show ?case by simp
qed simp

lemma greatest_limit_le: "k \<le> greatest_limit k xs"
  by (cases xs) simp_all

lemma capacity_run:
  "tracker_inv t \<Longrightarrow> within_capacity K t \<Longrightarrow> greatest_limit (t_max_active t) xs \<le> K \<Longrightarrow>
   within_capacity K (apply_ops L P xs t)"
proof (induction xs arbitrary: t)
  case (Cons x xs)
  let ?n = "case x of OpSetMax n \<Rightarrow> n | _ \<Rightarrow> t_max_active t"
  have n: "t_max_active (apply_op L P x t) = ?n"
    by (cases "\<exists>n. x = OpSetMax n") (auto simp: max_active_apply_op set_max_active_requests_def split: tracker_op.split)
  have "greatest_limit ?n xs \<le> K" using Cons.prems(3) by simp
  moreover from this have "\<forall>n. x = OpSetMax n \<longrightarrow> n \<le> K" using greatest_limit_le [of ?n xs] by auto
  ultimately show ?case using Cons.prems(1,2) n by (auto intro!: Cons.IH inv_apply_op capacity_apply_op)
qed simp

section \<open>Outgoing requests\<close>

fun registers :: "string \<Rightarrow> tracker_op \<Rightarrow> bool" where
  "registers i (OpRegister j m) \<longleftrightarrow> j = i"
| "registers i (OpRegisterMessage (Request j m p)) \<longleftrightarrow> j = i"
| "registers i _ \<longleftrightarrow> False"

lemma outgoing_absent_step:
  assumes "tracker_inv t" "bt_get (t_outgoing t) i = None" "\<not> registers i x"
  shows "bt_get (t_outgoing (apply_op L P x t)) i = None"
proof (cases x)
  case (OpRegister j m)
  with assms insert_outgoing_cases [of j m t] show ?thesis
    by (auto simp: register_outgoing_request_def bt_get_insert split: sum.splits)
next
  case (OpRegisterMessage w)
  show ?thesis
  proof (cases w)
    case (Request j m p)
    with OpRegisterMessage assms insert_outgoing_cases [of j m t] show ?thesis
      by (auto simp: bt_get_insert simp del: validate_request_binding.simps split: sum.splits)
  qed (use OpRegisterMessage assms in auto)
next
  case (OpReceive w)
  show ?thesis
  proof (cases w)
    case (Request j m p)
    with OpReceive assms receive_request_cases [of P j m p t] show ?thesis by auto
  qed (use OpReceive assms in \<open>auto simp: receive_response_def tracker_inv_def bt_get_remove Let_def split: option.splits\<close>)
next
  case (OpCancelOutgoing j)
  with assms show ?thesis
    by (auto simp: cancel_outgoing_def tracker_inv_def bt_get_remove Let_def split: prod.splits)
qed (use assms in \<open>auto simp: set_max_active_requests_def commit_response_def
    initialize_succeeded_def initialize_succeeded_with_def initialize_binding_def projection_succeeded_def catalog_succeeded_def
    program_loaded_def execution_started_def execution_started_with_def execution_started_binding_def execution_finished_def
    disconnect_def bt_empty_def bt_get_def Let_def split: option.splits sum.splits prod.splits\<close>)

lemma outgoing_absent_run:
  "tracker_inv t \<Longrightarrow> bt_get (t_outgoing t) i = None \<Longrightarrow> list_all (\<lambda>x. \<not> registers i x) xs \<Longrightarrow>
   bt_get (t_outgoing (apply_ops L P xs t)) i = None"
  by (induction xs arbitrary: t) (simp_all add: inv_apply_op outgoing_absent_step)

section \<open>Roles\<close>

lemma role_irrelevant:
  "valid_state (t\<lparr>t_role := r\<rparr>) m = valid_state t m"
  "notification_ok (t\<lparr>t_role := r\<rparr>) m sender = notification_ok t m sender"
  by (simp_all add: valid_state_def notification_ok_def)

lemma sender_role_Runtime: "Runtime = sender_role r True \<longleftrightarrow> r = Host"
  by (cases r) simp_all

lemma agent_method:
  assumes "m \<in> set bound_agent_methods"
  shows "defined_sender m = Some Runtime"
    and "valid_state t m \<longleftrightarrow> t_state t = ProgramLoaded \<and> t_active_execution t
      \<and> t_execution_mode t = Some Attached \<and> t_invoking_session_id t \<noteq> None
      \<and> t_active_execution_id t \<noteq> None"
  using assms by (auto simp: bound_agent_methods_def defined_sender_def host_methods_def valid_state_def)

lemma sender_role_dual: "sender_role Host inc = sender_role Runtime (\<not> inc)"
  by (cases inc) simp_all

section \<open>Properties\<close>

text \<open>Payload readers and an attached connection for the closed instances below.\<close>

definition sample_payloads :: payloads where
  "sample_payloads = \<lparr>bound_params = (\<lambda>m p. Some (''exec'', ''sess'')),
     execution_params = (\<lambda>m p. Some ''exec''), revoke_params = (\<lambda>p. Some (''exec'', ''sess'')),
     event_params = (\<lambda>p. Some (''exec'', False))\<rparr>"

definition sample_attached :: tracker where
  "sample_attached = (tracker_new Host 2)\<lparr>t_state := ProgramLoaded, t_active_execution := True,
     t_active_execution_id := Some ''exec'', t_execution_mode := Some Attached,
     t_invoking_session_id := Some ''sess''\<rparr>"

lemmas sample_defs = sample_payloads_def sample_attached_def tracker_new_def

text \<open>(C1) Whatever sequence of operations a connection sees, in any order and with any messages,
  the tracker's fields stay consistent: both request tables keep their representation, only
  active incoming requests are marked cancelled, the queue of late identifiers lists the late
  set without repetition, an execution is active only in a loaded program and an execution
  identity only in an active execution, a session is bound exactly in attached mode, and a
  disconnected tracker holds no request.\<close>

theorem tracker_invariant:
  "reaches (tracker_step L P) (tracker_new role n) t \<Longrightarrow> tracker_inv t"
  by (rule trk.reaches_inv [OF _ tracker_inv_new])

theorem tracker_invariant_witness:
  "\<forall>L P. tracker_inv (apply_op L P OpInitialize (tracker_new Host 2)) \<and>
     t_state (apply_op L P OpInitialize (tracker_new Host 2)) = Initialized"
proof (intro allI conjI)
  fix L :: semver_lib and P :: payloads
  have "reaches (tracker_step L P) (tracker_new Host 2) (apply_op L P OpInitialize (tracker_new Host 2))"
    by (rule reaches_step [OF reaches_refl]) (rule tracker_step.intros)
  then show "tracker_inv (apply_op L P OpInitialize (tracker_new Host 2))"
    by (rule tracker_invariant)
  show "t_state (apply_op L P OpInitialize (tracker_new Host 2)) = Initialized"
    by (simp add: initialize_succeeded_def initialize_binding_def tracker_new_def)
qed

text \<open>(C12) The life cycle of a connection is one way: between any two points of a connection's
  history the phase only advances in the order new, initialised, projected, catalogue frozen,
  program loaded, disconnected; a single operation advances it by one phase or disconnects;
  and a disconnected connection never leaves that state.\<close>

theorem tracker_phases_advance:
  assumes "reaches (tracker_step L P) (tracker_new role n) s" and "reaches (tracker_step L P) s t"
  shows "phase_rank (t_state s) \<le> phase_rank (t_state t) \<and>
    (t_state s = Disconnected \<longrightarrow> t_state t = Disconnected) \<and>
    (t_state (apply_op L P x s) \<notin> {t_state s, Disconnected} \<longrightarrow>
       phase_rank (t_state (apply_op L P x s)) = Suc (phase_rank (t_state s)))"
proof -
  have inv: "tracker_inv s" by (rule trk.reaches_inv [OF assms(1) tracker_inv_new])
  have mono: "phase_rank (t_state s) \<le> phase_rank (t_state t)"
    by (rule trk.reaches_rank [OF assms(2) inv])
  moreover have "t_state s = Disconnected \<Longrightarrow> t_state t = Disconnected"
    using mono by (cases "t_state t") auto
  ultimately show ?thesis using phase_step [of s L P x] by (auto simp: Let_def)
qed

theorem tracker_phases_advance_witness:
  "\<forall>L P. phase_rank (t_state (tracker_new Host 1)) \<le>
     phase_rank (t_state (apply_op L P OpDisconnect (tracker_new Host 1)))"
proof (intro allI)
  fix L :: semver_lib and P :: payloads
  have "reaches (tracker_step L P) (tracker_new Host 1) (apply_op L P OpDisconnect (tracker_new Host 1))"
    by (rule reaches_step [OF reaches_refl]) (rule tracker_step.intros)
  from tracker_phases_advance [OF reaches_refl this]
  show "phase_rank (t_state (tracker_new Host 1)) \<le>
     phase_rank (t_state (apply_op L P OpDisconnect (tracker_new Host 1)))" by blast
qed

text \<open>(C2) Exactly one answer per request: in every history, the number of times an identifier was
  accepted as an incoming request is the number of times its response was committed, plus the number
  of times a disconnect dropped the request unanswered, plus one if the request is still active. In
  particular no request is answered twice and no answer is committed for a request that was not
  accepted.\<close>

theorem answers_match_requests:
  "accepted_count L P i xs (tracker_new role n) =
    committed_count L P i xs (tracker_new role n) + dropped_count L P i xs (tracker_new role n) +
    (if bt_contains (t_incoming (apply_ops L P xs (tracker_new role n))) i then 1 else 0)"
proof -
  have "\<not> bt_contains (t_incoming (tracker_new role n)) i"
    by (simp add: tracker_new_def)
  then show ?thesis
    using balance_run [OF tracker_inv_new, of L P i xs role n] by simp
qed

text \<open>(C3) Capacity: in every history, whatever the peer sends and however the limit is changed, neither
  direction ever holds more active requests than the greatest limit that was in force, and the queue of
  late identifiers no more than that limit, or one; and in each direction a request is taken up only
  while the direction holds fewer active requests than the limit now in force, which is the last one
  set.\<close>

theorem active_requests_bounded:
  assumes "t = apply_ops L P xs (tracker_new role k)"
  shows "bt_len (t_incoming t) \<le> greatest_limit k xs \<and> bt_len (t_outgoing t) \<le> greatest_limit k xs \<and>
    length (t_late_order t) \<le> max (greatest_limit k xs) 1 \<and>
    (fst (receive P (Request i m p) t) = Inr RequestAccepted \<longrightarrow> bt_len (t_incoming t) < limit_in_force k xs) \<and>
    (is_ok (fst (register_outgoing_request i m t)) \<longrightarrow> bt_len (t_outgoing t) < limit_in_force k xs) \<and>
    (is_ok (fst (register_outgoing_message P w t)) \<longrightarrow> bt_len (t_outgoing t) < limit_in_force k xs)"
proof -
  have limit: "t_max_active t = limit_in_force k xs"
    unfolding assms max_active_run by (simp add: tracker_new_def)
  have "within_capacity (greatest_limit k xs) (tracker_new role k)"
    using greatest_limit_le [of k xs] by (simp add: within_capacity_def tracker_new_def bt_empty_def bt_len_def)
  then have "within_capacity (greatest_limit k xs) t"
    unfolding assms by (intro capacity_run tracker_inv_new) (simp_all add: tracker_new_def)
  moreover have "fst (receive P (Request i m p) t) = Inr RequestAccepted \<Longrightarrow> bt_len (t_incoming t) < t_max_active t"
    using receive_request_cases [of P i m p t] by auto
  moreover have out: "is_ok (fst (insert_outgoing i m t)) \<Longrightarrow> bt_len (t_outgoing t) < t_max_active t" for i m
    using insert_outgoing_cases [of i m t] by auto
  then have "is_ok (fst (register_outgoing_request i m t)) \<Longrightarrow> bt_len (t_outgoing t) < t_max_active t"
    by (auto simp: register_outgoing_request_def split: sum.splits if_splits)
  moreover have "is_ok (fst (register_outgoing_message P w t)) \<Longrightarrow> bt_len (t_outgoing t) < t_max_active t"
    using out by (cases w) (auto simp del: validate_request_binding.simps split: sum.splits)
  ultimately show ?thesis unfolding within_capacity_def limit by blast
qed

theorem active_requests_bounded_witness:
  "\<forall>L P. bt_len (t_outgoing (apply_ops L P
     [OpRegister ''a'' ''initialize'', OpSetMax 0, OpRegister ''b'' ''initialize''] (tracker_new Host 1))) \<le> 1 \<and>
     \<not> is_ok (fst (register_outgoing_request ''c'' ''initialize''
       (apply_ops L P [OpRegister ''a'' ''initialize'', OpSetMax 0] (tracker_new Host 1))))"
proof (intro allI conjI)
  fix L :: semver_lib and P :: payloads
  show "bt_len (t_outgoing (apply_ops L P
     [OpRegister ''a'' ''initialize'', OpSetMax 0, OpRegister ''b'' ''initialize''] (tracker_new Host 1))) \<le> 1"
    using active_requests_bounded [OF refl, of L P "[OpRegister ''a'' ''initialize'', OpSetMax 0, OpRegister ''b'' ''initialize'']" Host 1]
    by simp
  show "\<not> is_ok (fst (register_outgoing_request ''c'' ''initialize''
       (apply_ops L P [OpRegister ''a'' ''initialize'', OpSetMax 0] (tracker_new Host 1))))"
    using active_requests_bounded [OF refl, of L P "[OpRegister ''a'' ''initialize'', OpSetMax 0]" Host 1 "''c''" "''initialize''"]
    by simp
qed

text \<open>(C10) Identity binding: a host's tracker accepts an agent or permission request only while an
  execution is active in an attached connection, and only when the execution and session
  identities in the payload are the active execution and the session bound at initialisation.\<close>

theorem agent_requests_are_bound:
  assumes "receive P (Request i m p) t = (Inr a, t')" and "m \<in> set bound_agent_methods"
  shows "\<exists>e s. bound_params P m p = Some (e, s) \<and> t_active_execution_id t = Some e \<and>
    t_invoking_session_id t = Some s \<and> t_execution_mode t = Some Attached \<and>
    t_active_execution t \<and> t_state t = ProgramLoaded \<and> t_role t = Host"
proof -
  from assms(1) have cm: "check_method t m True = Inr ()"
    and vb: "validate_request_binding P t (Request i m p) = Inr ()"
    using receive_request_cases [of P i m p t] by auto
  from vb assms(2) obtain e s where "bound_params P m p = Some (e, s)"
    and "t_active_execution_id t = Some e" "t_invoking_session_id t = Some s"
    by (auto simp: ensure_bound_identities_def split: option.splits if_splits)
  moreover from cm have "t_execution_mode t = Some Attached" "t_active_execution t"
    "t_state t = ProgramLoaded" "t_role t = Host"
    using assms(2) by (simp_all add: check_method_ok agent_method sender_role_Runtime)
  ultimately show ?thesis by blast
qed

theorem agent_requests_are_bound_witness:
  "\<exists>e s. bound_params sample_payloads ''agent/ask'' JNull = Some (e, s) \<and>
     t_active_execution_id sample_attached = Some e \<and> t_invoking_session_id sample_attached = Some s"
proof -
  have acc: "receive sample_payloads (Request ''r1'' ''agent/ask'' JNull) sample_attached =
      (Inr RequestAccepted,
       sample_attached\<lparr>t_incoming := bt_insert ''r1'' ''agent/ask'' (t_incoming sample_attached)\<rparr>)"
    by (simp add: receive_request_def check_method_def defined_sender_def host_methods_def
        valid_state_def bound_agent_methods_def ensure_bound_identities_def singleton_active_def
        bt_len_def bt_contains_def bt_get_def bt_empty_def sample_defs)
  have "''agent/ask'' \<in> set bound_agent_methods" by (simp add: bound_agent_methods_def)
  from agent_requests_are_bound [OF acc this] show ?thesis by blast
qed

text \<open>(C11) A response to a request the local side has cancelled is never taken for an answer: after the
  cancellation, whatever the connection does next, short of registering the identifier for a new request,
  the response is refused with a fatal protocol violation and no outgoing request changes.\<close>

theorem cancelled_request_not_answered:
  assumes "reaches (tracker_step L P) (tracker_new role n) t" and "cancel_outgoing i t = (True, t')"
    and "list_all (\<lambda>x. \<not> registers i x) xs"
  shows "\<exists>e t''. receive P (Response i r err) (apply_ops L P xs t') = (Inl e, t'') \<and> rse_fatal e \<and>
    rse_code e = ProtocolViolation \<and> t_outgoing t'' = t_outgoing (apply_ops L P xs t')"
proof -
  have inv: "tracker_inv t" by (rule trk.reaches_inv [OF assms(1) tracker_inv_new])
  from assms(2) have "t_outgoing t' = bt_remove i (t_outgoing t)"
    by (auto simp: cancel_outgoing_def Let_def split: if_splits prod.splits)
  then have "bt_get (t_outgoing t') i = None"
    using inv by (simp add: bt_get_remove tracker_inv_def)
  moreover have "tracker_inv t'" using inv_cancel_outgoing [OF inv, of i] assms(2) by simp
  ultimately have "bt_get (t_outgoing (apply_ops L P xs t')) i = None" using assms(3) by (intro outgoing_absent_run)
  then show ?thesis by (simp add: receive_response_def fatal_def)
qed

theorem cancelled_request_not_answered_witness:
  "\<forall>L. \<exists>e t''. receive sample_payloads (Response ''r'' (Some JNull) None)
      (apply_ops L sample_payloads [OpInitialize, OpCommit ''x'']
        (snd (cancel_outgoing ''r'' (apply_op L sample_payloads (OpRegister ''r'' ''initialize'') (tracker_new Host 2))))) = (Inl e, t'')
    \<and> rse_fatal e"
proof
  fix L :: semver_lib
  let ?t = "apply_op L sample_payloads (OpRegister ''r'' ''initialize'') (tracker_new Host 2)"
  have r: "reaches (tracker_step L sample_payloads) (tracker_new Host 2) ?t"
    by (rule reaches_step [OF reaches_refl]) (rule tracker_step.intros)
  have "bt_get (t_outgoing ?t) ''r'' \<noteq> None"
    by (simp add: register_outgoing_request_def is_bound_request_def check_method_def defined_sender_def host_methods_def valid_state_def
        bound_agent_methods_def bound_execution_methods_def insert_outgoing_def bt_len_def bt_contains_def bt_get_def bt_empty_def sample_defs)
  then have c: "cancel_outgoing ''r'' ?t = (True, snd (cancel_outgoing ''r'' ?t))"
    by (simp add: cancel_outgoing_def Let_def split: prod.split)
  from cancelled_request_not_answered [OF r c, of "[OpInitialize, OpCommit ''x'']" "Some JNull" None]
  show "\<exists>e t''. receive sample_payloads (Response ''r'' (Some JNull) None)
      (apply_ops L sample_payloads [OpInitialize, OpCommit ''x''] (snd (cancel_outgoing ''r'' ?t))) = (Inl e, t'') \<and> rse_fatal e"
    by auto
qed

text \<open>Both ends agree on the wire: with the same connection state, a request or notification
  that one peer may send is one the other peer may receive, and a refusal is the same refusal.\<close>

theorem peers_agree_on_direction:
  "check_method (t\<lparr>t_role := Host\<rparr>) m inc = check_method (t\<lparr>t_role := Runtime\<rparr>) m (\<not> inc) \<and>
   check_notification (t\<lparr>t_role := Host\<rparr>) m inc = check_notification (t\<lparr>t_role := Runtime\<rparr>) m (\<not> inc)"
  by (simp add: check_method_def check_notification_def role_irrelevant sender_role_dual
      split: option.split)

text \<open>(C13) A refused message leaves no trace: when \<open>receive\<close> reports an error the tracker is
  unchanged, but for the late response, whose identifier is forgotten so that a repetition is
  refused as unknown.\<close>

theorem refused_messages_change_nothing:
  assumes "receive P w t = (Inl e, t')"
  shows "t' = t \<or> (\<exists>i r er. w = Response i r er \<and> i \<in> t_late_outgoing t \<and>
     t' = t\<lparr>t_late_outgoing := t_late_outgoing t - {i},
            t_late_order := filter (\<lambda>c. c \<noteq> i) (t_late_order t)\<rparr> \<and>
     fst (receive P w t') = Inl (fatal ''response has an unknown or terminal request ID''))"
proof (cases w)
  case (Request i m p)
  with assms show ?thesis using receive_request_cases [of P i m p t] by auto
next
  case (Response i r er)
  with assms show ?thesis
    by (auto simp: receive_response_def split: option.splits if_splits)
qed (use assms in \<open>auto simp: Let_def\<close>)

theorem refused_messages_change_nothing_witness:
  "snd (receive sample_payloads (Response ''x'' None None) sample_attached) = sample_attached"
proof -
  have r: "receive sample_payloads (Response ''x'' None None) sample_attached =
      (Inl (fatal ''response has an unknown or terminal request ID''), sample_attached)"
    by (simp add: receive_response_def sample_defs bt_get_def bt_empty_def)
  have l: "''x'' \<notin> t_late_outgoing sample_attached" by (simp add: sample_defs)
  from refused_messages_change_nothing [OF r] l r show ?thesis by auto
qed

end
