(* ===== verification/Payload_Text.thy ===== *)
theory Payload_Text
  imports Handshake
begin

text \<open>
  The scalar validators of \<open>josh-protocol/src/payload.rs\<close>: identifiers, digests, paths,
  command patterns, permission scopes and timestamps. Base64 and URLs are third-party crates:
  the record \<open>externals\<close> holds their functions beside those of the semver crate.
\<close>

section \<open>Parameters\<close>

record parsed_url =
  pu_scheme :: string
  pu_username :: string
  pu_password :: "string option"
  pu_path :: string
  pu_query :: "string option"
  pu_fragment :: "string option"
  pu_origin_ascii :: string

record externals =
  x_semver :: semver_lib
  x_base64_decode :: "string \<Rightarrow> bytes option"
  x_base64_encode :: "bytes \<Rightarrow> string"
  x_url_parse :: "string \<Rightarrow> parsed_url option"

section \<open>Strings of the standard library\<close>

definition contains2 :: "byte \<Rightarrow> byte \<Rightarrow> string \<Rightarrow> bool" where
  "contains2 a b s \<longleftrightarrow> split_once2 a b s \<noteq> None"

definition starts_with :: "byte \<Rightarrow> string \<Rightarrow> bool" where
  "starts_with c s \<longleftrightarrow> s \<noteq> [] \<and> hd s = c"

definition ends_with :: "byte \<Rightarrow> string \<Rightarrow> bool" where
  "ends_with c s \<longleftrightarrow> s \<noteq> [] \<and> last s = c"

definition ends_with_str :: "string \<Rightarrow> string \<Rightarrow> bool" where
  "ends_with_str t s \<longleftrightarrow> length t \<le> length s \<and> drop (length s - length t) s = t"

definition to_ascii_lowercase :: "byte \<Rightarrow> byte" where
  "to_ascii_lowercase c = (if is_ascii_uppercase c then char_of (of_char c + (32::nat)) else c)"

definition eq_ignore_ascii_case :: "string \<Rightarrow> string \<Rightarrow> bool" where
  "eq_ignore_ascii_case s t \<longleftrightarrow> map to_ascii_lowercase s = map to_ascii_lowercase t"

text \<open>\<open>chars().any(char::is_whitespace)\<close> on UTF-8: the characters with the Unicode property
  \<open>White_Space\<close>, by the bytes of their encodings.\<close>

fun has_whitespace :: "string \<Rightarrow> bool" where
  "has_whitespace [] = False"
| "has_whitespace (c # cs) =
     (in_range 9 13 c \<or> c = CHR '' ''
      \<or> (case map of_char (take 2 (c # cs)) of [a, b] \<Rightarrow> a = (194::nat) \<and> b \<in> {133, 160} | _ \<Rightarrow> False)
      \<or> (case map of_char (take 3 (c # cs)) of
           [a, b, d] \<Rightarrow> a = (225::nat) \<and> b = 154 \<and> d = 128
             \<or> a = 226 \<and> b = 128 \<and> (128 \<le> d \<and> d \<le> 138 \<or> d \<in> {168, 169, 175})
             \<or> a = 226 \<and> b = 129 \<and> d = 159
             \<or> a = 227 \<and> b = 128 \<and> d = 128
         | _ \<Rightarrow> False)
      \<or> has_whitespace cs)"

text \<open>\<open>std::path::Path\<close> on Unix: separators are slashes; empty pieces and all dots but a leading
  one of a relative path are dropped.\<close>

datatype path_component = RootDir | CurDir | ParentDir | Normal string

definition component_of :: "string \<Rightarrow> path_component" where
  "component_of p = (if p = ''..'' then ParentDir else Normal p)"

definition is_absolute :: "string \<Rightarrow> bool" where
  "is_absolute p \<longleftrightarrow> starts_with (CHR ''/'') p"

definition path_components :: "string \<Rightarrow> path_component list" where
  "path_components p =
     (let pieces = split_on (CHR ''/'') p;
          kept = map component_of (filter (\<lambda>q. q \<noteq> [] \<and> q \<noteq> ''.'') pieces)
      in if is_absolute p then RootDir # kept
         else if hd pieces = ''.'' then CurDir # kept else kept)"

fun is_prefix :: "'a list \<Rightarrow> 'a list \<Rightarrow> bool" where
  "is_prefix [] ys = True"
| "is_prefix (x # xs) (y # ys) = (x = y \<and> is_prefix xs ys)"
| "is_prefix (x # xs) [] = False"

definition path_starts_with :: "string \<Rightarrow> string \<Rightarrow> bool" where
  "path_starts_with p base \<longleftrightarrow> is_prefix (path_components base) (path_components p)"

section \<open>Identifiers and names\<close>

definition validate_opaque :: "string \<Rightarrow> string \<Rightarrow> protocol_error + unit" where
  "validate_opaque v name =
     (if v = [] \<or> length v > 128 \<or> has_control v then Inl (invalid (name @ '' is invalid'')) else Inr ())"

definition validate_ascii_id :: "string \<Rightarrow> string \<Rightarrow> nat \<Rightarrow> protocol_error + unit" where
  "validate_ascii_id v name maximum =
     (if v = [] \<or> length v > maximum \<or> \<not> list_all is_ascii_graphic v
      then Inl (invalid (name @ '' is invalid'')) else Inr ())"

definition validate_transcript_text :: "string \<Rightarrow> string \<Rightarrow> bool \<Rightarrow> protocol_error + unit" where
  "validate_transcript_text v name allow_empty =
     (if (\<not> allow_empty \<and> v = []) \<or> length v > 1024 \<or> has_control v
      then Inl (invalid (name @ '' is invalid'')) else Inr ())"

definition validate_safe_code :: "string \<Rightarrow> string \<Rightarrow> protocol_error + unit" where
  "validate_safe_code v name = validate_transcript_text v name False"

definition validate_digest :: "string \<Rightarrow> protocol_error + unit" where
  "validate_digest d =
     (case strip_prefix ''sha256:'' d of
        None \<Rightarrow> Inl (invalid ''digest must use sha256 text'')
      | Some hex \<Rightarrow>
          (if length hex \<noteq> 64
              \<or> \<not> list_all (\<lambda>b. is_ascii_digit b \<or> CHR ''a'' \<le> b \<and> b \<le> CHR ''f'') hex
           then Inl (invalid ''digest must contain 64 lower-case hexadecimal digits'')
           else Inr ()))"

definition validate_tool_name :: "string \<Rightarrow> protocol_error + unit" where
  "validate_tool_name n =
     (if n = [] \<or> length n > 255 \<or> list_ex (\<lambda>p. p = []) (split_on (CHR ''.'') n)
         \<or> has_whitespace n \<or> has_control n
      then Inl (invalid ''tool name is not canonical'') else Inr ())"

definition validate_effect :: "string \<Rightarrow> protocol_error + unit" where
  "validate_effect e =
     (if e = [] \<or> length e > 128 \<or> list_ex (\<lambda>p. p = []) (split_on (CHR ''.'') e)
         \<or> \<not> list_all (\<lambda>b. is_ascii_lowercase b \<or> is_ascii_digit b \<or> b = CHR ''.'' \<or> b = CHR ''_'') e
      then Inl (invalid ''tool effect ID is not canonical'') else Inr ())"

definition validate_description :: "string \<Rightarrow> protocol_error + unit" where
  "validate_description d =
     (if length d > 4096 \<or> char_of (0::nat) \<in> set d
      then Inl (invalid ''tool description is invalid'') else Inr ())"

definition validate_https_origin :: "externals \<Rightarrow> string \<Rightarrow> protocol_error + unit" where
  "validate_https_origin X origin =
     (case x_url_parse X origin of
        None \<Rightarrow> Inl (invalid ''HTTP origin is invalid'')
      | Some u \<Rightarrow>
          (if pu_scheme u \<noteq> ''https'' \<or> pu_username u \<noteq> [] \<or> pu_password u \<noteq> None
              \<or> pu_path u \<noteq> ''/'' \<or> pu_query u \<noteq> None \<or> pu_fragment u \<noteq> None
              \<or> pu_origin_ascii u \<noteq> origin
           then Inl (invalid ''HTTP origin is not canonical HTTPS origin text'') else Inr ()))"

section \<open>Commands, paths and permissions\<close>

definition bad_pattern :: protocol_error where
  "bad_pattern = invalid ''exec command pattern is not canonical''"

definition quote_byte :: "byte \<Rightarrow> bool" where
  "quote_byte b \<longleftrightarrow> of_char b = (39::nat) \<or> of_char b = (34::nat) \<or> of_char b = (92::nat)"

fun bad_token :: "string list \<Rightarrow> bool" where
  "bad_token [] = False"
| "bad_token (token # rest) =
     (let final_wildcard = (token = ''*'' \<and> rest = [])
      in token = [] \<or> (CHR ''*'' \<in> set token \<and> \<not> final_wildcard)
         \<or> (\<not> final_wildcard \<and> list_ex (\<lambda>b. \<not> is_ascii_graphic b \<or> quote_byte b) token)
         \<or> bad_token rest)"

definition validate_exec_pattern :: "string \<Rightarrow> protocol_error + unit" where
  "validate_exec_pattern p =
     (if p = [] \<or> starts_with (CHR '' '') p \<or> ends_with (CHR '' '') p \<or> contains2 (CHR '' '') (CHR '' '') p
      then Inl bad_pattern
      else case split_on (CHR '' '') p of
          [] \<Rightarrow> Inl bad_pattern
        | executable # rest \<Rightarrow>
            (if CHR ''/'' \<in> set executable \<or> executable = ''*'' \<or> bad_token (executable # rest)
             then Inl bad_pattern else Inr ()))"

fun env_name_ok :: "string \<Rightarrow> bool" where
  "env_name_ok [] = False"
| "env_name_ok (c # cs) =
     ((is_ascii_alphabetic c \<or> c = CHR ''_'')
      \<and> list_all (\<lambda>b. is_ascii_alphanumeric b \<or> b = CHR ''_'') cs
      \<and> \<not> eq_ignore_ascii_case (c # cs) ''LC_ALL'' \<and> \<not> eq_ignore_ascii_case (c # cs) ''TZ'')"

definition validate_exec_environment_name :: "string \<Rightarrow> protocol_error + unit" where
  "validate_exec_environment_name n =
     ensure (env_name_ok n) (invalid ''exec environment name is not canonical'')"

definition validate_path :: "string \<Rightarrow> protocol_error + unit" where
  "validate_path p =
     (if p = [] \<or> length p > 4096 \<or> starts_with (CHR ''/'') p \<or> ends_with (CHR ''/'') p
         \<or> list_ex (\<lambda>c. of_char c = (92::nat)) p \<or> has_control p
         \<or> ends_with (CHR '':'') (hd (split_on (CHR ''/'') p))
         \<or> list_ex (\<lambda>q. q = [] \<or> q = ''.'' \<or> q = ''..'') (split_on (CHR ''/'') p)
      then Inl (invalid ''source path is not normalized and package-relative'') else Inr ())"

definition validate_base64 :: "externals \<Rightarrow> string \<Rightarrow> protocol_error + unit" where
  "validate_base64 X v =
     (case x_base64_decode X v of
        None \<Rightarrow> Inl (invalid ''base64 is not canonical RFC 4648 standard base64'')
      | Some d \<Rightarrow> ensure (x_base64_encode X d = v)
          (invalid ''base64 is not canonical RFC 4648 standard base64''))"

datatype permission_right = ReadRight | WriteRight | ListRight

datatype permission_target_kind = FileTarget | DirectoryTarget

datatype grant_duration = ExecutionDuration

fun right_rank :: "permission_right \<Rightarrow> nat" where
  "right_rank ReadRight = 0"
| "right_rank WriteRight = 1"
| "right_rank ListRight = 2"

instantiation permission_right :: linorder
begin

definition less_permission_right :: "permission_right \<Rightarrow> permission_right \<Rightarrow> bool" where
  "a < b \<longleftrightarrow> right_rank a < right_rank b"

definition less_eq_permission_right :: "permission_right \<Rightarrow> permission_right \<Rightarrow> bool" where
  "a \<le> b \<longleftrightarrow> right_rank a \<le> right_rank b"

instance
proof
  fix a b c :: permission_right
  show "a < b \<longleftrightarrow> a \<le> b \<and> \<not> b \<le> a"
    by (auto simp: less_permission_right_def less_eq_permission_right_def)
  show "a \<le> b \<Longrightarrow> b \<le> a \<Longrightarrow> a = b"
    by (cases a; cases b) (simp_all add: less_eq_permission_right_def)
qed (auto simp: less_eq_permission_right_def)

end

definition validate_permission_values ::
    "string \<Rightarrow> permission_right list \<Rightarrow> u64 \<Rightarrow> protocol_error + unit" where
  "validate_permission_values path rights max_bytes =
     (if path = [] \<or> length path > 4096 \<or> has_control path \<or> \<not> is_absolute path
         \<or> contains2 (CHR ''/'') (CHR ''/'') path
         \<or> (length path > 1 \<and> ends_with (CHR ''/'') path)
         \<or> list_ex (\<lambda>c. c = CurDir \<or> c = ParentDir) (path_components path)
      then Inl (invalid ''permission path is not an absolute canonical target'')
      else if rights = [] \<or> \<not> strictly_ascending rights
      then Inl (invalid ''permission rights must be sorted and unique'')
      else if max_bytes = 0 then Inl (invalid ''permission byte limit must be positive'')
      else Inr ())"

definition validate_permission_scope ::
    "string \<Rightarrow> permission_right list \<Rightarrow> bool \<Rightarrow> u64 \<Rightarrow> permission_target_kind \<Rightarrow> protocol_error + unit" where
  "validate_permission_scope path rights recursive max_bytes kind =
     result_bind (validate_permission_values path rights max_bytes) (\<lambda>_.
     if kind = FileTarget \<and> (recursive \<or> ListRight \<in> set rights)
     then Inl (invalid ''file permission request has directory authority'') else Inr ())"

section \<open>Timestamps\<close>

record TimestampKey =
  tk_year :: nat
  tk_month :: nat
  tk_day :: nat
  tk_hour :: nat
  tk_minute :: nat
  tk_second :: nat
  tk_nanos :: u32

text \<open>\<open>parse_decimal::<T>\<close> with \<open>T\<close> of the given width.\<close>

definition parse_decimal :: "nat \<Rightarrow> bytes \<Rightarrow> protocol_error + nat" where
  "parse_decimal width bs =
     (if bs = [] \<or> \<not> list_all is_ascii_digit bs
      then Inl (invalid ''timestamp contains invalid decimal text'')
      else if dec_value bs < 2 ^ width then Inr (dec_value bs)
      else Inl (invalid ''timestamp decimal value is out of range''))"

definition slice :: "nat \<Rightarrow> nat \<Rightarrow> bytes \<Rightarrow> bytes" where
  "slice a b bs = take (b - a) (drop a bs)"

definition bad_timestamp :: protocol_error where
  "bad_timestamp = invalid ''timestamp is not canonical RFC 3339 UTC text''"

definition timestamp_nanos :: "bytes \<Rightarrow> protocol_error + u32" where
  "timestamp_nanos bs =
     (if length bs = 20 then Inr 0
      else if 22 \<le> length bs \<and> length bs \<le> 30 \<and> bs ! 19 = CHR ''.'' then
        (let fraction = slice 20 (length bs - 1) bs
         in result_bind (parse_decimal 32 fraction) (\<lambda>v. Inr (of_nat v * 10 ^ (9 - length fraction))))
      else Inl bad_timestamp)"

definition maximum_day :: "nat \<Rightarrow> nat \<Rightarrow> nat" where
  "maximum_day year month =
     (let leap = year mod 4 = 0 \<and> (year mod 100 \<noteq> 0 \<or> year mod 400 = 0)
      in if month \<in> {1, 3, 5, 7, 8, 10, 12} then 31
         else if month \<in> {4, 6, 9, 11} then 30
         else if month = 2 then (if leap then 29 else 28) else 0)"

definition timestamp_key :: "string \<Rightarrow> protocol_error + TimestampKey" where
  "timestamp_key bs =
     (if length bs < 20 \<or> bs ! 4 \<noteq> CHR ''-'' \<or> bs ! 7 \<noteq> CHR ''-'' \<or> bs ! 10 \<noteq> CHR ''T''
         \<or> bs ! 13 \<noteq> CHR '':'' \<or> bs ! 16 \<noteq> CHR '':'' \<or> last bs \<noteq> CHR ''Z''
      then Inl bad_timestamp
      else
        result_bind (parse_decimal 16 (slice 0 4 bs)) (\<lambda>year.
        result_bind (parse_decimal 8 (slice 5 7 bs)) (\<lambda>month.
        result_bind (parse_decimal 8 (slice 8 10 bs)) (\<lambda>day.
        result_bind (parse_decimal 8 (slice 11 13 bs)) (\<lambda>hour.
        result_bind (parse_decimal 8 (slice 14 16 bs)) (\<lambda>minute.
        result_bind (parse_decimal 8 (slice 17 19 bs)) (\<lambda>second.
        result_bind (timestamp_nanos bs) (\<lambda>nanos.
        if year = 0 \<or> day = 0 \<or> day > maximum_day year month \<or> hour > 23 \<or> minute > 59 \<or> second > 59
        then Inl (invalid ''timestamp has an invalid calendar value'')
        else Inr \<lparr>tk_year = year, tk_month = month, tk_day = day, tk_hour = hour,
          tk_minute = minute, tk_second = second, tk_nanos = nanos\<rparr>))))))))"

definition validate_timestamp :: "string \<Rightarrow> protocol_error + unit" where
  "validate_timestamp s = result_bind (timestamp_key s) (\<lambda>_. Inr ())"

text \<open>The derived order of \<open>TimestampKey\<close> is lexicographic on the fields.\<close>

definition key_fields :: "TimestampKey \<Rightarrow> nat list" where
  "key_fields k = [tk_year k, tk_month k, tk_day k, tk_hour k, tk_minute k, tk_second k, unat (tk_nanos k)]"

section \<open>Command patterns\<close>

text \<open>The grammar the patterns are meant to have: literal words, the first a bare program name,
  separated by single spaces, with an optional final wildcard.\<close>

definition literal_token :: "string \<Rightarrow> bool" where
  "literal_token t \<longleftrightarrow> t \<noteq> [] \<and> CHR ''*'' \<notin> set t \<and> list_all (\<lambda>b. is_ascii_graphic b \<and> \<not> quote_byte b) t"

definition pattern_tokens :: "string list \<Rightarrow> bool" where
  "pattern_tokens ts \<longleftrightarrow> ts \<noteq> [] \<and> literal_token (hd ts) \<and> CHR ''/'' \<notin> set (hd ts) \<and>
     list_all literal_token (butlast ts) \<and> (literal_token (last ts) \<or> last ts = ''*'')"

lemma bad_token_iff:
  "\<not> bad_token ts \<longleftrightarrow> ts = [] \<or> list_all literal_token (butlast ts) \<and> (literal_token (last ts) \<or> last ts = ''*'')"
  by (induction ts) (auto simp: literal_token_def Let_def list_all_iff list_ex_iff)

lemma literal_no_space: "literal_token t \<Longrightarrow> CHR '' '' \<notin> set t \<and> t \<noteq> []"
  by (auto simp: literal_token_def list_all_iff is_ascii_graphic_def less_eq_char_def)

lemma pattern_tokens_no_space:
  assumes p: "pattern_tokens ts" and t: "t \<in> set ts"
  shows "CHR '' '' \<notin> set t \<and> t \<noteq> []"
proof -
  have "ts \<noteq> []" using p by (simp add: pattern_tokens_def)
  then have "set ts = set (butlast ts @ [last ts])" by (metis append_butlast_last_id)
  then have "set ts = insert (last ts) (set (butlast ts))" by simp
  with t consider "t = last ts" | "t \<in> set (butlast ts)" by blast
  then show ?thesis
    using p literal_no_space by cases (auto simp: pattern_tokens_def list_all_iff)
qed

text \<open>The guard on the text is subsumed by the check of the pieces: where it fires, a piece is
  empty.\<close>

lemma empty_piece:
  assumes "p = [] \<or> starts_with c p \<or> ends_with c p \<or> contains2 c c p"
  shows "[] \<in> set (split_on c p)"
  using assms
proof (elim disjE)
  assume "ends_with c p"
  then obtain a where "p = a @ [c]" by (metis append_butlast_last_id ends_with_def)
  then show ?thesis by (simp add: split_on_append_gen)
next
  assume "contains2 c c p"
  then obtain a b where "p = a @ c # c # b" by (auto simp: contains2_def dest!: split_once2_Some)
  then show ?thesis by (simp add: split_on_append_gen)
qed (auto simp: starts_with_def neq_Nil_conv)

lemma validate_exec_pattern_ok:
  "validate_exec_pattern p = Inr () \<longleftrightarrow> pattern_tokens (split_on (CHR '' '') p)"
proof (cases "split_on (CHR '' '') p")
  case (Cons e r)
  have bad: "\<not> bad_token ts \<Longrightarrow> [] \<notin> set ts" for ts
    by (induction ts) (auto simp: Let_def)
  have lit: "literal_token e" if "\<not> bad_token (e # r)" "e \<noteq> ''*''"
    using that by (auto simp: literal_token_def Let_def list_all_iff list_ex_iff)
  have star: "literal_token e \<Longrightarrow> e \<noteq> ''*''" by (auto simp: literal_token_def)
  have "validate_exec_pattern p = Inr () \<longleftrightarrow>
      \<not> bad_token (e # r) \<and> CHR ''/'' \<notin> set e \<and> e \<noteq> ''*''"
    using empty_piece [of p "CHR '' ''"] bad [of "e # r"] Cons
    by (simp add: validate_exec_pattern_def del: bad_token.simps) blast
  also have "\<dots> \<longleftrightarrow> pattern_tokens (e # r)"
    using lit star unfolding pattern_tokens_def bad_token_iff list.sel by blast
  finally show ?thesis using Cons by simp
qed simp

section \<open>Paths\<close>

text \<open>Lexical resolution of a path from a directory, both as lists of names.\<close>

fun resolve_step :: "string list \<Rightarrow> path_component \<Rightarrow> string list" where
  "resolve_step dir RootDir = []"
| "resolve_step dir CurDir = dir"
| "resolve_step dir ParentDir = butlast dir"
| "resolve_step dir (Normal n) = dir @ [n]"

definition resolve :: "string list \<Rightarrow> string \<Rightarrow> string list" where
  "resolve dir p = foldl resolve_step dir (path_components p)"

lemma resolve_normal: "foldl resolve_step dir (map Normal ns) = dir @ ns"
  by (induction ns arbitrary: dir) auto

lemma map_component_of: "''..'' \<notin> set ns \<Longrightarrow> map component_of ns = map Normal ns"
  by (induction ns) (auto simp: component_of_def)

lemma filter_id: "(\<forall>x\<in>set xs. P x) \<Longrightarrow> filter P xs = xs"
  by (induction xs) auto

lemma validate_path_components:
  assumes "validate_path p = Inr ()"
  shows "path_components p = map Normal (split_on (CHR ''/'') p)"
proof -
  let ?ps = "split_on (CHR ''/'') p"
  from assms have pieces: "\<forall>q\<in>set ?ps. q \<noteq> [] \<and> q \<noteq> ''.''" and up: "''..'' \<notin> set ?ps"
    and rel: "\<not> is_absolute p"
    by (auto simp: validate_path_def list_ex_iff is_absolute_def split: if_splits)
  from pieces have "hd ?ps \<noteq> ''.''" using list.set_sel(1) [of ?ps] by auto
  then show ?thesis
    by (simp add: path_components_def Let_def rel filter_id [OF pieces] map_component_of [OF up])
qed

lemma permission_path_components:
  assumes "validate_permission_values p rights n = Inr ()"
  shows "\<exists>ns. path_components p = RootDir # map Normal ns"
proof -
  let ?ns = "filter (\<lambda>q. q \<noteq> [] \<and> q \<noteq> ''.'') (split_on (CHR ''/'') p)"
  from assms have a: "is_absolute p" and n: "list_all (\<lambda>c. c \<noteq> ParentDir) (path_components p)"
    by (auto simp: validate_permission_values_def list_ex_iff list_all_iff split: if_splits)
  from a have p: "path_components p = RootDir # map component_of ?ns"
    by (simp add: path_components_def Let_def)
  from n have "''..'' \<notin> set ?ns"
    by (auto simp: p list_all_iff component_of_def image_iff)
  from map_component_of [OF this] p have "path_components p = RootDir # map Normal ?ns" by simp
  then show ?thesis by (rule exI)
qed

section \<open>Timestamps are chronological\<close>

text \<open>The instant a key names, in nanoseconds from the start of year 1 of the proleptic Gregorian
  calendar.\<close>

definition days_before_year :: "nat \<Rightarrow> nat" where
  "days_before_year y = 365 * (y - 1) + (y - 1) div 4 + (y - 1) div 400 - (y - 1) div 100"

definition days_before_month :: "nat \<Rightarrow> nat \<Rightarrow> nat" where
  "days_before_month y m = (\<Sum>i = 1..<m. maximum_day y i)"

definition instant :: "TimestampKey \<Rightarrow> nat" where
  "instant k = ((((days_before_year (tk_year k) + days_before_month (tk_year k) (tk_month k) + tk_day k)
     * 24 + tk_hour k) * 60 + tk_minute k) * 60 + tk_second k) * 10 ^ 9 + unat (tk_nanos k)"

definition valid_key :: "TimestampKey \<Rightarrow> bool" where
  "valid_key k \<longleftrightarrow> 1 \<le> tk_year k \<and> tk_year k \<le> 9999 \<and> 1 \<le> tk_month k \<and> tk_month k \<le> 12
     \<and> 1 \<le> tk_day k \<and> tk_day k \<le> maximum_day (tk_year k) (tk_month k)
     \<and> tk_hour k < 24 \<and> tk_minute k < 60 \<and> tk_second k < 60 \<and> unat (tk_nanos k) < 10 ^ 9"

lemma timestamp_nanos_bound:
  assumes "timestamp_nanos bs = Inr n"
  shows "unat n < 10 ^ 9"
proof (cases "length bs = 20")
  case False
  let ?f = "slice 20 (length bs - 1) bs"
  from assms False have l: "length ?f \<le> 9" and d: "list_all is_ascii_digit ?f"
    and n: "n = of_nat (dec_value ?f) * 10 ^ (9 - length ?f)"
    by (auto simp: timestamp_nanos_def parse_decimal_def Let_def result_simps slice_def split: if_splits)
  have "dec_value ?f * 10 ^ (9 - length ?f) < 10 ^ length ?f * 10 ^ (9 - length ?f)"
    using dec_value_bound [OF d] by simp
  also have "\<dots> = 10 ^ 9" using l by (simp flip: power_add)
  finally have b: "dec_value ?f * 10 ^ (9 - length ?f) < 10 ^ 9" .
  have "n = of_nat (dec_value ?f * 10 ^ (9 - length ?f))" by (simp add: n)
  then have "unat n = dec_value ?f * 10 ^ (9 - length ?f)"
    using b by (simp only: unat_of_nat) simp
  with b show ?thesis by simp
qed (use assms in \<open>simp add: timestamp_nanos_def\<close>)

lemma maximum_day_pos: "0 < maximum_day y m \<Longrightarrow> 1 \<le> m \<and> m \<le> 12"
  by (auto simp: maximum_day_def split: if_splits)

lemma timestamp_key_valid:
  assumes "timestamp_key s = Inr k"
  shows "valid_key k"
proof -
  from assms have y: "tk_year k = dec_value (slice 0 4 s)" "list_all is_ascii_digit (slice 0 4 s)"
    and n: "timestamp_nanos s = Inr (tk_nanos k)"
    and r: "tk_year k \<noteq> 0" "tk_day k \<noteq> 0" "tk_day k \<le> maximum_day (tk_year k) (tk_month k)"
      "tk_hour k \<le> 23" "tk_minute k \<le> 59" "tk_second k \<le> 59"
    by (auto simp: timestamp_key_def parse_decimal_def result_simps split: if_splits)
  have "length (slice 0 4 s) \<le> 4" by (simp add: slice_def)
  then have "(10::nat) ^ length (slice 0 4 s) \<le> 10 ^ 4" by (rule power_increasing) simp
  with dec_value_bound [OF y(2)] y(1) have "tk_year k \<le> 9999" by simp
  moreover have "1 \<le> tk_month k \<and> tk_month k \<le> 12"
    using r(2,3) by (intro maximum_day_pos [of "tk_year k"]) linarith
  ultimately show ?thesis using r timestamp_nanos_bound [OF n] by (simp add: valid_key_def)
qed

definition year_days :: "nat \<Rightarrow> nat" where
  "year_days y = days_before_month y 13"

lemma year_days_eq:
  "year_days y = (if y mod 4 = 0 \<and> (y mod 100 \<noteq> 0 \<or> y mod 400 = 0) then 366 else 365)"
  by (simp add: year_days_def days_before_month_def atLeastLessThan_nat_numeral maximum_day_def)

lemma days_before_year_Suc:
  assumes "1 \<le> y"
  shows "days_before_year (Suc y) = days_before_year y + year_days y"
proof -
  obtain z where z: "y = Suc z" using assms by (cases y) auto
  have le: "z div 100 \<le> z div 4" by (intro div_le_mono2) auto
  have "400 dvd Suc z \<Longrightarrow> 100 dvd Suc z" "100 dvd Suc z \<Longrightarrow> 4 dvd Suc z"
    using dvd_trans [of 100 400 "Suc z"] dvd_trans [of 4 100 "Suc z"] by auto
  then show ?thesis
    using le unfolding z days_before_year_def year_days_eq diff_Suc_1 div_Suc dvd_eq_mod_eq_0 [symmetric]
    by (auto simp: ac_simps)
qed

lemma days_before_year_mono:
  assumes "1 \<le> y" "y < y'"
  shows "days_before_year y + year_days y \<le> days_before_year y'"
  using assms(2)
proof (induction y')
  case (Suc y')
  then show ?case
    using assms(1) days_before_year_Suc [of y'] by (cases "y = y'") auto
qed simp

lemma days_before_month_mono:
  assumes "1 \<le> m" "m < m'"
  shows "days_before_month y m + maximum_day y m \<le> days_before_month y m'"
proof -
  have "days_before_month y m + maximum_day y m = (\<Sum>i = 1..<Suc m. maximum_day y i)"
    using assms by (simp add: days_before_month_def)
  also have "\<dots> \<le> days_before_month y m'"
    unfolding days_before_month_def using assms by (intro sum_mono2) auto
  finally show ?thesis .
qed

definition date_days :: "TimestampKey \<Rightarrow> nat" where
  "date_days k = days_before_year (tk_year k) + days_before_month (tk_year k) (tk_month k) + tk_day k"

lemma date_days_less:
  assumes "valid_key k" "valid_key k'"
    and "[tk_year k, tk_month k, tk_day k] < [tk_year k', tk_month k', tk_day k']"
  shows "date_days k < date_days k'"
proof -
  consider "tk_year k < tk_year k'" | "tk_year k = tk_year k'" "tk_month k < tk_month k'"
    | "tk_year k = tk_year k'" "tk_month k = tk_month k'" "tk_day k < tk_day k'"
    using assms(3) by auto
  then show ?thesis
  proof cases
    case 1
    have "days_before_month (tk_year k) (tk_month k) + tk_day k \<le> year_days (tk_year k)"
      using assms(1) days_before_month_mono [of "tk_month k" 13 "tk_year k"]
      by (auto simp: valid_key_def year_days_def)
    moreover have "days_before_year (tk_year k) + year_days (tk_year k) \<le> days_before_year (tk_year k')"
      using assms(1) 1 by (intro days_before_year_mono) (auto simp: valid_key_def)
    ultimately show ?thesis using assms(2) by (auto simp: date_days_def valid_key_def)
  next
    case 2
    then show ?thesis
      using assms(1,2) days_before_month_mono [of "tk_month k" "tk_month k'" "tk_year k"]
      by (auto simp: date_days_def valid_key_def)
  qed (simp add: date_days_def)
qed

lemma radix_less: "a < a' \<Longrightarrow> b < K \<Longrightarrow> a * K + b < a' * K + (b' :: nat)"
proof -
  assume "a < a'" "b < K"
  then have "a * K + b < Suc a * K" by simp
  also have "\<dots> \<le> a' * K" using \<open>a < a'\<close> by (intro mult_le_mono1) simp
  finally show ?thesis by simp
qed

lemma instant_less:
  assumes v: "valid_key k" "valid_key k'" and l: "key_fields k < key_fields k'"
  shows "instant k < instant k'"
proof -
  let ?h = "\<lambda>k. date_days k * 24 + tk_hour k"
  let ?m = "\<lambda>k. ?h k * 60 + tk_minute k"
  let ?s = "\<lambda>k. ?m k * 60 + tk_second k"
  have i: "instant k = ?s k * 10 ^ 9 + unat (tk_nanos k)" for k
    by (simp add: instant_def date_days_def)
  have b: "tk_hour k < 24" "tk_minute k < 60" "tk_second k < 60" "unat (tk_nanos k) < 10 ^ 9"
    using v(1) by (auto simp: valid_key_def)
  have up_s: "?s k < ?s k' \<Longrightarrow> instant k < instant k'" unfolding i by (rule radix_less) (use b in simp_all)
  have up_m: "?m k < ?m k' \<Longrightarrow> ?s k < ?s k'" by (rule radix_less) (use b in simp_all)
  have up_h: "?h k < ?h k' \<Longrightarrow> ?m k < ?m k'" by (rule radix_less) (use b in simp_all)
  have up_d: "date_days k < date_days k' \<Longrightarrow> ?h k < ?h k'" by (rule radix_less) (use b in simp_all)
  consider "[tk_year k, tk_month k, tk_day k] < [tk_year k', tk_month k', tk_day k']"
    | "date_days k = date_days k'"
      "[tk_hour k, tk_minute k, tk_second k, unat (tk_nanos k)]
        < [tk_hour k', tk_minute k', tk_second k', unat (tk_nanos k')]"
    using l by (auto simp: key_fields_def date_days_def)
  then show ?thesis
  proof cases
    case 1
    with v have "date_days k < date_days k'" by (rule date_days_less)
    then show ?thesis by (intro up_s up_m up_h up_d)
  next
    case 2
    then show ?thesis using up_s up_m up_h by (auto simp: i)
  qed
qed

lemma instant_order:
  assumes "valid_key k" "valid_key k'"
  shows "key_fields k \<le> key_fields k' \<longleftrightarrow> instant k \<le> instant k'"
proof -
  have "key_fields k = key_fields k' \<Longrightarrow> instant k = instant k'"
    by (simp add: key_fields_def instant_def)
  then show ?thesis
    using instant_less [OF assms] instant_less [OF assms(2,1)]
    by (cases "key_fields k" "key_fields k'" rule: linorder_cases) auto
qed

section \<open>Properties\<close>

text \<open>The command patterns a program may be granted are exactly the canonical ones: literal
  words separated by single spaces, the first a bare program name without a slash, optionally
  ended by one wildcard word. No other text passes the validator, and every such text does.\<close>

theorem exec_patterns_canonical:
  "validate_exec_pattern p = Inr () \<longleftrightarrow> (\<exists>ts. pattern_tokens ts \<and> p = join_on (CHR '' '') ts)"
proof
  assume "validate_exec_pattern p = Inr ()"
  then have "pattern_tokens (split_on (CHR '' '') p)" by (simp add: validate_exec_pattern_ok)
  then show "\<exists>ts. pattern_tokens ts \<and> p = join_on (CHR '' '') ts" by (metis join_split_on)
next
  assume "\<exists>ts. pattern_tokens ts \<and> p = join_on (CHR '' '') ts"
  then obtain ts where ts: "pattern_tokens ts" "p = join_on (CHR '' '') ts" by blast
  then have "split_on (CHR '' '') p = ts"
    using pattern_tokens_no_space by (auto simp: pattern_tokens_def intro!: split_join_on)
  with ts(1) show "validate_exec_pattern p = Inr ()" by (simp add: validate_exec_pattern_ok)
qed

text \<open>(C26) Source files of a bundle stay inside the package: from any directory, an accepted path
  resolves to that directory followed by the pieces of the path, whatever they are.\<close>

theorem source_paths_stay_inside:
  assumes "validate_path p = Inr ()"
  shows "resolve dir p = dir @ split_on (CHR ''/'') p \<and> \<not> is_absolute p"
proof -
  have "path_components p = map Normal (split_on (CHR ''/'') p)"
    by (rule validate_path_components [OF assms])
  moreover have "\<not> is_absolute p"
    using assms by (auto simp: validate_path_def is_absolute_def split: if_splits)
  ultimately show ?thesis by (simp add: resolve_def resolve_normal)
qed

theorem source_paths_stay_inside_witness:
  "resolve [''pkg''] ''src/main.allen'' = [''pkg'', ''src'', ''main.allen'']"
proof -
  have "validate_path ''src/main.allen'' = Inr ()"
    by (simp add: validate_path_def starts_with_def ends_with_def in_range_def)
  from source_paths_stay_inside [OF this, of "[''pkg'']"] show ?thesis by simp
qed

text \<open>Timestamps are compared in the order of time: an accepted timestamp is a date and time of
  the Gregorian calendar in the years 1 to 9999, the nanoseconds are computed without overflow, and
  the order on the parsed keys is the order of the instants they name.\<close>

theorem timestamps_chronological:
  assumes "timestamp_key s = Inr k" "timestamp_key s' = Inr k'"
  shows "valid_key k \<and> (key_fields k \<le> key_fields k' \<longleftrightarrow> instant k \<le> instant k')"
  using timestamp_key_valid [OF assms(1)] timestamp_key_valid [OF assms(2)] instant_order by blast

theorem timestamps_chronological_witness:
  "\<exists>k k'. timestamp_key ''2024-02-29T23:59:59.5Z'' = Inr k \<and> timestamp_key ''2024-03-01T00:00:00Z'' = Inr k'
     \<and> instant k \<le> instant k'"
proof -
  let ?k = "\<lparr>tk_year = 2024, tk_month = 2, tk_day = 29, tk_hour = 23, tk_minute = 59, tk_second = 59,
      tk_nanos = 500000000\<rparr>"
  let ?k' = "\<lparr>tk_year = 2024, tk_month = 3, tk_day = 1, tk_hour = 0, tk_minute = 0, tk_second = 0,
      tk_nanos = 0\<rparr>"
  have k: "timestamp_key ''2024-02-29T23:59:59.5Z'' = Inr ?k"
    and k': "timestamp_key ''2024-03-01T00:00:00Z'' = Inr ?k'"
    by (simp_all add: timestamp_key_def timestamp_nanos_def parse_decimal_def slice_def dec_value_def
        digit_val_def is_ascii_digit_def less_eq_char_def maximum_day_def)
  have "key_fields ?k \<le> key_fields ?k'" by (simp add: key_fields_def)
  then show ?thesis using timestamps_chronological [OF k k'] k k' by blast
qed

end
