(* ===== verification/Payload.thy ===== *)
theory Payload
  imports Payload_Text
begin

text \<open>
  The request, result and notification payloads of \<open>josh-protocol/src/payload.rs\<close>: projection,
  catalog, program, execution, tool, agent and transcript payloads as records, with the validator
  of each.
\<close>

section \<open>Reading payloads\<close>

text \<open>\<open>T: DeserializeOwned + Validate\<close> is the pair of a shape reader and a validator.\<close>

definition checked_payload ::
    "(json \<Rightarrow> 'a option) \<Rightarrow> ('a \<Rightarrow> protocol_error + unit) \<Rightarrow> json \<Rightarrow> protocol_error + 'a" where
  "checked_payload from_value validate v =
     result_bind (ok_or (from_value v) (InvalidMessage LibraryText)) (\<lambda>p.
     result_bind (validate p) (\<lambda>_. Inr p))"

fun request_params ::
    "(json \<Rightarrow> 'a option) \<Rightarrow> ('a \<Rightarrow> protocol_error + unit) \<Rightarrow> wire_message \<Rightarrow> string \<Rightarrow> protocol_error + 'a" where
  "request_params from_value validate (Request i m params) expected =
     (if m \<noteq> expected then Inl (invalid (''expected method '' @ [char_of (39::nat)] @ expected @ [char_of (39::nat)]))
      else checked_payload from_value validate params)"
| "request_params from_value validate _ expected = Inl (invalid ''expected a request'')"

fun notification_params ::
    "(json \<Rightarrow> 'a option) \<Rightarrow> ('a \<Rightarrow> protocol_error + unit) \<Rightarrow> wire_message \<Rightarrow> string \<Rightarrow> protocol_error + 'a" where
  "notification_params from_value validate (Notification m params) expected =
     (if m \<noteq> expected then Inl (invalid (''expected method '' @ [char_of (39::nat)] @ expected @ [char_of (39::nat)]))
      else checked_payload from_value validate params)"
| "notification_params from_value validate _ expected = Inl (invalid ''expected a notification'')"

fun response_result ::
    "(json \<Rightarrow> 'a option) \<Rightarrow> ('a \<Rightarrow> protocol_error + unit) \<Rightarrow> wire_message \<Rightarrow> protocol_error + 'a" where
  "response_result from_value validate (Response i (Some r) None) = checked_payload from_value validate r"
| "response_result from_value validate _ = Inl (invalid ''expected a successful response'')"

section \<open>Host projection\<close>

definition SCHEMA_DIALECT :: string where
  "SCHEMA_DIALECT = ''https://json-schema.org/draft/2020-12/schema''"

definition SCHEMA_PROFILE :: string where
  "SCHEMA_PROFILE = ''allen.tool-schema/0.1''"

definition HOST_PROJECTION_PROFILE :: string where
  "HOST_PROJECTION_PROFILE = ''josh.host-projection/0.1''"

datatype idempotency = Unknown | Idempotent | NonIdempotent

datatype catalog_freshness = Current | Cached

datatype projection_section_kind =
    Tools | Resources | Attachments | Transcript | Models | UserInteraction | Agents | Roots
  | Permissions | Telemetry

definition all_section_kinds :: "projection_section_kind list" where
  "all_section_kinds = [Tools, Resources, Attachments, Transcript, Models, UserInteraction, Agents,
     Roots, Permissions, Telemetry]"

datatype session_binding_level = NoBinding | PromptAssisted | Authenticated

record projection_section =
  ps_kind :: projection_section_kind
  ps_source :: string
  ps_source_revision :: string
  ps_observed_at_unix_ms :: u64
  ps_freshness :: catalog_freshness
  ps_complete :: bool
  ps_item_count :: u64

definition projection_section_validate :: "projection_section \<Rightarrow> protocol_error + unit" where
  "projection_section_validate s =
     result_bind (validate_opaque (ps_source s) ''projection section source'') (\<lambda>_.
     result_bind (validate_opaque (ps_source_revision s) ''projection section source revision'') (\<lambda>_.
     if ps_observed_at_unix_ms s = 0 then Inl (invalid ''projection section observation time is zero'')
     else if ps_item_count s > 1048576 then Inl (invalid ''projection section item count exceeds the limit'')
     else Inr ()))"

record host_projection_set_params =
  hp_profile :: string
  hp_projection_id :: string
  hp_host :: peer_info
  hp_session_binding :: session_binding_level
  hp_sections :: "projection_section list"

fun validate_sections :: "projection_section list \<Rightarrow> projection_section_kind list \<Rightarrow> protocol_error + unit" where
  "validate_sections (s # ss) (k # ks) =
     (if ps_kind s \<noteq> k then Inl (invalid ''host projection sections are not in canonical order'')
      else result_bind (projection_section_validate s) (\<lambda>_.
        if \<not> ps_complete s then Inl (invalid ''host projection section is incomplete'')
        else validate_sections ss ks))"
| "validate_sections _ _ = Inr ()"

definition host_projection_set_params_validate ::
    "externals \<Rightarrow> host_projection_set_params \<Rightarrow> protocol_error + unit" where
  "host_projection_set_params_validate X p =
     (if hp_profile p \<noteq> HOST_PROJECTION_PROFILE then Inl (invalid ''host projection profile is invalid'')
      else result_bind (validate_opaque (hp_projection_id p) ''projection ID'') (\<lambda>_.
        result_bind (peer_info_validate (x_semver X) (hp_host p)) (\<lambda>_.
        if length (hp_sections p) \<noteq> length all_section_kinds
        then Inl (invalid ''host projection must contain every canonical section'')
        else validate_sections (hp_sections p) all_section_kinds)))"

text \<open>\<open>None\<close> is the panic of \<open>expect\<close>.\<close>

definition section_of :: "host_projection_set_params \<Rightarrow> projection_section_kind \<Rightarrow> projection_section option" where
  "section_of p kind = find (\<lambda>s. ps_kind s = kind) (hp_sections p)"

record host_projection_set_result =
  hr_projection_digest :: string
  hr_projection :: host_projection_set_params

definition host_projection_set_result_validate ::
    "externals \<Rightarrow> host_projection_set_result \<Rightarrow> protocol_error + unit" where
  "host_projection_set_result_validate X r =
     result_bind (validate_digest (hr_projection_digest r)) (\<lambda>_.
     host_projection_set_params_validate X (hr_projection r))"

section \<open>Catalog\<close>

record catalog_metadata =
  cm_source :: string
  cm_source_revision :: string
  cm_observed_at_unix_ms :: u64
  cm_freshness :: catalog_freshness
  cm_complete :: bool

definition catalog_metadata_validate :: "catalog_metadata \<Rightarrow> protocol_error + unit" where
  "catalog_metadata_validate c =
     result_bind (validate_opaque (cm_source c) ''catalog source'') (\<lambda>_.
     result_bind (validate_opaque (cm_source_revision c) ''catalog source revision'') (\<lambda>_.
     if cm_observed_at_unix_ms c = 0 then Inl (invalid ''catalog observation time is zero'') else Inr ()))"

definition catalog_metadata_complete :: "string \<Rightarrow> string \<Rightarrow> u64 \<Rightarrow> catalog_metadata" where
  "catalog_metadata_complete source source_revision observed_at_unix_ms =
     \<lparr>cm_source = source, cm_source_revision = source_revision,
      cm_observed_at_unix_ms = observed_at_unix_ms, cm_freshness = Current, cm_complete = True\<rparr>"

record catalog_tool =
  ct_name :: string
  ct_version :: string
  ct_description :: string
  ct_input_schema :: json
  ct_output_schema :: json
  ct_error_schema :: json
  ct_effects :: "string list"
  ct_idempotency :: idempotency

definition catalog_tool_validate :: "externals \<Rightarrow> catalog_tool \<Rightarrow> protocol_error + unit" where
  "catalog_tool_validate X t =
     result_bind (validate_tool_name (ct_name t)) (\<lambda>_.
     result_bind (validate_semver (x_semver X) (ct_version t)) (\<lambda>_.
     result_bind (validate_description (ct_description t)) (\<lambda>_.
     if length (ct_effects t) > 32 then Inl (invalid ''tool has more than 32 effects'')
     else result_bind (validate_sorted_unique (ct_effects t) ''tool effects'') (\<lambda>_.
       try_all validate_effect (ct_effects t)))))"

record catalog_set_params =
  cp_schema_dialect :: string
  cp_metadata :: catalog_metadata
  cp_tools :: "catalog_tool list"

definition catalog_set_params_validate :: "externals \<Rightarrow> catalog_set_params \<Rightarrow> protocol_error + unit" where
  "catalog_set_params_validate X c =
     (if cp_schema_dialect c \<noteq> SCHEMA_DIALECT then Inl (invalid ''catalog schema dialect is invalid'')
      else result_bind (catalog_metadata_validate (cp_metadata c)) (\<lambda>_.
        result_bind (validate_sorted_unique (map ct_name (cp_tools c)) ''catalog tools'') (\<lambda>_.
        try_all (catalog_tool_validate X) (cp_tools c))))"

text \<open>\<open>u64::try_from(len).unwrap_or(u64::MAX)\<close> of a length.\<close>

definition u64_of_len :: "nat \<Rightarrow> u64" where
  "u64_of_len n = (if n < 2 ^ 64 then of_nat n else -1)"

definition complete_for_catalog ::
    "string \<Rightarrow> peer_info \<Rightarrow> session_binding_level \<Rightarrow> catalog_set_params \<Rightarrow> host_projection_set_params" where
  "complete_for_catalog projection_id host session_binding catalog =
     \<lparr>hp_profile = HOST_PROJECTION_PROFILE, hp_projection_id = projection_id, hp_host = host,
      hp_session_binding = session_binding,
      hp_sections = map (\<lambda>kind.
        \<lparr>ps_kind = kind, ps_source = cm_source (cp_metadata catalog),
         ps_source_revision = cm_source_revision (cp_metadata catalog),
         ps_observed_at_unix_ms = cm_observed_at_unix_ms (cp_metadata catalog),
         ps_freshness = cm_freshness (cp_metadata catalog), ps_complete = True,
         ps_item_count = (if kind = Tools then u64_of_len (length (cp_tools catalog)) else 0)\<rparr>)
        all_section_kinds\<rparr>"

record catalog_tool_summary =
  cs_name :: string
  cs_version :: string
  cs_description :: string

definition catalog_tool_summary_validate :: "externals \<Rightarrow> catalog_tool_summary \<Rightarrow> protocol_error + unit" where
  "catalog_tool_summary_validate X t =
     result_bind (validate_tool_name (cs_name t)) (\<lambda>_.
     result_bind (validate_semver (x_semver X) (cs_version t)) (\<lambda>_.
     validate_description (cs_description t)))"

record catalog_set_result =
  cr_catalog_digest :: string
  cr_schema_profile :: string
  cr_tool_count :: u64
  cr_metadata :: catalog_metadata
  cr_tools :: "catalog_tool_summary list"

definition catalog_set_result_validate :: "externals \<Rightarrow> catalog_set_result \<Rightarrow> protocol_error + unit" where
  "catalog_set_result_validate X r =
     result_bind (validate_digest (cr_catalog_digest r)) (\<lambda>_.
     if cr_schema_profile r \<noteq> SCHEMA_PROFILE then Inl (invalid ''catalog result schema profile is invalid'')
     else result_bind (catalog_metadata_validate (cr_metadata r)) (\<lambda>_.
       if \<not> cm_complete (cr_metadata r) then Inl (invalid ''successful catalog result is incomplete'')
       else if unat (cr_tool_count r) \<noteq> length (cr_tools r)
       then Inl (invalid ''catalog result tool count does not match tools'')
       else result_bind (validate_sorted_unique (map cs_name (cr_tools r)) ''catalog result tools'') (\<lambda>_.
         try_all (catalog_tool_summary_validate X) (cr_tools r))))"

section \<open>Programs\<close>

datatype file_encoding = Utf8 | Base64

record source_file =
  sf_path :: string
  sf_encoding :: file_encoding
  sf_content :: string

definition must_be_utf8 :: "source_file \<Rightarrow> bool" where
  "must_be_utf8 f \<longleftrightarrow> sf_path f = ''allen.toml'' \<or> sf_path f = ''allen.lock''
     \<or> ends_with_str ''.allen'' (sf_path f)"

definition validate_source_file :: "externals \<Rightarrow> source_file \<Rightarrow> protocol_error + unit" where
  "validate_source_file X f =
     result_bind (validate_path (sf_path f)) (\<lambda>_.
     case sf_encoding f of
       Utf8 \<Rightarrow> (if must_be_utf8 f then Inr ()
                else Inl (invalid ''source file encoding does not match its path''))
     | Base64 \<Rightarrow> (if \<not> must_be_utf8 f then validate_base64 X (sf_content f)
                else Inl (invalid ''source file encoding does not match its path'')))"

definition validate_source_files :: "externals \<Rightarrow> source_file list \<Rightarrow> protocol_error + unit" where
  "validate_source_files X files =
     (if \<not> (1 \<le> length files \<and> length files \<le> 1024) then Inl (invalid ''source bundle file count is invalid'')
      else let paths = map sf_path files in
        result_bind (validate_sorted_unique paths ''source bundle paths'') (\<lambda>_.
        let loose_source = (paths = [''src/main.allen'']);
            manifest_count = length (filter (\<lambda>p. p = ''allen.toml'') paths)
        in if \<not> loose_source \<and> manifest_count \<noteq> 1
           then Inl (invalid ''source bundle must contain one root allen.toml or one loose src/main.allen'')
           else try_all (validate_source_file X) files))"

datatype program_load_params = SourceBundle "source_file list" | Bytecode string

fun program_load_params_validate :: "externals \<Rightarrow> program_load_params \<Rightarrow> protocol_error + unit" where
  "program_load_params_validate X (SourceBundle files) = validate_source_files X files"
| "program_load_params_validate X (Bytecode artifact) = validate_base64 X artifact"

record entry_contract =
  ec_name :: string
  ec_input_schema :: string
  ec_output_schema :: string
  ec_input_contract_digest :: string
  ec_output_contract_digest :: string

definition entry_contract_validate :: "entry_contract \<Rightarrow> protocol_error + unit" where
  "entry_contract_validate e =
     (if ec_name e = [] then Inl (invalid ''entry name is empty'')
      else result_bind (validate_digest (ec_input_schema e)) (\<lambda>_.
        result_bind (validate_digest (ec_output_schema e)) (\<lambda>_.
        result_bind (validate_digest (ec_input_contract_digest e)) (\<lambda>_.
        validate_digest (ec_output_contract_digest e)))))"

record diagnostic_span =
  ds_uri :: string
  ds_start :: u64
  ds_end :: u64

record diagnostic_label_span =
  dl_start :: u64
  dl_end :: u64

record diagnostic_label =
  dg_span :: diagnostic_label_span
  dg_message :: string

datatype diagnostic_severity = ErrorSeverity | WarningSeverity

record compiler_diagnostic =
  cd_code :: string
  cd_severity :: diagnostic_severity
  cd_message :: string
  cd_primary :: diagnostic_span
  cd_labels :: "diagnostic_label list"
  cd_notes :: "string list"
  cd_help :: "string option"

record program_load_result =
  pr_program_id :: string
  pr_artifact_digest :: string
  pr_tool_contract_digest :: string
  pr_diagnostics :: "compiler_diagnostic list"
  pr_entries :: "entry_contract list"
  pr_required_tools :: "string list"
  pr_exec_commands :: "string list"
  pr_exec_environment :: "string list"

definition program_load_result_validate :: "program_load_result \<Rightarrow> protocol_error + unit" where
  "program_load_result_validate r =
     (if pr_program_id r = [] \<or> length (pr_program_id r) > 64 then Inl (invalid ''program_id is invalid'')
      else result_bind (validate_digest (pr_artifact_digest r)) (\<lambda>_.
        result_bind (validate_digest (pr_tool_contract_digest r)) (\<lambda>_.
        if pr_diagnostics r \<noteq> [] then Inl (invalid ''successful load diagnostics must be empty'')
        else result_bind (validate_sorted_unique (map ec_name (pr_entries r)) ''entries'') (\<lambda>_.
          result_bind (try_all entry_contract_validate (pr_entries r)) (\<lambda>_.
          result_bind (validate_sorted_unique (pr_required_tools r) ''required_tools'') (\<lambda>_.
          result_bind (try_all validate_tool_name (pr_required_tools r)) (\<lambda>_.
          result_bind (validate_sorted_unique (pr_exec_commands r) ''exec_commands'') (\<lambda>_.
          result_bind (try_all validate_exec_pattern (pr_exec_commands r)) (\<lambda>_.
          result_bind (validate_sorted_unique (pr_exec_environment r) ''exec_environment'') (\<lambda>_.
          try_all validate_exec_environment_name (pr_exec_environment r)))))))))))"

section \<open>Executions\<close>

definition EXECUTION_LIMITS :: "string list" where
  "EXECUTION_LIMITS = [''call_depth'', ''cleanup_instructions'', ''concurrent_effects'', ''effects'',
     ''fs_entries'', ''fs_file_bytes'', ''fs_operations'', ''fs_read_bytes'', ''fs_write_bytes'',
     ''heap_bytes'', ''http_compressed_bytes'', ''http_connect_ms'', ''http_decoded_bytes'',
     ''http_decompression_ratio'', ''http_dns_addresses'', ''http_first_byte_ms'', ''http_idle_ms'',
     ''http_redirects'', ''http_requests'', ''http_response_header_bytes'',
     ''http_response_headers'', ''http_total_ms'', ''input_bytes'', ''instructions'',
     ''maximum_allocation_bytes'', ''output_bytes'', ''tasks'', ''wall_ms'']"

definition validate_limit :: "string \<Rightarrow> string \<times> u64 \<Rightarrow> protocol_error + unit" where
  "validate_limit text l =
     (if fst l \<notin> set EXECUTION_LIMITS \<or> snd l = 0 then Inl (invalid text) else Inr ())"

definition validate_capability :: "string \<Rightarrow> string \<Rightarrow> protocol_error + unit" where
  "validate_capability text c = ensure (standard_capability c) (invalid text)"

record execution_start_params =
  es_execution_id :: string
  es_program_id :: string
  es_artifact_digest :: string
  es_entry :: string
  es_input :: json
  es_working_directory :: "string option"
  es_granted_capabilities :: "string list"
  es_granted_tools :: "string list"
  es_allowed_http_origins :: "string list"
  es_granted_exec :: "string list"
  es_granted_exec_environment :: "string list"
  es_limits :: "(string, u64) btree_map"

definition execution_start_params_validate ::
    "externals \<Rightarrow> execution_start_params \<Rightarrow> protocol_error + unit" where
  "execution_start_params_validate X p =
     result_bind (validate_opaque (es_execution_id p) ''execution_id'') (\<lambda>_.
     result_bind (validate_opaque (es_program_id p) ''program_id'') (\<lambda>_.
     result_bind (validate_digest (es_artifact_digest p)) (\<lambda>_.
     if es_entry p = [] then Inl (invalid ''execution entry is empty'')
     else if es_working_directory p = Some [] then Inl (invalid ''working_directory cannot be empty'')
     else
       result_bind (validate_sorted_unique (es_granted_capabilities p) ''granted_capabilities'') (\<lambda>_.
       result_bind (try_all (validate_capability ''granted capability is not implemented'')
         (es_granted_capabilities p)) (\<lambda>_.
       result_bind (validate_sorted_unique (es_granted_tools p) ''granted_tools'') (\<lambda>_.
       result_bind (try_all validate_tool_name (es_granted_tools p)) (\<lambda>_.
       result_bind (validate_sorted_unique (es_allowed_http_origins p) ''allowed_http_origins'') (\<lambda>_.
       result_bind (try_all (validate_https_origin X) (es_allowed_http_origins p)) (\<lambda>_.
       result_bind (validate_sorted_unique (es_granted_exec p) ''granted_exec'') (\<lambda>_.
       result_bind (try_all validate_exec_pattern (es_granted_exec p)) (\<lambda>_.
       result_bind (validate_sorted_unique (es_granted_exec_environment p) ''granted_exec_environment'') (\<lambda>_.
       result_bind (try_all validate_exec_environment_name (es_granted_exec_environment p)) (\<lambda>_.
       try_all (validate_limit ''execution limit is unknown or zero'') (es_limits p))))))))))))))"

record protocol_runtime_error =
  re_code :: string
  re_message :: string
  re_category :: string
  re_retryable :: bool
  re_span :: "json option"
  re_operation_id :: "string option"
  re_metadata :: "(string, json) btree_map"
  re_causes :: "json list"

definition protocol_runtime_error_validate :: "protocol_runtime_error \<Rightarrow> protocol_error + unit" where
  "protocol_runtime_error_validate e =
     (if re_code e = [] \<or> length (re_message e) > 1024
      then Inl (invalid ''runtime error has invalid safe text'') else Inr ())"

datatype execution_result =
    ExecCompleted json
  | ExecStopped "string option"
  | ExecFailed protocol_runtime_error
  | ExecCancelled "string option"

definition validate_optional :: "('a \<Rightarrow> protocol_error + unit) \<Rightarrow> 'a option \<Rightarrow> protocol_error + unit" where
  "validate_optional f v = (case v of None \<Rightarrow> Inr () | Some x \<Rightarrow> f x)"

fun execution_result_validate :: "execution_result \<Rightarrow> protocol_error + unit" where
  "execution_result_validate (ExecStopped reason) = validate_optional validate_reason reason"
| "execution_result_validate (ExecCancelled reason) = validate_optional validate_reason reason"
| "execution_result_validate (ExecFailed e) = protocol_runtime_error_validate e"
| "execution_result_validate (ExecCompleted output) = Inr ()"

record tool_invoke_params =
  ti_execution_id :: string
  ti_operation_id :: string
  ti_tool :: string
  ti_tool_version :: string
  ti_catalog_digest :: string
  ti_input_schema :: string
  ti_output_schema :: string
  ti_error_schema :: string
  ti_input :: json
  ti_deadline_ms :: u64

definition tool_invoke_params_validate :: "externals \<Rightarrow> tool_invoke_params \<Rightarrow> protocol_error + unit" where
  "tool_invoke_params_validate X p =
     result_bind (validate_opaque (ti_execution_id p) ''execution_id'') (\<lambda>_.
     result_bind (validate_opaque (ti_operation_id p) ''operation_id'') (\<lambda>_.
     result_bind (validate_tool_name (ti_tool p)) (\<lambda>_.
     result_bind (validate_semver (x_semver X) (ti_tool_version p)) (\<lambda>_.
     result_bind (validate_digest (ti_catalog_digest p)) (\<lambda>_.
     result_bind (validate_digest (ti_input_schema p)) (\<lambda>_.
     result_bind (validate_digest (ti_output_schema p)) (\<lambda>_.
     result_bind (validate_digest (ti_error_schema p)) (\<lambda>_.
     if ti_deadline_ms p = 0 then Inl (invalid ''tool deadline must be positive'') else Inr ()))))))))"

datatype tool_invoke_result = ToolOk json | ToolError json

definition tool_invoke_result_validate :: "tool_invoke_result \<Rightarrow> protocol_error + unit" where
  "tool_invoke_result_validate r = Inr ()"

end
