(* ===== verification/Agent_Payload.thy ===== *)
theory Agent_Payload
  imports Payload
begin

text \<open>
  Payloads of the requests to agents, models, users and sub-agents, and transcripts
  (\<open>josh-protocol/src/payload.rs\<close>).
\<close>

section \<open>Operations and messages\<close>

definition validate_bound_operation :: "string \<Rightarrow> string \<Rightarrow> string \<Rightarrow> u64 \<Rightarrow> protocol_error + unit" where
  "validate_bound_operation execution_id operation_id session_id deadline_ms =
     result_bind (validate_opaque execution_id ''execution_id'') (\<lambda>_.
     result_bind (validate_opaque operation_id ''operation_id'') (\<lambda>_.
     result_bind (validate_session_id session_id) (\<lambda>_.
     if deadline_ms = 0 then Inl (invalid ''operation deadline must be positive'') else Inr ())))"

definition validate_unbound_operation :: "string \<Rightarrow> string \<Rightarrow> u64 \<Rightarrow> protocol_error + unit" where
  "validate_unbound_operation execution_id operation_id deadline_ms =
     result_bind (validate_opaque execution_id ''execution_id'') (\<lambda>_.
     result_bind (validate_opaque operation_id ''operation_id'') (\<lambda>_.
     if deadline_ms = 0 then Inl (invalid ''operation deadline must be positive'') else Inr ()))"

record agent_message_params =
  am_execution_id :: string
  am_operation_id :: string
  am_session_id :: string
  am_message :: string
  am_deadline_ms :: u64

definition agent_message_params_validate :: "agent_message_params \<Rightarrow> protocol_error + unit" where
  "agent_message_params_validate p =
     validate_bound_operation (am_execution_id p) (am_operation_id p) (am_session_id p) (am_deadline_ms p)"

record agent_message_result =
  mr_accepted :: bool

definition agent_message_result_validate :: "agent_message_result \<Rightarrow> protocol_error + unit" where
  "agent_message_result_validate r =
     ensure (mr_accepted r) (invalid ''agent message result must acknowledge acceptance'')"

section \<open>Structured prompts\<close>

datatype prompt_segment_payload = NoSegment | SomeSegment json

definition from_option :: "json option \<Rightarrow> prompt_segment_payload" where
  "from_option v = (case v of None \<Rightarrow> NoSegment | Some value \<Rightarrow> SomeSegment value)"

fun as_option :: "prompt_segment_payload \<Rightarrow> json option" where
  "as_option NoSegment = None"
| "as_option (SomeSegment value) = Some value"

text \<open>The wire form: an object tagged \<open>None\<close> or \<open>Some\<close>. Reading tries the two shapes in
  order; each is an object with exactly its fields, or an array of them in order, and a tag is a
  string or an object with that one key and a null value.\<close>

fun segment_to_json :: "prompt_segment_payload \<Rightarrow> json" where
  "segment_to_json NoSegment = JObject [(''tag'', JString ''None'')]"
| "segment_to_json (SomeSegment value) = JObject [(''tag'', JString ''Some''), (''value'', value)]"

fun is_tag :: "string \<Rightarrow> json \<Rightarrow> bool" where
  "is_tag name (JString s) = (s = name)"
| "is_tag name (JObject [(k, JNull)]) = (k = name)"
| "is_tag name _ = False"

fun read_none_shape :: "json \<Rightarrow> prompt_segment_payload option" where
  "read_none_shape (JObject obj) =
     (if known_fields [''tag''] obj \<and> (case bt_get obj ''tag'' of Some t \<Rightarrow> is_tag ''None'' t | None \<Rightarrow> False)
      then Some NoSegment else None)"
| "read_none_shape (JArray [t]) = (if is_tag ''None'' t then Some NoSegment else None)"
| "read_none_shape _ = None"

fun read_some_shape :: "json \<Rightarrow> prompt_segment_payload option" where
  "read_some_shape (JObject obj) =
     (case (bt_get obj ''tag'', bt_get obj ''value'') of
        (Some t, Some v) \<Rightarrow>
          (if known_fields [''tag'', ''value''] obj \<and> is_tag ''Some'' t then Some (SomeSegment v) else None)
      | _ \<Rightarrow> None)"
| "read_some_shape (JArray [t, v]) = (if is_tag ''Some'' t then Some (SomeSegment v) else None)"
| "read_some_shape _ = None"

definition segment_of_json :: "json \<Rightarrow> prompt_segment_payload option" where
  "segment_of_json v = (case read_none_shape v of Some s \<Rightarrow> Some s | None \<Rightarrow> read_some_shape v)"

record prompt_policy =
  pp_max_attempts :: u32

definition prompt_policy_validate :: "prompt_policy \<Rightarrow> protocol_error + unit" where
  "prompt_policy_validate p =
     ensure (1 \<le> pp_max_attempts p \<and> pp_max_attempts p \<le> 3) (invalid ''prompt max_attempts must be 1 through 3'')"

record structured_prompt_payload =
  sp_system :: string
  sp_context :: prompt_segment_payload
  sp_data :: prompt_segment_payload
  sp_policy :: prompt_policy

definition structured_prompt_payload_validate :: "structured_prompt_payload \<Rightarrow> protocol_error + unit" where
  "structured_prompt_payload_validate p =
     (if sp_system p = [] \<or> length (sp_system p) > 65536
      then Inl (invalid ''prompt system must be 1 through 65536 UTF-8 bytes'')
      else prompt_policy_validate (sp_policy p))"

record response_schema_payload =
  rs_digest :: string
  rs_descriptor :: json

fun is_object :: "json \<Rightarrow> bool" where
  "is_object (JObject obj) = True"
| "is_object _ = False"

definition response_schema_payload_validate :: "response_schema_payload \<Rightarrow> protocol_error + unit" where
  "response_schema_payload_validate p =
     result_bind (validate_digest (rs_digest p)) (\<lambda>_.
     ensure (is_object (rs_descriptor p)) (invalid ''response schema descriptor must be an object''))"

record validation_issue_payload =
  vi_path :: string
  vi_code :: string

definition validation_issue_payload_validate :: "validation_issue_payload \<Rightarrow> protocol_error + unit" where
  "validation_issue_payload_validate i =
     (if length (vi_path i) > 1024 \<or> (\<not> starts_with (CHR ''/'') (vi_path i) \<and> vi_path i \<noteq> [])
      then Inl (invalid ''validation issue path is invalid'')
      else if vi_code i = [] \<or> length (vi_code i) > 128 \<or> has_control (vi_code i)
      then Inl (invalid ''validation issue code is invalid'') else Inr ())"

definition validate_typed_response_request ::
    "string \<Rightarrow> structured_prompt_payload \<Rightarrow> response_schema_payload \<Rightarrow> u32 \<Rightarrow>
     validation_issue_payload list \<Rightarrow> protocol_error + unit" where
  "validate_typed_response_request interaction_id prompt response_schema attempt validation_issues =
     result_bind (validate_opaque interaction_id ''interaction_id'') (\<lambda>_.
     result_bind (structured_prompt_payload_validate prompt) (\<lambda>_.
     result_bind (response_schema_payload_validate response_schema) (\<lambda>_.
     if attempt = 0 \<or> attempt > pp_max_attempts (sp_policy prompt)
     then Inl (invalid ''response attempt exceeds prompt policy'')
     else if length validation_issues > 16 \<or> (attempt = 1 \<and> validation_issues \<noteq> [])
     then Inl (invalid ''response validation issues do not match attempt'')
     else try_all validation_issue_payload_validate validation_issues)))"

section \<open>Typed requests\<close>

record agent_ask_params =
  aa_execution_id :: string
  aa_operation_id :: string
  aa_session_id :: string
  aa_interaction_id :: string
  aa_prompt :: structured_prompt_payload
  aa_response_schema :: response_schema_payload
  aa_attempt :: u32
  aa_validation_issues :: "validation_issue_payload list"
  aa_deadline_ms :: u64

definition agent_ask_params_validate :: "agent_ask_params \<Rightarrow> protocol_error + unit" where
  "agent_ask_params_validate p =
     result_bind (validate_bound_operation (aa_execution_id p) (aa_operation_id p) (aa_session_id p)
       (aa_deadline_ms p)) (\<lambda>_.
     validate_typed_response_request (aa_interaction_id p) (aa_prompt p) (aa_response_schema p)
       (aa_attempt p) (aa_validation_issues p))"

record model_request_params =
  mq_execution_id :: string
  mq_operation_id :: string
  mq_interaction_id :: string
  mq_prompt :: structured_prompt_payload
  mq_response_schema :: response_schema_payload
  mq_attempt :: u32
  mq_validation_issues :: "validation_issue_payload list"
  mq_deadline_ms :: u64

definition model_request_params_validate :: "model_request_params \<Rightarrow> protocol_error + unit" where
  "model_request_params_validate p =
     result_bind (validate_unbound_operation (mq_execution_id p) (mq_operation_id p) (mq_deadline_ms p)) (\<lambda>_.
     validate_typed_response_request (mq_interaction_id p) (mq_prompt p) (mq_response_schema p)
       (mq_attempt p) (mq_validation_issues p))"

record user_ask_params =
  ua_execution_id :: string
  ua_operation_id :: string
  ua_interaction_id :: string
  ua_prompt :: structured_prompt_payload
  ua_response_schema :: response_schema_payload
  ua_attempt :: u32
  ua_validation_issues :: "validation_issue_payload list"
  ua_deadline_ms :: u64

definition user_ask_params_validate :: "user_ask_params \<Rightarrow> protocol_error + unit" where
  "user_ask_params_validate p =
     result_bind (validate_unbound_operation (ua_execution_id p) (ua_operation_id p) (ua_deadline_ms p)) (\<lambda>_.
     validate_typed_response_request (ua_interaction_id p) (ua_prompt p) (ua_response_schema p)
       (ua_attempt p) (ua_validation_issues p))"

section \<open>Sub-agents\<close>

record sub_agent_projection_payload =
  sj_capabilities :: "string list"
  sj_limits :: "(string, u64) btree_map"
  sj_tools :: "string list"

definition sub_agent_projection_payload_validate ::
    "sub_agent_projection_payload \<Rightarrow> protocol_error + unit" where
  "sub_agent_projection_payload_validate p =
     result_bind (validate_sorted_unique (sj_capabilities p) ''sub-agent capabilities'') (\<lambda>_.
     result_bind (try_all (validate_capability ''sub-agent capability is not implemented'')
       (sj_capabilities p)) (\<lambda>_.
     result_bind (try_all (validate_limit ''sub-agent limit is unknown or zero'') (sj_limits p)) (\<lambda>_.
     result_bind (validate_sorted_unique (sj_tools p) ''sub-agent tools'') (\<lambda>_.
     try_all validate_tool_name (sj_tools p)))))"

record sub_agent_create_params =
  sc_execution_id :: string
  sc_operation_id :: string
  sc_prompt :: structured_prompt_payload
  sc_projection :: sub_agent_projection_payload
  sc_deadline_ms :: u64

definition sub_agent_create_params_validate :: "sub_agent_create_params \<Rightarrow> protocol_error + unit" where
  "sub_agent_create_params_validate p =
     result_bind (validate_unbound_operation (sc_execution_id p) (sc_operation_id p) (sc_deadline_ms p)) (\<lambda>_.
     result_bind (structured_prompt_payload_validate (sc_prompt p)) (\<lambda>_.
     sub_agent_projection_payload_validate (sc_projection p)))"

record sub_agent_run_params =
  sr_execution_id :: string
  sr_operation_id :: string
  sr_interaction_id :: string
  sr_prompt :: structured_prompt_payload
  sr_projection :: sub_agent_projection_payload
  sr_response_schema :: response_schema_payload
  sr_attempt :: u32
  sr_validation_issues :: "validation_issue_payload list"
  sr_deadline_ms :: u64

definition sub_agent_run_params_validate :: "sub_agent_run_params \<Rightarrow> protocol_error + unit" where
  "sub_agent_run_params_validate p =
     result_bind (validate_unbound_operation (sr_execution_id p) (sr_operation_id p) (sr_deadline_ms p)) (\<lambda>_.
     result_bind (sub_agent_projection_payload_validate (sr_projection p)) (\<lambda>_.
     validate_typed_response_request (sr_interaction_id p) (sr_prompt p) (sr_response_schema p)
       (sr_attempt p) (sr_validation_issues p)))"

record sub_agent_message_params =
  sm_execution_id :: string
  sm_operation_id :: string
  sm_sub_agent_id :: string
  sm_message :: string
  sm_deadline_ms :: u64

definition sub_agent_message_params_validate :: "sub_agent_message_params \<Rightarrow> protocol_error + unit" where
  "sub_agent_message_params_validate p =
     result_bind (validate_unbound_operation (sm_execution_id p) (sm_operation_id p) (sm_deadline_ms p)) (\<lambda>_.
     result_bind (validate_ascii_id (sm_sub_agent_id p) ''sub_agent_id'' 128) (\<lambda>_.
     ensure (length (sm_message p) \<le> 1048576) (invalid ''sub-agent message exceeds its byte limit'')))"

record sub_agent_ask_params =
  sk_execution_id :: string
  sk_operation_id :: string
  sk_sub_agent_id :: string
  sk_interaction_id :: string
  sk_prompt :: structured_prompt_payload
  sk_response_schema :: response_schema_payload
  sk_attempt :: u32
  sk_validation_issues :: "validation_issue_payload list"
  sk_deadline_ms :: u64

definition sub_agent_ask_params_validate :: "sub_agent_ask_params \<Rightarrow> protocol_error + unit" where
  "sub_agent_ask_params_validate p =
     result_bind (validate_unbound_operation (sk_execution_id p) (sk_operation_id p) (sk_deadline_ms p)) (\<lambda>_.
     result_bind (validate_ascii_id (sk_sub_agent_id p) ''sub_agent_id'' 128) (\<lambda>_.
     validate_typed_response_request (sk_interaction_id p) (sk_prompt p) (sk_response_schema p)
       (sk_attempt p) (sk_validation_issues p)))"

record typed_response_result =
  tr_value :: json

record sub_agent_create_result =
  sa_sub_agent_id :: string

definition sub_agent_create_result_validate :: "sub_agent_create_result \<Rightarrow> protocol_error + unit" where
  "sub_agent_create_result_validate r = validate_ascii_id (sa_sub_agent_id r) ''sub_agent_id'' 128"

definition typed_response_result_validate :: "typed_response_result \<Rightarrow> protocol_error + unit" where
  "typed_response_result_validate r = Inr ()"

section \<open>Transcripts\<close>

record agent_transcript_params =
  at_execution_id :: string
  at_operation_id :: string
  at_session_id :: string
  at_limit :: u32
  at_deadline_ms :: u64

definition agent_transcript_params_validate :: "agent_transcript_params \<Rightarrow> protocol_error + unit" where
  "agent_transcript_params_validate p =
     result_bind (validate_bound_operation (at_execution_id p) (at_operation_id p) (at_session_id p)
       (at_deadline_ms p)) (\<lambda>_.
     ensure (1 \<le> at_limit p \<and> at_limit p \<le> 100) (invalid ''transcript limit must be 1 through 100''))"

datatype transcript_role = UserRole | AssistantRole | SystemVisibleRole | ToolRole

datatype transcript_part =
    TextPart string
  | JsonPart json
  | ToolCallPart string string "json option"
  | ToolResultPart string "json option" bool
  | AttachmentPart string "string option" "string option"
  | RedactedPart string
  | OmittedPart string u32

fun transcript_part_validate :: "transcript_part \<Rightarrow> protocol_error + unit" where
  "transcript_part_validate (TextPart t) = Inr ()"
| "transcript_part_validate (JsonPart v) = Inr ()"
| "transcript_part_validate (ToolCallPart name call_id input) =
     result_bind (validate_transcript_text name ''tool name'' False) (\<lambda>_.
     validate_transcript_text call_id ''tool call ID'' False)"
| "transcript_part_validate (ToolResultPart call_id output is_error) =
     validate_transcript_text call_id ''tool call ID'' False"
| "transcript_part_validate (AttachmentPart media_type name content_ref) =
     result_bind (validate_transcript_text media_type ''attachment media type'' False) (\<lambda>_.
     result_bind (validate_optional (\<lambda>n. validate_transcript_text n ''attachment name'' True) name) (\<lambda>_.
     validate_optional (\<lambda>r. validate_transcript_text r ''attachment content reference'' True) content_ref))"
| "transcript_part_validate (RedactedPart reason_code) = validate_safe_code reason_code ''redaction reason code''"
| "transcript_part_validate (OmittedPart content_kind count) =
     result_bind (validate_safe_code content_kind ''omitted content kind'') (\<lambda>_.
     if count = 0 then Inl (invalid ''omitted content count must be positive'') else Inr ())"

record transcript_message =
  tm_id :: "string option"
  tm_role :: transcript_role
  tm_time :: "string option"
  tm_content :: "transcript_part list"

definition transcript_message_validate :: "transcript_message \<Rightarrow> protocol_error + unit" where
  "transcript_message_validate m =
     result_bind (validate_optional (\<lambda>i. validate_transcript_text i ''transcript message id'' False) (tm_id m)) (\<lambda>_.
     result_bind (validate_optional validate_timestamp (tm_time m)) (\<lambda>_.
     try_all transcript_part_validate (tm_content m)))"

record transcript_snapshot =
  ts_snapshot_id :: string
  ts_session_id :: string
  ts_policy_version :: string
  ts_captured_at :: string
  ts_truncated :: bool
  ts_messages :: "transcript_message list"

text \<open>The loop over the messages, with \<open>previous_time\<close> as its state.\<close>

fun validate_messages :: "TimestampKey option \<Rightarrow> transcript_message list \<Rightarrow> protocol_error + unit" where
  "validate_messages previous [] = Inr ()"
| "validate_messages previous (m # ms) =
     result_bind (transcript_message_validate m) (\<lambda>_.
     case tm_time m of
       None \<Rightarrow> validate_messages previous ms
     | Some time \<Rightarrow>
         result_bind (timestamp_key time) (\<lambda>key.
         if (case previous of Some p \<Rightarrow> key_fields p > key_fields key | None \<Rightarrow> False)
         then Inl (invalid ''transcript messages are not oldest first'')
         else validate_messages (Some key) ms))"

definition transcript_snapshot_validate :: "transcript_snapshot \<Rightarrow> protocol_error + unit" where
  "transcript_snapshot_validate s =
     result_bind (validate_transcript_text (ts_snapshot_id s) ''snapshot_id'' False) (\<lambda>_.
     result_bind (validate_session_id (ts_session_id s)) (\<lambda>_.
     result_bind (validate_transcript_text (ts_policy_version s) ''policy_version'' False) (\<lambda>_.
     result_bind (validate_timestamp (ts_captured_at s)) (\<lambda>_.
     if length (ts_messages s) > 100 then Inl (invalid ''transcript has more than 100 messages'')
     else validate_messages None (ts_messages s)))))"

record agent_transcript_result =
  tx_snapshot :: transcript_snapshot

definition agent_transcript_result_validate :: "agent_transcript_result \<Rightarrow> protocol_error + unit" where
  "agent_transcript_result_validate r = transcript_snapshot_validate (tx_snapshot r)"

definition transcript_validate_for :: "agent_transcript_result \<Rightarrow> string \<Rightarrow> u32 \<Rightarrow> protocol_error + unit" where
  "transcript_validate_for r session_id limit =
     result_bind (agent_transcript_result_validate r) (\<lambda>_.
     if ts_session_id (tx_snapshot r) \<noteq> session_id
        \<or> length (ts_messages (tx_snapshot r)) > unat limit
     then Inl (invalid ''transcript snapshot does not match its bound request'') else Inr ())"

section \<open>Correctness\<close>

text \<open>The instants of the messages that carry a time, in order.\<close>

fun message_instants :: "transcript_message list \<Rightarrow> nat list" where
  "message_instants [] = []"
| "message_instants (m # ms) =
     (case tm_time m of
        None \<Rightarrow> message_instants ms
      | Some t \<Rightarrow> (case timestamp_key t of Inl e \<Rightarrow> [] | Inr k \<Rightarrow> [instant k]) @ message_instants ms)"

lemma validate_messages_sorted:
  assumes "validate_messages prev ms = Inr ()" "\<forall>k. prev = Some k \<longrightarrow> valid_key k"
  shows "sorted (message_instants ms) \<and> (\<forall>k i. prev = Some k \<longrightarrow> i \<in> set (message_instants ms) \<longrightarrow> instant k \<le> i)
    \<and> (\<forall>m\<in>set ms. \<forall>t. tm_time m = Some t \<longrightarrow> is_ok (timestamp_key t))"
  using assms
proof (induction prev ms rule: validate_messages.induct)
  case (2 prev m ms)
  show ?case
  proof (cases "tm_time m")
    case None
    with 2 show ?thesis by (auto simp: result_simps)
  next
    case (Some t)
    with "2.prems" obtain key where k: "timestamp_key t = Inr key"
      and le: "\<forall>p. prev = Some p \<longrightarrow> key_fields p \<le> key_fields key"
      and rest: "validate_messages (Some key) ms = Inr ()"
      by (auto simp: result_simps not_less split: option.splits if_splits)
    have v: "valid_key key" by (rule timestamp_key_valid [OF k])
    have gt: "\<not> (case prev of None \<Rightarrow> False | Some p \<Rightarrow> key_fields key < key_fields p)"
      using le by (auto simp: not_less split: option.split)
    have m: "transcript_message_validate m = Inr ()" using "2.prems" by (auto simp: result_simps)
    have IH: "sorted (message_instants ms) \<and> (\<forall>i\<in>set (message_instants ms). instant key \<le> i)
        \<and> (\<forall>m\<in>set ms. \<forall>t. tm_time m = Some t \<longrightarrow> is_ok (timestamp_key t))"
      using "2.IH"(2) [OF m Some k gt rest] v by simp
    have "\<forall>p. prev = Some p \<longrightarrow> instant p \<le> instant key"
      using le "2.prems"(2) instant_order v by blast
    with IH Some k show ?thesis by (fastforce intro: order_trans)
  qed
qed simp

lemma validate_sections_complete:
  "length ks = length ss \<Longrightarrow> validate_sections ss ks = Inr () \<Longrightarrow>
   map ps_kind ss = ks \<and> (\<forall>s\<in>set ss. ps_complete s)"
  by (induction ss ks rule: validate_sections.induct) (auto simp: result_simps split: if_splits)

lemma validate_sections_map:
  "(\<forall>k\<in>set ks. ps_kind (f k) = k \<and> projection_section_validate (f k) = Inr () \<and> ps_complete (f k)) \<Longrightarrow>
   validate_sections (map f ks) ks = Inr ()"
  by (induction ks) (auto simp: result_simps)

lemma validate_opaque_name: "validate_opaque v n = Inr () \<Longrightarrow> validate_opaque v n' = Inr ()"
  by (auto simp: validate_opaque_def split: if_splits)

lemma derived_section_valid:
  assumes "catalog_metadata_validate (cp_metadata c) = Inr ()" "length (cp_tools c) \<le> 1048576"
  shows "projection_section_validate \<lparr>ps_kind = kind, ps_source = cm_source (cp_metadata c),
         ps_source_revision = cm_source_revision (cp_metadata c),
         ps_observed_at_unix_ms = cm_observed_at_unix_ms (cp_metadata c),
         ps_freshness = cm_freshness (cp_metadata c), ps_complete = True,
         ps_item_count = (if kind = Tools then u64_of_len (length (cp_tools c)) else 0)\<rparr> = Inr ()"
proof -
  have "\<not> (1048576 :: u64) < u64_of_len (length (cp_tools c))"
    using assms(2) by (simp add: u64_of_len_def word_less_nat_alt unat_of_nat)
  with assms(1) show ?thesis
    by (auto simp: projection_section_validate_def catalog_metadata_validate_def result_simps
        split: if_splits intro: validate_opaque_name)
qed

lemma derived_projection_valid:
  assumes "catalog_metadata_validate (cp_metadata c) = Inr ()" "validate_opaque i ''projection ID'' = Inr ()"
    "peer_info_validate (x_semver X) h = Inr ()" "length (cp_tools c) \<le> 1048576"
  shows "host_projection_set_params_validate X (complete_for_catalog i h b c) = Inr ()"
  using assms(2,3)
  by (auto simp: host_projection_set_params_validate_def complete_for_catalog_def
      derived_section_valid [OF assms(1,4)] intro!: validate_sections_map)

lemma section_of_valid:
  assumes "host_projection_set_params_validate X p = Inr ()"
  shows "\<exists>s. section_of p kind = Some s \<and> ps_kind s = kind \<and> ps_complete s"
proof -
  from assms have "map ps_kind (hp_sections p) = all_section_kinds" and c: "\<forall>s\<in>set (hp_sections p). ps_complete s"
    using validate_sections_complete [of all_section_kinds "hp_sections p"]
    by (auto simp: host_projection_set_params_validate_def result_simps split: if_splits)
  then have "kind \<in> ps_kind ` set (hp_sections p)"
    by (cases kind) (simp_all add: all_section_kinds_def flip: set_map)
  then have "section_of p kind \<noteq> None" by (auto simp: section_of_def find_None_iff)
  then show ?thesis using c by (auto simp: section_of_def find_Some_iff)
qed

section \<open>Properties\<close>

text \<open>A transcript accepted for a request belongs to the session that asked, has at most the
  requested number of messages and never more than 100, and its messages are oldest first: every
  time in it is a valid timestamp and the instants never decrease.\<close>

theorem transcripts_oldest_first:
  assumes "transcript_validate_for r session_id limit = Inr ()"
  shows "ts_session_id (tx_snapshot r) = session_id
    \<and> length (ts_messages (tx_snapshot r)) \<le> min 100 (unat limit)
    \<and> (\<forall>m\<in>set (ts_messages (tx_snapshot r)). \<forall>t. tm_time m = Some t \<longrightarrow> is_ok (timestamp_key t))
    \<and> sorted (message_instants (ts_messages (tx_snapshot r)))"
  using assms validate_messages_sorted [of None "ts_messages (tx_snapshot r)"]
  by (auto simp: transcript_validate_for_def agent_transcript_result_validate_def
      transcript_snapshot_validate_def result_simps split: if_splits)

definition sample_transcript :: agent_transcript_result where
  "sample_transcript = \<lparr>tx_snapshot = \<lparr>ts_snapshot_id = ''s'', ts_session_id = ''u'', ts_policy_version = ''1'',
     ts_captured_at = ''2024-03-01T00:00:00Z'', ts_truncated = False,
     ts_messages = [\<lparr>tm_id = None, tm_role = UserRole, tm_time = Some ''2024-02-29T23:59:59.5Z'', tm_content = []\<rparr>]\<rparr>\<rparr>"

theorem transcripts_oldest_first_witness:
  "transcript_validate_for sample_transcript ''u'' 5 = Inr () \<and> ts_session_id (tx_snapshot sample_transcript) = ''u''"
proof -
  have "transcript_validate_for sample_transcript ''u'' 5 = Inr ()"
    by (simp add: sample_transcript_def transcript_validate_for_def agent_transcript_result_validate_def
        transcript_snapshot_validate_def validate_transcript_text_def validate_session_id_def
        validate_timestamp_def transcript_message_validate_def validate_optional_def in_range_def
        timestamp_key_def timestamp_nanos_def parse_decimal_def slice_def dec_value_def
        digit_val_def is_ascii_digit_def less_eq_char_def maximum_day_def)
  with transcripts_oldest_first [OF this] show ?thesis by blast
qed

text \<open>The projection a host derives from its catalog is one the runtime accepts: for valid
  catalog metadata, identifier and host, and a catalog of at most 1,048,576 tools, the derived
  projection validates; and in every projection that validates, looking up a section never panics
  and finds the section of the kind asked for.\<close>

theorem derived_projection_accepted:
  "(catalog_metadata_validate (cp_metadata c) = Inr () \<and> validate_opaque i ''projection ID'' = Inr ()
      \<and> peer_info_validate (x_semver X) h = Inr () \<and> length (cp_tools c) \<le> 1048576 \<longrightarrow>
      host_projection_set_params_validate X (complete_for_catalog i h b c) = Inr ())
   \<and> (host_projection_set_params_validate X p = Inr () \<longrightarrow>
      (\<exists>s. section_of p kind = Some s \<and> ps_kind s = kind \<and> ps_complete s))"
  using derived_projection_valid section_of_valid by blast

definition sample_catalog :: catalog_set_params where
  "sample_catalog = \<lparr>cp_schema_dialect = SCHEMA_DIALECT,
     cp_metadata = catalog_metadata_complete ''host'' ''r1'' 1, cp_tools = []\<rparr>"

definition sample_externals :: externals where
  "sample_externals = \<lparr>x_semver = sample_semver, x_base64_decode = Some, x_base64_encode = (\<lambda>b. b),
     x_url_parse = (\<lambda>s. None)\<rparr>"

theorem derived_projection_accepted_witness:
  "\<exists>s. section_of (complete_for_catalog ''p'' \<lparr>pi_name = ''h'', pi_version = ''1.0.0''\<rparr> NoBinding sample_catalog) Roots = Some s"
proof -
  let ?h = "\<lparr>pi_name = ''h'', pi_version = ''1.0.0''\<rparr>"
  have v: "''1.0.0'' = exact_version_text (ExactVersion 1 0 0)"
    by (simp add: exact_version_text_def show_nat.simps digit_char_def char_of_def bit_0)
  have "validate_semver sample_semver ''1.0.0'' = Inr ()"
    unfolding v by (rule validate_semver_text [OF sample_semver_contract])
  then have "catalog_metadata_validate (cp_metadata sample_catalog) = Inr ()"
    "validate_opaque ''p'' ''projection ID'' = Inr ()" "peer_info_validate (x_semver sample_externals) ?h = Inr ()"
    "length (cp_tools sample_catalog) \<le> 1048576"
    by (simp_all add: sample_catalog_def catalog_metadata_complete_def catalog_metadata_validate_def
        validate_opaque_def in_range_def peer_info_validate_def sample_externals_def)
  then have "host_projection_set_params_validate sample_externals (complete_for_catalog ''p'' ?h NoBinding sample_catalog) = Inr ()"
    using derived_projection_accepted by blast
  then show ?thesis using derived_projection_accepted by blast
qed

end
