(* ===== verification/Permission.thy ===== *)
theory Permission
  imports Payload
begin

text \<open>
  External file-system permissions: the request, the decision and the revocation of
  \<open>josh-protocol/src/payload.rs\<close>, and the registry of \<open>josh-host/src/grants.rs\<close> that
  connects the host's grant identifiers to those of the runtime.
\<close>

section \<open>Requests and decisions\<close>

record permission_request_params =
  pq_execution_id :: string
  pq_operation_id :: string
  pq_session_id :: string
  pq_pending_target_id :: string
  pq_kind :: permission_target_kind
  pq_path :: string
  pq_rights :: "permission_right list"
  pq_recursive :: bool
  pq_max_bytes :: u64
  pq_duration :: grant_duration
  pq_reason :: string

definition permission_request_params_validate :: "permission_request_params \<Rightarrow> protocol_error + unit" where
  "permission_request_params_validate p =
     result_bind (validate_opaque (pq_execution_id p) ''execution_id'') (\<lambda>_.
     result_bind (validate_opaque (pq_operation_id p) ''operation_id'') (\<lambda>_.
     result_bind (validate_session_id (pq_session_id p)) (\<lambda>_.
     result_bind (validate_opaque (pq_pending_target_id p) ''pending_target_id'') (\<lambda>_.
     result_bind (validate_permission_scope (pq_path p) (pq_rights p) (pq_recursive p) (pq_max_bytes p)
       (pq_kind p)) (\<lambda>_.
     if length (pq_reason p) > 1024 \<or> has_control (pq_reason p)
     then Inl (invalid ''permission reason is invalid'') else Inr ())))))"

datatype permission_request_result =
    Allow (pa_grant_id: string) (pa_path: string) (pa_rights: "permission_right list")
      (pa_recursive: bool) (pa_max_bytes: u64) (pa_duration: grant_duration)
  | Deny (pd_reason_code: string)

fun permission_request_result_validate :: "permission_request_result \<Rightarrow> protocol_error + unit" where
  "permission_request_result_validate (Allow grant_id path rights recursive max_bytes duration) =
     result_bind (validate_ascii_id grant_id ''grant_id'' 128) (\<lambda>_.
     validate_permission_values path rights max_bytes)"
| "permission_request_result_validate (Deny reason_code) =
     validate_safe_code reason_code ''permission denial reason code''"

definition path_is_allowed :: "permission_request_params \<Rightarrow> string \<Rightarrow> bool" where
  "path_is_allowed request path =
     (case pq_kind request of
        FileTarget \<Rightarrow> path = pq_path request
      | DirectoryTarget \<Rightarrow> path_starts_with path (pq_path request))"

definition permission_validate_for ::
    "permission_request_result \<Rightarrow> permission_request_params \<Rightarrow> protocol_error + unit" where
  "permission_validate_for r request =
     result_bind (permission_request_result_validate r) (\<lambda>_.
     case r of
       Deny reason_code \<Rightarrow> Inr ()
     | Allow grant_id path rights recursive max_bytes duration \<Rightarrow>
         (if \<not> path_is_allowed request path
             \<or> list_ex (\<lambda>right. right \<notin> set (pq_rights request)) rights
             \<or> (recursive \<and> \<not> pq_recursive request)
             \<or> max_bytes > pq_max_bytes request
             \<or> duration \<noteq> pq_duration request
             \<or> (pq_kind request = FileTarget \<and> (recursive \<or> ListRight \<in> set rights))
          then Inl (invalid ''permission decision broadens the retained request'') else Inr ()))"

record permission_revoke_params =
  pv_execution_id :: string
  pv_session_id :: string
  pv_grant_id :: string

definition permission_revoke_params_validate :: "permission_revoke_params \<Rightarrow> protocol_error + unit" where
  "permission_revoke_params_validate p =
     result_bind (validate_opaque (pv_execution_id p) ''execution_id'') (\<lambda>_.
     result_bind (validate_session_id (pv_session_id p)) (\<lambda>_.
     validate_ascii_id (pv_grant_id p) ''grant_id'' 128))"

section \<open>The grant registry\<close>

text \<open>\<open>GrantRegistryState\<close>. Runtime grant identifiers (\<open>ExternalGrantId\<close>) are opaque: a type
  parameter. Each operation runs under the lock, so it is one step.\<close>

record 'r grant_registry =
  g_pending_host_ids :: "(u64, string) btree_map"
  g_revoked_pending_targets :: "u64 set"
  g_runtime_ids :: "(string, 'r) btree_map"
  g_revoked :: "'r list"

definition registry_default :: "'r grant_registry" where
  "registry_default = \<lparr>g_pending_host_ids = bt_empty, g_revoked_pending_targets = {},
     g_runtime_ids = bt_empty, g_revoked = []\<rparr>"

text \<open>The first component is \<open>Ok\<close>; an earlier pending identifier is replaced even on error.\<close>

definition registry_allowed :: "u64 \<Rightarrow> string \<Rightarrow> 'r grant_registry \<Rightarrow> bool \<times> 'r grant_registry" where
  "registry_allowed pending host_id g =
     (\<not> bt_contains (g_pending_host_ids g) pending,
      g\<lparr>g_pending_host_ids := bt_insert pending host_id (g_pending_host_ids g)\<rparr>)"

definition registry_issued :: "u64 \<Rightarrow> 'r \<Rightarrow> 'r grant_registry \<Rightarrow> 'r grant_registry" where
  "registry_issued pending runtime_id g =
     (if pending \<in> g_revoked_pending_targets g
      then g\<lparr>g_revoked_pending_targets := g_revoked_pending_targets g - {pending},
             g_revoked := g_revoked g @ [runtime_id]\<rparr>
      else case bt_get (g_pending_host_ids g) pending of
          Some host_id \<Rightarrow> g\<lparr>g_pending_host_ids := bt_remove pending (g_pending_host_ids g),
                          g_runtime_ids := bt_insert host_id runtime_id (g_runtime_ids g)\<rparr>
        | None \<Rightarrow> g)"

definition registry_revoke :: "string \<Rightarrow> 'r grant_registry \<Rightarrow> 'r grant_registry" where
  "registry_revoke host_id g =
     (case bt_get (g_runtime_ids g) host_id of
        Some runtime_id \<Rightarrow> g\<lparr>g_runtime_ids := bt_remove host_id (g_runtime_ids g),
                             g_revoked := g_revoked g @ [runtime_id]\<rparr>
      | None \<Rightarrow>
          (case find (\<lambda>(pending, h). h = host_id) (g_pending_host_ids g) of
             Some (pending, h) \<Rightarrow>
               g\<lparr>g_pending_host_ids := bt_remove pending (g_pending_host_ids g),
                 g_revoked_pending_targets := insert pending (g_revoked_pending_targets g)\<rparr>
           | None \<Rightarrow> g))"

definition registry_take_revocations :: "'r grant_registry \<Rightarrow> 'r list \<times> 'r grant_registry" where
  "registry_take_revocations g = (g_revoked g, g\<lparr>g_revoked := []\<rparr>)"

definition registry_clear :: "'r grant_registry \<Rightarrow> 'r grant_registry" where
  "registry_clear g = registry_default"

section \<open>Specification of the registry\<close>

text \<open>What the registry is for: each host grant has the pending target it answers, the runtime
  identifier once it is issued, and whether it has been revoked. The grants to invalidate are those
  issued and revoked, in whichever order.\<close>

datatype 'r grant = Grant (gr_pending: u64) (gr_runtime: "'r option") (gr_revoked: bool)

type_synonym 'r grants = "string \<rightharpoonup> 'r grant"

datatype 'r grant_op = OpAllowed u64 string | OpIssued u64 'r | OpRevoke string | OpTake

fun issue_grant :: "u64 \<Rightarrow> 'r \<Rightarrow> 'r grant \<Rightarrow> 'r grant" where
  "issue_grant p r (Grant q None b) = (if q = p then Grant q (Some r) b else Grant q None b)"
| "issue_grant p r (Grant q (Some r') b) = Grant q (Some r') b"

fun revoke_grant :: "'r grant \<Rightarrow> 'r grant" where
  "revoke_grant (Grant p i b) = Grant p i True"

fun spec_step :: "'r grant_op \<Rightarrow> 'r grants \<Rightarrow> 'r grants" where
  "spec_step (OpAllowed p h) s = s(h \<mapsto> Grant p None False)"
| "spec_step (OpIssued p r) s = map_option (issue_grant p r) \<circ> s"
| "spec_step (OpRevoke h) s = s(h := map_option revoke_grant (s h))"
| "spec_step OpTake s = s"

definition due :: "'r grants \<Rightarrow> 'r set" where
  "due s = {r. \<exists>h p. s h = Some (Grant p (Some r) True)}"

text \<open>The registry run with the identifiers handed out by \<open>take_revocations\<close> so far.\<close>

fun registry_step :: "'r grant_op \<Rightarrow> 'r grant_registry \<times> 'r list \<Rightarrow> 'r grant_registry \<times> 'r list" where
  "registry_step (OpAllowed p h) (g, taken) = (snd (registry_allowed p h g), taken)"
| "registry_step (OpIssued p r) (g, taken) = (registry_issued p r g, taken)"
| "registry_step (OpRevoke h) (g, taken) = (registry_revoke h g, taken)"
| "registry_step OpTake (g, taken) =
     (snd (registry_take_revocations g), taken @ fst (registry_take_revocations g))"

text \<open>Pending targets and host grant identifiers are used once.\<close>

fun fresh_ops :: "u64 list \<Rightarrow> string list \<Rightarrow> 'r grant_op list \<Rightarrow> bool" where
  "fresh_ops ps hs [] = True"
| "fresh_ops ps hs (OpAllowed p h # ops) =
     (p \<notin> set ps \<and> h \<notin> set hs \<and> fresh_ops (p # ps) (h # hs) ops)"
| "fresh_ops ps hs (op # ops) = fresh_ops ps hs ops"

text \<open>The same read off the history of operations, without the specification state: the identifier
  the runtime issues first for a pending target, and the grants whose revocation comes after the host
  allowed them.\<close>

fun first_issue :: "u64 \<Rightarrow> 'r grant_op list \<Rightarrow> 'r option" where
  "first_issue p [] = None"
| "first_issue p (OpIssued q r # ops) = (if q = p then Some r else first_issue p ops)"
| "first_issue p (x # ops) = first_issue p ops"

definition revoked_after_allowed :: "'r grant_op list \<Rightarrow> 'r set" where
  "revoked_after_allowed ops = {r. \<exists>xs p h ys. ops = xs @ OpAllowed p h # ys
     \<and> OpRevoke h \<in> set ys \<and> first_issue p ys = Some r}"

definition registry_rel :: "u64 list \<Rightarrow> string list \<Rightarrow> 'r grant_registry \<times> 'r list \<Rightarrow> 'r grants \<Rightarrow> bool" where
  "registry_rel ps hs gt s \<longleftrightarrow> (case gt of (g, taken) \<Rightarrow>
     bt_wf (g_pending_host_ids g) \<and> bt_wf (g_runtime_ids g)
     \<and> (\<forall>p h. bt_get (g_pending_host_ids g) p = Some h \<longleftrightarrow> s h = Some (Grant p None False))
     \<and> (\<forall>p. p \<in> g_revoked_pending_targets g \<longleftrightarrow> (\<exists>h. s h = Some (Grant p None True)))
     \<and> (\<forall>h r. bt_get (g_runtime_ids g) h = Some r \<longleftrightarrow> (\<exists>p. s h = Some (Grant p (Some r) False)))
     \<and> set taken \<union> set (g_revoked g) = due s
     \<and> dom s \<subseteq> set hs
     \<and> (\<forall>h a. s h = Some a \<longrightarrow> gr_pending a \<in> set ps)
     \<and> (\<forall>h h' a a'. s h = Some a \<longrightarrow> s h' = Some a' \<longrightarrow> gr_pending a = gr_pending a' \<longrightarrow> h = h'))"

lemma registry_relI:
  assumes "bt_wf (g_pending_host_ids g)" "bt_wf (g_runtime_ids g)"
    "\<And>p h. bt_get (g_pending_host_ids g) p = Some h \<longleftrightarrow> s h = Some (Grant p None False)"
    "\<And>p. p \<in> g_revoked_pending_targets g \<longleftrightarrow> (\<exists>h. s h = Some (Grant p None True))"
    "\<And>h r. bt_get (g_runtime_ids g) h = Some r \<longleftrightarrow> (\<exists>p. s h = Some (Grant p (Some r) False))"
    "set taken \<union> set (g_revoked g) = due s" "dom s \<subseteq> set hs"
    "\<And>h a. s h = Some a \<Longrightarrow> gr_pending a \<in> set ps"
    "\<And>h h' a a'. s h = Some a \<Longrightarrow> s h' = Some a' \<Longrightarrow> gr_pending a = gr_pending a' \<Longrightarrow> h = h'"
  shows "registry_rel ps hs (g, taken) s"
  using assms unfolding registry_rel_def by blast

lemma registry_relD:
  assumes "registry_rel ps hs (g, taken) s"
  shows "bt_wf (g_pending_host_ids g)" "bt_wf (g_runtime_ids g)"
    "bt_get (g_pending_host_ids g) p = Some h \<longleftrightarrow> s h = Some (Grant p None False)"
    "p \<in> g_revoked_pending_targets g \<longleftrightarrow> (\<exists>h. s h = Some (Grant p None True))"
    "bt_get (g_runtime_ids g) h = Some r \<longleftrightarrow> (\<exists>p. s h = Some (Grant p (Some r) False))"
    "set taken \<union> set (g_revoked g) = due s" "dom s \<subseteq> set hs"
    "s h = Some a \<Longrightarrow> gr_pending a \<in> set ps"
    "s h = Some a \<Longrightarrow> s h' = Some a' \<Longrightarrow> gr_pending a = gr_pending a' \<Longrightarrow> h = h'"
  using assms unfolding registry_rel_def by blast+

lemma bt_get_set: "bt_wf m \<Longrightarrow> bt_get m k = Some v \<longleftrightarrow> (k, v) \<in> set m"
  by (simp add: bt_get_def bt_wf_distinct)

lemma due_upd: "r \<in> due (s(h \<mapsto> a)) \<longleftrightarrow> (gr_runtime a = Some r \<and> gr_revoked a) \<or> r \<in> due (s(h := None))"
  by (cases a) (auto simp: due_def)

lemma due_fresh: "s h = None \<or> (\<exists>p i b. s h = Some (Grant p i b) \<and> (i = None \<or> \<not> b)) \<Longrightarrow> due (s(h := None)) = due s"
proof -
  assume a: "s h = None \<or> (\<exists>p i b. s h = Some (Grant p i b) \<and> (i = None \<or> \<not> b))"
  have "s k = Some (Grant p (Some r) True) \<Longrightarrow> k \<noteq> h" for k p r using a by auto
  then have "(s(h := None)) k = Some (Grant p (Some r) True) \<longleftrightarrow> s k = Some (Grant p (Some r) True)" for k p r
    by auto
  then show ?thesis unfolding due_def by presburger
qed

lemma rel_allowed:
  assumes r: "registry_rel ps hs (g, taken) s" and f: "p \<notin> set ps" "h \<notin> set hs"
  shows "registry_rel (p # ps) (h # hs) (registry_step (OpAllowed p h) (g, taken)) (spec_step (OpAllowed p h) s)"
proof -
  note R = registry_relD [OF r]
  let ?s = "s(h \<mapsto> Grant p None False)"
  have h: "s h = None" using R(7) f(2) by blast
  have p: "s k \<noteq> Some (Grant p i b)" for k i b using R(8) [of k "Grant p i b"] f(1) by auto
  have "registry_rel (p # ps) (h # hs) (snd (registry_allowed p h g), taken) ?s"
  proof (rule registry_relI)
    let ?g = "snd (registry_allowed p h g)"
    show "bt_wf (g_pending_host_ids ?g)" "bt_wf (g_runtime_ids ?g)"
      using R(1,2) by (simp_all add: registry_allowed_def bt_wf_insert)
    show "bt_get (g_pending_host_ids ?g) q = Some k \<longleftrightarrow> ?s k = Some (Grant q None False)" for q k
      using R(3) [of q k] h p by (auto simp: registry_allowed_def bt_get_insert)
    show "q \<in> g_revoked_pending_targets ?g \<longleftrightarrow> (\<exists>k. ?s k = Some (Grant q None True))" for q
      using R(4) [of q] h by (auto simp: registry_allowed_def) (metis option.distinct(1))
    show "bt_get (g_runtime_ids ?g) k = Some x \<longleftrightarrow> (\<exists>q. ?s k = Some (Grant q (Some x) False))" for k x
      using R(5) [of k x] h by (auto simp: registry_allowed_def)
    show "set taken \<union> set (g_revoked ?g) = due ?s"
      using R(6) due_upd [of _ s h] due_fresh [of s h] h by (auto simp: registry_allowed_def)
    show "dom ?s \<subseteq> set (h # hs)" using R(7) by auto
    show "gr_pending a \<in> set (p # ps)" if "?s k = Some a" for k a
      using that R(8) [of k a] by (auto split: if_splits)
    show "k = k'" if "?s k = Some a" "?s k' = Some a'" "gr_pending a = gr_pending a'" for k k' a a'
      using that R(9) [of k a k' a'] p by (cases a; cases a') (auto split: if_splits)
  qed
  then show ?thesis by simp
qed

lemma rel_replace:
  assumes r: "registry_rel ps hs (g, taken) s" and h: "s h = Some (Grant p i b)" "i = None \<or> \<not> b"
    and wf: "bt_wf (g_pending_host_ids g')" "bt_wf (g_runtime_ids g')"
    and pend: "\<And>q k. bt_get (g_pending_host_ids g') q = Some k \<longleftrightarrow>
      (if k = h then q = p \<and> i' = None \<and> \<not> b' else bt_get (g_pending_host_ids g) q = Some k)"
    and rev: "\<And>q. q \<in> g_revoked_pending_targets g' \<longleftrightarrow>
      (if q = p then i' = None \<and> b' else q \<in> g_revoked_pending_targets g)"
    and rt: "\<And>k x. bt_get (g_runtime_ids g') k = Some x \<longleftrightarrow>
      (if k = h then i' = Some x \<and> \<not> b' else bt_get (g_runtime_ids g) k = Some x)"
    and du: "set (g_revoked g') = set (g_revoked g) \<union> {x. i' = Some x \<and> b'}"
  shows "registry_rel ps hs (g', taken) (s(h \<mapsto> Grant p i' b'))"
proof (rule registry_relI [OF wf])
  note R = registry_relD [OF r]
  let ?s = "s(h \<mapsto> Grant p i' b')"
  have inj: "s k = Some (Grant p j c) \<Longrightarrow> k = h" for k j c using R(9) [OF _ h(1)] by simp
  show "bt_get (g_pending_host_ids g') q = Some k \<longleftrightarrow> ?s k = Some (Grant q None False)" for q k
    using R(3) [of q k] by (auto simp: pend)
  show "q \<in> g_revoked_pending_targets g' \<longleftrightarrow> (\<exists>k. ?s k = Some (Grant q None True))" for q
  proof (cases "q = p")
    case True
    with inj show ?thesis by (auto simp: rev)
  next
    case False
    then show ?thesis using R(4) [of q] h(1) by (auto simp: rev) (metis grant.inject option.inject)
  qed
  show "bt_get (g_runtime_ids g') k = Some x \<longleftrightarrow> (\<exists>q. ?s k = Some (Grant q (Some x) False))" for k x
    using R(5) [of k x] by (auto simp: rt)
  have "due (s(h := None)) = due s" using h by (intro due_fresh) blast
  then show "set taken \<union> set (g_revoked g') = due ?s"
    using R(6) by (auto simp: du due_upd)
  show "dom ?s \<subseteq> set hs" using R(7) h by auto
  show "gr_pending a \<in> set ps" if "?s k = Some a" for k a
    using that R(8) [OF h(1)] R(8) [of k a] by (auto split: if_splits)
  show "k = k'" if "?s k = Some a" "?s k' = Some a'" "gr_pending a = gr_pending a'" for k k' a a'
    using that R(9) [of k a k' a'] inj by (cases a; cases a') (auto split: if_splits)
qed

lemma issue_at:
  assumes r: "registry_rel ps hs (g, taken) s" and h: "s h = Some (Grant p None b)"
  shows "spec_step (OpIssued p x) s = s(h \<mapsto> Grant p (Some x) b)"
proof
  fix k
  show "spec_step (OpIssued p x) s k = (s(h \<mapsto> Grant p (Some x) b)) k"
  proof (cases "s k")
    case (Some a)
    obtain q i c where a: "a = Grant q i c" by (cases a)
    have "q = p \<Longrightarrow> k = h" using registry_relD(9) [OF r Some h] by (simp add: a)
    then show ?thesis using Some h by (cases i) (auto simp: a)
  qed (use h in auto)
qed

lemma rel_issued:
  assumes r: "registry_rel ps hs (g, taken) s"
  shows "registry_rel ps hs (registry_step (OpIssued p x) (g, taken)) (spec_step (OpIssued p x) s)"
proof -
  note R = registry_relD [OF r]
  consider h where "p \<in> g_revoked_pending_targets g" "s h = Some (Grant p None True)"
    | h where "p \<notin> g_revoked_pending_targets g" "bt_get (g_pending_host_ids g) p = Some h"
      "s h = Some (Grant p None False)"
    | "p \<notin> g_revoked_pending_targets g" "bt_get (g_pending_host_ids g) p = None"
    using R(3) R(4) by (cases "bt_get (g_pending_host_ids g) p") blast+
  then show ?thesis
  proof cases
    case 1
    then have "bt_get (g_pending_host_ids g) q \<noteq> Some h" "bt_get (g_runtime_ids g) h \<noteq> Some y" for q y
      using R(3) R(5) by auto
    then have "registry_rel ps hs (registry_issued p x g, taken) (s(h \<mapsto> Grant p (Some x) True))"
      using 1 R(1,2) by (intro rel_replace [OF r 1(2)]) (auto simp: registry_issued_def)
    then show ?thesis using issue_at [OF r 1(2)] by simp
  next
    case 2
    then have "bt_get (g_pending_host_ids g) q = Some h \<longleftrightarrow> q = p" "bt_get (g_runtime_ids g) h \<noteq> Some y" for q y
      using R(3) R(5) by auto
    moreover have "bt_get (g_pending_host_ids g) q = Some k \<Longrightarrow> k \<noteq> h \<Longrightarrow> q \<noteq> p" for q k using 2(2) by auto
    moreover have "registry_issued p x g = g\<lparr>g_pending_host_ids := bt_remove p (g_pending_host_ids g),
        g_runtime_ids := bt_insert h x (g_runtime_ids g)\<rparr>"
      using 2(1,2) by (simp add: registry_issued_def)
    ultimately have "registry_rel ps hs (registry_issued p x g, taken) (s(h \<mapsto> Grant p (Some x) False))"
      using 2(1,3) R(1,2) by (intro rel_replace [OF r 2(3)]) (auto simp: btree_simps split: if_splits)
    then show ?thesis using issue_at [OF r 2(3)] by simp
  next
    case 3
    have "map_option (issue_grant p x) (s k) = s k" for k
    proof (cases "s k")
      case (Some a)
      obtain q i c where a: "a = Grant q i c" by (cases a)
      show ?thesis using 3 R(3) [of p k] R(4) [of p] Some by (cases i; cases c) (auto simp: a)
    qed simp
    then have "spec_step (OpIssued p x) s = s" by (simp add: fun_eq_iff)
    then show ?thesis using 3 r by (simp add: registry_issued_def)
  qed
qed

lemma rel_revoke:
  assumes r: "registry_rel ps hs (g, taken) s"
  shows "registry_rel ps hs (registry_step (OpRevoke h) (g, taken)) (spec_step (OpRevoke h) s)"
proof -
  note R = registry_relD [OF r]
  have found: "find (\<lambda>(q, k). k = h) (g_pending_host_ids g) = Some (p, k) \<Longrightarrow> k = h \<and> s h = Some (Grant p None False)" for p k
    using R(3) [of p h] by (auto simp: find_Some_iff bt_get_set [OF R(1)]) (metis nth_mem)
  have not_found: "find (\<lambda>(q, k). k = h) (g_pending_host_ids g) = None \<Longrightarrow> s h \<noteq> Some (Grant p None False)" for p
    using R(3) [of p h] by (auto simp: find_None_iff bt_get_set [OF R(1)])
  consider x p where "bt_get (g_runtime_ids g) h = Some x" "s h = Some (Grant p (Some x) False)"
    | p where "bt_get (g_runtime_ids g) h = None" "find (\<lambda>(q, k). k = h) (g_pending_host_ids g) = Some (p, h)"
      "s h = Some (Grant p None False)"
    | "bt_get (g_runtime_ids g) h = None" "find (\<lambda>(q, k). k = h) (g_pending_host_ids g) = None"
    using R(5) [of h] found by (cases "bt_get (g_runtime_ids g) h"; cases "find (\<lambda>(q, k). k = h) (g_pending_host_ids g)") auto
  then show ?thesis
  proof cases
    case 1
    have "bt_get (g_pending_host_ids g) q \<noteq> Some h" for q using R(3) [of q h] 1(2) by auto
    moreover have "p \<notin> g_revoked_pending_targets g"
      using R(4) [of p] R(9) [OF _ 1(2), of _ "Grant p None True"] 1(2) by auto
    ultimately have "registry_rel ps hs (registry_revoke h g, taken) (s(h \<mapsto> Grant p (Some x) True))"
      using 1 R(1,2) by (intro rel_replace [OF r 1(2)]) (auto simp: registry_revoke_def btree_simps)
    then show ?thesis using 1 by simp
  next
    case 2
    have "bt_get (g_pending_host_ids g) q = Some h \<longleftrightarrow> q = p" for q using R(3) [of q h] 2(3) by auto
    moreover from this [of p] have "k \<noteq> h \<Longrightarrow> bt_get (g_pending_host_ids g) p \<noteq> Some k" for k by auto
    ultimately have "registry_rel ps hs (registry_revoke h g, taken) (s(h \<mapsto> Grant p None True))"
      using 2 R(1,2) by (intro rel_replace [OF r 2(3)]) (auto simp: registry_revoke_def btree_simps split: if_splits)
    then show ?thesis using 2 by simp
  next
    case 3
    have "map_option revoke_grant (s h) = s h"
    proof (cases "s h")
      case (Some a)
      obtain q i c where a: "a = Grant q i c" by (cases a)
      show ?thesis using 3 R(5) [of h] not_found [of q] Some by (cases i; cases c) (auto simp: a)
    qed simp
    then have "spec_step (OpRevoke h) s = s" by (simp add: fun_upd_idem)
    then show ?thesis using 3 r by (simp add: registry_revoke_def)
  qed
qed

lemma rel_take:
  "registry_rel ps hs (g, taken) s \<Longrightarrow> registry_rel ps hs (registry_step OpTake (g, taken)) s"
  by (auto simp: registry_rel_def registry_take_revocations_def)

lemma rel_run:
  "registry_rel ps hs gt s \<Longrightarrow> fresh_ops ps hs ops \<Longrightarrow>
   \<exists>ps' hs'. registry_rel ps' hs' (fold registry_step ops gt) (fold spec_step ops s)"
proof (induction ps hs ops arbitrary: gt s rule: fresh_ops.induct)
  case (2 ps hs p h ops)
  then show ?case using rel_allowed by (cases gt) fastforce
next
  case "3_1"
  then show ?case using rel_issued by (cases gt) fastforce
next
  case "3_2"
  then show ?case using rel_revoke by (cases gt) fastforce
next
  case "3_3"
  then show ?case using rel_take by (cases gt) fastforce
qed auto

lemma rel_start: "registry_rel [] [] (registry_default, []) Map.empty"
  by (auto simp: registry_rel_def registry_default_def due_def bt_get_def bt_empty_def)

lemma fresh_ops_append:
  "fresh_ops ps hs (xs @ OpAllowed p h # ys) \<Longrightarrow> OpAllowed p h' \<notin> set ys \<and> OpAllowed p' h \<notin> set ys
     \<and> OpAllowed p h' \<notin> set xs"
proof -
  have later: "fresh_ops ps hs ops \<Longrightarrow> p \<in> set ps \<or> h \<in> set hs \<Longrightarrow> OpAllowed p h \<notin> set ops"
    for ps hs p h and ops :: "'r grant_op list"
    by (induction ps hs ops rule: fresh_ops.induct) auto
  show "fresh_ops ps hs (xs @ OpAllowed p h # ys) \<Longrightarrow> ?thesis"
  proof (induction ps hs xs rule: fresh_ops.induct)
    case (2 ps hs q k xs)
    then show ?case using later [of "q # ps" "k # hs" "xs @ OpAllowed p h # ys" q h] by auto
  qed (use later [of "p # _" "h # _" ys] in auto)
qed

lemma spec_follows:
  "(\<And>q. OpAllowed q h \<notin> set ops) \<Longrightarrow>
   s h = Some (Grant p i b) \<Longrightarrow>
   fold spec_step ops s h =
     Some (Grant p (case i of None \<Rightarrow> first_issue p ops | Some r \<Rightarrow> Some r) (b \<or> OpRevoke h \<in> set ops))"
proof (induction ops arbitrary: s i b)
  case (Cons x ops)
  then show ?case by (cases x; cases i; cases "x = OpRevoke h") auto
qed (auto split: option.splits)

lemma spec_allowed:
  assumes "fresh_ops [] [] (xs @ OpAllowed p h # ys)"
  shows "fold spec_step (xs @ OpAllowed p h # ys) s h = Some (Grant p (first_issue p ys) (OpRevoke h \<in> set ys))"
  using fresh_ops_append [OF assms] by (simp add: spec_follows [of h ys _ p None False])

lemma spec_origin:
  "fold spec_step ops s h = Some a \<Longrightarrow> s h \<noteq> None \<or> (\<exists>xs p ys. ops = xs @ OpAllowed p h # ys)"
proof (induction ops arbitrary: s)
  case (Cons x ops)
  then have "spec_step x s h \<noteq> None \<or> (\<exists>xs p ys. ops = xs @ OpAllowed p h # ys)" by simp
  moreover have "spec_step x s h \<noteq> None \<Longrightarrow> s h \<noteq> None \<or> (\<exists>p. x = OpAllowed p h)"
    by (cases x) (auto split: if_splits)
  ultimately show ?case by (metis append_Cons append_Nil)
qed simp

lemma due_history:
  assumes "fresh_ops [] [] ops"
  shows "due (fold spec_step ops Map.empty) = revoked_after_allowed ops"
proof (rule set_eqI)
  fix r
  have "fold spec_step ops Map.empty h = Some (Grant p (Some r) True) \<longleftrightarrow>
      (\<exists>xs ys. ops = xs @ OpAllowed p h # ys \<and> OpRevoke h \<in> set ys \<and> first_issue p ys = Some r)" for h p
  proof
    assume a: "fold spec_step ops Map.empty h = Some (Grant p (Some r) True)"
    then obtain xs q ys where "ops = xs @ OpAllowed q h # ys" using spec_origin [OF a] by auto
    then show "\<exists>xs ys. ops = xs @ OpAllowed p h # ys \<and> OpRevoke h \<in> set ys \<and> first_issue p ys = Some r"
      using a spec_allowed [of xs q h ys Map.empty] assms by auto
  next
    assume "\<exists>xs ys. ops = xs @ OpAllowed p h # ys \<and> OpRevoke h \<in> set ys \<and> first_issue p ys = Some r"
    then show "fold spec_step ops Map.empty h = Some (Grant p (Some r) True)"
      using spec_allowed assms by fastforce
  qed
  then show "r \<in> due (fold spec_step ops Map.empty) \<longleftrightarrow> r \<in> revoked_after_allowed ops"
    by (auto simp: due_def revoked_after_allowed_def)
qed

lemma first_issue_in: "first_issue p ops = Some r \<Longrightarrow> OpIssued p r \<in> set ops"
  by (induction p ops rule: first_issue.induct) (auto split: if_splits)

section \<open>Correctness of decisions\<close>

lemma is_prefix_append: "is_prefix xs ys \<longleftrightarrow> (\<exists>zs. ys = xs @ zs)"
  by (induction xs ys rule: is_prefix.induct) auto

lemma resolve_permission_path:
  assumes "validate_permission_values p rights n = Inr ()"
  shows "path_components p = RootDir # map Normal (resolve [] p)"
  using permission_path_components [OF assms] by (auto simp: resolve_def resolve_normal)

lemma path_starts_with_resolve:
  assumes "validate_permission_values p rights n = Inr ()" "validate_permission_values q rights' n' = Inr ()"
  shows "path_starts_with p q \<longleftrightarrow> is_prefix (resolve [] q) (resolve [] p)"
proof -
  have "is_prefix (map Normal xs) (map Normal ys) \<longleftrightarrow> is_prefix xs ys" for xs ys
    by (induction xs ys rule: is_prefix.induct) auto
  then show ?thesis
    by (simp add: path_starts_with_def resolve_permission_path [OF assms(1)] resolve_permission_path [OF assms(2)])
qed

text \<open>A current-directory component between two others changes nothing a path is tested for.\<close>

lemma contains2_Cons [simp]:
  "contains2 a b (c # s) \<longleftrightarrow> c = a \<and> starts_with b s \<or> contains2 a b s"
  by (cases s) (auto simp: contains2_def starts_with_def split: option.splits)

lemma contains2_Nil [simp]: "\<not> contains2 a b []"
  by (simp add: contains2_def)

lemma contains2_dot:
  assumes "\<not> contains2 (CHR ''/'') (CHR ''/'') (u @ ''/'' @ v)"
  shows "\<not> contains2 (CHR ''/'') (CHR ''/'') (u @ ''/./'' @ v)"
  using assms by (induction u) (auto simp: starts_with_def hd_append split: if_splits)

lemma has_control_dot: "has_control (u @ ''/./'' @ v) = has_control (u @ ''/'' @ v)"
  by (induction u rule: has_control.induct) (auto simp: in_range_def hd_append)

lemma path_components_dot:
  assumes "is_absolute (u @ ''/'' @ v)"
  shows "path_components (u @ ''/./'' @ v) = path_components (u @ ''/'' @ v)"
proof -
  have "split_on (CHR ''/'') (u @ ''/./'' @ v) = split_on (CHR ''/'') u @ [''.''] @ split_on (CHR ''/'') v"
    using split_on_append_gen [of "CHR ''/''" u "''./'' @ v"] by (simp add: split_on_append_gen)
  moreover have "is_absolute (u @ ''/./'' @ v)"
    using assms by (cases u) (auto simp: is_absolute_def starts_with_def)
  ultimately show ?thesis using assms by (simp add: path_components_def Let_def split_on_append_gen)
qed

section \<open>Properties\<close>

text \<open>(C22) A decision never grants more than was asked: when the runtime accepts an allow decision for
  a valid request, every granted right was requested, recursion and bytes stay within the request,
  the granted path resolves to a target at or below the requested one, and a request for a file
  yields that very path without recursion or listing.\<close>

theorem decisions_never_broaden:
  assumes "permission_request_params_validate q = Inr ()"
    and "permission_validate_for (Allow grant_id path rights recursive max_bytes duration) q = Inr ()"
  shows "set rights \<subseteq> set (pq_rights q) \<and> (recursive \<longrightarrow> pq_recursive q) \<and> 0 < max_bytes
    \<and> max_bytes \<le> pq_max_bytes q \<and> is_prefix (resolve [] (pq_path q)) (resolve [] path)
    \<and> (pq_kind q = FileTarget \<longrightarrow> path = pq_path q \<and> \<not> recursive \<and> ListRight \<notin> set rights)"
proof -
  from assms(1) have q: "validate_permission_values (pq_path q) (pq_rights q) (pq_max_bytes q) = Inr ()"
    by (auto simp: permission_request_params_validate_def validate_permission_scope_def result_simps)
  from assms(2) have p: "validate_permission_values path rights max_bytes = Inr ()"
    and d: "path_is_allowed q path" "\<not> list_ex (\<lambda>r. r \<notin> set (pq_rights q)) rights" "recursive \<longrightarrow> pq_recursive q"
      "max_bytes \<le> pq_max_bytes q" "pq_kind q = FileTarget \<longrightarrow> \<not> recursive \<and> ListRight \<notin> set rights"
    by (auto simp: permission_validate_for_def result_simps not_less split: if_splits)
  have "is_prefix (resolve [] (pq_path q)) (resolve [] path)"
    using d(1) path_starts_with_resolve [OF p q]
    by (auto simp: path_is_allowed_def is_prefix_append split: permission_target_kind.splits)
  moreover have "0 < max_bytes"
    using p by (auto simp: validate_permission_values_def word_neq_0_conv split: if_splits)
  moreover have "pq_kind q = FileTarget \<longrightarrow> path = pq_path q"
    using d(1) by (auto simp: path_is_allowed_def)
  ultimately show ?thesis using d by (auto simp: list_ex_iff)
qed

definition sample_request :: permission_request_params where
  "sample_request = \<lparr>pq_execution_id = ''e'', pq_operation_id = ''o'', pq_session_id = ''s'',
     pq_pending_target_id = ''t'', pq_kind = DirectoryTarget, pq_path = ''/a'',
     pq_rights = [ReadRight, ListRight], pq_recursive = True, pq_max_bytes = 10,
     pq_duration = ExecutionDuration, pq_reason = []\<rparr>"

lemmas permission_eval = sample_request_def permission_request_params_validate_def validate_opaque_def
  validate_session_id_def validate_permission_scope_def validate_permission_values_def in_range_def
  is_absolute_def starts_with_def ends_with_def contains2_def path_components_def component_of_def
  less_permission_right_def permission_validate_for_def validate_ascii_id_def is_ascii_graphic_def
  less_eq_char_def path_is_allowed_def path_starts_with_def

theorem decisions_never_broaden_witness:
  "is_prefix (resolve [] ''/a'') (resolve [] ''/a/b'')"
proof -
  have "permission_request_params_validate sample_request = Inr ()"
    "permission_validate_for (Allow ''g'' ''/a/b'' [ReadRight] False 5 ExecutionDuration) sample_request = Inr ()"
    by (simp_all add: permission_eval)
  from decisions_never_broaden [OF this] show ?thesis by (simp add: sample_request_def)
qed

text \<open>(C23) Revocations are neither lost nor invented once the host has allowed the grant: however
  allowing, issuing, revoking and collecting interleave, as long as pending targets and host
  identifiers are each allowed once, the runtime identifiers handed out or waiting to be handed out
  are exactly those first issued for a target after it was allowed under a host identifier that was
  revoked after it was allowed, before or after the issuing.\<close>

theorem revocations_delivered:
  assumes "fresh_ops [] [] ops" and "fold registry_step ops (registry_default, []) = (g, taken)"
  shows "set taken \<union> set (g_revoked g) = revoked_after_allowed ops"
proof -
  obtain ps hs where "registry_rel ps hs (g, taken) (fold spec_step ops Map.empty)"
    using rel_run [OF rel_start assms(1)] assms(2) by auto
  then show ?thesis using registry_relD(6) due_history [OF assms(1)] by blast
qed

theorem revocations_delivered_witness:
  "5 \<in> revoked_after_allowed [OpAllowed 1 ''g'', OpRevoke ''g'', OpIssued 1 (5::nat), OpTake]"
proof -
  let ?ops = "[OpAllowed 1 ''g'', OpRevoke ''g'', OpIssued 1 (5::nat), OpTake]"
  have "fresh_ops [] [] ?ops" by simp
  moreover have "fold registry_step ?ops (registry_default, []) = (registry_default, [5])"
    by (simp add: registry_default_def registry_allowed_def registry_revoke_def registry_issued_def
        registry_take_revocations_def bt_empty_def bt_get_def)
  ultimately show ?thesis using revocations_delivered by fastforce
qed

text \<open>(C24) A revocation that reaches the registry before the host's decision is recorded is lost: in
  every history that allows pending targets and host identifiers once, a grant that was revoked only
  before it was allowed is, once issued under an identifier of its own, still in force at the end,
  and its identifier has been neither handed out for invalidation nor queued for it. The reading
  thread handles the revocation while another thread still records the host's decision, so a host
  that revokes a grant right after allowing it can be ignored.\<close>

theorem early_revocation_lost:
  assumes "fresh_ops [] [] (xs @ OpAllowed p h # ys)"
    and "OpRevoke h \<in> set xs" and "OpRevoke h \<notin> set ys"
    and "first_issue p ys = Some r" and "\<And>q. OpIssued q r \<in> set (xs @ ys) \<Longrightarrow> q = p"
    and "fold registry_step (xs @ OpAllowed p h # ys) (registry_default, []) = (g, taken)"
  shows "bt_get (g_runtime_ids g) h = Some r \<and> r \<notin> set taken \<union> set (g_revoked g)"
proof
  let ?s = "fold spec_step (xs @ OpAllowed p h # ys) Map.empty"
  obtain ps hs where rel: "registry_rel ps hs (g, taken) ?s"
    using rel_run [OF rel_start assms(1)] assms(6) by auto
  have h: "?s h = Some (Grant p (Some r) False)"
    using spec_allowed [OF assms(1), of Map.empty] assms(3,4) by simp
  then show "bt_get (g_runtime_ids g) h = Some r" using registry_relD(5) [OF rel] by blast
  have "k = h \<and> ?s k = Some (Grant p (Some r) False)" if k: "?s k = Some (Grant q (Some r) True)" for k q
  proof -
    obtain us q' vs where split: "xs @ OpAllowed p h # ys = us @ OpAllowed q' k # vs"
      using spec_origin [OF k] by auto
    then have "OpIssued q r \<in> set (us @ OpAllowed q' k # vs)"
      using spec_allowed [of us q' k vs Map.empty] assms(1) k first_issue_in [of q vs r] by auto
    then have "q = p" unfolding split [symmetric] using assms(5) by auto
    then show ?thesis using registry_relD(9) [OF rel k h] h by simp
  qed
  then have "r \<notin> due ?s" by (fastforce simp: due_def)
  then show "r \<notin> set taken \<union> set (g_revoked g)" using registry_relD(6) [OF rel] by simp
qed

theorem early_revocation_lost_witness:
  "bt_get (g_runtime_ids (fst (fold registry_step
     [OpRevoke ''g'', OpAllowed 1 ''g'', OpIssued 1 (5::nat), OpTake] (registry_default, [])))) ''g'' = Some 5"
proof -
  obtain g taken where run: "fold registry_step
      ([OpRevoke ''g''] @ OpAllowed 1 ''g'' # [OpIssued 1 (5::nat), OpTake]) (registry_default, []) = (g, taken)"
    by (cases "fold registry_step
      ([OpRevoke ''g''] @ OpAllowed 1 ''g'' # [OpIssued 1 (5::nat), OpTake]) (registry_default, [])")
  have "bt_get (g_runtime_ids g) ''g'' = Some 5"
    using early_revocation_lost [OF _ _ _ _ _ run, of 5] by auto
  then show ?thesis using run by simp
qed

text \<open>(C25) The test for dot components of a permission path is vacuous: whenever an absolute path
  with a component after some slash is accepted, the longer path with a dot component put at that
  slash is accepted too (within 4096 bytes), although it is not canonical, and both texts resolve to
  the same target.\<close>

theorem dot_paths_accepted:
  assumes "validate_permission_values (u @ ''/'' @ v) rights max_bytes = Inr ()"
    and "v \<noteq> []" and "length (u @ ''/./'' @ v) \<le> 4096"
  shows "validate_permission_values (u @ ''/./'' @ v) rights max_bytes = Inr ()
    \<and> resolve dir (u @ ''/./'' @ v) = resolve dir (u @ ''/'' @ v)"
proof -
  have ok: "\<not> has_control (u @ ''/'' @ v)" "is_absolute (u @ ''/'' @ v)"
      "\<not> contains2 (CHR ''/'') (CHR ''/'') (u @ ''/'' @ v)" "\<not> ends_with (CHR ''/'') (u @ ''/'' @ v)"
    using assms(1,2) by (auto simp: validate_permission_values_def split: if_splits)
  have "is_absolute (u @ ''/./'' @ v)"
    using ok(2) by (cases u) (auto simp: is_absolute_def starts_with_def)
  moreover have "\<not> ends_with (CHR ''/'') (u @ ''/./'' @ v)"
    using ok(4) assms(2) by (simp add: ends_with_def)
  ultimately show ?thesis
    using assms(1,3) has_control_dot [of u v] contains2_dot [OF ok(3)] path_components_dot [OF ok(2)]
    by (simp add: validate_permission_values_def resolve_def split: if_splits del: contains2_Cons)
qed

theorem dot_paths_accepted_witness:
  "validate_permission_values ''/a/./b'' [ReadRight] 1 = Inr () \<and> resolve [] ''/a/./b'' = [''a'', ''b'']"
proof -
  have "validate_permission_values (''/a'' @ ''/'' @ ''b'') [ReadRight] 1 = Inr ()"
    by (simp add: permission_eval)
  from dot_paths_accepted [OF this, of "[]"] show ?thesis
    by (simp add: resolve_def permission_eval)
qed

end
