(* ===== verification/Events.thy ===== *)
theory Events
  imports Payload
begin

text \<open>
  Execution events (\<open>josh-protocol/src/payload.rs\<close>): the kinds, the exact fields of each kind,
  and the validator of one execution's event stream.
\<close>

section \<open>Events\<close>

datatype event_kind =
    EvAccepted | EvStarted | EvEffectStarted | EvEffectCompleted | EvEffectFailed | EvTaskStarted
  | EvTaskCancelled | EvBudgetWarning | EvPermissionDecision | EvStopped | EvCompleted | EvFailed
  | EvCancelled

definition kind_is_terminal :: "event_kind \<Rightarrow> bool" where
  "kind_is_terminal k \<longleftrightarrow> k \<in> {EvStopped, EvCompleted, EvFailed, EvCancelled}"

fun field_names :: "event_kind \<Rightarrow> string list" where
  "field_names EvAccepted = [''artifact_digest'', ''catalog_digest'', ''entry'', ''program_id'']"
| "field_names EvEffectStarted = [''effect'', ''operation_id'', ''schema_digest'']"
| "field_names EvEffectCompleted = [''effect'', ''operation_id'', ''schema_digest'']"
| "field_names EvEffectFailed = [''effect'', ''operation_id'', ''schema_digest'']"
| "field_names EvTaskStarted = [''owner_task_id'', ''task_id'']"
| "field_names EvTaskCancelled = [''owner_task_id'', ''task_id'']"
| "field_names EvBudgetWarning = [''limit'', ''resource'', ''used'']"
| "field_names EvPermissionDecision = [''decision'', ''operation_id'', ''reason_code'']"
| "field_names _ = []"

record execution_event_params =
  ee_execution_id :: string
  ee_sequence :: u64
  ee_elapsed_ms :: u64
  ee_kind :: event_kind
  ee_replayed :: bool
  ee_fields :: "(string, json) btree_map"

fun as_u64 :: "json \<Rightarrow> u64 option" where
  "as_u64 (JNumber (PosInt u)) = Some u"
| "as_u64 _ = None"

definition field_type_ok :: "string \<Rightarrow> json \<Rightarrow> bool" where
  "field_type_ok f v =
     (if f \<in> {''task_id'', ''owner_task_id'', ''used'', ''limit''} then as_u64 v \<noteq> None
      else as_string v \<noteq> None)"

text \<open>Indexing the map panics when the key is missing; the keys have been compared with the field
  names before, so the key is there.\<close>

definition validate_event_field :: "(string, json) btree_map \<Rightarrow> string \<Rightarrow> protocol_error + unit" where
  "validate_event_field fs f =
     (let v = the (bt_get fs f)
      in if \<not> field_type_ok f v then Inl (invalid ''event field has the wrong type'')
         else
           result_bind (if f \<in> {''artifact_digest'', ''catalog_digest'', ''schema_digest''}
              then validate_digest (the (as_string v)) else Inr ()) (\<lambda>_.
           if f = ''decision'' \<and> as_string v \<notin> {Some ''allow'', Some ''deny''}
           then Inl (invalid ''permission decision is invalid'')
           else if f = ''reason_code''
           then validate_safe_code (the (as_string v)) ''permission decision reason code''
           else Inr ()))"

definition execution_event_params_validate :: "execution_event_params \<Rightarrow> protocol_error + unit" where
  "execution_event_params_validate e =
     result_bind (validate_opaque (ee_execution_id e) ''execution_id'') (\<lambda>_.
     if ee_sequence e = 0 then Inl (invalid ''event sequence must be positive'')
     else if map fst (ee_fields e) \<noteq> field_names (ee_kind e)
     then Inl (invalid ''event fields do not match the event kind'')
     else try_all (validate_event_field (ee_fields e)) (field_names (ee_kind e)))"

section \<open>The stream of one execution\<close>

record event_sequence_tracker =
  et_execution_id :: string
  et_next_sequence :: u64
  et_last_elapsed_ms :: u64
  et_terminal :: bool

definition event_tracker_new :: "string \<Rightarrow> event_sequence_tracker" where
  "event_tracker_new execution_id =
     \<lparr>et_execution_id = execution_id, et_next_sequence = 1, et_last_elapsed_ms = 0, et_terminal = False\<rparr>"

definition event_record ::
    "execution_event_params \<Rightarrow> event_sequence_tracker \<Rightarrow> protocol_error + event_sequence_tracker" where
  "event_record e t =
     result_bind (execution_event_params_validate e) (\<lambda>_.
     if et_terminal t \<or> ee_execution_id e \<noteq> et_execution_id t \<or> ee_sequence e \<noteq> et_next_sequence t
        \<or> ee_elapsed_ms e < et_last_elapsed_ms t
     then Inl (invalid ''event stream ordering is invalid'')
     else case checked_add_u64 (et_next_sequence t) 1 of
         None \<Rightarrow> Inl (invalid ''event sequence overflowed'')
       | Some n \<Rightarrow> Inr (t\<lparr>et_next_sequence := n, et_last_elapsed_ms := ee_elapsed_ms e,
                           et_terminal := kind_is_terminal (ee_kind e)\<rparr>))"

fun record_all :: "event_sequence_tracker \<Rightarrow> execution_event_params list \<Rightarrow> protocol_error + event_sequence_tracker" where
  "record_all t [] = Inr t"
| "record_all t (e # es) = result_bind (event_record e t) (\<lambda>t'. record_all t' es)"

section \<open>Correctness\<close>

text \<open>What a stream is: valid events of one execution, numbered from a start without gap, at times
  that never decrease, none after a terminal one.\<close>

definition stream_from :: "string \<Rightarrow> nat \<Rightarrow> u64 \<Rightarrow> execution_event_params list \<Rightarrow> bool" where
  "stream_from x n t es \<longleftrightarrow>
     list_all (\<lambda>e. execution_event_params_validate e = Inr () \<and> ee_execution_id e = x) es
     \<and> map (\<lambda>e. unat (ee_sequence e)) es = [n..<n + length es]
     \<and> sorted (t # map ee_elapsed_ms es)
     \<and> list_all (\<lambda>e. \<not> kind_is_terminal (ee_kind e)) (butlast es)"

text \<open>The index never panics: every field the kind calls for is present.\<close>

lemma event_fields_present:
  assumes "map fst (ee_fields e) = field_names (ee_kind e)" "f \<in> set (field_names (ee_kind e))"
  shows "bt_get (ee_fields e) f \<noteq> None"
  using assms by (metis bt_get_None_iff set_map)

lemma stream_from_Nil: "stream_from x n t []"
  by (simp add: stream_from_def)

lemma stream_from_Cons:
  "stream_from x n t (e # es) \<longleftrightarrow>
     execution_event_params_validate e = Inr () \<and> ee_execution_id e = x \<and> unat (ee_sequence e) = n
     \<and> t \<le> ee_elapsed_ms e \<and> (es = [] \<or> \<not> kind_is_terminal (ee_kind e))
     \<and> stream_from x (Suc n) (ee_elapsed_ms e) es"
proof -
  have "[n..<n + length (e # es)] = n # [Suc n..<Suc n + length es]"
    by (subst upt_conv_Cons) simp_all
  then show ?thesis unfolding stream_from_def by (auto simp del: upt.simps)
qed

lemma record_all_terminal: "et_terminal t \<Longrightarrow> is_ok (record_all t es) \<longleftrightarrow> es = []"
  by (cases es) (auto simp: event_record_def is_ok_iff result_simps)

lemma event_record_ok:
  "event_record e t = Inr t' \<longleftrightarrow>
     execution_event_params_validate e = Inr () \<and> \<not> et_terminal t \<and> ee_execution_id e = et_execution_id t
     \<and> ee_sequence e = et_next_sequence t \<and> et_last_elapsed_ms t \<le> ee_elapsed_ms e
     \<and> unat (et_next_sequence t) + 1 < 2 ^ 64
     \<and> t' = t\<lparr>et_next_sequence := et_next_sequence t + 1, et_last_elapsed_ms := ee_elapsed_ms e,
          et_terminal := kind_is_terminal (ee_kind e)\<rparr>"
  by (auto simp: event_record_def result_simps checked_add_u64_def not_less split: if_splits)

lemma unat_next: "unat (n::u64) + 1 < 2 ^ 64 \<Longrightarrow> unat (n + 1) = Suc (unat n)"
  by (simp add: unat_word_ariths)

lemma record_all_iff:
  "\<not> et_terminal t \<Longrightarrow>
   is_ok (record_all t es) \<longleftrightarrow>
     stream_from (et_execution_id t) (unat (et_next_sequence t)) (et_last_elapsed_ms t) es
     \<and> unat (et_next_sequence t) + length es < 2 ^ 64"
proof (induction es arbitrary: t)
  case Nil
  then show ?case using unsigned_less [of "et_next_sequence t", where ?'a = nat] by (simp add: stream_from_Nil)
next
  case (Cons e es)
  let ?t' = "t\<lparr>et_next_sequence := et_next_sequence t + 1, et_last_elapsed_ms := ee_elapsed_ms e,
          et_terminal := kind_is_terminal (ee_kind e)\<rparr>"
  let ?ok = "execution_event_params_validate e = Inr () \<and> ee_execution_id e = et_execution_id t
     \<and> ee_sequence e = et_next_sequence t \<and> et_last_elapsed_ms t \<le> ee_elapsed_ms e
     \<and> unat (et_next_sequence t) + 1 < 2 ^ 64"
  have step: "is_ok (record_all t (e # es)) \<longleftrightarrow> ?ok \<and> is_ok (record_all ?t' es)"
    using Cons.prems by (auto simp: is_ok_iff result_simps event_record_ok)
  have rest: "is_ok (record_all ?t' es) \<longleftrightarrow>
      (es = [] \<or> \<not> kind_is_terminal (ee_kind e))
      \<and> stream_from (et_execution_id t) (Suc (unat (et_next_sequence t))) (ee_elapsed_ms e) es
      \<and> Suc (unat (et_next_sequence t)) + length es < 2 ^ 64" if ?ok
  proof (cases "kind_is_terminal (ee_kind e)")
    case True
    then show ?thesis using that record_all_terminal [of ?t' es] by (auto simp: stream_from_Nil)
  next
    case False
    then show ?thesis using that Cons.IH [of ?t'] by (simp add: unat_next)
  qed
  show ?case unfolding step stream_from_Cons using rest
    by (auto simp: word_unat_eq_iff)
qed

section \<open>Properties\<close>

text \<open>(C21) The stream validator accepts exactly the well-ordered streams: recording a list of events
  for an execution succeeds if and only if every event is valid and belongs to it, the sequence
  numbers are 1, 2, 3 and so on without gap, elapsed times never decrease, no event follows a
  terminal one, and the counter does not run out.\<close>

theorem event_streams_ordered:
  "is_ok (record_all (event_tracker_new x) es) \<longleftrightarrow> stream_from x 1 0 es \<and> length es + 1 < 2 ^ 64"
  using record_all_iff [of "event_tracker_new x" es] by (simp add: event_tracker_new_def add.commute)

end
