(* ===== verification/Bytecode_Model.thy ===== *)
theory Bytecode_Model
  imports Prelude
begin

text \<open>
  The types of the bytecode model (\<open>allen-bytecode/src/model.rs\<close>) that values and the virtual
  machine's operations are about.
\<close>

section \<open>Floats\<close>

unbundle bit_operations_syntax

definition CANONICAL_NAN_BITS :: u64 where
  "CANONICAL_NAN_BITS = 0x7ff8000000000000"

definition MAX_VALUE_NESTING :: nat where
  "MAX_VALUE_NESTING = 128"

definition is_nan_bits :: "u64 \<Rightarrow> bool" where
  "is_nan_bits bits =
     (let exponent = bits AND 0x7ff0000000000000;
          fraction = bits AND 0x000fffffffffffff
      in exponent = 0x7ff0000000000000 \<and> fraction \<noteq> 0)"

definition canonical_float_bits :: "u64 \<Rightarrow> u64" where
  "canonical_float_bits bits = (if is_nan_bits bits then CANONICAL_NAN_BITS else bits)"

section \<open>Types of values\<close>

datatype value_type =
    TInt | TBool | TFloat | TString | TBytes | TRange | TUnit | TNever
  | TList value_type
  | TMap value_type value_type
  | TTuple "value_type list"
  | TRecord "(string \<times> value_type) list"
  | TEnum u32
  | TNewtype string value_type
  | TOption value_type
  | TResult value_type value_type
  | TFuture value_type
  | TTask value_type
  | TSequence value_type
  | TWorkspace | TExternalFsAccess | TSubAgent
  | TFunction "value_type list" value_type u32
  | TUnknown

datatype enum_payload_type = TPUnit | TPTuple "value_type list" | TPRecord "(string \<times> value_type) list"

record enum_variant =
  ev_name :: string
  ev_payload :: enum_payload_type

record enum_type =
  et_name :: string
  et_variants :: "enum_variant list"

fun is_map_key_type :: "value_type \<Rightarrow> bool" where
  "is_map_key_type TBool = True"
| "is_map_key_type TInt = True"
| "is_map_key_type TString = True"
| "is_map_key_type TBytes = True"
| "is_map_key_type (TNewtype n underlying) = is_map_key_type underlying"
| "is_map_key_type _ = False"

fun is_ordered_type :: "value_type \<Rightarrow> bool" where
  "is_ordered_type TInt = True"
| "is_ordered_type TFloat = True"
| "is_ordered_type TString = True"
| "is_ordered_type TBytes = True"
| "is_ordered_type (TNewtype n underlying) = is_ordered_type underlying"
| "is_ordered_type _ = False"

fun is_equatable :: "value_type \<Rightarrow> bool" where
  "is_equatable (TList e) = is_equatable e"
| "is_equatable (TMap k v) = (is_equatable k \<and> is_equatable v)"
| "is_equatable (TTuple ts) = (\<forall>t \<in> set ts. is_equatable t)"
| "is_equatable (TRecord fs) = (\<forall>f \<in> set fs. is_equatable (snd f))"
| "is_equatable (TOption t) = is_equatable t"
| "is_equatable (TResult t e) = (is_equatable t \<and> is_equatable e)"
| "is_equatable (TNewtype n underlying) = is_equatable underlying"
| "is_equatable (TFunction ps r e) = False"
| "is_equatable (TFuture t) = False"
| "is_equatable (TTask t) = False"
| "is_equatable (TSequence t) = False"
| "is_equatable TWorkspace = False"
| "is_equatable TSubAgent = False"
| "is_equatable TUnknown = False"
| "is_equatable _ = True"

section \<open>Constants and operations\<close>

datatype external_fs_access = AccessRead | AccessWrite | AccessReadWrite

datatype bytecode_constant =
    CInt i64 | CBool bool | CFloat u64 | CString string | CBytes bytes | CUnit
  | CExternalFsAccess external_fs_access

datatype numeric_binary_op = OpAdd | OpSubtract | OpMultiply | OpDivide

datatype compare_op = CmpEqual | CmpNotEqual | CmpLess | CmpLessEqual | CmpGreater | CmpGreaterEqual

datatype checked_int_operation =
    CheckedAdd | CheckedSubtract | CheckedMultiply | CheckedDivide | CheckedRemainder | CheckedNegate

datatype effect_operation =
    ReadText | ReadBytes | WriteText | WriteBytes | ListDir | HttpGet | PermissionRequestFile
  | PermissionRequestDirectory | AgentMessage | AgentAsk | AgentTranscript | ModelRequest | UserAsk
  | SubAgentCreate | SubAgentRun | SubAgentMessage | SubAgentAsk | Search | ExecRun

end
