(* ===== verification/Vm_Value.thy ===== *)
theory Vm_Value
  imports Bytecode_Model
begin

text \<open>
  Values of the virtual machine (\<open>allen-vm/src/lib.rs\<close>), equality and order on them. A float is
  its bits. A sequence is a handle of a shared mutable cell: its address.
\<close>

section \<open>Values\<close>

datatype enum_identity = UserEnum u32 | OptionEnum | ResultEnum

datatype vm_value =
    VInt i64
  | VBool bool
  | VFloat u64
  | VString string
  | VBytes bytes
  | VRange i64 i64 bool
  | VExternalFsAccess external_fs_access
  | VUnit
  | VList "vm_value list"
  | VMap "(vm_value \<times> vm_value) list"
  | VTuple "vm_value list"
  | VRecord "(string \<times> vm_value) list"
  | VEnum enum_identity string u32 string enum_payload
  | VNewtype string vm_value
  | VClosure u32 "vm_value list"
  | VFuture future_value
  | VTask u64
  | VWorkspace u64 u32 u64
  | VSubAgent u64 u32 u64
  | VSequence nat
  | VUnknown vm_value
and enum_payload = PUnit | PTuple "vm_value list" | PRecord "(string \<times> vm_value) list"
and future_value =
    FutureFunction u32 "vm_value list"
  | FutureEffect effect_operation "vm_value list"
  | FutureTool u32 vm_value value_type
  | FutureAgent effect_operation "vm_value list" value_type

section \<open>Errors of the machine\<close>

text \<open>\<open>VmError\<close>. The texts of \<open>Invariant\<close> name violated assumptions of verified code.\<close>

datatype vm_error =
    ArithmeticOverflow
  | DivisionByZero
  | IndexOutOfBounds
  | ListLengthMismatch
  | MapKeyNotFound
  | DuplicateMapKey
  | ResourceLimit string
  | Timeout string
  | VmCancelled
  | CapabilityMissing
  | AgentUnavailable
  | AgentResponseSchema
  | ModelUnavailable
  | ModelValidationError
  | UserUnavailable
  | SubAgentUnavailable
  | SubAgentResponseSchema
  | ReplayDiverged
  | ReplayRuntimeDiverged
  | ResponseValidationError
  | ToolUnavailable
  | ToolSchemaError
  | VmProtocolViolation
  | ProgramFailed string
  | Stopped string
  | Invariant string

section \<open>Order\<close>

datatype ordering = OLess | OEqual | OGreater

definition cmp :: "'a::linorder \<Rightarrow> 'a \<Rightarrow> ordering" where
  "cmp x y = (if x < y then OLess else if x = y then OEqual else OGreater)"

fun then_with :: "ordering \<Rightarrow> ordering \<Rightarrow> ordering" where
  "then_with OEqual r = r"
| "then_with o1 r = o1"

text \<open>IEEE 754 comparison on the bits: sign and magnitude read as an integer, so that the two
  zeros are equal; a NaN is unordered.\<close>

definition float_key :: "u64 \<Rightarrow> int" where
  "float_key b = (if bit b 63 then - uint (take_bit 63 b) else uint (take_bit 63 b))"

definition float_equal :: "u64 \<Rightarrow> u64 \<Rightarrow> bool" where
  "float_equal a b \<longleftrightarrow> \<not> is_nan_bits a \<and> \<not> is_nan_bits b \<and> float_key a = float_key b"

definition float_partial_cmp :: "u64 \<Rightarrow> u64 \<Rightarrow> ordering option" where
  "float_partial_cmp a b =
     (if is_nan_bits a \<or> is_nan_bits b then None else Some (cmp (float_key a) (float_key b)))"

fun compare_map_keys :: "vm_value \<Rightarrow> vm_value \<Rightarrow> ordering" where
  "compare_map_keys (VBool l) w = (case w of VBool r \<Rightarrow> cmp l r | _ \<Rightarrow> OEqual)"
| "compare_map_keys (VInt l) w = (case w of VInt r \<Rightarrow> cmp (sint l) (sint r) | _ \<Rightarrow> OEqual)"
| "compare_map_keys (VString l) w = (case w of VString r \<Rightarrow> cmp l r | _ \<Rightarrow> OEqual)"
| "compare_map_keys (VBytes l) w = (case w of VBytes r \<Rightarrow> cmp l r | _ \<Rightarrow> OEqual)"
| "compare_map_keys (VNewtype i l) w =
     (case w of VNewtype j r \<Rightarrow> then_with (cmp i j) (compare_map_keys l r) | _ \<Rightarrow> OEqual)"
| "compare_map_keys _ w = OEqual"

definition unordered :: vm_error where
  "unordered = Invariant ''ordered comparison contains unsupported values''"

fun language_order :: "vm_value \<Rightarrow> vm_value \<Rightarrow> vm_error + ordering option" where
  "language_order (VInt l) w = (case w of VInt r \<Rightarrow> Inr (Some (cmp (sint l) (sint r))) | _ \<Rightarrow> Inl unordered)"
| "language_order (VFloat l) w = (case w of VFloat r \<Rightarrow> Inr (float_partial_cmp l r) | _ \<Rightarrow> Inl unordered)"
| "language_order (VString l) w = (case w of VString r \<Rightarrow> Inr (Some (cmp l r)) | _ \<Rightarrow> Inl unordered)"
| "language_order (VBytes l) w = (case w of VBytes r \<Rightarrow> Inr (Some (cmp l r)) | _ \<Rightarrow> Inl unordered)"
| "language_order (VNewtype i l) w =
     (case w of VNewtype j r \<Rightarrow> (if i = j then language_order l r else Inl unordered) | _ \<Rightarrow> Inl unordered)"
| "language_order _ w = Inl unordered"

section \<open>Equality\<close>

text \<open>\<open>language_equal\<close>. The cache of the source memoises results by the addresses of the two
  aggregates; all aggregates live through the comparison, so it never changes a result.\<close>

function (sequential) language_equal :: "vm_value \<Rightarrow> vm_value \<Rightarrow> bool"
  and values_equal :: "vm_value list \<Rightarrow> vm_value list \<Rightarrow> bool"
  and entries_equal :: "(vm_value \<times> vm_value) list \<Rightarrow> (vm_value \<times> vm_value) list \<Rightarrow> bool"
  and fields_equal :: "(string \<times> vm_value) list \<Rightarrow> (string \<times> vm_value) list \<Rightarrow> bool"
  and payload_equal :: "enum_payload \<Rightarrow> enum_payload \<Rightarrow> bool" where
  "language_equal (VInt l) w = (case w of VInt r \<Rightarrow> l = r | _ \<Rightarrow> False)"
| "language_equal (VBool l) w = (case w of VBool r \<Rightarrow> l = r | _ \<Rightarrow> False)"
| "language_equal (VFloat l) w = (case w of VFloat r \<Rightarrow> float_equal l r | _ \<Rightarrow> False)"
| "language_equal (VString l) w = (case w of VString r \<Rightarrow> l = r | _ \<Rightarrow> False)"
| "language_equal (VBytes l) w = (case w of VBytes r \<Rightarrow> l = r | _ \<Rightarrow> False)"
| "language_equal (VRange a b c) w = (case w of VRange d e f \<Rightarrow> a = d \<and> b = e \<and> c = f | _ \<Rightarrow> False)"
| "language_equal (VExternalFsAccess l) w = (case w of VExternalFsAccess r \<Rightarrow> l = r | _ \<Rightarrow> False)"
| "language_equal VUnit w = (case w of VUnit \<Rightarrow> True | _ \<Rightarrow> False)"
| "language_equal (VList l) w = (case w of VList r \<Rightarrow> values_equal l r | _ \<Rightarrow> False)"
| "language_equal (VTuple l) w = (case w of VTuple r \<Rightarrow> values_equal l r | _ \<Rightarrow> False)"
| "language_equal (VMap l) w = (case w of VMap r \<Rightarrow> entries_equal l r | _ \<Rightarrow> False)"
| "language_equal (VRecord l) w = (case w of VRecord r \<Rightarrow> fields_equal l r | _ \<Rightarrow> False)"
| "language_equal (VEnum i t v n p) w =
     (case w of VEnum j u w' m q \<Rightarrow> i = j \<and> v = w' \<and> payload_equal p q | _ \<Rightarrow> False)"
| "language_equal (VNewtype i l) w = (case w of VNewtype j r \<Rightarrow> i = j \<and> language_equal l r | _ \<Rightarrow> False)"
| "language_equal (VUnknown l) w = (case w of VUnknown r \<Rightarrow> language_equal l r | _ \<Rightarrow> False)"
| "language_equal _ w = False"
| "values_equal [] rs = (rs = [])"
| "values_equal (l # ls) rs = (case rs of r # rs' \<Rightarrow> language_equal l r \<and> values_equal ls rs' | [] \<Rightarrow> False)"
| "entries_equal [] rs = (rs = [])"
| "entries_equal ((k, v) # ls) rs =
     (case rs of (k', v') # rs' \<Rightarrow> language_equal k k' \<and> language_equal v v' \<and> entries_equal ls rs'
      | [] \<Rightarrow> False)"
| "fields_equal [] rs = (rs = [])"
| "fields_equal ((n, v) # ls) rs =
     (case rs of (n', v') # rs' \<Rightarrow> n = n' \<and> language_equal v v' \<and> fields_equal ls rs' | [] \<Rightarrow> False)"
| "payload_equal PUnit q = (q = PUnit)"
| "payload_equal (PTuple l) q = (case q of PTuple r \<Rightarrow> values_equal l r | _ \<Rightarrow> False)"
| "payload_equal (PRecord l) q = (case q of PRecord r \<Rightarrow> fields_equal l r | _ \<Rightarrow> False)"
  by pat_completeness auto
termination
  by (relation "measure (\<lambda>x. case x of
        Inl (Inl (v, _)) \<Rightarrow> size v
      | Inl (Inr (vs, _)) \<Rightarrow> size_list size vs
      | Inr (Inl (es, _)) \<Rightarrow> size_list (size_prod size size) es
      | Inr (Inr (Inl (fs, _))) \<Rightarrow> size_list (size_prod (\<lambda>_. 0) size) fs
      | Inr (Inr (Inr (p, _))) \<Rightarrow> size p)") auto

fun compare_values :: "compare_op \<Rightarrow> vm_value \<Rightarrow> vm_value \<Rightarrow> vm_error + bool" where
  "compare_values CmpEqual l r = Inr (language_equal l r)"
| "compare_values CmpNotEqual l r = Inr (\<not> language_equal l r)"
| "compare_values CmpLess l r = result_bind (language_order l r) (\<lambda>o'. Inr (o' = Some OLess))"
| "compare_values CmpLessEqual l r =
     result_bind (language_order l r) (\<lambda>o'. Inr (o' = Some OLess \<or> o' = Some OEqual))"
| "compare_values CmpGreater l r = result_bind (language_order l r) (\<lambda>o'. Inr (o' = Some OGreater))"
| "compare_values CmpGreaterEqual l r =
     result_bind (language_order l r) (\<lambda>o'. Inr (o' = Some OGreater \<or> o' = Some OEqual))"

section \<open>Map keys\<close>

fun is_map_key :: "vm_value \<Rightarrow> bool" where
  "is_map_key (VBool b) = True"
| "is_map_key (VInt i) = True"
| "is_map_key (VString s) = True"
| "is_map_key (VBytes b) = True"
| "is_map_key (VNewtype i v) = is_map_key v"
| "is_map_key _ = False"

fun same_map_key_kind :: "vm_value \<Rightarrow> vm_value \<Rightarrow> bool" where
  "same_map_key_kind (VBool l) w = (case w of VBool r \<Rightarrow> True | _ \<Rightarrow> False)"
| "same_map_key_kind (VInt l) w = (case w of VInt r \<Rightarrow> True | _ \<Rightarrow> False)"
| "same_map_key_kind (VString l) w = (case w of VString r \<Rightarrow> True | _ \<Rightarrow> False)"
| "same_map_key_kind (VBytes l) w = (case w of VBytes r \<Rightarrow> True | _ \<Rightarrow> False)"
| "same_map_key_kind (VNewtype i l) w =
     (case w of VNewtype j r \<Rightarrow> i = j \<and> same_map_key_kind l r | _ \<Rightarrow> False)"
| "same_map_key_kind _ w = False"

section \<open>Keys of one kind are linearly ordered\<close>

text \<open>Within one kind the order of keys is that of their codes, lists of integers.\<close>

fun key_code :: "vm_value \<Rightarrow> int list" where
  "key_code (VBool b) = [of_bool b]"
| "key_code (VInt i) = [sint i]"
| "key_code (VString s) = map of_char s"
| "key_code (VBytes b) = map of_char b"
| "key_code (VNewtype i v) = key_code v"
| "key_code _ = []"

lemma of_char_less: "(of_char c :: int) < of_char d \<longleftrightarrow> c < (d :: char)"
  by (metis less_char_def of_nat_less_iff of_nat_of_char)

lemma codes_less: "map of_char s < (map of_char t :: int list) \<longleftrightarrow> s < (t :: string)"
proof (induction s arbitrary: t)
  case Nil
  show ?case by (cases t) simp_all
next
  case (Cons c s)
  show ?case by (cases t) (simp_all add: of_char_less Cons)
qed

lemma codes_eq: "map of_char s = (map of_char t :: int list) \<longleftrightarrow> s = (t :: string)"
  by (simp add: inj_map_eq_map [OF inj_of_char])

lemma cmp_codes: "cmp (map of_char s :: int list) (map of_char t) = cmp s (t :: string)"
  by (simp add: cmp_def codes_less codes_eq)

lemma cmp_refl [simp]: "cmp x x = OEqual"
  by (simp add: cmp_def)

lemma cmp_iff [simp]:
  "cmp x y = OLess \<longleftrightarrow> x < y" "cmp x y = OEqual \<longleftrightarrow> x = y" "cmp x y = OGreater \<longleftrightarrow> y < x"
  by (auto simp: cmp_def)

text \<open>The pairs of keys of one kind, one case per kind.\<close>

inductive same_kind :: "vm_value \<Rightarrow> vm_value \<Rightarrow> bool" where
  same_bool: "same_kind (VBool l) (VBool r)"
| same_int: "same_kind (VInt l) (VInt r)"
| same_string: "same_kind (VString l) (VString r)"
| same_bytes: "same_kind (VBytes l) (VBytes r)"
| same_newtype: "same_kind l r \<Longrightarrow> same_kind (VNewtype i l) (VNewtype i r)"

inductive_cases same_kindE [elim!]:
  "same_kind (VBool l) w" "same_kind (VInt l) w" "same_kind (VString l) w" "same_kind (VBytes l) w"
  "same_kind (VNewtype i l) w"

lemma same_kindI: "same_map_key_kind a b \<Longrightarrow> same_kind a b"
  by (induction a b rule: same_map_key_kind.induct) (simp_all split: vm_value.splits add: same_kind.intros)

lemma same_kindD: "same_kind a b \<Longrightarrow> same_map_key_kind a b"
  by (induction rule: same_kind.induct) simp_all

lemma same_map_key_kind_iff: "same_map_key_kind a b \<longleftrightarrow> same_kind a b"
  using same_kindI same_kindD by blast

lemma compare_map_keys_code:
  "same_map_key_kind a b \<Longrightarrow> compare_map_keys a b = cmp (key_code a) (key_code b)"
  unfolding same_map_key_kind_iff
  by (induction rule: same_kind.induct) (simp_all add: cmp_codes, simp_all add: cmp_def)

lemma key_code_inject: "same_map_key_kind a b \<Longrightarrow> key_code a = key_code b \<longleftrightarrow> a = b"
  unfolding same_map_key_kind_iff
  by (induction rule: same_kind.induct) (auto simp: codes_eq signed_word_eqI)

lemma same_kind_refl [simp]: "same_map_key_kind a a \<longleftrightarrow> is_map_key a"
  by (induction a rule: is_map_key.induct) simp_all

lemma same_kind_trans:
  "same_map_key_kind a b \<Longrightarrow> same_map_key_kind a c \<Longrightarrow> same_map_key_kind b c"
  unfolding same_map_key_kind_iff
  by (induction arbitrary: c rule: same_kind.induct) (auto intro: same_kind.intros)

lemma same_kind_sym: "same_map_key_kind a b \<Longrightarrow> same_map_key_kind b a"
  unfolding same_map_key_kind_iff
  by (induction rule: same_kind.induct) (auto intro: same_kind.intros)

lemma same_kind_map_key: "same_map_key_kind a b \<Longrightarrow> is_map_key a \<and> is_map_key b"
  unfolding same_map_key_kind_iff
  by (induction rule: same_kind.induct) simp_all

lemma language_equal_key: "is_map_key a \<Longrightarrow> language_equal a b \<longleftrightarrow> a = b"
  by (induction a arbitrary: b rule: is_map_key.induct) (simp_all split: vm_value.splits)

section \<open>Words\<close>

lemma u32_less: "unat (w :: u32) < 2 ^ 32"
  using unsigned_less [of w] by simp

lemma u64_less: "unat (w :: u64) < 2 ^ 64"
  using unsigned_less [of w] by simp

end
