(* ===== verification/Vm_Canonical.thy ===== *)
theory Vm_Canonical
  imports Vm_Value Json_Value
begin

text \<open>
  The encoder of the canonical binary form of values (\<open>allen-vm/src/canonical.rs\<close>): the length
  pass, which also validates the value, and the pass that appends the bytes.
\<close>

section \<open>Big-endian integers\<close>

text \<open>\<open>to_be_bytes\<close> and \<open>from_be_bytes\<close>.\<close>

fun be_bytes :: "nat \<Rightarrow> nat \<Rightarrow> bytes" where
  "be_bytes 0 n = []"
| "be_bytes (Suc k) n = be_bytes k (n div 256) @ [char_of n]"

definition be_value :: "bytes \<Rightarrow> nat" where
  "be_value bs = foldl (\<lambda>v b. 256 * v + of_char b) 0 bs"

definition be_u32 :: "u32 \<Rightarrow> bytes" where
  "be_u32 w = be_bytes 4 (unat w)"

definition be_u64 :: "u64 \<Rightarrow> bytes" where
  "be_u64 w = be_bytes 8 (unat w)"

section \<open>Identities of newtypes\<close>

text \<open>\<open>rsplit_once("::")\<close>: the last occurrence of the separator.\<close>

definition rsplit_once2 :: "byte \<Rightarrow> byte \<Rightarrow> string \<Rightarrow> (string \<times> string) option" where
  "rsplit_once2 a b s = map_option (\<lambda>(p, q). (rev q, rev p)) (split_once2 b a (rev s))"

definition is_source_identifier :: "string \<Rightarrow> bool" where
  "is_source_identifier s =
     (case s of [] \<Rightarrow> False
      | b # bs \<Rightarrow> (is_ascii_alphabetic b \<or> b = CHR ''_'') \<and>
                  list_all (\<lambda>b. is_ascii_alphanumeric b \<or> b = CHR ''_'') bs)"

definition valid_newtype_identity :: "string \<Rightarrow> bool" where
  "valid_newtype_identity s =
     (case rsplit_once2 CHR '':'' CHR '':'' s of None \<Rightarrow> False
      | Some (owner, declaration) \<Rightarrow>
          owner \<noteq> [] \<and> list_all is_ascii_graphic owner \<and> is_source_identifier declaration)"

section \<open>The length pass\<close>

datatype canonical_encode_error = EncLengthOverflow | EncResourceLimit | EncInvalidValue

definition add_length :: "nat \<Rightarrow> nat \<Rightarrow> canonical_encode_error + nat" where
  "add_length a b = ok_or (checked_add_usize a b) EncLengthOverflow"

text \<open>\<open>u32::try_from\<close> on a length.\<close>

definition check_u32 :: "nat \<Rightarrow> canonical_encode_error + unit" where
  "check_u32 n = ensure (n < 2 ^ 32) EncLengthOverflow"

definition sized_payload_length :: "nat \<Rightarrow> canonical_encode_error + nat" where
  "sized_payload_length n = result_bind (check_u32 n) (\<lambda>_. add_length 5 n)"

definition field_name_length :: "nat \<Rightarrow> canonical_encode_error + nat" where
  "field_name_length n = result_bind (check_u32 n) (\<lambda>_. add_length 4 n)"

fun validate_record_fields :: "(string \<times> vm_value) list \<Rightarrow> canonical_encode_error + unit" where
  "validate_record_fields ((m, v) # (n, w) # fs) =
     (if n \<le> m then Inl EncInvalidValue else validate_record_fields ((n, w) # fs))"
| "validate_record_fields _ = Inr ()"

text \<open>The loop of \<open>validate_map\<close>: \<open>earlier\<close> are the entries before the index.\<close>

fun validate_entries :: "(vm_value \<times> vm_value) list \<Rightarrow> (vm_value \<times> vm_value) list \<Rightarrow> canonical_encode_error + unit" where
  "validate_entries earlier [] = Inr ()"
| "validate_entries earlier ((key, v) # rest) =
     (if \<not> is_map_key key then Inl EncInvalidValue
      else if list_ex (\<lambda>(previous, _). language_equal previous key) earlier then Inl EncInvalidValue
      else if (case earlier @ [(key, v)] of (first, _) # _ \<Rightarrow> \<not> same_map_key_kind first key | [] \<Rightarrow> False)
        then Inl EncInvalidValue
      else validate_entries (earlier @ [(key, v)]) rest)"

definition validate_map :: "(vm_value \<times> vm_value) list \<Rightarrow> canonical_encode_error + unit" where
  "validate_map entries = validate_entries [] entries"

definition identity_length :: "enum_identity \<Rightarrow> nat" where
  "identity_length i = (case i of UserEnum _ \<Rightarrow> 5 | OptionEnum \<Rightarrow> 1 | ResultEnum \<Rightarrow> 1)"

function (sequential) encoded_length_at :: "vm_value \<Rightarrow> nat \<Rightarrow> canonical_encode_error + nat"
  and length_of :: "vm_value \<Rightarrow> nat \<Rightarrow> canonical_encode_error + nat"
  and sequence_lengths :: "vm_value list \<Rightarrow> nat \<Rightarrow> nat \<Rightarrow> canonical_encode_error + nat"
  and entry_lengths :: "(vm_value \<times> vm_value) list \<Rightarrow> nat \<Rightarrow> nat \<Rightarrow> canonical_encode_error + nat"
  and field_lengths :: "(string \<times> vm_value) list \<Rightarrow> nat \<Rightarrow> nat \<Rightarrow> canonical_encode_error + nat"
  and enum_payload_length :: "enum_payload \<Rightarrow> nat \<Rightarrow> nat \<Rightarrow> canonical_encode_error + nat" where
  "encoded_length_at v depth =
     (if depth > MAX_VALUE_NESTING then Inl EncInvalidValue else length_of v depth)"
| "length_of VUnit depth = Inr 1"
| "length_of (VBool b) depth = Inr 1"
| "length_of (VInt i) depth = Inr 9"
| "length_of (VFloat bits) depth =
     (if is_nan_bits bits \<and> bits \<noteq> CANONICAL_NAN_BITS then Inl EncInvalidValue else Inr 9)"
| "length_of (VString s) depth = sized_payload_length (length s)"
| "length_of (VBytes b) depth = sized_payload_length (length b)"
| "length_of (VList vs) depth =
     result_bind (check_u32 (length vs)) (\<lambda>_. sequence_lengths vs depth 5)"
| "length_of (VTuple vs) depth =
     (if vs = [] then Inl EncInvalidValue
      else result_bind (check_u32 (length vs)) (\<lambda>_. sequence_lengths vs depth 5))"
| "length_of (VMap es) depth =
     result_bind (check_u32 (length es)) (\<lambda>_.
     result_bind (validate_map es) (\<lambda>_. entry_lengths es depth 5))"
| "length_of (VRecord fs) depth =
     result_bind (check_u32 (length fs)) (\<lambda>_.
     result_bind (validate_record_fields fs) (\<lambda>_. field_lengths fs depth 5))"
| "length_of (VEnum i t variant n p) depth =
     result_bind (add_length (identity_length i) 10) (enum_payload_length p depth)"
| "length_of (VNewtype i w) depth =
     (if \<not> valid_newtype_identity i then Inl EncInvalidValue
      else
        result_bind (encoded_length_at w (Suc depth)) (\<lambda>value_length.
        result_bind (field_name_length (length i)) (\<lambda>name_length.
        result_bind (add_length 1 name_length) (\<lambda>len. add_length len value_length))))"
| "length_of (VUnknown w) depth = result_bind (encoded_length_at w (Suc depth)) (add_length 1)"
| "length_of _ depth = Inl EncInvalidValue"
| "sequence_lengths [] depth len = Inr len"
| "sequence_lengths (v # vs) depth len =
     result_bind (encoded_length_at v (Suc depth)) (\<lambda>n.
     result_bind (add_length len n) (sequence_lengths vs depth))"
| "entry_lengths [] depth len = Inr len"
| "entry_lengths ((k, v) # es) depth len =
     result_bind (encoded_length_at k (Suc depth)) (\<lambda>n.
     result_bind (add_length len n) (\<lambda>len.
     result_bind (encoded_length_at v (Suc depth)) (\<lambda>n.
     result_bind (add_length len n) (entry_lengths es depth))))"
| "field_lengths [] depth len = Inr len"
| "field_lengths ((name, v) # fs) depth len =
     result_bind (field_name_length (length name)) (\<lambda>n.
     result_bind (add_length len n) (\<lambda>len.
     result_bind (encoded_length_at v (Suc depth)) (\<lambda>n.
     result_bind (add_length len n) (field_lengths fs depth))))"
| "enum_payload_length PUnit depth len = Inr len"
| "enum_payload_length (PTuple vs) depth len =
     result_bind (check_u32 (length vs)) (\<lambda>_. sequence_lengths vs depth len)"
| "enum_payload_length (PRecord fs) depth len =
     result_bind (check_u32 (length fs)) (\<lambda>_.
     result_bind (validate_record_fields fs) (\<lambda>_. field_lengths fs depth len))"
  by pat_completeness auto
termination
  by (relation "measure (\<lambda>x. case x of
        Inl (Inl (v, _)) \<Rightarrow> Suc (2 * size v)
      | Inl (Inr (Inl (v, _))) \<Rightarrow> 2 * size v
      | Inl (Inr (Inr (vs, _))) \<Rightarrow> Suc (2 * size_list size vs)
      | Inr (Inl (es, _)) \<Rightarrow> Suc (2 * size_list (size_prod size size) es)
      | Inr (Inr (Inl (fs, _))) \<Rightarrow> Suc (2 * size_list (size_prod (\<lambda>_. 0) size) fs)
      | Inr (Inr (Inr (p, _))) \<Rightarrow> Suc (2 * size p))") auto

declare encoded_length_at.simps [simp del]

definition encoded_length :: "vm_value \<Rightarrow> canonical_encode_error + nat" where
  "encoded_length v = encoded_length_at v 0"

section \<open>The bytes\<close>

text \<open>The entry with the least key above the key of the previous entry.\<close>

fun scan_entries ::
  "(vm_value \<times> vm_value) list \<Rightarrow> nat option \<Rightarrow> nat option \<Rightarrow> nat \<Rightarrow> (vm_value \<times> vm_value) list \<Rightarrow> nat option" where
  "scan_entries entries previous candidate index [] = candidate"
| "scan_entries entries previous candidate index ((key, _) # rest) =
     (if (case previous of None \<Rightarrow> False
          | Some p \<Rightarrow> compare_map_keys key (fst (entries ! p)) \<noteq> OGreater)
      then scan_entries entries previous candidate (index + 1) rest
      else if (case candidate of None \<Rightarrow> True
               | Some c \<Rightarrow> compare_map_keys key (fst (entries ! c)) = OLess)
      then scan_entries entries previous (Some index) (index + 1) rest
      else scan_entries entries previous candidate (index + 1) rest)"

definition next_map_entry :: "(vm_value \<times> vm_value) list \<Rightarrow> nat option \<Rightarrow> canonical_encode_error + nat" where
  "next_map_entry entries previous = ok_or (scan_entries entries previous None 0 entries) EncInvalidValue"

definition encode_length :: "nat \<Rightarrow> canonical_encode_error + bytes" where
  "encode_length n = (if n < 2 ^ 32 then Inr (be_bytes 4 n) else Inl EncLengthOverflow)"

definition encode_field_name :: "string \<Rightarrow> canonical_encode_error + bytes" where
  "encode_field_name name = result_bind (encode_length (length name)) (\<lambda>l. Inr (l @ name))"

definition encode_sized_value :: "byte \<Rightarrow> bytes \<Rightarrow> canonical_encode_error + bytes" where
  "encode_sized_value tag b = result_bind (encode_length (length b)) (\<lambda>l. Inr (tag # l @ b))"

definition encode_identity :: "enum_identity \<Rightarrow> bytes" where
  "encode_identity i =
     (case i of UserEnum type_id \<Rightarrow> CHR 0x00 # be_u32 type_id
      | OptionEnum \<Rightarrow> [CHR 0x01] | ResultEnum \<Rightarrow> [CHR 0x02])"

definition append_results :: "'e + 'a list \<Rightarrow> 'e + 'a list \<Rightarrow> 'e + 'a list" where
  "append_results a b = result_bind a (\<lambda>x. result_bind b (\<lambda>y. Inr (x @ y)))"

text \<open>The loop over the entries of a map; \<open>encs\<close> holds the result of encoding each entry, of
  which the loop looks at the one it selects.\<close>

fun encode_selected ::
  "(vm_value \<times> vm_value) list \<Rightarrow> (canonical_encode_error + bytes) list \<Rightarrow> nat option \<Rightarrow> nat \<Rightarrow>
   canonical_encode_error + bytes" where
  "encode_selected entries encs previous 0 = Inr []"
| "encode_selected entries encs previous (Suc n) =
     result_bind (next_map_entry entries previous) (\<lambda>next.
     append_results (encs ! next) (encode_selected entries encs (Some next) n))"

text \<open>\<open>encode_into\<close>: the bytes appended to the output, which an error discards.\<close>

function (sequential) encode_into :: "vm_value \<Rightarrow> canonical_encode_error + bytes"
  and encode_values :: "vm_value list \<Rightarrow> canonical_encode_error + bytes"
  and encode_entries :: "(vm_value \<times> vm_value) list \<Rightarrow> (canonical_encode_error + bytes) list"
  and encode_fields :: "(string \<times> vm_value) list \<Rightarrow> canonical_encode_error + bytes"
  and encode_payload :: "enum_payload \<Rightarrow> canonical_encode_error + bytes" where
  "encode_into VUnit = Inr [CHR 0x00]"
| "encode_into (VBool b) = Inr [if b then CHR 0x02 else CHR 0x01]"
| "encode_into (VInt i) = Inr (CHR 0x03 # be_u64 i)"
| "encode_into (VFloat bits) = Inr (CHR 0x04 # be_u64 bits)"
| "encode_into (VString s) = encode_sized_value (CHR 0x05) s"
| "encode_into (VBytes b) = encode_sized_value (CHR 0x06) b"
| "encode_into (VList vs) =
     append_results (Inr [CHR 0x07]) (append_results (encode_length (length vs)) (encode_values vs))"
| "encode_into (VMap es) =
     append_results (Inr [CHR 0x08])
       (append_results (encode_length (length es))
         (encode_selected es (encode_entries es) None (length es)))"
| "encode_into (VTuple vs) =
     append_results (Inr [CHR 0x09]) (append_results (encode_length (length vs)) (encode_values vs))"
| "encode_into (VRecord fs) =
     append_results (Inr [CHR 0x0a]) (append_results (encode_length (length fs)) (encode_fields fs))"
| "encode_into (VEnum i t variant n p) =
     append_results (Inr (CHR 0x0b # encode_identity i @ be_u32 variant)) (encode_payload p)"
| "encode_into (VUnknown w) = append_results (Inr [CHR 0x0c]) (encode_into w)"
| "encode_into (VNewtype i w) =
     append_results (Inr [CHR 0x0d]) (append_results (encode_field_name i) (encode_into w))"
| "encode_into _ = Inl EncInvalidValue"
| "encode_values [] = Inr []"
| "encode_values (v # vs) = append_results (encode_into v) (encode_values vs)"
| "encode_entries [] = []"
| "encode_entries ((k, v) # es) =
     append_results (encode_into k) (encode_into v) # encode_entries es"
| "encode_fields [] = Inr []"
| "encode_fields ((name, v) # fs) =
     append_results (encode_field_name name) (append_results (encode_into v) (encode_fields fs))"
| "encode_payload PUnit = Inr (CHR 0x00 # be_u32 0)"
| "encode_payload (PTuple vs) =
     append_results (Inr [CHR 0x01]) (append_results (encode_length (length vs)) (encode_values vs))"
| "encode_payload (PRecord fs) =
     append_results (Inr [CHR 0x02]) (append_results (encode_length (length fs)) (encode_fields fs))"
  by pat_completeness auto
termination
  by (relation "measure (\<lambda>x. case x of
        Inl (Inl v) \<Rightarrow> size v
      | Inl (Inr vs) \<Rightarrow> size_list size vs
      | Inr (Inl es) \<Rightarrow> size_list (size_prod size size) es
      | Inr (Inr (Inl fs)) \<Rightarrow> size_list (size_prod (\<lambda>_. 0) size) fs
      | Inr (Inr (Inr p)) \<Rightarrow> size p)") auto

text \<open>\<open>encode_canonical_with_limit\<close>; \<open>reserve\<close> tells whether \<open>try_reserve_exact\<close> gets the
  memory.\<close>

definition encode_canonical_with_limit ::
  "(nat \<Rightarrow> bool) \<Rightarrow> vm_value \<Rightarrow> u64 \<Rightarrow> canonical_encode_error + bytes" where
  "encode_canonical_with_limit reserve v maximum_bytes =
     result_bind (encoded_length v) (\<lambda>len.
     if len > unat maximum_bytes then Inl EncResourceLimit
     else if \<not> reserve len then Inl EncResourceLimit
     else encode_into v)"

definition encode_canonical :: "(nat \<Rightarrow> bool) \<Rightarrow> vm_value \<Rightarrow> canonical_encode_error + bytes" where
  "encode_canonical reserve v = encode_canonical_with_limit reserve v (- 1)"

end
