(* ===== verification/Vm_Canonical_Spec.thy ===== *)
theory Vm_Canonical_Spec
  imports Vm_Canonical
begin

text \<open>
  What the canonical encoder promises: which values have an encoding, the normal form of a
  value (maps in key order, names of enums dropped) and the bytes of a value in normal form; and
  that the two passes of the encoder implement it.
\<close>

section \<open>Specification\<close>

definition map_ok :: "(vm_value \<times> vm_value) list \<Rightarrow> bool" where
  "map_ok es \<longleftrightarrow> distinct (map fst es) \<and> (\<forall>e\<in>set es. same_map_key_kind (fst (hd es)) (fst e))"

definition entry_key :: "vm_value \<times> vm_value \<Rightarrow> int list" where
  "entry_key e = key_code (fst e)"

definition names_ok :: "(string \<times> vm_value) list \<Rightarrow> bool" where
  "names_ok fs \<longleftrightarrow> sorted_wrt (<) (map fst fs)"

definition CANONICAL_NAME :: string where
  "CANONICAL_NAME = ''<canonical>''"

lemma size_member: "v \<in> set vs \<Longrightarrow> size v < Suc (size_list size vs)"
  by (induction vs) auto

lemma size_field: "(n, v) \<in> set fs \<Longrightarrow> size v < Suc (size_list (size_prod (\<lambda>_. 0) size) fs)"
  by (induction fs) auto

lemma size_entry:
  "(k, v) \<in> set es \<Longrightarrow> size k < Suc (size_list (size_prod size size) es)"
  "(k, v) \<in> set es \<Longrightarrow> size v < Suc (size_list (size_prod size size) es)"
  by (induction es) auto

lemmas size_parts = size_member size_field size_entry

text \<open>The shape of an encodable value, without the bound on its own depth.\<close>

function (sequential) canonical_ok :: "nat \<Rightarrow> vm_value \<Rightarrow> bool"
  and shape_ok :: "nat \<Rightarrow> vm_value \<Rightarrow> bool" where
  "canonical_ok d v \<longleftrightarrow> d \<le> MAX_VALUE_NESTING \<and> shape_ok d v"
| "shape_ok d VUnit \<longleftrightarrow> True"
| "shape_ok d (VBool b) \<longleftrightarrow> True"
| "shape_ok d (VInt i) \<longleftrightarrow> True"
| "shape_ok d (VFloat bits) \<longleftrightarrow> (is_nan_bits bits \<longrightarrow> bits = CANONICAL_NAN_BITS)"
| "shape_ok d (VString s) \<longleftrightarrow> length s < 2 ^ 32"
| "shape_ok d (VBytes b) \<longleftrightarrow> length b < 2 ^ 32"
| "shape_ok d (VList vs) \<longleftrightarrow> length vs < 2 ^ 32 \<and> (\<forall>w\<in>set vs. canonical_ok (Suc d) w)"
| "shape_ok d (VTuple vs) \<longleftrightarrow>
     vs \<noteq> [] \<and> length vs < 2 ^ 32 \<and> (\<forall>w\<in>set vs. canonical_ok (Suc d) w)"
| "shape_ok d (VMap es) \<longleftrightarrow>
     length es < 2 ^ 32 \<and> map_ok es \<and>
     (\<forall>(k, w)\<in>set es. canonical_ok (Suc d) k \<and> canonical_ok (Suc d) w)"
| "shape_ok d (VRecord fs) \<longleftrightarrow> length fs < 2 ^ 32 \<and> names_ok fs \<and> (\<forall>(n, w)\<in>set fs. length n < 2 ^ 32 \<and> canonical_ok (Suc d) w)"
| "shape_ok d (VEnum i t variant n p) \<longleftrightarrow>
     (case p of
        PUnit \<Rightarrow> True
      | PTuple vs \<Rightarrow> length vs < 2 ^ 32 \<and> (\<forall>w\<in>set vs. canonical_ok (Suc d) w)
      | PRecord fs \<Rightarrow> length fs < 2 ^ 32 \<and> names_ok fs \<and> (\<forall>(n, w)\<in>set fs. length n < 2 ^ 32 \<and> canonical_ok (Suc d) w))"
| "shape_ok d (VNewtype i w) \<longleftrightarrow>
     valid_newtype_identity i \<and> length i < 2 ^ 32 \<and> canonical_ok (Suc d) w"
| "shape_ok d (VUnknown w) \<longleftrightarrow> canonical_ok (Suc d) w"
| "shape_ok d _ \<longleftrightarrow> False"
  by pat_completeness auto
termination
  by (relation "measures [\<lambda>x. case x of Inl (_, v) \<Rightarrow> size v | Inr (_, v) \<Rightarrow> size v,
        \<lambda>x. case x of Inl _ \<Rightarrow> 1 | Inr _ \<Rightarrow> 0]")
    (auto intro: size_parts less_SucI)

declare canonical_ok.simps [simp del]

text \<open>The normal form.\<close>

function (sequential) normalise :: "vm_value \<Rightarrow> vm_value" where
  "normalise (VList vs) = VList (map normalise vs)"
| "normalise (VTuple vs) = VTuple (map normalise vs)"
| "normalise (VMap es) =
     VMap (sort_key entry_key (map (\<lambda>(k, w). (normalise k, normalise w)) es))"
| "normalise (VRecord fs) = VRecord (map (\<lambda>(n, w). (n, normalise w)) fs)"
| "normalise (VEnum i t variant n p) =
     VEnum i CANONICAL_NAME variant CANONICAL_NAME
       (case p of
          PUnit \<Rightarrow> PUnit
        | PTuple vs \<Rightarrow> PTuple (map normalise vs)
        | PRecord fs \<Rightarrow> PRecord (map (\<lambda>(n, w). (n, normalise w)) fs))"
| "normalise (VNewtype i w) = VNewtype i (normalise w)"
| "normalise (VUnknown w) = VUnknown (normalise w)"
| "normalise v = v"
  by pat_completeness auto
termination
  by (relation "measure size") (auto intro: size_parts less_SucI)

text \<open>The bytes of a value, its parts in the order they stand.\<close>

definition counted :: "nat \<Rightarrow> bytes \<Rightarrow> bytes" where
  "counted n b = be_bytes 4 n @ b"

function (sequential) plain_bytes :: "vm_value \<Rightarrow> bytes" where
  "plain_bytes VUnit = [CHR 0x00]"
| "plain_bytes (VBool b) = [if b then CHR 0x02 else CHR 0x01]"
| "plain_bytes (VInt i) = CHR 0x03 # be_u64 i"
| "plain_bytes (VFloat bits) = CHR 0x04 # be_u64 bits"
| "plain_bytes (VString s) = CHR 0x05 # counted (length s) s"
| "plain_bytes (VBytes b) = CHR 0x06 # counted (length b) b"
| "plain_bytes (VList vs) = CHR 0x07 # counted (length vs) (concat (map plain_bytes vs))"
| "plain_bytes (VMap es) =
     CHR 0x08 # counted (length es) (concat (map (\<lambda>(k, w). plain_bytes k @ plain_bytes w) es))"
| "plain_bytes (VTuple vs) = CHR 0x09 # counted (length vs) (concat (map plain_bytes vs))"
| "plain_bytes (VRecord fs) =
     CHR 0x0a # counted (length fs) (concat (map (\<lambda>(n, w). counted (length n) n @ plain_bytes w) fs))"
| "plain_bytes (VEnum i t variant n p) =
     CHR 0x0b # encode_identity i @ be_u32 variant @
       (case p of
          PUnit \<Rightarrow> CHR 0x00 # counted 0 []
        | PTuple vs \<Rightarrow> CHR 0x01 # counted (length vs) (concat (map plain_bytes vs))
        | PRecord fs \<Rightarrow> CHR 0x02 # counted (length fs) (concat (map (\<lambda>(n, w). counted (length n) n @ plain_bytes w) fs)))"
| "plain_bytes (VUnknown w) = CHR 0x0c # plain_bytes w"
| "plain_bytes (VNewtype i w) = CHR 0x0d # counted (length i) i @ plain_bytes w"
| "plain_bytes _ = []"
  by pat_completeness auto
termination
  by (relation "measure size") (auto intro: size_parts less_SucI)

section \<open>The length pass\<close>

lemma length_be_bytes [simp]: "length (be_bytes k n) = k"
  by (induction k n rule: be_bytes.induct) simp_all

lemma length_be_words [simp]: "length (be_u32 w) = 4" "length (be_u64 x) = 8"
  by (simp_all add: be_u32_def be_u64_def)

lemma length_counted [simp]: "length (counted n b) = 4 + length b"
  by (simp add: counted_def)

lemma length_encode_identity [simp]: "length (encode_identity i) = identity_length i"
  by (simp add: encode_identity_def identity_length_def split: enum_identity.split)

lemma add_length_Inr [simp]: "add_length a b = Inr n \<longleftrightarrow> n = a + b \<and> a + b < usize_limit"
  by (simp add: add_length_def)

lemma check_u32_Inr [simp]: "check_u32 n = Inr u \<longleftrightarrow> n < 2 ^ 32"
  by (simp add: check_u32_def)

lemma small_usize [simp]: "Suc 0 < usize_limit" "5 < usize_limit" "9 < usize_limit"
  by (simp_all add: usize_limit_def)

lemma small_lengths: "n < 2 ^ 32 \<Longrightarrow> n + 1000 < usize_limit"
  by (simp add: usize_limit_def)

lemma payload_lengths [simp]:
  "sized_payload_length n = Inr m \<longleftrightarrow> m = 5 + n \<and> n < 2 ^ 32"
  "field_name_length n = Inr m \<longleftrightarrow> m = 4 + n \<and> n < 2 ^ 32"
  using small_lengths [of n] by (auto simp: sized_payload_length_def field_name_length_def result_simps)

lemma validate_record_fields_iff: "validate_record_fields fs = Inr u \<longleftrightarrow> names_ok fs"
proof (induction fs rule: validate_record_fields.induct)
  case (1 m v n w fs)
  then show ?case by (auto simp: names_ok_def)
qed (auto simp: names_ok_def)

lemma validate_entries_iff:
  "\<forall>e\<in>set earlier. is_map_key (fst e) \<Longrightarrow>
   validate_entries earlier es = Inr u \<longleftrightarrow>
     (\<forall>e\<in>set es. same_map_key_kind (fst (hd (earlier @ es))) (fst e)) \<and>
     distinct (map fst es) \<and> fst ` set earlier \<inter> fst ` set es = {}"
proof (induction es arbitrary: earlier)
  case (Cons e rest)
  obtain key v where e: "e = (key, v)" by (cases e)
  define first where "first = fst (hd (earlier @ e # rest))"
  have hd: "(case earlier @ [(key, v)] of (f, _) # _ \<Rightarrow> \<not> same_map_key_kind f key | [] \<Rightarrow> False) \<longleftrightarrow>
      \<not> same_map_key_kind first key"
    by (cases earlier) (auto simp: first_def e)
  have ex: "list_ex (\<lambda>(p, _). language_equal p key) earlier \<longleftrightarrow> key \<in> fst ` set earlier"
    using Cons.prems by (force simp: list_ex_iff language_equal_key)
  have step: "validate_entries earlier (e # rest) = Inr u \<longleftrightarrow>
      is_map_key key \<and> key \<notin> fst ` set earlier \<and> same_map_key_kind first key \<and>
      validate_entries (earlier @ [(key, v)]) rest = Inr u"
    by (simp add: e hd ex)
  have IH: "is_map_key key \<Longrightarrow> validate_entries (earlier @ [(key, v)]) rest = Inr u \<longleftrightarrow>
      (\<forall>x\<in>set rest. same_map_key_kind first (fst x)) \<and> distinct (map fst rest) \<and>
      fst ` set (earlier @ [(key, v)]) \<inter> fst ` set rest = {}"
    using Cons.IH [of "earlier @ [(key, v)]"] Cons.prems by (auto simp: first_def e)
  show ?case unfolding step first_def [symmetric] using IH same_kind_map_key [of first key]
    by (auto simp: e)
qed simp

lemma validate_map_iff: "validate_map es = Inr u \<longleftrightarrow> map_ok es"
  by (auto simp: validate_map_def validate_entries_iff map_ok_def)

text \<open>The length pass succeeds exactly on the encodable values whose encoding is addressable,
  and returns the length of the encoding.\<close>

lemma length_pass:
  "encoded_length_at v d = Inr n \<longleftrightarrow>
     canonical_ok d v \<and> n = length (plain_bytes v) \<and> n < usize_limit"
  "length_of v d = Inr n \<longleftrightarrow> shape_ok d v \<and> n = length (plain_bytes v) \<and> n < usize_limit"
  "len < usize_limit \<Longrightarrow> sequence_lengths vs d len = Inr n \<longleftrightarrow>
     (\<forall>w\<in>set vs. canonical_ok (Suc d) w) \<and>
     n = len + length (concat (map plain_bytes vs)) \<and> n < usize_limit"
  "len < usize_limit \<Longrightarrow> entry_lengths es d len = Inr n \<longleftrightarrow>
     (\<forall>(k, w)\<in>set es. canonical_ok (Suc d) k \<and> canonical_ok (Suc d) w) \<and>
     n = len + length (concat (map (\<lambda>(k, w). plain_bytes k @ plain_bytes w) es)) \<and> n < usize_limit"
  "len < usize_limit \<Longrightarrow> field_lengths fs d len = Inr n \<longleftrightarrow>
     (\<forall>(name, w)\<in>set fs. length name < 2 ^ 32 \<and> canonical_ok (Suc d) w) \<and>
     n = len + length (concat (map (\<lambda>(name, w). counted (length name) name @ plain_bytes w) fs)) \<and>
     n < usize_limit"
  "len < usize_limit \<Longrightarrow> enum_payload_length p d len = Inr n \<longleftrightarrow>
     shape_ok d (VEnum i t variant name p) \<and>
     n + identity_length i + 10 = len + length (plain_bytes (VEnum i t variant name p)) \<and> n < usize_limit"
proof (induction v d and v d and vs d len and es d len and fs d len and p d len
    arbitrary: n and n and n and n and n and n
    rule: encoded_length_at_length_of_sequence_lengths_entry_lengths_field_lengths_enum_payload_length.induct)
  case (1 v depth)
  then show ?case by (auto simp: encoded_length_at.simps canonical_ok.simps)
next
  case (6 s depth)
  then show ?case using small_lengths [of "length s"] by auto
next
  case (7 b depth)
  then show ?case using small_lengths [of "length b"] by auto
next
  case (8 vs depth)
  then show ?case by (auto simp: result_simps)
next
  case (9 vs depth)
  then show ?case by (auto simp: result_simps)
next
  case (14 w depth)
  show ?case by (rule iffI) (clarsimp simp: result_simps 14)+
next
  case (5 w depth)
  then show ?case by (auto simp: result_simps)
next
  case (10 es depth)
  then show ?case by (auto simp: result_simps validate_map_iff)
next
  case (11 fs depth)
  then show ?case by (auto simp: result_simps validate_record_fields_iff)
next
  case (12 i t variant name p depth)
  have "identity_length i + 10 < usize_limit"
    by (simp add: identity_length_def usize_limit_def split: enum_identity.split)
  with 12 show ?case by (auto simp: result_simps)
next
  case (13 i w depth)
  show ?case
    using small_lengths [of "length i"]
    by (cases "valid_newtype_identity i"; simp; intro iffI; clarsimp simp: result_simps 13)
next
  case (17 v vs depth len)
  have IH: "sequence_lengths vs depth (len + length (plain_bytes v)) = Inr n \<longleftrightarrow>
      (\<forall>w\<in>set vs. canonical_ok (Suc depth) w) \<and>
      n = len + length (plain_bytes v) + length (concat (map plain_bytes vs)) \<and> n < usize_limit"
    if "canonical_ok (Suc depth) v" "len + length (plain_bytes v) < usize_limit" for n
    using that "17.IH"(2) [of "length (plain_bytes v)" "len + length (plain_bytes v)"]
    by (simp add: "17.IH"(1))
  show ?case by (rule iffI) (clarsimp simp: result_simps "17.IH"(1) IH)+
next
  case (19 k v es depth len)
  let ?k = "length (plain_bytes k)" and ?v = "length (plain_bytes v)"
  have v: "encoded_length_at v (Suc depth) = Inr n \<longleftrightarrow> canonical_ok (Suc depth) v \<and> n = ?v \<and> n < usize_limit"
    if "canonical_ok (Suc depth) k" "len + ?k < usize_limit" for n
    using that "19.IH"(2) [of ?k "len + ?k"] by (simp add: "19.IH"(1))
  have IH: "entry_lengths es depth (len + ?k + ?v) = Inr n \<longleftrightarrow>
      (\<forall>(k, w)\<in>set es. canonical_ok (Suc depth) k \<and> canonical_ok (Suc depth) w) \<and>
      n = len + ?k + ?v + length (concat (map (\<lambda>(k, w). plain_bytes k @ plain_bytes w) es)) \<and> n < usize_limit"
    if "canonical_ok (Suc depth) k" "canonical_ok (Suc depth) v" "len + ?k + ?v < usize_limit" for n
    using that "19.IH"(3) [of ?k "len + ?k" ?v "len + ?k + ?v"] by (simp add: "19.IH"(1) v)
  show ?case by (rule iffI) (clarsimp simp: result_simps "19.IH"(1) v IH)+
next
  case (21 name v fs depth len)
  let ?n = "4 + length name" and ?v = "length (plain_bytes v)"
  have v: "encoded_length_at v (Suc depth) = Inr n \<longleftrightarrow> canonical_ok (Suc depth) v \<and> n = ?v \<and> n < usize_limit"
    if "length name < 2 ^ 32" "len + ?n < usize_limit" for n
    using that "21.IH"(1) [of ?n "len + ?n"] by simp
  have IH: "field_lengths fs depth (len + ?n + ?v) = Inr n \<longleftrightarrow>
      (\<forall>(name, w)\<in>set fs. length name < 2 ^ 32 \<and> canonical_ok (Suc depth) w) \<and>
      n = len + ?n + ?v + length (concat (map (\<lambda>(name, w). counted (length name) name @ plain_bytes w) fs)) \<and>
      n < usize_limit"
    if "length name < 2 ^ 32" "canonical_ok (Suc depth) v" "len + ?n + ?v < usize_limit" for n
    using that "21.IH"(2) [of ?n "len + ?n" ?v "len + ?n + ?v"] v by simp
  show ?case by (rule iffI) (clarsimp simp: result_simps v IH)+
next
  case (23 vs depth len)
  then show ?case by (auto simp: result_simps)
next
  case (24 fs depth len)
  then show ?case by (auto simp: result_simps validate_record_fields_iff)
next
  case (22 d l)
  then show ?case by auto
qed (simp_all, auto)

end
