(* ===== verification/Vm_Canonical_Encode.thy ===== *)
theory Vm_Canonical_Encode
  imports Vm_Canonical_Spec "HOL-Library.Multiset"
begin

text \<open>
  The pass that writes the bytes: a map is written in the order of its keys by repeated
  selection, and the output is the encoding of the normal form.
\<close>

section \<open>Selection\<close>

lemma sort_key_map: "sort_key f (map g xs) = map g (sort_key (f \<circ> g) xs)"
proof -
  have "insort_key f (g x) (map g ys) = map g (insort_key (f \<circ> g) x ys)" for x ys
    by (induction ys) simp_all
  then show ?thesis by (induction xs) simp_all
qed

lemma map_ok_compare:
  assumes "map_ok es" "e \<in> set es" "e' \<in> set es"
  shows "compare_map_keys (fst e) (fst e') = cmp (entry_key e) (entry_key e')"
proof -
  have "same_map_key_kind (fst e) (fst e')"
    using assms same_kind_trans by (auto simp: map_ok_def)
  then show ?thesis by (simp add: compare_map_keys_code entry_key_def)
qed

lemma map_ok_key_inject:
  assumes "map_ok es" "e \<in> set es" "e' \<in> set es" "entry_key e = entry_key e'"
  shows "e = e'"
proof -
  have "same_map_key_kind (fst e) (fst e')"
    using assms same_kind_trans by (auto simp: map_ok_def)
  then have "fst e = fst e'" using assms(4) by (simp add: key_code_inject entry_key_def)
  with assms(1,2,3) show ?thesis
    by (auto simp: map_ok_def distinct_map dest: inj_onD)
qed

definition key_above :: "int list option \<Rightarrow> vm_value \<times> vm_value \<Rightarrow> bool" where
  "key_above t e = (case t of None \<Rightarrow> True | Some k \<Rightarrow> k < entry_key e)"

definition best :: "(vm_value \<times> vm_value) list \<Rightarrow> int list option \<Rightarrow> nat \<Rightarrow> nat option \<Rightarrow> bool" where
  "best es t n c \<longleftrightarrow>
     (case c of None \<Rightarrow> \<forall>j<n. \<not> key_above t (es ! j)
      | Some i \<Rightarrow> i < n \<and> key_above t (es ! i) \<and>
          (\<forall>j<n. key_above t (es ! j) \<longrightarrow> entry_key (es ! i) \<le> entry_key (es ! j)))"

lemma best_Suc:
  assumes "best es t n c"
  shows "\<not> key_above t (es ! n) \<Longrightarrow> best es t (Suc n) c"
    and "key_above t (es ! n) \<Longrightarrow> (\<And>i. c = Some i \<Longrightarrow> entry_key (es ! n) < entry_key (es ! i)) \<Longrightarrow>
         best es t (Suc n) (Some n)"
    and "c = Some i \<Longrightarrow> entry_key (es ! i) \<le> entry_key (es ! n) \<Longrightarrow> best es t (Suc n) c"
  using assms by (fastforce simp: best_def less_Suc_eq split: option.splits)+

lemma scan_entries_best:
  assumes "map_ok es" "es = pre @ rest" "\<And>p. previous = Some p \<Longrightarrow> p < length es"
    and "best es (map_option (\<lambda>p. entry_key (es ! p)) previous) (length pre) candidate"
  shows "best es (map_option (\<lambda>p. entry_key (es ! p)) previous) (length es)
           (scan_entries es previous candidate (length pre) rest)"
  using assms
proof (induction rest arbitrary: pre candidate)
  case (Cons e rest)
  let ?t = "map_option (\<lambda>p. entry_key (es ! p)) previous"
  have e: "es ! length pre = e" "e \<in> set es" using Cons.prems(2) by simp_all
  have skip: "(case previous of None \<Rightarrow> False
      | Some p \<Rightarrow> compare_map_keys (fst e) (fst (es ! p)) \<noteq> OGreater) \<longleftrightarrow> \<not> key_above ?t e"
    using Cons.prems(1,3) e(2)
    by (auto simp: key_above_def map_ok_compare split: option.splits)
  have len: "length es = Suc (length pre + length rest)" using Cons.prems(2) by simp
  have cand: "es ! c \<in> set es" if "candidate = Some c" for c
    using Cons.prems(4) that len by (simp add: best_def)
  have less: "(case candidate of None \<Rightarrow> True
      | Some c \<Rightarrow> compare_map_keys (fst e) (fst (es ! c)) = OLess) \<longleftrightarrow>
      (\<forall>c. candidate = Some c \<longrightarrow> entry_key e < entry_key (es ! c))"
    using Cons.prems(1) cand e(2) by (auto simp: map_ok_compare split: option.splits)
  have IH: "best es ?t (length es) (scan_entries es previous c (Suc (length pre)) rest)"
    if "best es ?t (Suc (length pre)) c" for c
    using Cons.IH [of "pre @ [e]" c] Cons.prems that by simp
  obtain k v where kv: "e = (k, v)" by (cases e)
  have scan: "scan_entries es previous candidate (length pre) (e # rest) =
      (if \<not> key_above ?t e then scan_entries es previous candidate (Suc (length pre)) rest
       else if \<forall>c. candidate = Some c \<longrightarrow> entry_key e < entry_key (es ! c)
       then scan_entries es previous (Some (length pre)) (Suc (length pre)) rest
       else scan_entries es previous candidate (Suc (length pre)) rest)"
    unfolding skip [symmetric] less [symmetric] by (simp only: kv scan_entries.simps fst_conv Suc_eq_plus1)
  note b = best_Suc [OF Cons.prems(4), unfolded e(1)]
  consider "\<not> key_above ?t e" | "key_above ?t e" "\<forall>c. candidate = Some c \<longrightarrow> entry_key e < entry_key (es ! c)"
    | c where "key_above ?t e" "candidate = Some c" "entry_key (es ! c) \<le> entry_key e"
    by force
  then show ?case
  proof cases
    case 1
    then show ?thesis unfolding scan using IH [OF b(1)] by simp
  next
    case 2
    then show ?thesis unfolding scan using IH [OF b(2)] by simp
  next
    case 3
    then show ?thesis unfolding scan using IH [OF b(3)] by (auto simp: not_less)
  qed
qed simp

lemma next_map_entry_best:
  assumes "map_ok es" "\<And>p. previous = Some p \<Longrightarrow> p < length es"
    and "e \<in> set es" "key_above (map_option (\<lambda>p. entry_key (es ! p)) previous) e"
  obtains i where "next_map_entry es previous = Inr i"
    "best es (map_option (\<lambda>p. entry_key (es ! p)) previous) (length es) (Some i)"
proof -
  let ?t = "map_option (\<lambda>p. entry_key (es ! p)) previous"
  have "best es ?t (length es) (scan_entries es previous None 0 es)"
    using scan_entries_best [of es "[]" es previous None] assms(1,2) by (simp add: best_def)
  moreover obtain j where "j < length es" "es ! j = e"
    using assms(3) by (auto simp: in_set_conv_nth)
  ultimately show ?thesis
    using assms(4) that by (auto simp: best_def next_map_entry_def split: option.splits)
qed

text \<open>Repeated selection writes the entries in key order.\<close>

lemma sort_key_entries [simp]: "set (sort_key entry_key es) = set es" "length (sort_key entry_key es) = length es"
  by simp_all

lemma strict_sorted_entries:
  assumes "map_ok es"
  shows "sorted_wrt (\<lambda>a b. entry_key a < entry_key b) (sort_key entry_key es)"
proof -
  have "inj_on entry_key (set es)" using map_ok_key_inject [OF assms] by (auto intro: inj_onI)
  moreover have "distinct es" using assms by (simp add: map_ok_def distinct_map)
  ultimately have "distinct (map entry_key (sort_key entry_key es))" by (simp add: distinct_map)
  then have "sorted_wrt (<) (map entry_key (sort_key entry_key es))"
    by (simp only: strict_sorted_iff sorted_sort_key simp_thms)
  then show ?thesis by (simp only: sorted_wrt_map)
qed

definition append_all :: "('e + 'a list) list \<Rightarrow> 'e + 'a list" where
  "append_all rs = foldr append_results rs (Inr [])"

lemma encode_selected_sorted:
  assumes ok: "map_ok es" and p: "\<And>p. previous = Some p \<Longrightarrow> p < length es"
    and n: "filter (key_above (map_option (\<lambda>p. entry_key (es ! p)) previous)) (sort_key entry_key es) = l" "n = length l"
  shows "encode_selected es (map f es) previous n = append_all (map f l)"
  using p n
proof (induction n arbitrary: previous l)
  case 0
  then show ?case by (simp add: append_all_def)
next
  case (Suc n)
  let ?t = "map_option (\<lambda>p. entry_key (es ! p)) previous"
  obtain e l' where l: "l = e # l'" using Suc.prems(3) by (cases l) auto
  have set_l: "set (e # l') = {x \<in> set es. key_above ?t x}"
    using Suc.prems(2) [symmetric] l by (metis set_filter sort_key_entries(1))
  then have e: "e \<in> set es" "key_above ?t e" by auto
  obtain i where i: "next_map_entry es previous = Inr i" "best es ?t (length es) (Some i)"
    using next_map_entry_best [OF ok Suc.prems(1) e] by blast
  have srt: "sorted_wrt (\<lambda>a b. entry_key a < entry_key b) (e # l')"
    using sorted_wrt_filter [OF strict_sorted_entries [OF ok], of "key_above ?t"] Suc.prems(2) l by simp
  have "entry_key (es ! i) \<le> entry_key e"
    using i(2) e by (auto simp: best_def in_set_conv_nth)
  moreover have "es ! i \<in> set (e # l')" using i(2) unfolding set_l by (simp add: best_def)
  with srt have "entry_key e \<le> entry_key (es ! i)" by auto
  ultimately have ie: "es ! i = e"
    using map_ok_key_inject [OF ok, of "es ! i" e] i(2) e(1) by (simp add: best_def)
  have "key_above (Some (entry_key e)) x \<Longrightarrow> key_above ?t x" for x
    using e(2) by (auto simp: key_above_def split: option.splits)
  then have "filter (key_above (Some (entry_key e))) (sort_key entry_key es) =
      filter (key_above (Some (entry_key e))) (filter (key_above ?t) (sort_key entry_key es))"
    by (auto simp: filter_filter intro!: filter_cong)
  also have "\<dots> = filter (key_above (Some (entry_key e))) (e # l')"
    using Suc.prems(2) l by simp
  also have "\<dots> = l'" using srt by (auto simp: key_above_def filter_id_conv)
  finally have "filter (key_above (Some (entry_key e))) (sort_key entry_key es) = l'" .
  with Suc.IH [of "Some i" l'] ie i l Suc.prems(3) show ?case
    by (simp add: append_all_def best_def)
qed

section \<open>The output\<close>

lemma append_results_Inr [simp]: "append_results (Inr a) (Inr b) = Inr (a @ b)"
  by (simp add: append_results_def)

lemma append_all_Inr: "\<forall>x\<in>set xs. f x = Inr (g x) \<Longrightarrow> append_all (map f xs) = Inr (concat (map g xs))"
  by (induction xs) (simp_all add: append_all_def)

lemma append_results_assoc:
  "append_results a (append_results b c) = append_results (append_results a b) c"
  by (cases a; cases b; cases c) (simp_all add: append_results_def)

lemma encode_values_all: "encode_values vs = append_all (map encode_into vs)"
  by (induction vs) (simp_all add: append_all_def)

lemma encode_entries_all:
  "encode_entries es = map (\<lambda>(k, w). append_results (encode_into k) (encode_into w)) es"
  by (induction es) auto

lemma encode_fields_all:
  "encode_fields fs = append_all (map (\<lambda>(n, w). append_results (encode_field_name n) (encode_into w)) fs)"
  by (induction fs) (auto simp: append_all_def append_results_assoc)

lemma encode_length_Inr [simp]: "n < 2 ^ 32 \<Longrightarrow> encode_length n = Inr (be_bytes 4 n)"
  by (simp add: encode_length_def)

lemma encode_text_Inr [simp]:
  "length s < 2 ^ 32 \<Longrightarrow> encode_field_name s = Inr (counted (length s) s)"
  "length s < 2 ^ 32 \<Longrightarrow> encode_sized_value tag s = Inr (tag # counted (length s) s)"
  by (simp_all add: encode_field_name_def encode_sized_value_def counted_def)

lemma key_code_normalise [simp]: "key_code (normalise v) = key_code v"
  by (induction v rule: key_code.induct) simp_all

lemma normalise_map_key [simp]: "is_map_key v \<Longrightarrow> normalise v = v"
  by (induction v rule: is_map_key.induct) simp_all

lemma normal_entries:
  "sort_key entry_key (map (\<lambda>(k, w). (normalise k, normalise w)) es) =
   map (\<lambda>(k, w). (normalise k, normalise w)) (sort_key entry_key es)"
proof -
  have "entry_key \<circ> (\<lambda>(k, w). (normalise k, normalise w)) = entry_key"
    by (auto simp: entry_key_def)
  then show ?thesis by (simp add: sort_key_map)
qed

lemma encode_values_Inr:
  assumes "\<forall>w\<in>set vs. encode_into w = Inr (plain_bytes (normalise w))"
  shows "encode_values vs = Inr (concat (map plain_bytes (map normalise vs)))"
  using append_all_Inr [OF assms] by (simp add: encode_values_all comp_def)

lemma encode_fields_Inr:
  assumes "\<forall>(n, w)\<in>set fs. length n < 2 ^ 32 \<and> encode_into w = Inr (plain_bytes (normalise w))"
  shows "encode_fields fs =
    Inr (concat (map (\<lambda>(n, w). counted (length n) n @ plain_bytes w) (map (\<lambda>(n, w). (n, normalise w)) fs)))"
proof -
  have "\<forall>x\<in>set fs. (\<lambda>(n, w). append_results (encode_field_name n) (encode_into w)) x =
      Inr ((\<lambda>(n, w). counted (length n) n @ plain_bytes (normalise w)) x)"
    using assms by auto
  from append_all_Inr [OF this] show ?thesis
    by (simp add: encode_fields_all comp_def case_prod_unfold)
qed

lemma encode_map_Inr:
  assumes "map_ok es" "\<forall>(k, w)\<in>set es. encode_into k = Inr (plain_bytes (normalise k)) \<and>
      encode_into w = Inr (plain_bytes (normalise w))"
  shows "encode_selected es (encode_entries es) None (length es) =
    Inr (concat (map (\<lambda>(k, w). plain_bytes k @ plain_bytes w)
      (sort_key entry_key (map (\<lambda>(k, w). (normalise k, normalise w)) es))))"
proof -
  let ?f = "\<lambda>(k, w). append_results (encode_into k) (encode_into w)"
  have "\<forall>x\<in>set (sort_key entry_key es). ?f x =
      Inr ((\<lambda>(k, w). plain_bytes (normalise k) @ plain_bytes (normalise w)) x)"
    using assms(2) by auto
  note out = append_all_Inr [OF this]
  have "encode_selected es (map ?f es) None (length es) = append_all (map ?f (sort_key entry_key es))"
    by (rule encode_selected_sorted [OF assms(1)]) (simp_all add: key_above_def)
  then show ?thesis unfolding encode_entries_all normal_entries out
    by (simp only: out map_map comp_def case_prod_unfold fst_conv snd_conv)
qed

lemma encode_pass:
  "canonical_ok d v \<Longrightarrow> encode_into v = Inr (plain_bytes (normalise v))"
  "shape_ok d v \<Longrightarrow> encode_into v = Inr (plain_bytes (normalise v))"
proof (induction d v and d v rule: canonical_ok_shape_ok.induct)
  case (8 d vs)
  then have "encode_values vs = Inr (concat (map plain_bytes (map normalise vs)))"
    by (intro encode_values_Inr) auto
  then show ?case using 8 by (simp add: counted_def)
next
  case (9 d vs)
  then have "encode_values vs = Inr (concat (map plain_bytes (map normalise vs)))"
    by (intro encode_values_Inr) auto
  then show ?case using 9 by (simp add: counted_def)
next
  case (10 d es)
  then have "encode_selected es (encode_entries es) None (length es) =
    Inr (concat (map (\<lambda>(k, w). plain_bytes k @ plain_bytes w)
      (sort_key entry_key (map (\<lambda>(k, w). (normalise k, normalise w)) es))))"
    by (intro encode_map_Inr) auto
  with "10.prems" show ?case by (simp add: counted_def)
next
  case (11 d fs)
  then have "encode_fields fs = Inr (concat (map (\<lambda>(n, w). counted (length n) n @ plain_bytes w)
      (map (\<lambda>(n, w). (n, normalise w)) fs)))"
    by (intro encode_fields_Inr) auto
  with "11.prems" show ?case by (simp add: counted_def)
next
  case (12 d i t variant n p)
  show ?case
  proof (cases p)
    case PUnit
    then show ?thesis by (simp add: counted_def be_u32_def)
  next
    case (PTuple vs)
    with 12 have "encode_values vs = Inr (concat (map plain_bytes (map normalise vs)))"
      by (intro encode_values_Inr) auto
    with PTuple "12.prems" show ?thesis by (simp add: counted_def)
  next
    case (PRecord fs)
    with 12 have "encode_fields fs = Inr (concat (map (\<lambda>(n, w). counted (length n) n @ plain_bytes w)
        (map (\<lambda>(n, w). (n, normalise w)) fs)))"
      by (intro encode_fields_Inr) auto
    with PRecord "12.prems" show ?thesis by (simp add: counted_def)
  qed
qed (auto simp: canonical_ok.simps)

lemma sum_list_sort_key: "sum_list (map f (sort_key g xs)) = (sum_list (map f xs) :: nat)"
  by (metis mset_map mset_sort sum_mset_sum_list)

lemma length_concat_cong:
  "\<forall>x\<in>set xs. length (f x) = length (g x) \<Longrightarrow> length (concat (map f xs)) = length (concat (map g xs))"
  by (induction xs) simp_all

lemma length_values_normalise:
  "\<forall>w\<in>set vs. length (plain_bytes (normalise w)) = length (plain_bytes w) \<Longrightarrow>
   length (concat (map plain_bytes (map normalise vs))) = length (concat (map plain_bytes vs))"
  using length_concat_cong [of vs "plain_bytes \<circ> normalise" plain_bytes] by simp

lemma length_fields_normalise:
  "\<forall>(n, w)\<in>set fs. length (plain_bytes (normalise w)) = length (plain_bytes w) \<Longrightarrow>
   length (concat (map (\<lambda>(n, w). counted (length n) n @ plain_bytes w) (map (\<lambda>(n, w). (n, normalise w)) fs))) =
   length (concat (map (\<lambda>(n, w). counted (length n) n @ plain_bytes w) fs))"
  by (induction fs) auto

lemma length_entries_normalise:
  assumes "\<forall>(k, w)\<in>set es. length (plain_bytes (normalise k)) = length (plain_bytes k) \<and>
      length (plain_bytes (normalise w)) = length (plain_bytes w)"
  shows "length (concat (map (\<lambda>(k, w). plain_bytes k @ plain_bytes w)
      (sort_key entry_key (map (\<lambda>(k, w). (normalise k, normalise w)) es)))) =
    length (concat (map (\<lambda>(k, w). plain_bytes k @ plain_bytes w) es))"
proof -
  have "length (concat (map (\<lambda>(k, w). plain_bytes k @ plain_bytes w) (sort_key entry_key xs))) =
      length (concat (map (\<lambda>(k, w). plain_bytes k @ plain_bytes w) xs))" for xs
    by (simp only: length_concat map_map sum_list_sort_key)
  then have "?thesis \<longleftrightarrow> length (concat (map (\<lambda>(k, w). plain_bytes k @ plain_bytes w)
      (map (\<lambda>(k, w). (normalise k, normalise w)) es))) =
    length (concat (map (\<lambda>(k, w). plain_bytes k @ plain_bytes w) es))" by simp
  also have "\<dots>" using assms by (induction es) auto
  finally show ?thesis by simp
qed

lemma length_plain_bytes_normalise [simp]: "length (plain_bytes (normalise v)) = length (plain_bytes v)"
proof (induction v rule: normalise.induct)
  case (1 vs)
  then show ?case using length_values_normalise [of vs] by simp
next
  case (2 vs)
  then show ?case using length_values_normalise [of vs] by simp
next
  case (3 es)
  then have "\<forall>(k, w)\<in>set es. length (plain_bytes (normalise k)) = length (plain_bytes k) \<and>
      length (plain_bytes (normalise w)) = length (plain_bytes w)" by auto
  then show ?case using length_entries_normalise [of es] by simp
next
  case (4 fs)
  then have "\<forall>(n, w)\<in>set fs. length (plain_bytes (normalise w)) = length (plain_bytes w)" by auto
  then show ?case using length_fields_normalise [of fs] by simp
next
  case (5 i t variant n p)
  show ?case
  proof (cases p)
    case (PTuple vs)
    then show ?thesis using 5 length_values_normalise [of vs] by simp
  next
    case (PRecord fs)
    with 5 have "\<forall>(n, w)\<in>set fs. length (plain_bytes (normalise w)) = length (plain_bytes w)" by auto
    with PRecord show ?thesis using length_fields_normalise [of fs] by simp
  qed simp
qed simp_all

lemma encoder_characterised:
  "encode_canonical_with_limit reserve v maximum_bytes = Inr bs \<longleftrightarrow>
     canonical_ok 0 v \<and> bs = plain_bytes (normalise v) \<and>
     length bs \<le> unat maximum_bytes \<and> length bs < usize_limit \<and> reserve (length bs)"
proof (cases "encoded_length v")
  case (Inl e)
  then have "\<not> (canonical_ok 0 v \<and> length (plain_bytes v) < usize_limit)"
    using length_pass(1) [of v 0 "length (plain_bytes v)"] by (auto simp: encoded_length_def)
  with Inl show ?thesis by (auto simp: encode_canonical_with_limit_def)
next
  case (Inr n)
  then have n: "canonical_ok 0 v" "n = length (plain_bytes v)" "n < usize_limit"
    by (simp_all add: encoded_length_def length_pass(1))
  with Inr show ?thesis
    by (auto simp: encode_canonical_with_limit_def encode_pass(1))
qed

text \<open>(C27) The encoder implements the canonical form: with memory for the output it returns,
  for exactly the encodable values whose encoding is addressable and within the limit, the bytes
  of the normal form; the second pass never fails after the first.\<close>

theorem encoder_implements_canonical_form:
  "encode_canonical_with_limit reserve v maximum_bytes = Inr bs \<longleftrightarrow>
     canonical_ok 0 v \<and> bs = plain_bytes (normalise v) \<and>
     length bs \<le> unat maximum_bytes \<and> length bs < usize_limit \<and> reserve (length bs)"
  by (rule encoder_characterised)

end
