(* ===== verification/Vm_Canonical_Decode.thy ===== *)
theory Vm_Canonical_Decode
  imports Vm_Canonical
begin

text \<open>
  The strict decoder of the canonical binary form (\<open>CanonicalReader\<close> of
  \<open>allen-vm/src/canonical.rs\<close>): a cursor over the input that counts what it allocates.

  \<open>layout\<close> is the target: the sizes \<open>size_of\<close> reports for the three element types the decoder
  charges for, and the allocator, which grants or refuses a reservation. A reservation is named by
  the offset of the reader at the time, which differs between any two reservations of a run.
\<close>

section \<open>The reader\<close>

datatype canonical_decode_error = DecTruncated | DecResourceLimit | DecInvalidValue | DecTrailingBytes

record layout =
  ly_value :: nat
  ly_entry :: nat
  ly_field :: nat
  ly_reserve :: "nat \<Rightarrow> nat \<Rightarrow> bool"

record reader =
  rd_bytes :: bytes
  rd_offset :: nat
  rd_maximum :: nat
  rd_allocated :: nat

type_synonym 'a read = "canonical_decode_error + 'a \<times> reader"

definition read_then :: "'a read \<Rightarrow> ('a \<Rightarrow> reader \<Rightarrow> 'b read) \<Rightarrow> 'b read" where
  "read_then m f = result_bind m (\<lambda>(x, r). f x r)"

lemma read_then_cong [fundef_cong]:
  "m = m' \<Longrightarrow> (\<And>x r. m' = Inr (x, r) \<Longrightarrow> f x r = f' x r) \<Longrightarrow> read_then m f = read_then m' f'"
  by (cases m') (auto simp: read_then_def)

definition rd_take :: "nat \<Rightarrow> reader \<Rightarrow> bytes read" where
  "rd_take count r =
     result_bind (ok_or (checked_add_usize (rd_offset r) count) DecResourceLimit) (\<lambda>end'.
     if end' \<le> length (rd_bytes r)
     then Inr (take count (drop (rd_offset r) (rd_bytes r)), r\<lparr>rd_offset := end'\<rparr>)
     else Inl DecTruncated)"

definition rd_byte :: "reader \<Rightarrow> byte read" where
  "rd_byte r = read_then (rd_take 1 r) (\<lambda>bs r. Inr (hd bs, r))"

definition rd_u32 :: "reader \<Rightarrow> u32 read" where
  "rd_u32 r = read_then (rd_take 4 r) (\<lambda>bs r. Inr (of_nat (be_value bs), r))"

definition rd_u64 :: "reader \<Rightarrow> u64 read" where
  "rd_u64 r = read_then (rd_take 8 r) (\<lambda>bs r. Inr (of_nat (be_value bs), r))"

definition rd_count :: "reader \<Rightarrow> nat read" where
  "rd_count r = read_then (rd_u32 r) (\<lambda>w r.
     if unat w > length (rd_bytes r) - rd_offset r then Inl DecTruncated else Inr (unat w, r))"

definition rd_charge :: "nat \<Rightarrow> nat \<Rightarrow> reader \<Rightarrow> unit read" where
  "rd_charge sz count r =
     result_bind (ok_or (checked_mul_usize sz count) DecResourceLimit) (\<lambda>bytes.
     result_bind (ok_or (checked_add_usize (rd_allocated r) bytes) DecResourceLimit) (\<lambda>allocated.
     if allocated > rd_maximum r then Inl DecResourceLimit
     else Inr ((), r\<lparr>rd_allocated := allocated\<rparr>)))"

definition rd_reserve :: "layout \<Rightarrow> nat \<Rightarrow> nat \<Rightarrow> reader \<Rightarrow> unit read" where
  "rd_reserve lay sz count r =
     (if ly_reserve lay (rd_offset r) (sz * count) then Inr ((), r) else Inl DecResourceLimit)"

definition rd_text :: "reader \<Rightarrow> string read" where
  "rd_text r =
     read_then (rd_count r) (\<lambda>len r.
     read_then (rd_take len r) (\<lambda>bs r.
     if \<not> utf8_valid bs then Inl DecInvalidValue
     else read_then (rd_charge 1 len r) (\<lambda>_ r. Inr (bs, r))))"

text \<open>A count, the charge for that many elements and the reservation.\<close>

definition rd_header :: "layout \<Rightarrow> nat \<Rightarrow> reader \<Rightarrow> nat read" where
  "rd_header lay sz r =
     read_then (rd_count r) (\<lambda>count r.
     read_then (rd_charge sz count r) (\<lambda>_ r.
     read_then (rd_reserve lay sz count r) (\<lambda>_ r. Inr (count, r))))"

section \<open>Values\<close>

fun map_key_kind :: "vm_value \<Rightarrow> nat option" where
  "map_key_kind (VBool b) = Some 0"
| "map_key_kind (VInt i) = Some 1"
| "map_key_kind (VString s) = Some 2"
| "map_key_kind (VBytes b) = Some 3"
| "map_key_kind (VNewtype i v) = map_option (\<lambda>_. 4) (map_key_kind v)"
| "map_key_kind _ = None"

definition rd_identity :: "reader \<Rightarrow> enum_identity read" where
  "rd_identity r =
     read_then (rd_byte r) (\<lambda>b r.
     if b = CHR 0x00 then read_then (rd_u32 r) (\<lambda>w r. Inr (UserEnum w, r))
     else if b = CHR 0x01 then Inr (OptionEnum, r)
     else if b = CHR 0x02 then Inr (ResultEnum, r)
     else Inl DecInvalidValue)"

definition key_out_of_order :: "nat option \<Rightarrow> vm_value option \<Rightarrow> nat \<Rightarrow> vm_value \<Rightarrow> bool" where
  "key_out_of_order kind previous key_kind key \<longleftrightarrow>
     (case kind of None \<Rightarrow> False | Some expected \<Rightarrow> expected \<noteq> key_kind) \<or>
     (case previous of None \<Rightarrow> False | Some p \<Rightarrow> \<not> same_map_key_kind p key) \<or>
     (case previous of None \<Rightarrow> False | Some p \<Rightarrow> compare_map_keys p key \<noteq> OLess)"

text \<open>The measure of the recursion: the nesting still allowed, then the elements still to read.\<close>

definition value_room :: "nat \<Rightarrow> nat" where
  "value_room d = (if d > MAX_VALUE_NESTING then 0 else 2 * (Suc MAX_VALUE_NESTING - d) + 2)"

definition parts_room :: "nat \<Rightarrow> nat" where
  "parts_room d = 2 * (Suc MAX_VALUE_NESTING - d) + 1"

function (sequential) rd_value :: "layout \<Rightarrow> nat \<Rightarrow> reader \<Rightarrow> vm_value read"
  and rd_tagged :: "layout \<Rightarrow> nat \<Rightarrow> byte \<Rightarrow> reader \<Rightarrow> vm_value read"
  and rd_enum :: "layout \<Rightarrow> nat \<Rightarrow> reader \<Rightarrow> enum_payload read"
  and rd_values :: "layout \<Rightarrow> nat \<Rightarrow> nat \<Rightarrow> reader \<Rightarrow> vm_value list read"
  and rd_entries :: "layout \<Rightarrow> nat \<Rightarrow> nat \<Rightarrow> nat option \<Rightarrow> vm_value option \<Rightarrow> reader \<Rightarrow> (vm_value \<times> vm_value) list read"
  and rd_fields :: "layout \<Rightarrow> nat \<Rightarrow> nat \<Rightarrow> string option \<Rightarrow> reader \<Rightarrow> (string \<times> vm_value) list read" where
  "rd_value lay depth r =
     (if depth > MAX_VALUE_NESTING then Inl DecInvalidValue
      else read_then (rd_byte r) (rd_tagged lay depth))"
| "rd_tagged lay depth tag r =
     (if tag = CHR 0x00 then Inr (VUnit, r)
      else if tag = CHR 0x01 then Inr (VBool False, r)
      else if tag = CHR 0x02 then Inr (VBool True, r)
      else if tag = CHR 0x03 then read_then (rd_u64 r) (\<lambda>w r. Inr (VInt w, r))
      else if tag = CHR 0x04 then read_then (rd_u64 r) (\<lambda>bits r.
        if is_nan_bits bits \<and> bits \<noteq> CANONICAL_NAN_BITS then Inl DecInvalidValue
        else Inr (VFloat (canonical_float_bits bits), r))
      else if tag = CHR 0x05 then read_then (rd_text r) (\<lambda>s r. Inr (VString s, r))
      else if tag = CHR 0x06 then
        read_then (rd_count r) (\<lambda>len r.
        read_then (rd_take len r) (\<lambda>bs r.
        read_then (rd_charge 1 len r) (\<lambda>_ r. Inr (VBytes bs, r))))
      else if tag = CHR 0x07 then
        read_then (rd_header lay (ly_value lay) r) (\<lambda>count r.
        read_then (rd_values lay depth count r) (\<lambda>vs r. Inr (VList vs, r)))
      else if tag = CHR 0x08 then
        read_then (rd_header lay (ly_entry lay) r) (\<lambda>count r.
        read_then (rd_entries lay depth count None None r) (\<lambda>es r. Inr (VMap es, r)))
      else if tag = CHR 0x09 then
        read_then (rd_count r) (\<lambda>count r.
        if count = 0 then Inl DecInvalidValue
        else
          read_then (rd_charge (ly_value lay) count r) (\<lambda>_ r.
          read_then (rd_reserve lay (ly_value lay) count r) (\<lambda>_ r.
          read_then (rd_values lay depth count r) (\<lambda>vs r. Inr (VTuple vs, r)))))
      else if tag = CHR 0x0a then
        read_then (rd_header lay (ly_field lay) r) (\<lambda>count r.
        read_then (rd_fields lay depth count None r) (\<lambda>fs r. Inr (VRecord fs, r)))
      else if tag = CHR 0x0b then
        read_then (rd_identity r) (\<lambda>identity r.
        read_then (rd_u32 r) (\<lambda>variant r.
        read_then (rd_enum lay depth r) (\<lambda>payload r.
        Inr (VEnum identity ''<canonical>'' variant ''<canonical>'' payload, r))))
      else if tag = CHR 0x0c then
        read_then (rd_value lay (Suc depth) r) (\<lambda>v r. Inr (VUnknown v, r))
      else if tag = CHR 0x0d then
        read_then (rd_text r) (\<lambda>identity r.
        if \<not> valid_newtype_identity identity then Inl DecInvalidValue
        else read_then (rd_value lay (Suc depth) r) (\<lambda>v r. Inr (VNewtype identity v, r)))
      else Inl DecInvalidValue)"
| "rd_enum lay depth r =
     read_then (rd_byte r) (\<lambda>tag r.
       if tag = CHR 0x00 then
          read_then (rd_count r) (\<lambda>n r. if n \<noteq> 0 then Inl DecInvalidValue else Inr (PUnit, r))
       else if tag = CHR 0x01 then
          read_then (rd_header lay (ly_value lay) r) (\<lambda>count r.
          read_then (rd_values lay depth count r) (\<lambda>vs r. Inr (PTuple vs, r)))
       else if tag = CHR 0x02 then
          read_then (rd_header lay (ly_field lay) r) (\<lambda>count r.
          read_then (rd_fields lay (Suc depth) count None r) (\<lambda>fs r. Inr (PRecord fs, r)))
       else Inl DecInvalidValue)"
| "rd_values lay depth 0 r = Inr ([], r)"
| "rd_values lay depth (Suc n) r =
     read_then (rd_value lay (Suc depth) r) (\<lambda>v r.
     read_then (rd_values lay depth n r) (\<lambda>vs r. Inr (v # vs, r)))"
| "rd_entries lay depth 0 kind previous r = Inr ([], r)"
| "rd_entries lay depth (Suc n) kind previous r =
     read_then (rd_value lay (Suc depth) r) (\<lambda>key r.
     case map_key_kind key of None \<Rightarrow> Inl DecInvalidValue
     | Some key_kind \<Rightarrow>
         if key_out_of_order kind previous key_kind key then Inl DecInvalidValue
         else
           read_then (rd_value lay (Suc depth) r) (\<lambda>v r.
           read_then (rd_entries lay depth n (Some key_kind) (Some key) r) (\<lambda>es r.
           Inr ((key, v) # es, r))))"
| "rd_fields lay depth 0 previous r = Inr ([], r)"
| "rd_fields lay depth (Suc n) previous r =
     read_then (rd_text r) (\<lambda>name r.
     if (case previous of None \<Rightarrow> False | Some p \<Rightarrow> name \<le> p) then Inl DecInvalidValue
     else
       read_then (rd_value lay (Suc depth) r) (\<lambda>v r.
       read_then (rd_fields lay depth n (Some name) r) (\<lambda>fs r. Inr ((name, v) # fs, r))))"
  by pat_completeness auto
termination
  by (relation "measures
      [\<lambda>x. case x of
           Inl (Inl (_, d, _)) \<Rightarrow> 3 * value_room d
         | Inl (Inr (Inl (_, d, _))) \<Rightarrow> 3 * parts_room d + 2
         | Inl (Inr (Inr (_, d, _))) \<Rightarrow> 3 * parts_room d + 1
         | Inr (Inl (_, d, _)) \<Rightarrow> 3 * parts_room d
         | Inr (Inr (Inl (_, d, _))) \<Rightarrow> 3 * parts_room d
         | Inr (Inr (Inr (_, d, _))) \<Rightarrow> 3 * parts_room d,
       \<lambda>x. case x of Inr (Inl (_, _, n, _)) \<Rightarrow> n | Inr (Inr (Inl (_, _, n, _))) \<Rightarrow> n
         | Inr (Inr (Inr (_, _, n, _))) \<Rightarrow> n | _ \<Rightarrow> 0]")
    (auto simp: value_room_def parts_room_def)

declare rd_value.simps [simp del] rd_tagged.simps [simp del]

definition decode_canonical_with_limit ::
  "layout \<Rightarrow> bytes \<Rightarrow> u64 \<Rightarrow> canonical_decode_error + vm_value" where
  "decode_canonical_with_limit lay bs maximum_bytes =
     (if length bs > unat maximum_bytes then Inl DecResourceLimit
      else result_bind
        (rd_value lay 0 \<lparr>rd_bytes = bs, rd_offset = 0, rd_maximum = unat maximum_bytes, rd_allocated = 0\<rparr>)
        (\<lambda>(v, r). if rd_offset r \<noteq> length bs then Inl DecTrailingBytes else Inr v))"

definition decode_canonical :: "layout \<Rightarrow> bytes \<Rightarrow> canonical_decode_error + vm_value" where
  "decode_canonical lay bs = decode_canonical_with_limit lay bs (- 1)"

end
