(* ===== verification/Vm_Canonical_Read.thy ===== *)
theory Vm_Canonical_Read
  imports Vm_Canonical_Encode Vm_Canonical_Decode
begin

text \<open>
  The primitive reads of the canonical decoder, each characterised by the input it consumes and
  the bytes it charges, and the values the decoder can return.
\<close>

section \<open>Big-endian integers\<close>

lemma be_value_append: "be_value (bs @ [b]) = 256 * be_value bs + of_char b"
  by (simp add: be_value_def)

lemma be_value_be_bytes: "be_value (be_bytes k n) = n mod 256 ^ k"
proof (induction k n rule: be_bytes.induct)
  case (2 k n)
  have "n mod (256 * 256 ^ k) = 256 * (n div 256 mod 256 ^ k) + n mod 256"
    by (simp add: mod_mult2_eq)
  then show ?case by (simp add: be_value_append 2)
qed (simp add: be_value_def)

lemma be_bytes_be_value: "be_bytes (length bs) (be_value bs) = bs"
proof (induction bs rule: rev_induct)
  case (snoc b bs)
  have "char_of (256 * be_value bs + of_char b :: nat) = b"
    using char_of_take_bit_eq [of 8 "256 * be_value bs + of_char b :: nat"]
    by (simp add: take_bit_eq_mod char_of_eq_iff)
  moreover have "(256 * be_value bs + of_char b) div 256 = be_value bs"
    using of_char_mod_256 [of b, where 'a = nat] by (simp add: div_nat_eqI)
  ultimately show ?case using snoc by (simp add: be_value_append)
qed simp

lemma be_value_less: "be_value bs < 256 ^ length bs"
  by (metis be_bytes_be_value be_value_be_bytes mod_less_divisor zero_less_power zero_less_numeral)

lemma be_u32_value: "of_nat (be_value (be_u32 w)) = w"
  using u32_less [of w] by (simp add: be_u32_def be_value_be_bytes)

lemma be_u64_value: "of_nat (be_value (be_u64 w)) = w"
  using u64_less [of w] by (simp add: be_u64_def be_value_be_bytes)

lemma be_u32_of_value: "length bs = 4 \<Longrightarrow> be_u32 (of_nat (be_value bs)) = bs"
  using be_bytes_be_value [of bs] be_value_less [of bs] by (simp add: be_u32_def unat_of_nat)

lemma be_u64_of_value: "length bs = 8 \<Longrightarrow> be_u64 (of_nat (be_value bs)) = bs"
  using be_bytes_be_value [of bs] be_value_less [of bs] by (simp add: be_u64_def unat_of_nat)

section \<open>Consumed input\<close>

definition reader_ok :: "reader \<Rightarrow> bool" where
  "reader_ok r \<longleftrightarrow>
     length (rd_bytes r) < usize_limit \<and> rd_offset r \<le> length (rd_bytes r) \<and>
     rd_allocated r \<le> rd_maximum r \<and> rd_maximum r < usize_limit"

text \<open>From \<open>r\<close> the bytes \<open>bs\<close> are read and \<open>c\<close> bytes are charged.\<close>

definition consumes :: "reader \<Rightarrow> bytes \<Rightarrow> nat \<Rightarrow> reader \<Rightarrow> bool" where
  "consumes r bs c r' \<longleftrightarrow>
     reader_ok r \<and> reader_ok r' \<and>
     r' = r\<lparr>rd_offset := rd_offset r + length bs, rd_allocated := rd_allocated r + c\<rparr> \<and>
     take (length bs) (drop (rd_offset r) (rd_bytes r)) = bs"

lemma consumes_trans:
  assumes "consumes r a c r'" "consumes r' b c' r''"
  shows "consumes r (a @ b) (c + c') r''"
  using assms by (auto simp: consumes_def take_add add.commute add.left_commute)

lemma consumes_split:
  assumes "consumes r (a @ b) (c + c') r''"
  obtains r' where "consumes r a c r'" "consumes r' b c' r''"
proof
  let ?r = "r\<lparr>rd_offset := rd_offset r + length a, rd_allocated := rd_allocated r + c\<rparr>"
  show "consumes r a c ?r" "consumes ?r b c' r''"
    using assms by (auto simp: consumes_def reader_ok_def take_add add.commute add.left_commute)
qed

lemma consumes_refl: "consumes r [] 0 r' \<longleftrightarrow> reader_ok r \<and> r' = r"
  by (auto simp: consumes_def)

lemma consumes_ok: "consumes r a c r' \<Longrightarrow> reader_ok r \<and> reader_ok r'"
  unfolding consumes_def by blast

lemma consumes_append:
  "consumes r (a @ b) c r'' \<longleftrightarrow> (\<exists>r'. consumes r a 0 r' \<and> consumes r' b c r'')"
proof
  assume "consumes r (a @ b) c r''"
  then show "\<exists>r'. consumes r a 0 r' \<and> consumes r' b c r''"
    using consumes_split [of r a b 0 c r''] by auto
next
  assume "\<exists>r'. consumes r a 0 r' \<and> consumes r' b c r''"
  then show "consumes r (a @ b) c r''" using consumes_trans [of r a 0 _ b c r''] by auto
qed

lemma consumes_Cons:
  "NO_MATCH [] bs \<Longrightarrow> consumes r (b # bs) c r'' \<longleftrightarrow> (\<exists>r'. consumes r [b] 0 r' \<and> consumes r' bs c r'')"
  using consumes_append [of r "[b]" bs c r''] by simp

section \<open>The primitive reads\<close>

lemma read_then_Inr: "read_then m f = Inr y \<longleftrightarrow> (\<exists>x r. m = Inr (x, r) \<and> f x r = Inr y)"
  by (auto simp: read_then_def result_simps)

lemma rd_take_iff:
  "reader_ok r \<Longrightarrow> rd_take n r = Inr (bs, r') \<longleftrightarrow> length bs = n \<and> reader_ok r' \<and> consumes r bs 0 r'"
  by (auto simp: rd_take_def consumes_def reader_ok_def result_simps ensure_def split: if_splits)

lemma rd_byte_iff: "reader_ok r \<Longrightarrow> rd_byte r = Inr (b, r') \<longleftrightarrow> reader_ok r' \<and> consumes r [b] 0 r'"
  by (force simp: rd_byte_def read_then_Inr rd_take_iff length_Suc_conv)

lemma rd_u32_iff: "reader_ok r \<Longrightarrow> rd_u32 r = Inr (w, r') \<longleftrightarrow> reader_ok r' \<and> consumes r (be_u32 w) 0 r'"
  by (auto simp: rd_u32_def read_then_Inr rd_take_iff be_u32_of_value be_u32_value
      intro!: exI [of _ "be_u32 w"])

lemma rd_u64_iff: "reader_ok r \<Longrightarrow> rd_u64 r = Inr (w, r') \<longleftrightarrow> reader_ok r' \<and> consumes r (be_u64 w) 0 r'"
  by (auto simp: rd_u64_def read_then_Inr rd_take_iff be_u64_of_value be_u64_value
      intro!: exI [of _ "be_u64 w"])

definition room :: "reader \<Rightarrow> nat" where
  "room r = length (rd_bytes r) - rd_offset r"

lemma consumes_room: "consumes r bs c r' \<Longrightarrow> room r = length bs + room r'"
  by (auto simp: consumes_def reader_ok_def room_def)

lemma rd_count_iff:
  assumes "reader_ok r"
  shows "rd_count r = Inr (n, r') \<longleftrightarrow>
    n < 2 ^ 32 \<and> reader_ok r' \<and> consumes r (be_bytes 4 n) 0 r' \<and> n \<le> room r'"
proof
  assume "rd_count r = Inr (n, r')"
  then obtain w where "n = unat w" "reader_ok r'" "consumes r (be_u32 w) 0 r'" "n \<le> room r'"
    using assms by (auto simp: rd_count_def read_then_Inr rd_u32_iff room_def split: if_splits)
  then show "n < 2 ^ 32 \<and> reader_ok r' \<and> consumes r (be_bytes 4 n) 0 r' \<and> n \<le> room r'"
    using u32_less [of w] by (simp add: be_u32_def)
next
  assume a: "n < 2 ^ 32 \<and> reader_ok r' \<and> consumes r (be_bytes 4 n) 0 r' \<and> n \<le> room r'"
  then have "unat (of_nat n :: u32) = n" by (simp add: unat_of_nat)
  with a have "rd_u32 r = Inr (of_nat n, r')"
    using assms by (simp add: rd_u32_iff be_u32_def)
  with a show "rd_count r = Inr (n, r')"
    by (simp add: rd_count_def read_then_def room_def unat_of_nat)
qed

lemma rd_charge_iff:
  "reader_ok r \<Longrightarrow> rd_charge sz n r = Inr (u, r') \<longleftrightarrow> reader_ok r' \<and> consumes r [] (sz * n) r'"
  by (auto simp: rd_charge_def result_simps consumes_def reader_ok_def split: if_splits)

lemma rd_reserve_Inr: "rd_reserve lay sz n r = Inr (u, r') \<longleftrightarrow> ly_reserve lay (rd_offset r) (sz * n) \<and> r' = r"
  by (auto simp: rd_reserve_def)

lemma counted_consumes:
  "consumes r (counted n bs) (k + c) r' \<longleftrightarrow>
    (\<exists>r1 r2. consumes r (be_bytes 4 n) 0 r1 \<and> consumes r1 [] k r2 \<and> consumes r2 bs c r')"
proof
  assume "consumes r (counted n bs) (k + c) r'"
  then obtain r1 where "consumes r (be_bytes 4 n) 0 r1" "consumes r1 bs (k + c) r'"
    using consumes_split [of r "be_bytes 4 n" bs 0 "k + c" r'] by (auto simp: counted_def)
  moreover obtain r2 where "consumes r1 [] k r2" "consumes r2 bs c r'"
    using consumes_split [of r1 "[]" bs k c r'] \<open>consumes r1 bs (k + c) r'\<close> by auto
  ultimately show "\<exists>r1 r2. consumes r (be_bytes 4 n) 0 r1 \<and> consumes r1 [] k r2 \<and> consumes r2 bs c r'"
    by blast
next
  assume "\<exists>r1 r2. consumes r (be_bytes 4 n) 0 r1 \<and> consumes r1 [] k r2 \<and> consumes r2 bs c r'"
  then obtain r1 r2 where "consumes r (be_bytes 4 n) 0 r1" "consumes r1 [] k r2" "consumes r2 bs c r'"
    by blast
  then show "consumes r (counted n bs) (k + c) r'"
    using consumes_trans [of r "be_bytes 4 n" 0 r1 "[] @ bs" "k + c" r'] consumes_trans [of r1 "[]" k r2 bs c r']
    by (simp add: counted_def)
qed

lemma consumes_swap:
  "(\<exists>r1. consumes r a c r1 \<and> consumes r1 [] k r') \<longleftrightarrow> consumes r a (c + k) r'"
  using consumes_trans [of r a c _ "[]" k r'] consumes_split [of r a "[]" c k r'] by auto

lemma rd_text_iff:
  assumes "reader_ok r"
  shows "rd_text r = Inr (s, r') \<longleftrightarrow>
    utf8_valid s \<and> length s < 2 ^ 32 \<and> reader_ok r' \<and> consumes r (counted (length s) s) (length s) r'"
proof
  assume "rd_text r = Inr (s, r')"
  then obtain r1 r2 where "consumes r (be_bytes 4 (length s)) 0 r1" "consumes r1 s 0 r2"
      "consumes r2 [] (length s) r'" "utf8_valid s" "length s < 2 ^ 32"
    using assms by (auto simp: rd_text_def read_then_Inr rd_count_iff rd_take_iff rd_charge_iff
        split: if_splits)
  moreover from this have "consumes r (counted (length s) s) (0 + length s) r'"
    unfolding counted_def consumes_swap [symmetric] using consumes_trans by fastforce
  ultimately show "utf8_valid s \<and> length s < 2 ^ 32 \<and> reader_ok r' \<and>
      consumes r (counted (length s) s) (length s) r'"
    by (simp add: consumes_ok [of r2])
next
  assume a: "utf8_valid s \<and> length s < 2 ^ 32 \<and> reader_ok r' \<and>
      consumes r (counted (length s) s) (length s) r'"
  then obtain r1 r2 where r: "consumes r (be_bytes 4 (length s)) 0 r1" "consumes r1 s 0 r2"
      "consumes r2 [] (length s) r'"
    using consumes_append [of _ s "[]" "length s" r'] by (auto simp: counted_def consumes_append)
  moreover have "length s \<le> room r1" using consumes_room [OF \<open>consumes r1 s 0 r2\<close>] by simp
  ultimately have "rd_count r = Inr (length s, r1)" "rd_take (length s) r1 = Inr (s, r2)"
      "rd_charge 1 (length s) r2 = Inr ((), r')"
    using a assms consumes_ok by (simp_all add: rd_count_iff rd_take_iff rd_charge_iff)
  with a show "rd_text r = Inr (s, r')" by (simp add: rd_text_def read_then_def)
qed

definition grants :: "layout \<Rightarrow> bool" where
  "grants lay \<longleftrightarrow> (\<forall>offset n. ly_reserve lay offset n)"

lemma rd_headerD:
  assumes "rd_header lay sz r = Inr (n, r')" "reader_ok r"
  shows "n < 2 ^ 32" "reader_ok r'" "consumes r (be_bytes 4 n) (sz * n) r'"
proof -
  obtain r1 where "n < 2 ^ 32" "consumes r (be_bytes 4 n) 0 r1" "consumes r1 [] (sz * n) r'"
    using assms by (auto simp: rd_header_def read_then_Inr rd_count_iff rd_charge_iff rd_reserve_Inr)
  then show "n < 2 ^ 32" "reader_ok r'" "consumes r (be_bytes 4 n) (sz * n) r'"
    using consumes_trans [of r "be_bytes 4 n" 0 r1 "[]" "sz * n" r'] by (simp_all add: consumes_ok)
qed

lemma rd_headerI:
  assumes "consumes r (be_bytes 4 n) (sz * n) r'" "n < 2 ^ 32" "n \<le> room r'" "grants lay"
  shows "rd_header lay sz r = Inr (n, r')"
proof -
  obtain r1 where r: "consumes r (be_bytes 4 n) 0 r1" "consumes r1 [] (sz * n) r'"
    using assms(1) consumes_append [of r "be_bytes 4 n" "[]" "sz * n" r'] by auto
  then have "rd_count r = Inr (n, r1)" "rd_charge sz n r1 = Inr ((), r')"
    using assms(2,3) consumes_room [OF r(2)] consumes_ok by (simp_all add: rd_count_iff rd_charge_iff)
  then show ?thesis using assms(4) by (simp add: rd_header_def read_then_def rd_reserve_def grants_def)
qed

section \<open>Decodable values\<close>

text \<open>What the decoder charges for a value.\<close>

function (sequential) decode_charge :: "layout \<Rightarrow> vm_value \<Rightarrow> nat" where
  "decode_charge lay (VString s) = length s"
| "decode_charge lay (VBytes b) = length b"
| "decode_charge lay (VList vs) = ly_value lay * length vs + sum_list (map (decode_charge lay) vs)"
| "decode_charge lay (VTuple vs) = ly_value lay * length vs + sum_list (map (decode_charge lay) vs)"
| "decode_charge lay (VMap es) =
     ly_entry lay * length es + sum_list (map (\<lambda>(k, w). decode_charge lay k + decode_charge lay w) es)"
| "decode_charge lay (VRecord fs) =
     ly_field lay * length fs + sum_list (map (\<lambda>(n, w). length n + decode_charge lay w) fs)"
| "decode_charge lay (VEnum i t variant n p) =
     (case p of
        PUnit \<Rightarrow> 0
      | PTuple vs \<Rightarrow> ly_value lay * length vs + sum_list (map (decode_charge lay) vs)
      | PRecord fs \<Rightarrow>
          ly_field lay * length fs + sum_list (map (\<lambda>(n, w). length n + decode_charge lay w) fs))"
| "decode_charge lay (VNewtype i w) = length i + decode_charge lay w"
| "decode_charge lay (VUnknown w) = decode_charge lay w"
| "decode_charge lay _ = 0"
  by pat_completeness auto
termination
  by (relation "measure (\<lambda>(_, v). size v)") (auto intro: size_parts less_SucI)

text \<open>The values the decoder returns at nesting depth \<open>d\<close>. The fields of an enum payload are
  read two levels below the enum.\<close>

function (sequential) decode_ok :: "nat \<Rightarrow> vm_value \<Rightarrow> bool"
  and decode_shape :: "nat \<Rightarrow> vm_value \<Rightarrow> bool" where
  "decode_ok d v \<longleftrightarrow> d \<le> MAX_VALUE_NESTING \<and> decode_shape d v"
| "decode_shape d VUnit \<longleftrightarrow> True"
| "decode_shape d (VBool b) \<longleftrightarrow> True"
| "decode_shape d (VInt i) \<longleftrightarrow> True"
| "decode_shape d (VFloat bits) \<longleftrightarrow> (is_nan_bits bits \<longrightarrow> bits = CANONICAL_NAN_BITS)"
| "decode_shape d (VString s) \<longleftrightarrow> utf8_valid s \<and> length s < 2 ^ 32"
| "decode_shape d (VBytes b) \<longleftrightarrow> length b < 2 ^ 32"
| "decode_shape d (VList vs) \<longleftrightarrow> length vs < 2 ^ 32 \<and> (\<forall>w\<in>set vs. decode_ok (Suc d) w)"
| "decode_shape d (VTuple vs) \<longleftrightarrow>
     vs \<noteq> [] \<and> length vs < 2 ^ 32 \<and> (\<forall>w\<in>set vs. decode_ok (Suc d) w)"
| "decode_shape d (VMap es) \<longleftrightarrow>
     length es < 2 ^ 32 \<and> map_ok es \<and> sorted (map entry_key es) \<and>
     (\<forall>(k, w)\<in>set es. decode_ok (Suc d) k \<and> decode_ok (Suc d) w)"
| "decode_shape d (VRecord fs) \<longleftrightarrow> length fs < 2 ^ 32 \<and> names_ok fs \<and> (\<forall>(n, w)\<in>set fs. utf8_valid n \<and> length n < 2 ^ 32 \<and> decode_ok (Suc d) w)"
| "decode_shape d (VEnum i t variant n p) \<longleftrightarrow>
     t = CANONICAL_NAME \<and> n = CANONICAL_NAME \<and>
     (case p of
        PUnit \<Rightarrow> True
      | PTuple vs \<Rightarrow> length vs < 2 ^ 32 \<and> (\<forall>w\<in>set vs. decode_ok (Suc d) w)
      | PRecord fs \<Rightarrow> length fs < 2 ^ 32 \<and> names_ok fs \<and> (\<forall>(n, w)\<in>set fs. utf8_valid n \<and> length n < 2 ^ 32 \<and> decode_ok (Suc (Suc d)) w))"
| "decode_shape d (VNewtype i w) \<longleftrightarrow>
     valid_newtype_identity i \<and> utf8_valid i \<and> length i < 2 ^ 32 \<and> decode_ok (Suc d) w"
| "decode_shape d (VUnknown w) \<longleftrightarrow> decode_ok (Suc d) w"
| "decode_shape d _ \<longleftrightarrow> False"
  by pat_completeness auto
termination
  by (relation "measures [\<lambda>x. case x of Inl (_, v) \<Rightarrow> size v | Inr (_, v) \<Rightarrow> size v,
        \<lambda>x. case x of Inl _ \<Rightarrow> 1 | Inr _ \<Rightarrow> 0]")
    (auto intro: size_parts less_SucI)

declare decode_ok.simps [simp del]

lemma decode_ok_pred:
  "decode_ok (Suc d) v \<Longrightarrow> decode_ok d v" "decode_shape (Suc d) v \<Longrightarrow> decode_shape d v"
proof (induction d v and d v rule: decode_ok_decode_shape.induct)
  case (12 d i t variant n p)
  then show ?case by (cases p) auto
qed (auto simp: decode_ok.simps)

text \<open>A value the decoder may return is encodable and in normal form.\<close>

lemma decode_ok_canonical:
  "decode_ok d v \<Longrightarrow> canonical_ok d v" "decode_shape d v \<Longrightarrow> shape_ok d v"
proof (induction d v and d v rule: canonical_ok_shape_ok.induct)
  case (12 d i t variant n p)
  then show ?case
    by (cases p) (fastforce dest: decode_ok_pred)+
qed (auto simp: decode_ok.simps canonical_ok.simps)

lemma map_normal_fields:
  "\<forall>(n, w)\<in>set fs. normalise w = w \<Longrightarrow> map (\<lambda>(n, w). (n, normalise w)) fs = fs"
  by (induction fs) auto

lemma decode_ok_normal:
  "decode_ok d v \<Longrightarrow> normalise v = v" "decode_shape d v \<Longrightarrow> normalise v = v"
proof (induction d v and d v rule: decode_ok_decode_shape.induct)
  case (10 d es)
  then have "\<forall>(k, w)\<in>set es. normalise k = k \<and> normalise w = w" by auto
  then have "map (\<lambda>(k, w). (normalise k, normalise w)) es = es" by (induction es) auto
  with 10 show ?case by (simp add: sort_key_id_if_sorted)
next
  case (11 d fs)
  then have "\<forall>(n, w)\<in>set fs. normalise w = w" by auto
  then show ?case by (simp add: map_normal_fields)
next
  case (12 d i t variant n p)
  show ?case
  proof (cases p)
    case (PTuple vs)
    with 12 show ?thesis by (auto simp: map_idI)
  next
    case (PRecord fs)
    with 12 have "\<forall>(n, w)\<in>set fs. normalise w = w" by auto
    with PRecord 12 show ?thesis by (simp add: map_normal_fields)
  qed (use 12 in simp)
qed (auto simp: decode_ok.simps map_idI)

lemma plain_bytes_not_Nil:
  "decode_ok d v \<Longrightarrow> plain_bytes v \<noteq> []" "decode_shape d v \<Longrightarrow> plain_bytes v \<noteq> []"
  by (cases v; simp add: decode_ok.simps)+

end
