(* ===== verification/Vm_Canonical_Accept.thy ===== *)
theory Vm_Canonical_Accept
  imports Vm_Canonical_Read
begin

text \<open>
  Soundness of the canonical decoder: what it returns is in normal form and within its limits,
  and it has consumed exactly the bytes of that value.
\<close>

section \<open>What is accepted is canonical\<close>

fun payload_bytes :: "enum_payload \<Rightarrow> bytes" where
  "payload_bytes PUnit = CHR 0x00 # counted 0 []"
| "payload_bytes (PTuple vs) = CHR 0x01 # counted (length vs) (concat (map plain_bytes vs))"
| "payload_bytes (PRecord fs) =
     CHR 0x02 # counted (length fs) (concat (map (\<lambda>(n, w). counted (length n) n @ plain_bytes w) fs))"

lemma plain_bytes_enum:
  "plain_bytes (VEnum i t variant n p) = CHR 0x0b # encode_identity i @ be_u32 variant @ payload_bytes p"
  by (cases p) simp_all

declare plain_bytes.simps(11) [simp del]

definition value_read :: "layout \<Rightarrow> nat \<Rightarrow> reader \<Rightarrow> vm_value \<Rightarrow> reader \<Rightarrow> bool" where
  "value_read lay d r v r' \<longleftrightarrow>
     decode_ok d v \<and> reader_ok r' \<and> consumes r (plain_bytes v) (decode_charge lay v) r'"

definition sound_at :: "layout \<Rightarrow> nat \<Rightarrow> bool" where
  "sound_at lay d \<longleftrightarrow> (\<forall>r v r'. reader_ok r \<longrightarrow> rd_value lay d r = Inr (v, r') \<longrightarrow> value_read lay d r v r')"

lemma rd_values_sound:
  assumes "sound_at lay (Suc d)"
  shows "rd_values lay d n r = Inr (vs, r') \<Longrightarrow> reader_ok r \<Longrightarrow>
    length vs = n \<and> (\<forall>w\<in>set vs. decode_ok (Suc d) w) \<and> reader_ok r' \<and>
    consumes r (concat (map plain_bytes vs)) (sum_list (map (decode_charge lay) vs)) r'"
proof (induction n arbitrary: r vs)
  case (Suc n)
  then obtain v r1 ws where "rd_value lay (Suc d) r = Inr (v, r1)" "rd_values lay d n r1 = Inr (ws, r')"
      "vs = v # ws"
    by (auto simp: read_then_Inr)
  moreover from this(1) Suc.prems(2) assms have "value_read lay (Suc d) r v r1"
    by (auto simp: sound_at_def)
  ultimately show ?case
    using Suc.IH [of r1 ws] by (auto simp: value_read_def intro: consumes_trans)
qed (auto simp: consumes_refl)

text \<open>The order of map keys the decoder enforces.\<close>

definition key_before :: "vm_value \<Rightarrow> vm_value \<Rightarrow> bool" where
  "key_before a b \<longleftrightarrow> same_map_key_kind a b \<and> key_code a < key_code b"

lemma transp_key_before: "key_before a b \<Longrightarrow> key_before b c \<Longrightarrow> key_before a c"
  unfolding key_before_def using same_kind_sym same_kind_trans by (meson order.strict_trans)

lemma map_key_kind_None: "map_key_kind v = None \<longleftrightarrow> \<not> is_map_key v"
  by (induction v rule: map_key_kind.induct) auto

lemma key_in_order:
  "\<not> key_out_of_order kind previous key_kind key \<Longrightarrow> previous = Some p \<Longrightarrow> key_before p key"
  by (auto simp: key_out_of_order_def key_before_def compare_map_keys_code)

lemma rd_entries_sound:
  assumes "sound_at lay (Suc d)"
  shows "rd_entries lay d n kind previous r = Inr (es, r') \<Longrightarrow> reader_ok r \<Longrightarrow>
    length es = n \<and> (\<forall>(k, w)\<in>set es. decode_ok (Suc d) k \<and> decode_ok (Suc d) w \<and> is_map_key k) \<and>
    sorted_wrt key_before (map fst es) \<and> (\<forall>p. previous = Some p \<longrightarrow> (\<forall>e\<in>set es. key_before p (fst e))) \<and>
    reader_ok r' \<and> consumes r (concat (map (\<lambda>(k, w). plain_bytes k @ plain_bytes w) es))
      (sum_list (map (\<lambda>(k, w). decode_charge lay k + decode_charge lay w) es)) r'"
proof (induction n arbitrary: r es kind previous)
  case (Suc n)
  then obtain k r1 kk v r2 fs where s: "rd_value lay (Suc d) r = Inr (k, r1)"
      "map_key_kind k = Some kk" "\<not> key_out_of_order kind previous kk k"
      "rd_value lay (Suc d) r1 = Inr (v, r2)"
      "rd_entries lay d n (Some kk) (Some k) r2 = Inr (fs, r')" "es = (k, v) # fs"
    by (auto simp: read_then_Inr split: option.splits if_splits)
  from s(1,4) Suc.prems(2) assms have v: "value_read lay (Suc d) r k r1" "value_read lay (Suc d) r1 v r2"
    by (auto simp: sound_at_def value_read_def)
  then have "reader_ok r2" by (simp add: value_read_def)
  note IH = Suc.IH [OF s(5) this]
  have c: "consumes r (plain_bytes k @ plain_bytes v) (decode_charge lay k + decode_charge lay v) r2"
    using v by (auto simp: value_read_def intro: consumes_trans)
  have k: "is_map_key k" using s(2) map_key_kind_None [of k] by auto
  have p: "previous = Some p \<Longrightarrow> key_before p k" for p using key_in_order [OF s(3)] by simp
  have "previous = Some p \<Longrightarrow> \<forall>e\<in>set fs. key_before p (fst e)" for p
    using p IH transp_key_before by blast
  then show ?case unfolding s(6)
    using IH k v p consumes_trans [OF c] by (auto simp: value_read_def)
qed (auto simp: consumes_refl)

lemma rd_fields_sound:
  assumes "sound_at lay (Suc d)"
  shows "rd_fields lay d n previous r = Inr (fs, r') \<Longrightarrow> reader_ok r \<Longrightarrow>
    length fs = n \<and> (\<forall>(m, w)\<in>set fs. utf8_valid m \<and> length m < 2 ^ 32 \<and> decode_ok (Suc d) w) \<and>
    names_ok fs \<and> (\<forall>p. previous = Some p \<longrightarrow> (\<forall>f\<in>set fs. p < fst f)) \<and>
    reader_ok r' \<and> consumes r (concat (map (\<lambda>(m, w). counted (length m) m @ plain_bytes w) fs))
      (sum_list (map (\<lambda>(m, w). length m + decode_charge lay w) fs)) r'"
proof (induction n arbitrary: r fs previous)
  case (Suc n)
  then obtain m r1 v r2 gs where s: "rd_text r = Inr (m, r1)"
      "\<not> (case previous of None \<Rightarrow> False | Some p \<Rightarrow> m \<le> p)"
      "rd_value lay (Suc d) r1 = Inr (v, r2)"
      "rd_fields lay d n (Some m) r2 = Inr (gs, r')" "fs = (m, v) # gs"
    by (auto simp: read_then_Inr split: if_splits)
  from s(1) Suc.prems(2) have m: "utf8_valid m" "length m < 2 ^ 32" "reader_ok r1"
      "consumes r (counted (length m) m) (length m) r1"
    by (simp_all add: rd_text_iff)
  from s(3) m(3) assms have v: "value_read lay (Suc d) r1 v r2" by (auto simp: sound_at_def)
  then have "reader_ok r2" by (simp add: value_read_def)
  note IH = Suc.IH [OF s(4) this]
  have c: "consumes r (counted (length m) m @ plain_bytes v) (length m + decode_charge lay v) r2"
    using v m by (auto simp: value_read_def intro: consumes_trans)
  have p: "previous = Some p \<Longrightarrow> p < m" for p using s(2) by auto
  show ?case unfolding s(5)
    using IH m v p consumes_trans [OF c] by (auto simp: value_read_def names_ok_def dest: order.strict_trans)
qed (auto simp: consumes_refl names_ok_def)

lemma entries_in_order:
  assumes "sorted_wrt key_before (map fst es)" "\<forall>e\<in>set es. is_map_key (fst e)"
  shows "map_ok es \<and> sorted (map entry_key es)"
  using assms
proof (induction es)
  case (Cons e es)
  then have es: "map_ok es" "sorted (map entry_key es)" "\<forall>x\<in>set es. key_before (fst e) (fst x)" by auto
  then have "\<forall>x\<in>set es. entry_key e < entry_key x" by (simp add: key_before_def entry_key_def)
  with es Cons.prems(2) show ?case by (auto simp: map_ok_def key_before_def less_imp_le)
qed (simp add: map_ok_def)

lemma rd_map_sound:
  assumes "sound_at lay (Suc d)" "rd_entries lay d n None None r = Inr (es, r')" "reader_ok r" "n < 2 ^ 32"
  shows "decode_shape d (VMap es) \<and> length es = n \<and> reader_ok r' \<and>
    consumes r (concat (map (\<lambda>(k, w). plain_bytes k @ plain_bytes w) es))
      (sum_list (map (\<lambda>(k, w). decode_charge lay k + decode_charge lay w) es)) r'"
proof -
  note s = rd_entries_sound [OF assms(1,2,3)]
  then have "\<forall>e\<in>set es. is_map_key (fst e)" by auto
  with s have "map_ok es \<and> sorted (map entry_key es)" by (intro entries_in_order) simp_all
  with s assms(4) show ?thesis by auto
qed

lemma consumes_counted:
  assumes "consumes r (be_bytes 4 n) k r1" "consumes r1 bs c r'"
  shows "consumes r (counted n bs) (k + c) r'"
  using consumes_trans [OF assms] by (simp add: counted_def)

lemma rd_enum_sound:
  assumes "sound_at lay (Suc d)" "sound_at lay (Suc (Suc d))" "rd_enum lay d r = Inr (p, r')" "reader_ok r"
  shows "decode_shape d (VEnum i CANONICAL_NAME variant CANONICAL_NAME p) \<and> reader_ok r' \<and>
    consumes r (payload_bytes p) (decode_charge lay (VEnum i CANONICAL_NAME variant CANONICAL_NAME p)) r'"
proof -
  obtain tag r1 where t: "rd_byte r = Inr (tag, r1)"
    using assms(3) by (auto simp: read_then_Inr)
  with assms(4) have r1: "reader_ok r1" "consumes r [tag] 0 r1" by (simp_all add: rd_byte_iff)
  note tag = consumes_trans [OF r1(2), simplified]
  from assms(3) consider "tag = CHR 0x00" | "tag = CHR 0x01" | "tag = CHR 0x02"
    using t by (auto simp: read_then_def split: if_splits)
  then show ?thesis
  proof cases
    case 1
    then have "rd_count r1 = Inr (0, r')" "p = PUnit"
      using assms(3) t by (auto simp: read_then_Inr split: if_splits)
    with r1 1 show ?thesis by (auto simp: rd_count_iff counted_def intro!: tag [unfolded 1])
  next
    case 2
    then obtain n r2 vs where s: "rd_header lay (ly_value lay) r1 = Inr (n, r2)"
        "rd_values lay d n r2 = Inr (vs, r')" "p = PTuple vs"
      using assms(3) t by (auto simp: read_then_Inr split: if_splits)
    note h = rd_headerD [OF s(1) r1(1)]
    from rd_values_sound [OF assms(1) s(2) h(2)] h show ?thesis
      using 2 s(3) by (auto intro!: tag [unfolded 2] consumes_counted)
  next
    case 3
    then obtain n r2 fs where s: "rd_header lay (ly_field lay) r1 = Inr (n, r2)"
        "rd_fields lay (Suc d) n None r2 = Inr (fs, r')" "p = PRecord fs"
      using assms(3) t by (auto simp: read_then_Inr split: if_splits)
    note h = rd_headerD [OF s(1) r1(1)]
    from rd_fields_sound [OF assms(2) s(2) h(2)] h show ?thesis
      using 3 s(3) by (auto intro!: tag [unfolded 3] consumes_counted)
  qed
qed

lemma rd_identity_iff:
  assumes "reader_ok r"
  shows "rd_identity r = Inr (i, r') \<longleftrightarrow> reader_ok r' \<and> consumes r (encode_identity i) 0 r'"
proof
  assume "rd_identity r = Inr (i, r')"
  then obtain b r1 where b: "reader_ok r1" "consumes r [b] 0 r1"
      "(if b = CHR 0x00 then read_then (rd_u32 r1) (\<lambda>w r. Inr (UserEnum w, r))
        else if b = CHR 0x01 then Inr (OptionEnum, r1)
        else if b = CHR 0x02 then Inr (ResultEnum, r1) else Inl DecInvalidValue) = Inr (i, r')"
    using assms by (auto simp: rd_identity_def read_then_Inr rd_byte_iff)
  with consumes_trans [OF b(2)] show "reader_ok r' \<and> consumes r (encode_identity i) 0 r'"
    by (auto simp: read_then_Inr rd_u32_iff encode_identity_def split: if_splits)
next
  assume a: "reader_ok r' \<and> consumes r (encode_identity i) 0 r'"
  obtain b bs where b: "encode_identity i = [b] @ bs"
    by (cases i) (simp_all add: encode_identity_def)
  then obtain r1 where r1: "consumes r [b] 0 r1" "consumes r1 bs 0 r'"
    using a consumes_append [of r "[b]" bs 0 r'] by auto
  then have "rd_byte r = Inr (b, r1)" "reader_ok r1"
    using assms consumes_ok by (simp_all add: rd_byte_iff)
  with r1(2) a b show "rd_identity r = Inr (i, r')"
    by (cases i) (auto simp: rd_identity_def read_then_Inr rd_u32_iff encode_identity_def consumes_refl)
qed

lemmas rd_tags =
  rd_tagged.simps [where tag = "CHR 0x03", simplified]
  rd_tagged.simps [where tag = "CHR 0x04", simplified]
  rd_tagged.simps [where tag = "CHR 0x05", simplified]
  rd_tagged.simps [where tag = "CHR 0x06", simplified]
  rd_tagged.simps [where tag = "CHR 0x07", simplified]
  rd_tagged.simps [where tag = "CHR 0x08", simplified]
  rd_tagged.simps [where tag = "CHR 0x09", simplified]
  rd_tagged.simps [where tag = "CHR 0x0a", simplified]
  rd_tagged.simps [where tag = "CHR 0x0b", simplified]
  rd_tagged.simps [where tag = "CHR 0x0c", simplified]
  rd_tagged.simps [where tag = "CHR 0x0d", simplified]

lemma rd_scalar_sound:
  assumes "rd_tagged lay d tag r1 = Inr (v, r')" "reader_ok r1"
    "tag \<in> {CHR 0x00, CHR 0x01, CHR 0x02, CHR 0x03, CHR 0x04, CHR 0x05, CHR 0x06}"
  shows "decode_shape d v \<and> reader_ok r' \<and> hd (plain_bytes v) = tag \<and>
    consumes r1 (tl (plain_bytes v)) (decode_charge lay v) r'"
proof -
  consider "tag \<in> {CHR 0x00, CHR 0x01, CHR 0x02}" | "tag = CHR 0x03" | "tag = CHR 0x04" | "tag = CHR 0x05"
    | "tag = CHR 0x06" using assms(3) by auto
  then show ?thesis
  proof cases
    case 1
    then show ?thesis using assms(1,2) by (auto simp: rd_tagged.simps consumes_refl)
  next
    case 2
    then show ?thesis using assms(1,2) by (auto simp: rd_tags read_then_Inr rd_u64_iff)
  next
    case 3
    then show ?thesis using assms(1,2)
      by (auto simp: rd_tags read_then_Inr rd_u64_iff canonical_float_bits_def split: if_splits)
  next
    case 4
    then show ?thesis using assms(1,2) by (auto simp: rd_tags read_then_Inr rd_text_iff)
  next
    case 5
    then obtain r2 r3 b where "v = VBytes b" "length b < 2 ^ 32" "consumes r1 (be_bytes 4 (length b)) 0 r2"
        "consumes r2 b 0 r3" "consumes r3 [] (length b) r'" "reader_ok r'"
      using assms(1,2) by (auto simp: rd_tags read_then_Inr rd_count_iff rd_take_iff rd_charge_iff)
    moreover from this(4,5) have "consumes r2 b (length b) r'" using consumes_swap [of r2 b 0 "length b" r'] by auto
    ultimately show ?thesis using 5 by (auto intro: consumes_counted [where k = 0, simplified])
  qed
qed

lemma rd_value_sound_step:
  assumes "sound_at lay (Suc d)" "sound_at lay (Suc (Suc d))"
  shows "sound_at lay d"
  unfolding sound_at_def
proof (intro allI impI)
  fix r v r'
  assume ok: "reader_ok r" and read: "rd_value lay d r = Inr (v, r')"
  obtain tag r1 where d: "d \<le> MAX_VALUE_NESTING" and t: "rd_byte r = Inr (tag, r1)"
    and body: "rd_tagged lay d tag r1 = Inr (v, r')"
    using read by (auto simp: rd_value.simps read_then_Inr split: if_splits)
  with ok have r1: "reader_ok r1" "consumes r [tag] 0 r1" by (simp_all add: rd_byte_iff)
  note tagged = consumes_trans [OF r1(2), simplified]
  have readI: "value_read lay d r w r'"
    if "decode_shape d w" "reader_ok r'" "hd (plain_bytes w) = tag"
      "consumes r1 (tl (plain_bytes w)) (decode_charge lay w) r'" for w
    using that d tagged [OF that(4)] plain_bytes_not_Nil(2) [OF that(1)]
    by (cases "plain_bytes w") (simp_all add: value_read_def decode_ok.simps)
  consider "tag \<in> {CHR 0x00, CHR 0x01, CHR 0x02, CHR 0x03, CHR 0x04, CHR 0x05, CHR 0x06}"
    | "tag = CHR 0x07" | "tag = CHR 0x08" | "tag = CHR 0x09" | "tag = CHR 0x0a" | "tag = CHR 0x0b"
    | "tag = CHR 0x0c" | "tag = CHR 0x0d"
    using body unfolding rd_tagged.simps by (auto split: if_splits)
  then show "value_read lay d r v r'"
  proof cases
    case 1
    then show ?thesis using rd_scalar_sound [OF body r1(1)] by (intro readI) simp_all
  next
    case 2
    then obtain n r2 vs where s: "rd_header lay (ly_value lay) r1 = Inr (n, r2)"
        "rd_values lay d n r2 = Inr (vs, r')" "v = VList vs"
      using body by (auto simp: rd_tags read_then_Inr)
    note h = rd_headerD [OF s(1) r1(1)]
    from rd_values_sound [OF assms(1) s(2) h(2)] h show ?thesis
      using 2 s(3) by (auto intro!: readI consumes_counted)
  next
    case 3
    then obtain n r2 es where s: "rd_header lay (ly_entry lay) r1 = Inr (n, r2)"
        "rd_entries lay d n None None r2 = Inr (es, r')" "v = VMap es"
      using body by (auto simp: rd_tags read_then_Inr)
    note h = rd_headerD [OF s(1) r1(1)]
    from rd_map_sound [OF assms(1) s(2) h(2,1)] h show ?thesis
      using 3 s(3) by (auto intro!: readI consumes_counted simp del: decode_shape.simps)
  next
    case 4
    then obtain n r2 r3 vs where s: "rd_count r1 = Inr (n, r2)" "n \<noteq> 0"
        "rd_charge (ly_value lay) n r2 = Inr ((), r3)" "rd_values lay d n r3 = Inr (vs, r')" "v = VTuple vs"
      using body by (auto simp: rd_tags read_then_Inr rd_reserve_Inr split: if_splits)
    with r1 have c: "n < 2 ^ 32" "consumes r1 (be_bytes 4 n) (ly_value lay * n) r3" "reader_ok r3"
      using consumes_trans [of r1 "be_bytes 4 n" 0 r2 "[]" "ly_value lay * n" r3]
      by (auto simp: rd_count_iff rd_charge_iff)
    from rd_values_sound [OF assms(1) s(4) c(3)] c show ?thesis
      using 4 s(2,5) by (auto intro!: readI consumes_counted)
  next
    case 5
    then obtain n r2 fs where s: "rd_header lay (ly_field lay) r1 = Inr (n, r2)"
        "rd_fields lay d n None r2 = Inr (fs, r')" "v = VRecord fs"
      using body by (auto simp: rd_tags read_then_Inr)
    note h = rd_headerD [OF s(1) r1(1)]
    from rd_fields_sound [OF assms(1) s(2) h(2)] h show ?thesis
      using 5 s(3) by (auto intro!: readI consumes_counted)
  next
    case 6
    then obtain i r2 variant r3 p where s: "rd_identity r1 = Inr (i, r2)"
        "rd_u32 r2 = Inr (variant, r3)" "rd_enum lay d r3 = Inr (p, r')"
        "v = VEnum i CANONICAL_NAME variant CANONICAL_NAME p"
      using body by (auto simp: rd_tags read_then_Inr CANONICAL_NAME_def)
    with r1 have c: "consumes r1 (encode_identity i) 0 r2" "consumes r2 (be_u32 variant) 0 r3" "reader_ok r3"
      by (auto simp: rd_identity_iff rd_u32_iff)
    note p = rd_enum_sound [OF assms s(3) c(3), of i variant]
    then have "consumes r1 (encode_identity i @ be_u32 variant @ payload_bytes p) (decode_charge lay v) r'"
      unfolding consumes_append using c(1,2) s(4) by blast
    with p show ?thesis
      using 6 s(4) by (auto intro!: readI simp: plain_bytes_enum simp del: decode_shape.simps decode_charge.simps)
  next
    case 7
    then obtain w where "rd_value lay (Suc d) r1 = Inr (w, r')" "v = VUnknown w"
      using body by (auto simp: rd_tags read_then_Inr)
    moreover from this r1 assms(1) have "value_read lay (Suc d) r1 w r'" by (auto simp: sound_at_def)
    ultimately show ?thesis using 7 by (auto simp: value_read_def [of lay "Suc d"] intro!: readI)
  next
    case 8
    then obtain i r2 w where s: "rd_text r1 = Inr (i, r2)" "valid_newtype_identity i"
        "rd_value lay (Suc d) r2 = Inr (w, r')" "v = VNewtype i w"
      using body by (auto simp: rd_tags read_then_Inr split: if_splits)
    with r1 have i: "utf8_valid i" "length i < 2 ^ 32" "reader_ok r2" "consumes r1 (counted (length i) i) (length i) r2"
      by (simp_all add: rd_text_iff)
    with s assms(1) have "value_read lay (Suc d) r2 w r'" by (auto simp: sound_at_def)
    with i s 8 show ?thesis
      using consumes_trans [OF i(4)] by (auto simp: value_read_def [of lay "Suc d"] intro!: readI)
  qed
qed

lemma rd_value_sound: "sound_at lay d"
proof (induction "Suc MAX_VALUE_NESTING - d" arbitrary: d rule: less_induct)
  case less
  show ?case
  proof (cases "d \<le> MAX_VALUE_NESTING")
    case True
    show ?thesis
    proof (rule rd_value_sound_step)
      show "sound_at lay (Suc d)" using True by (intro less) simp
      show "sound_at lay (Suc (Suc d))" using True by (intro less) simp
    qed
  qed (auto simp: sound_at_def rd_value.simps)
qed

end
