(* ===== verification/Vm_Canonical_Round.thy ===== *)
theory Vm_Canonical_Round
  imports Vm_Canonical_Accept
begin

text \<open>
  Completeness of the canonical decoder, and the codec: the decoder accepts exactly the
  encodings of values in normal form that its nesting limit and its allocation limit admit.
\<close>

section \<open>What is canonical is accepted\<close>

definition complete_at :: "layout \<Rightarrow> nat \<Rightarrow> bool" where
  "complete_at lay d \<longleftrightarrow> (\<forall>r v r'. value_read lay d r v r' \<longrightarrow> rd_value lay d r = Inr (v, r'))"

lemma complete_atD:
  assumes "complete_at lay d" "decode_ok d v" "consumes r (plain_bytes v) (decode_charge lay v) r'"
  shows "rd_value lay d r = Inr (v, r')"
  using assms consumes_ok [OF assms(3)] by (auto simp: complete_at_def value_read_def)

lemma rd_values_complete:
  assumes "complete_at lay (Suc d)"
  shows "\<forall>w\<in>set vs. decode_ok (Suc d) w \<Longrightarrow>
    consumes r (concat (map plain_bytes vs)) (sum_list (map (decode_charge lay) vs)) r' \<Longrightarrow>
    rd_values lay d (length vs) r = Inr (vs, r')"
proof (induction vs arbitrary: r)
  case (Cons v vs)
  from Cons.prems(2) have "consumes r (plain_bytes v @ concat (map plain_bytes vs))
      (decode_charge lay v + sum_list (map (decode_charge lay) vs)) r'" by simp
  then obtain r1 where "consumes r (plain_bytes v) (decode_charge lay v) r1"
      "consumes r1 (concat (map plain_bytes vs)) (sum_list (map (decode_charge lay) vs)) r'"
    by (rule consumes_split)
  with Cons complete_atD [OF assms, of v r r1] show ?case by (simp add: read_then_def)
qed (simp add: consumes_refl)

lemma rd_fields_complete:
  assumes "complete_at lay (Suc d)"
  shows "\<forall>(m, w)\<in>set fs. utf8_valid m \<and> length m < 2 ^ 32 \<and> decode_ok (Suc d) w \<Longrightarrow>
    names_ok fs \<Longrightarrow> (\<And>p. previous = Some p \<Longrightarrow> \<forall>f\<in>set fs. p < fst f) \<Longrightarrow>
    consumes r (concat (map (\<lambda>(m, w). counted (length m) m @ plain_bytes w) fs))
      (sum_list (map (\<lambda>(m, w). length m + decode_charge lay w) fs)) r' \<Longrightarrow>
    rd_fields lay d (length fs) previous r = Inr (fs, r')"
proof (induction fs arbitrary: r previous)
  case (Cons f fs)
  obtain m v where f: "f = (m, v)" by (cases f)
  let ?rest = "concat (map (\<lambda>(m, w). counted (length m) m @ plain_bytes w) fs)"
  let ?cost = "sum_list (map (\<lambda>(m, w). length m + decode_charge lay w) fs)"
  have "consumes r (counted (length m) m @ (plain_bytes v @ ?rest)) (length m + (decode_charge lay v + ?cost)) r'"
    using Cons.prems(4) by (simp add: f add.assoc)
  then obtain r1 where r1: "consumes r (counted (length m) m) (length m) r1"
      "consumes r1 (plain_bytes v @ ?rest) (decode_charge lay v + ?cost) r'"
    by (rule consumes_split)
  from r1(2) obtain r2 where r2: "consumes r1 (plain_bytes v) (decode_charge lay v) r2" "consumes r2 ?rest ?cost r'"
    by (rule consumes_split)
  have "rd_text r = Inr (m, r1)"
    using Cons.prems(1) r1(1) consumes_ok [OF r1(1)] by (simp add: rd_text_iff f)
  moreover have "rd_value lay (Suc d) r1 = Inr (v, r2)"
    using complete_atD [OF assms _ r2(1)] Cons.prems(1) by (simp add: f)
  moreover have "rd_fields lay d (length fs) (Some m) r2 = Inr (fs, r')"
    using Cons.prems(1,2) r2(2) by (intro Cons.IH) (auto simp: f names_ok_def)
  ultimately show ?case
    using Cons.prems(3) by (auto simp: f read_then_def split: option.splits)
qed (simp add: consumes_refl)

lemma same_kind_key_kind: "same_map_key_kind a b \<Longrightarrow> map_key_kind a = map_key_kind b"
  unfolding same_map_key_kind_iff by (induction rule: same_kind.induct) simp_all

lemma key_before_in_order:
  assumes "map_key_kind key = Some kk" "\<And>p. previous = Some p \<Longrightarrow> key_before p key"
    "kind = Option.bind previous map_key_kind"
  shows "\<not> key_out_of_order kind previous kk key"
proof -
  have "map_key_kind p = Some kk" if "previous = Some p" for p
    using assms(1,2) that same_kind_key_kind [of p key] by (simp add: key_before_def)
  then show ?thesis
    using assms by (auto simp: key_out_of_order_def key_before_def compare_map_keys_code split: option.splits)
qed

lemma rd_entries_complete:
  assumes "complete_at lay (Suc d)"
  shows "\<forall>(k, w)\<in>set es. decode_ok (Suc d) k \<and> decode_ok (Suc d) w \<and> is_map_key k \<Longrightarrow>
    sorted_wrt key_before (map fst es) \<Longrightarrow> (\<And>p. previous = Some p \<Longrightarrow> \<forall>e\<in>set es. key_before p (fst e)) \<Longrightarrow>
    kind = Option.bind previous map_key_kind \<Longrightarrow>
    consumes r (concat (map (\<lambda>(k, w). plain_bytes k @ plain_bytes w) es))
      (sum_list (map (\<lambda>(k, w). decode_charge lay k + decode_charge lay w) es)) r' \<Longrightarrow>
    rd_entries lay d (length es) kind previous r = Inr (es, r')"
proof (induction es arbitrary: r previous kind)
  case (Cons e es)
  obtain k v where e: "e = (k, v)" by (cases e)
  let ?rest = "concat (map (\<lambda>(k, w). plain_bytes k @ plain_bytes w) es)"
  let ?cost = "sum_list (map (\<lambda>(k, w). decode_charge lay k + decode_charge lay w) es)"
  have "consumes r (plain_bytes k @ (plain_bytes v @ ?rest)) (decode_charge lay k + (decode_charge lay v + ?cost)) r'"
    using Cons.prems(5) by (simp add: e add.assoc)
  then obtain r1 where r1: "consumes r (plain_bytes k) (decode_charge lay k) r1"
      "consumes r1 (plain_bytes v @ ?rest) (decode_charge lay v + ?cost) r'"
    by (rule consumes_split)
  from r1(2) obtain r2 where r2: "consumes r1 (plain_bytes v) (decode_charge lay v) r2" "consumes r2 ?rest ?cost r'"
    by (rule consumes_split)
  obtain kk where kk: "map_key_kind k = Some kk"
    using Cons.prems(1) map_key_kind_None [of k] by (auto simp: e)
  have "rd_value lay (Suc d) r = Inr (k, r1)" "rd_value lay (Suc d) r1 = Inr (v, r2)"
    using complete_atD [OF assms _ r1(1)] complete_atD [OF assms _ r2(1)] Cons.prems(1) by (simp_all add: e)
  moreover have "rd_entries lay d (length es) (Some kk) (Some k) r2 = Inr (es, r')"
    using Cons.prems(1,2) r2(2) kk by (intro Cons.IH) (auto simp: e)
  moreover have "\<not> key_out_of_order kind previous kk k"
    using Cons.prems(3,4) kk by (intro key_before_in_order) (auto simp: e)
  ultimately show ?case
    using kk by (simp add: e read_then_def)
qed (simp add: consumes_refl)

lemma counted_split:
  assumes "consumes r (counted n bs) (k + c) r'"
  obtains r1 where "consumes r (be_bytes 4 n) k r1" "consumes r1 bs c r'"
  using assms unfolding counted_def by (rule consumes_split)

lemma length_parts:
  "\<forall>x\<in>set xs. f x \<noteq> [] \<Longrightarrow> length xs \<le> length (concat (map f xs))"
proof (induction xs)
  case (Cons x xs)
  then show ?case by (cases "f x") simp_all
qed simp

lemma rd_headerI':
  assumes "consumes r (be_bytes 4 (length xs)) (sz * length xs) r1" "consumes r1 (concat (map f xs)) c r'"
    "\<forall>x\<in>set xs. f x \<noteq> []" "length xs < 2 ^ 32" "grants lay"
  shows "rd_header lay sz r = Inr (length xs, r1)"
  using assms consumes_room [OF assms(2)] length_parts [OF assms(3)]
  by (intro rd_headerI) simp_all

lemma rd_enum_complete:
  assumes "complete_at lay (Suc d)" "complete_at lay (Suc (Suc d))" "grants lay"
    "decode_shape d (VEnum i t variant n p)"
    "consumes r (payload_bytes p) (decode_charge lay (VEnum i t variant n p)) r'"
  shows "rd_enum lay d r = Inr (p, r')"
proof -
  obtain b bs where b: "payload_bytes p = [b] @ bs" by (cases p) simp_all
  then obtain r1 where r1: "consumes r [b] 0 r1" "consumes r1 bs (decode_charge lay (VEnum i t variant n p)) r'"
    using assms(5) consumes_append [of r "[b]" bs] by auto
  then have byte: "rd_byte r = Inr (b, r1)" and ok: "reader_ok r1"
    using consumes_ok by (simp_all add: rd_byte_iff)
  show ?thesis
  proof (cases p)
    case PUnit
    with r1 b ok have "rd_count r1 = Inr (0, r')"
      using consumes_ok by (auto simp: rd_count_iff counted_def)
    with PUnit b byte show ?thesis by (auto simp: read_then_def)
  next
    case (PTuple vs)
    with r1(2) b have "consumes r1 (counted (length vs) (concat (map plain_bytes vs)))
        (ly_value lay * length vs + sum_list (map (decode_charge lay) vs)) r'" by simp
    then obtain r2 where r2: "consumes r1 (be_bytes 4 (length vs)) (ly_value lay * length vs) r2"
        "consumes r2 (concat (map plain_bytes vs)) (sum_list (map (decode_charge lay) vs)) r'"
      by (rule counted_split)
    have vs: "\<forall>w\<in>set vs. decode_ok (Suc d) w" "length vs < 2 ^ 32" using assms(4) PTuple by auto
    have "rd_header lay (ly_value lay) r1 = Inr (length vs, r2)"
      using rd_headerI' [OF r2] vs assms(3) plain_bytes_not_Nil(1) by blast
    with rd_values_complete [OF assms(1) vs(1) r2(2)] PTuple b byte show ?thesis
      by (auto simp: read_then_def)
  next
    case (PRecord fs)
    let ?f = "\<lambda>(m, w). counted (length m) m @ plain_bytes w"
    from PRecord r1(2) b have "consumes r1 (counted (length fs) (concat (map ?f fs)))
        (ly_field lay * length fs + sum_list (map (\<lambda>(m, w). length m + decode_charge lay w) fs)) r'" by simp
    then obtain r2 where r2: "consumes r1 (be_bytes 4 (length fs)) (ly_field lay * length fs) r2"
        "consumes r2 (concat (map ?f fs)) (sum_list (map (\<lambda>(m, w). length m + decode_charge lay w) fs)) r'"
      by (rule counted_split)
    have "rd_header lay (ly_field lay) r1 = Inr (length fs, r2)"
      using assms(3,4) PRecord plain_bytes_not_Nil(1) by (intro rd_headerI' [OF r2]) auto
    moreover have "rd_fields lay (Suc d) (length fs) None r2 = Inr (fs, r')"
      using assms(4) PRecord by (intro rd_fields_complete [OF assms(2) _ _ _ r2(2)]) auto
    ultimately show ?thesis using PRecord b byte by (auto simp: read_then_def)
  qed
qed

text \<open>The tags of the composite values.\<close>

lemma rd_list_complete:
  assumes "complete_at lay (Suc d)" "grants lay" "\<forall>w\<in>set vs. decode_ok (Suc d) w" "length vs < 2 ^ 32"
    "consumes r (counted (length vs) (concat (map plain_bytes vs)))
      (ly_value lay * length vs + sum_list (map (decode_charge lay) vs)) r'"
  shows "rd_tagged lay d (CHR 0x07) r = Inr (VList vs, r')"
    and "vs \<noteq> [] \<Longrightarrow> rd_tagged lay d (CHR 0x09) r = Inr (VTuple vs, r')"
proof -
  from assms(5) obtain r1 where r1: "consumes r (be_bytes 4 (length vs)) (ly_value lay * length vs) r1"
      "consumes r1 (concat (map plain_bytes vs)) (sum_list (map (decode_charge lay) vs)) r'"
    by (rule counted_split)
  have header: "rd_header lay (ly_value lay) r = Inr (length vs, r1)"
    using assms(2,3,4) plain_bytes_not_Nil(1) by (intro rd_headerI' [OF r1]) auto
  then obtain r2 where h: "rd_count r = Inr (length vs, r2)" "rd_charge (ly_value lay) (length vs) r2 = Inr ((), r1)"
      "rd_reserve lay (ly_value lay) (length vs) r1 = Inr ((), r1)"
    by (auto simp: rd_header_def read_then_Inr rd_reserve_def split: if_splits)
  have vs: "rd_values lay d (length vs) r1 = Inr (vs, r')" by (rule rd_values_complete [OF assms(1,3) r1(2)])
  show "rd_tagged lay d (CHR 0x07) r = Inr (VList vs, r')" by (simp add: rd_tags read_then_def header vs)
  show "vs \<noteq> [] \<Longrightarrow> rd_tagged lay d (CHR 0x09) r = Inr (VTuple vs, r')"
    by (simp add: rd_tags read_then_def h vs)
qed

lemma rd_record_complete:
  assumes "complete_at lay (Suc d)" "grants lay" "decode_shape d (VRecord fs)"
    "consumes r (tl (plain_bytes (VRecord fs))) (decode_charge lay (VRecord fs)) r'"
  shows "rd_tagged lay d (CHR 0x0a) r = Inr (VRecord fs, r')"
proof -
  let ?f = "\<lambda>(m, w). counted (length m) m @ plain_bytes w"
  from assms(4) have "consumes r (counted (length fs) (concat (map ?f fs)))
      (ly_field lay * length fs + sum_list (map (\<lambda>(m, w). length m + decode_charge lay w) fs)) r'" by simp
  then obtain r1 where r1: "consumes r (be_bytes 4 (length fs)) (ly_field lay * length fs) r1"
      "consumes r1 (concat (map ?f fs)) (sum_list (map (\<lambda>(m, w). length m + decode_charge lay w) fs)) r'"
    by (rule counted_split)
  have "rd_header lay (ly_field lay) r = Inr (length fs, r1)"
    using assms(2,3) plain_bytes_not_Nil(1) by (intro rd_headerI' [OF r1]) auto
  moreover have "rd_fields lay d (length fs) None r1 = Inr (fs, r')"
    using assms(3) by (intro rd_fields_complete [OF assms(1) _ _ _ r1(2)]) auto
  ultimately show ?thesis by (simp add: rd_tags read_then_def)
qed

lemma entries_before:
  assumes "map_ok es" "sorted (map entry_key es)"
  shows "sorted_wrt key_before (map fst es)"
proof -
  have "sorted_wrt (\<lambda>a b. entry_key a < entry_key b) es"
    using strict_sorted_entries [OF assms(1)] assms(2) by (simp add: sort_key_id_if_sorted)
  moreover have "same_map_key_kind (fst a) (fst b)" if "a \<in> set es" "b \<in> set es" for a b
    using that assms(1) same_kind_trans by (auto simp: map_ok_def)
  ultimately have "sorted_wrt (\<lambda>a b. key_before (fst a) (fst b)) es"
    by (auto simp: key_before_def entry_key_def intro: sorted_wrt_mono_rel [rotated])
  then show ?thesis by (simp add: sorted_wrt_map)
qed

lemma rd_map_complete:
  assumes "complete_at lay (Suc d)" "grants lay" "decode_shape d (VMap es)"
    "consumes r (tl (plain_bytes (VMap es))) (decode_charge lay (VMap es)) r'"
  shows "rd_tagged lay d (CHR 0x08) r = Inr (VMap es, r')"
proof -
  let ?f = "\<lambda>(k, w). plain_bytes k @ plain_bytes w"
  from assms(4) have "consumes r (counted (length es) (concat (map ?f es)))
      (ly_entry lay * length es + sum_list (map (\<lambda>(k, w). decode_charge lay k + decode_charge lay w) es)) r'" by simp
  then obtain r1 where r1: "consumes r (be_bytes 4 (length es)) (ly_entry lay * length es) r1"
      "consumes r1 (concat (map ?f es)) (sum_list (map (\<lambda>(k, w). decode_charge lay k + decode_charge lay w) es)) r'"
    by (rule counted_split)
  have "rd_header lay (ly_entry lay) r = Inr (length es, r1)"
    using assms(2,3) plain_bytes_not_Nil(1) by (intro rd_headerI' [OF r1]) auto
  moreover have "\<forall>e\<in>set es. is_map_key (fst e)"
    using assms(3) same_kind_map_key by (fastforce simp: map_ok_def)
  then have "\<forall>(k, w)\<in>set es. decode_ok (Suc d) k \<and> decode_ok (Suc d) w \<and> is_map_key k"
    using assms(3) by auto
  then have "rd_entries lay d (length es) None None r1 = Inr (es, r')"
    using assms(3) entries_before by (intro rd_entries_complete [OF assms(1) _ _ _ _ r1(2)]) auto
  ultimately show ?thesis by (simp add: rd_tags read_then_def)
qed

lemma rd_tagged_complete:
  assumes "complete_at lay (Suc d)" "complete_at lay (Suc (Suc d))" "grants lay"
    and v: "decode_shape d v" "consumes r (tl (plain_bytes v)) (decode_charge lay v) r'"
  shows "rd_tagged lay d (hd (plain_bytes v)) r = Inr (v, r')"
proof (cases v)
  case (VBytes b)
  then obtain r1 r2 where r: "consumes r (be_bytes 4 (length b)) 0 r1" "consumes r1 b 0 r2" "consumes r2 [] (length b) r'"
    using v(2) consumes_append [of _ b "[]" "length b" r'] by (auto simp: counted_def consumes_append)
  then have "rd_count r = Inr (length b, r1)" "rd_take (length b) r1 = Inr (b, r2)" "rd_charge 1 (length b) r2 = Inr ((), r')"
    using v(1) VBytes consumes_ok consumes_room [OF r(2)] by (simp_all add: rd_count_iff rd_take_iff rd_charge_iff)
  then show ?thesis using VBytes by (simp add: rd_tags read_then_def)
next
  case (VEnum i t variant n p)
  then have "consumes r (encode_identity i @ be_u32 variant @ payload_bytes p) (decode_charge lay v) r'"
    using v(2) by (simp add: plain_bytes_enum)
  then obtain r1 r2 where r: "consumes r (encode_identity i) 0 r1" "consumes r1 (be_u32 variant) 0 r2"
      "consumes r2 (payload_bytes p) (decode_charge lay v) r'"
    by (auto simp: consumes_append)
  then have "rd_identity r = Inr (i, r1)" "rd_u32 r1 = Inr (variant, r2)"
    using consumes_ok by (simp_all add: rd_identity_iff rd_u32_iff)
  moreover have "rd_enum lay d r2 = Inr (p, r')"
    using rd_enum_complete [OF assms(1-3)] v(1) r(3) VEnum by blast
  ultimately show ?thesis
    using v(1) VEnum by (simp add: rd_tags read_then_def plain_bytes_enum CANONICAL_NAME_def)
next
  case (VNewtype i w)
  then have "consumes r (counted (length i) i @ plain_bytes w) (length i + decode_charge lay w) r'"
    using v(2) by simp
  then obtain r1 where r: "consumes r (counted (length i) i) (length i) r1" "consumes r1 (plain_bytes w) (decode_charge lay w) r'"
    by (rule consumes_split)
  then have "rd_text r = Inr (i, r1)" "rd_value lay (Suc d) r1 = Inr (w, r')"
    using v(1) VNewtype consumes_ok complete_atD [OF assms(1) _ r(2)] by (simp_all add: rd_text_iff)
  with v(1) VNewtype show ?thesis by (simp add: rd_tags read_then_def)
next
  case (VUnknown w)
  then show ?thesis using v complete_atD [OF assms(1), of w r r'] by (simp add: rd_tags read_then_def)
next
  case (VList vs)
  then show ?thesis using v rd_list_complete(1) [OF assms(1,3), of vs r r'] by simp
next
  case (VTuple vs)
  then show ?thesis using v rd_list_complete(2) [OF assms(1,3), of vs r r'] by simp
next
  case (VMap es)
  then show ?thesis using v rd_map_complete [OF assms(1,3), of es r r'] by simp
next
  case (VRecord fs)
  then show ?thesis using v rd_record_complete [OF assms(1,3), of fs r r'] by simp
next
  case (VString s)
  then show ?thesis using v consumes_ok rd_text_iff [of r s r'] by (simp add: rd_tags read_then_def)
next
  case (VInt i)
  then show ?thesis using v consumes_ok rd_u64_iff [of r i r'] by (simp add: rd_tags read_then_def)
next
  case (VFloat b)
  then show ?thesis using v consumes_ok rd_u64_iff [of r b r']
    by (auto simp: rd_tags read_then_def canonical_float_bits_def)
qed (use v in \<open>auto simp: rd_tagged.simps consumes_refl\<close>)

lemma rd_value_complete:
  assumes "grants lay"
  shows "complete_at lay d"
proof (induction "Suc MAX_VALUE_NESTING - d" arbitrary: d rule: less_induct)
  case less
  show ?case unfolding complete_at_def
  proof (intro allI impI)
    fix r v r'
    assume a: "value_read lay d r v r'"
    then have d: "d \<le> MAX_VALUE_NESTING" "decode_shape d v" by (simp_all add: value_read_def decode_ok.simps)
    have c: "complete_at lay (Suc d)" "complete_at lay (Suc (Suc d))"
      using d(1) by (intro less; simp)+
    obtain b bs where b: "plain_bytes v = [b] @ bs"
      using plain_bytes_not_Nil(2) [OF d(2)] by (cases "plain_bytes v") simp_all
    then obtain r1 where r1: "consumes r [b] 0 r1" "consumes r1 bs (decode_charge lay v) r'"
      using a consumes_append [of r "[b]" bs] by (auto simp: value_read_def)
    then have "rd_byte r = Inr (b, r1)" using consumes_ok by (simp add: rd_byte_iff)
    with rd_tagged_complete [OF c assms d(2), of r1 r'] r1(2) b d(1)
    show "rd_value lay d r = Inr (v, r')" by (simp add: rd_value.simps read_then_def)
  qed
qed

section \<open>The decoder\<close>

lemma decode_accepts:
  assumes "decode_canonical_with_limit lay bs m = Inr v"
  shows "decode_ok 0 v \<and> bs = plain_bytes v \<and> length bs \<le> unat m \<and> decode_charge lay v \<le> unat m"
proof -
  let ?r = "\<lparr>rd_bytes = bs, rd_offset = 0, rd_maximum = unat m, rd_allocated = 0\<rparr>"
  obtain r' where r': "length bs \<le> unat m" "rd_value lay 0 ?r = Inr (v, r')" "rd_offset r' = length bs"
    using assms by (auto simp: decode_canonical_with_limit_def result_simps split: if_splits)
  moreover have "reader_ok ?r" using r'(1) u64_less [of m] by (simp add: reader_ok_def usize_limit_def)
  ultimately have "value_read lay 0 ?r v r'" using rd_value_sound [of lay 0] by (auto simp: sound_at_def)
  then have v: "decode_ok 0 v" and c: "consumes ?r (plain_bytes v) (decode_charge lay v) r'"
    by (simp_all add: value_read_def)
  then have e: "rd_offset r' = length (plain_bytes v)" "rd_allocated r' = decode_charge lay v"
      "rd_maximum r' = unat m" "take (length (plain_bytes v)) bs = plain_bytes v"
    unfolding consumes_def by simp_all
  have "bs = plain_bytes v" using e(1,4) r'(3) by simp
  moreover have "decode_charge lay v \<le> unat m"
    using e(2,3) consumes_ok [OF c] unfolding reader_ok_def by simp
  ultimately show ?thesis using v r'(1) by blast
qed

lemma decode_complete:
  assumes "grants lay" "decode_ok 0 v" "length (plain_bytes v) \<le> unat m" "decode_charge lay v \<le> unat m"
  shows "decode_canonical_with_limit lay (plain_bytes v) m = Inr v"
proof -
  let ?r = "\<lparr>rd_bytes = plain_bytes v, rd_offset = 0, rd_maximum = unat m, rd_allocated = 0\<rparr>"
  let ?r' = "?r\<lparr>rd_offset := length (plain_bytes v), rd_allocated := decode_charge lay v\<rparr>"
  have "reader_ok ?r" "reader_ok ?r'"
    using assms(3,4) u64_less [of m] by (simp_all add: reader_ok_def usize_limit_def)
  then have "value_read lay 0 ?r v ?r'" using assms(2) by (simp add: value_read_def consumes_def)
  then have "rd_value lay 0 ?r = Inr (v, ?r')"
    using rd_value_complete [OF assms(1), of 0] by (simp add: complete_at_def)
  with assms(3) show ?thesis by (simp add: decode_canonical_with_limit_def)
qed

text \<open>Values a decoder can give back: text is UTF-8, which Rust guarantees for every \<open>str\<close>, and
  the nesting, an enum with named fields counted twice, is within the limit.\<close>

function (sequential) readable :: "nat \<Rightarrow> vm_value \<Rightarrow> bool"
  and readable_shape :: "nat \<Rightarrow> vm_value \<Rightarrow> bool" where
  "readable d v \<longleftrightarrow> d \<le> MAX_VALUE_NESTING \<and> readable_shape d v"
| "readable_shape d (VString s) \<longleftrightarrow> utf8_valid s"
| "readable_shape d (VList vs) \<longleftrightarrow> (\<forall>w\<in>set vs. readable (Suc d) w)"
| "readable_shape d (VTuple vs) \<longleftrightarrow> (\<forall>w\<in>set vs. readable (Suc d) w)"
| "readable_shape d (VMap es) \<longleftrightarrow> (\<forall>(k, w)\<in>set es. readable (Suc d) k \<and> readable (Suc d) w)"
| "readable_shape d (VRecord fs) \<longleftrightarrow> (\<forall>(n, w)\<in>set fs. utf8_valid n \<and> readable (Suc d) w)"
| "readable_shape d (VEnum i t variant n p) \<longleftrightarrow>
     (case p of
        PUnit \<Rightarrow> True
      | PTuple vs \<Rightarrow> \<forall>w\<in>set vs. readable (Suc d) w
      | PRecord fs \<Rightarrow> \<forall>(n, w)\<in>set fs. utf8_valid n \<and> readable (Suc (Suc d)) w)"
| "readable_shape d (VNewtype i w) \<longleftrightarrow> utf8_valid i \<and> readable (Suc d) w"
| "readable_shape d (VUnknown w) \<longleftrightarrow> readable (Suc d) w"
| "readable_shape d _ \<longleftrightarrow> True"
  by pat_completeness auto
termination
  by (relation "measures [\<lambda>x. case x of Inl (_, v) \<Rightarrow> size v | Inr (_, v) \<Rightarrow> size v,
        \<lambda>x. case x of Inl _ \<Rightarrow> 1 | Inr _ \<Rightarrow> 0]")
    (auto intro: size_parts less_SucI)

declare readable.simps [simp del]

lemma names_ok_normalise [simp]: "names_ok (map (\<lambda>(n, w). (n, normalise w)) fs) = names_ok fs"
  by (simp add: names_ok_def comp_def case_prod_unfold)

lemma map_ok_normalise:
  assumes "map_ok es"
  shows "map_ok (sort_key entry_key (map (\<lambda>(k, w). (normalise k, normalise w)) es))"
proof -
  let ?s = "sort_key entry_key es"
  have key: "\<forall>e\<in>set es. is_map_key (fst e)"
    using assms same_kind_map_key by (fastforce simp: map_ok_def)
  then have fst: "map fst (map (\<lambda>(k, w). (normalise k, normalise w)) ?s) = map fst ?s"
    by (auto simp: case_prod_unfold)
  have kind: "same_map_key_kind (fst a) (fst b)" if "a \<in> set es" "b \<in> set es" for a b
    using that assms same_kind_trans by (auto simp: map_ok_def)
  have "distinct (map fst ?s)" using assms by (simp add: map_ok_def distinct_map)
  moreover have "same_map_key_kind (fst (hd (map (\<lambda>(k, w). (normalise k, normalise w)) ?s))) (fst e)"
    if "e \<in> set (map (\<lambda>(k, w). (normalise k, normalise w)) ?s)" for e
  proof -
    from that obtain a where a: "a \<in> set es" "fst e = fst a" using key by auto
    have "?s \<noteq> []" using a(1) by (metis empty_iff list.set(1) sort_key_entries(1))
    then obtain b where "b \<in> set es" "hd ?s = b" by (metis hd_in_set sort_key_entries(1))
    with a kind key \<open>?s \<noteq> []\<close> show ?thesis by (simp add: hd_map case_prod_unfold)
  qed
  ultimately show ?thesis unfolding map_ok_def normal_entries fst by blast
qed

lemma readable_decode_ok:
  "canonical_ok d v \<Longrightarrow> readable d' v \<Longrightarrow> decode_ok d' (normalise v)"
  "shape_ok d v \<Longrightarrow> readable_shape d' v \<Longrightarrow> decode_shape d' (normalise v)"
proof (induction d v and d v arbitrary: d' and d' rule: canonical_ok_shape_ok.induct)
  case (10 d es)
  then have "\<forall>(k, w)\<in>set es. decode_ok (Suc d') (normalise k) \<and> decode_ok (Suc d') (normalise w)"
    by fastforce
  moreover have "sorted (map entry_key (sort_key entry_key (map (\<lambda>(k, w). (normalise k, normalise w)) es)))"
    by (rule sorted_sort_key)
  ultimately show ?case using "10.prems"(1) map_ok_normalise [of es] by auto
next
  case (11 d fs)
  then have "\<forall>(n, w)\<in>set fs. decode_ok (Suc d') (normalise w)" by fastforce
  with 11 show ?case by auto
next
  case (12 d i t variant n p)
  show ?case
  proof (cases p)
    case (PRecord fs)
    have "\<forall>(n, w)\<in>set fs. decode_ok (Suc (Suc d')) (normalise w)"
      using 12 PRecord by fastforce
    with PRecord 12 show ?thesis by auto
  qed (use 12 in auto)
qed (auto simp: canonical_ok.simps decode_ok.simps readable.simps)

section \<open>The codec\<close>

text \<open>What a client of a canonical codec relies on: decoding an encoding gives the normal form,
  and only encodings decode.\<close>

locale canonical_codec =
  fixes encodes :: "'v \<Rightarrow> 'b \<Rightarrow> bool"
    and decodes :: "'b \<Rightarrow> 'v \<Rightarrow> bool"
    and normal :: "'v \<Rightarrow> 'v"
    and fits :: "'v \<Rightarrow> bool"
  assumes encode_decode: "encodes v b \<Longrightarrow> fits v \<Longrightarrow> decodes b (normal v)"
    and decode_encode: "decodes b v \<Longrightarrow> encodes v b"
    and decodes_unique: "decodes b v \<Longrightarrow> decodes b w \<Longrightarrow> v = w"
    and encodes_unique: "encodes v b \<Longrightarrow> encodes v c \<Longrightarrow> b = c"
begin

lemma same_encoding: "encodes v b \<Longrightarrow> encodes w b \<Longrightarrow> fits v \<Longrightarrow> fits w \<Longrightarrow> normal v = normal w"
  using encode_decode decodes_unique by blast

lemma decodes_injective: "decodes b v \<Longrightarrow> decodes c v \<Longrightarrow> b = c"
  using decode_encode encodes_unique by blast

end

definition decode_fits :: "layout \<Rightarrow> u64 \<Rightarrow> vm_value \<Rightarrow> bool" where
  "decode_fits lay m v \<longleftrightarrow>
     readable 0 v \<and> length (plain_bytes v) \<le> unat m \<and> decode_charge lay (normalise v) \<le> unat m"

lemma round_trip:
  assumes "encode_canonical_with_limit reserve v m = Inr bs" "decode_fits lay m' v" "grants lay"
  shows "decode_canonical_with_limit lay bs m' = Inr (normalise v)"
proof -
  from assms(1) have e: "canonical_ok 0 v" "bs = plain_bytes (normalise v)"
    using encoder_characterised by blast+
  with assms(2,3) show ?thesis
    using decode_complete [OF assms(3) readable_decode_ok(1) [OF e(1), of 0], of m']
    by (simp add: decode_fits_def)
qed

lemma only_encodings_decode:
  assumes "decode_canonical_with_limit lay bs m = Inr v" "reserve (length bs)"
  shows "encode_canonical_with_limit reserve v m = Inr bs"
proof -
  note d = decode_accepts [OF assms(1)]
  then have "canonical_ok 0 v" "normalise v = v" using decode_ok_canonical(1) decode_ok_normal(1) by blast+
  moreover have "length bs < usize_limit" using d u64_less [of m] by (auto simp: usize_limit_def)
  ultimately show ?thesis using d assms(2) by (auto simp: encoder_characterised)
qed

definition full_memory :: "layout \<Rightarrow> layout" where
  "full_memory lay = lay\<lparr>ly_reserve := \<lambda>_ _. True\<rparr>"

interpretation canonical: canonical_codec
  "\<lambda>v bs. encode_canonical_with_limit (\<lambda>_. True) v (- 1) = Inr bs"
  "\<lambda>bs v. decode_canonical_with_limit (full_memory lay) bs (- 1) = Inr v"
  normalise "decode_fits (full_memory lay) (- 1)" for lay
proof
  show "decode_canonical_with_limit (full_memory lay) b (- 1) = Inr (normalise v)"
    if "encode_canonical_with_limit (\<lambda>_. True) v (- 1) = Inr b" "decode_fits (full_memory lay) (- 1) v" for v b
    by (rule round_trip [OF that]) (simp add: grants_def full_memory_def)
qed (auto intro: only_encodings_decode)

text \<open>(C28) Decoding the encoding of a value gives its normal form: the same value with the
  entries of every map in key order and the names of enums replaced by a fixed text, provided the
  text of the value is UTF-8, its nesting as the decoder counts it (two levels for an enum with
  named fields) and the sizes of the bytes and of the decoded values are within the decoder's limits,
  and the allocator grants the reservations.\<close>

theorem canonical_round_trip:
  assumes "encode_canonical_with_limit reserve v maximum = Inr bs"
    and "readable 0 v" "grants lay"
    and "length bs \<le> unat limit" "decode_charge lay (normalise v) \<le> unat limit"
  shows "decode_canonical_with_limit lay bs limit = Inr (normalise v)"
proof -
  from assms(1) have "bs = plain_bytes (normalise v)" using encoder_characterised by blast
  with assms show ?thesis by (intro round_trip) (simp_all add: decode_fits_def)
qed

definition sample_layout :: layout where
  "sample_layout = \<lparr>ly_value = 24, ly_entry = 48, ly_field = 40, ly_reserve = \<lambda>_ _. True\<rparr>"

definition sample_map :: vm_value where
  "sample_map = VMap [(VInt 7, VString ''b''), (VInt 3, VEnum OptionEnum ''Option'' 1 ''Some'' (PTuple [VUnit]))]"

lemma canonical_round_trip_witness:
  "\<exists>bs. encode_canonical_with_limit (\<lambda>_. True) sample_map 1000 = Inr bs \<and>
     decode_canonical_with_limit sample_layout bs 1000 =
       Inr (VMap [(VInt 3, VEnum OptionEnum ''<canonical>'' 1 ''<canonical>'' (PTuple [VUnit])),
         (VInt 7, VString ''b'')])"
proof -
  define bs where "bs = plain_bytes (normalise sample_map)"
  have n: "normalise sample_map =
      VMap [(VInt 3, VEnum OptionEnum ''<canonical>'' 1 ''<canonical>'' (PTuple [VUnit])), (VInt 7, VString ''b'')]"
    by (simp add: sample_map_def entry_key_def CANONICAL_NAME_def)
  have l: "length bs = 41"
    by (simp add: bs_def n plain_bytes_enum identity_length_def)
  have "canonical_ok 0 sample_map"
    by (simp add: sample_map_def canonical_ok.simps MAX_VALUE_NESTING_def map_ok_def)
  then have e: "encode_canonical_with_limit (\<lambda>_. True) sample_map 1000 = Inr bs"
    using l by (simp add: encoder_characterised bs_def usize_limit_def)
  have "decode_canonical_with_limit sample_layout bs 1000 = Inr (normalise sample_map)"
  proof (rule canonical_round_trip [OF e])
    show "readable 0 sample_map"
      by (simp add: sample_map_def readable.simps MAX_VALUE_NESTING_def utf8_valid_ascii in_range_def)
    show "grants sample_layout" by (simp add: grants_def sample_layout_def)
    show "length bs \<le> unat (1000 :: u64)" using l by simp
    show "decode_charge sample_layout (normalise sample_map) \<le> unat (1000 :: u64)"
      by (simp add: n sample_layout_def)
  qed
  with e n show ?thesis by auto
qed

text \<open>(C29) The decoder is strict: bytes it accepts are the encoding of the value it returns, for
  whatever sizes the target has and whatever the allocator does, so that no value has two accepted
  encodings.\<close>

theorem accepted_bytes_are_canonical:
  assumes "decode_canonical_with_limit lay bs maximum = Inr v"
  shows "encode_canonical_with_limit (\<lambda>_. True) v maximum = Inr bs \<and> normalise v = v \<and>
    decode_charge lay v \<le> unat maximum"
proof -
  have "encode_canonical_with_limit (\<lambda>_. True) v maximum = Inr bs"
    by (rule only_encodings_decode [OF assms]) simp
  moreover note d = decode_accepts [OF assms]
  then have "normalise v = v" using decode_ok_normal(1) by blast
  ultimately show ?thesis using d by blast
qed

lemma accepted_bytes_are_canonical_witness:
  "encode_canonical_with_limit (\<lambda>_. True) (VList [VUnit, VBool True]) 100 =
    Inr [CHR 0x07, CHR 0x00, CHR 0x00, CHR 0x00, CHR 0x02, CHR 0x00, CHR 0x02]"
proof -
  have "decode_canonical_with_limit sample_layout
      [CHR 0x07, CHR 0x00, CHR 0x00, CHR 0x00, CHR 0x02, CHR 0x00, CHR 0x02] 100 =
    Inr (VList [VUnit, VBool True])"
  proof -
    have be: "be_bytes 4 (Suc (Suc 0)) = [CHR 0x00, CHR 0x00, CHR 0x00, CHR 0x02]" by code_simp
    have "grants sample_layout" "decode_ok 0 (VList [VUnit, VBool True])"
        "decode_charge sample_layout (VList [VUnit, VBool True]) \<le> unat (100 :: u64)"
      by (simp_all add: grants_def sample_layout_def decode_ok.simps MAX_VALUE_NESTING_def)
    from decode_complete [OF this(1,2) _ this(3)] show ?thesis by (simp add: counted_def be)
  qed
  from accepted_bytes_are_canonical [OF this] show ?thesis by simp
qed










end
