(* ===== verification/Vm_Budget.thy ===== *)
theory Vm_Budget
  imports Vm_Value Machine
begin

text \<open>
  The execution budget of the virtual machine (\<open>Budget\<close> and \<open>ConcurrentEffectCounter\<close> of
  \<open>allen-vm/src/lib.rs\<close>): limits, usage, the warnings it reports once per resource, and the
  computation type of the machine's helpers, which thread a budget and may fail.

  The clock and the cancellation source are read through arguments; what the observer is told is
  kept in the budget as two lists. A duration is its number of nanoseconds.
\<close>

unbundle bit_operations_syntax

section \<open>Resources\<close>

definition RESOURCE_INSTRUCTIONS :: string where "RESOURCE_INSTRUCTIONS = ''instructions''"
definition RESOURCE_ALLOCATION_BYTES :: string where "RESOURCE_ALLOCATION_BYTES = ''allocation_bytes''"
definition RESOURCE_MAXIMUM_ALLOCATION_BYTES :: string where
  "RESOURCE_MAXIMUM_ALLOCATION_BYTES = ''maximum_allocation_bytes''"
definition RESOURCE_CALL_DEPTH :: string where "RESOURCE_CALL_DEPTH = ''call_depth''"
definition RESOURCE_WALL_TIME :: string where "RESOURCE_WALL_TIME = ''wall_time''"
definition RESOURCE_TASKS :: string where "RESOURCE_TASKS = ''tasks''"
definition RESOURCE_CONCURRENT_EFFECTS :: string where
  "RESOURCE_CONCURRENT_EFFECTS = ''concurrent_effects''"
definition RESOURCE_DECODE_BYTES :: string where "RESOURCE_DECODE_BYTES = ''decode_bytes''"

definition MAXIMUM_DECODE_BYTES :: u64 where "MAXIMUM_DECODE_BYTES = 1048576"

type_synonym u8 = "8 word"

definition WARNING_INSTRUCTIONS :: u8 where "WARNING_INSTRUCTIONS = push_bit 0 1"
definition WARNING_ALLOCATION_BYTES :: u8 where "WARNING_ALLOCATION_BYTES = push_bit 1 1"
definition WARNING_MAXIMUM_ALLOCATION_BYTES :: u8 where
  "WARNING_MAXIMUM_ALLOCATION_BYTES = push_bit 2 1"
definition WARNING_CALL_DEPTH :: u8 where "WARNING_CALL_DEPTH = push_bit 3 1"
definition WARNING_WALL_TIME :: u8 where "WARNING_WALL_TIME = push_bit 4 1"
definition WARNING_TASKS :: u8 where "WARNING_TASKS = push_bit 5 1"
definition WARNING_CONCURRENT_EFFECTS :: u8 where "WARNING_CONCURRENT_EFFECTS = push_bit 6 1"

section \<open>Sizes\<close>

definition FRAME_BASE_BYTES :: u64 where "FRAME_BASE_BYTES = 32"
definition REGISTER_BYTES :: u64 where "REGISTER_BYTES = 16"
definition COLLECTION_BASE_BYTES :: u64 where "COLLECTION_BASE_BYTES = 8"
definition VALUE_SLOT_BYTES :: u64 where "VALUE_SLOT_BYTES = 16"
definition MAP_ENTRY_BYTES :: u64 where "MAP_ENTRY_BYTES = 32"

definition allocation_limit :: vm_error where
  "allocation_limit = ResourceLimit RESOURCE_ALLOCATION_BYTES"

definition logical_size :: "u64 \<Rightarrow> nat \<Rightarrow> u64 \<Rightarrow> vm_error + u64" where
  "logical_size base count item_size =
     (if 2 ^ 64 \<le> count then Inl allocation_limit
      else ok_or (Option.bind (checked_mul_u64 (of_nat count) item_size) (checked_add_u64 base))
             allocation_limit)"

definition frame_size :: "nat \<Rightarrow> vm_error + u64" where
  "frame_size registers = logical_size FRAME_BASE_BYTES registers REGISTER_BYTES"

definition collection_size :: "nat \<Rightarrow> u64 \<Rightarrow> vm_error + u64" where
  "collection_size len slot_bytes = logical_size COLLECTION_BASE_BYTES len slot_bytes"

definition record_size :: "nat \<Rightarrow> vm_error + u64" where
  "record_size len = logical_size COLLECTION_BASE_BYTES len VALUE_SLOT_BYTES"

definition enum_size :: "nat \<Rightarrow> vm_error + u64" where
  "enum_size payload_length = logical_size COLLECTION_BASE_BYTES payload_length VALUE_SLOT_BYTES"

definition newtype_size :: "nat \<Rightarrow> vm_error + u64" where
  "newtype_size identity_bytes = logical_size VALUE_SLOT_BYTES identity_bytes 1"

definition string_size_bytes :: "nat \<Rightarrow> vm_error + u64" where
  "string_size_bytes bytes = logical_size 8 bytes 1"

definition string_size :: "string \<Rightarrow> vm_error + u64" where
  "string_size s = string_size_bytes (length s)"

definition checked_allocation_add :: "u64 \<Rightarrow> u64 \<Rightarrow> vm_error + u64" where
  "checked_allocation_add left right = ok_or (checked_add_u64 left right) allocation_limit"

section \<open>Limits, usage and counters\<close>

record execution_limits =
  el_instructions :: u64
  el_allocation_bytes :: u64
  el_maximum_allocation_bytes :: u64
  el_call_depth :: u32
  el_wall_time :: nat
  el_tasks :: u32
  el_concurrent_effects :: u32
  el_cleanup_instructions :: u64

record execution_usage =
  eu_instructions :: u64
  eu_allocation_bytes :: u64
  eu_maximum_call_depth :: u32
  eu_tasks_started :: u64
  eu_maximum_live_tasks :: u32
  eu_maximum_concurrent_effects :: u32

definition DURATION_MAX :: nat where
  "DURATION_MAX = (2 ^ 64 - 1) * 10 ^ 9 + 999999999"

definition default_limits :: execution_limits where
  "default_limits =
     \<lparr>el_instructions = - 1, el_allocation_bytes = - 1, el_maximum_allocation_bytes = - 1,
      el_call_depth = - 1, el_wall_time = DURATION_MAX, el_tasks = - 1, el_concurrent_effects = - 1,
      el_cleanup_instructions = - 1\<rparr>"

record effect_counter =
  ec_limit :: u32
  ec_active :: u32
  ec_maximum :: u32

definition counter_new :: "u32 \<Rightarrow> effect_counter" where
  "counter_new limit = \<lparr>ec_limit = limit, ec_active = 0, ec_maximum = 0\<rparr>"

definition counter_start :: "effect_counter \<Rightarrow> vm_error + effect_counter" where
  "counter_start c =
     result_bind (ok_or (checked_add_u32 (ec_active c) 1) (ResourceLimit RESOURCE_CONCURRENT_EFFECTS)) (\<lambda>next.
     if next > ec_limit c then Inl (ResourceLimit RESOURCE_CONCURRENT_EFFECTS)
     else Inr (c\<lparr>ec_active := next, ec_maximum := max (ec_maximum c) next\<rparr>))"

definition counter_complete :: "effect_counter \<Rightarrow> vm_error + effect_counter" where
  "counter_complete c =
     result_bind (ok_or (checked_sub_u32 (ec_active c) 1) (Invariant ''effect counter is already empty'')) (\<lambda>next.
     Inr (c\<lparr>ec_active := next\<rparr>))"

section \<open>The budget\<close>

record budget_warning =
  bw_resource :: string
  bw_used :: u64
  bw_limit :: u64

record checkpoint =
  cp_function :: u32
  cp_instruction :: u32

record budget =
  b_limits :: execution_limits
  b_usage :: execution_usage
  b_started :: nat
  b_effects :: effect_counter
  b_warned :: u8
  b_decode_input_bytes :: u64
  b_warnings :: "budget_warning list"
  b_checkpoints :: "checkpoint list"

text \<open>Computations that thread a state and may fail; the state reached is kept on failure.\<close>

type_synonym ('s, 'a) stateful = "'s \<Rightarrow> (vm_error + 'a) \<times> 's"
type_synonym 'a vm = "(budget, 'a) stateful"

definition vm_return :: "'a \<Rightarrow> ('s, 'a) stateful" where
  "vm_return x b = (Inr x, b)"

definition vm_fail :: "vm_error \<Rightarrow> ('s, 'a) stateful" where
  "vm_fail e b = (Inl e, b)"

definition vm_bind :: "('s, 'a) stateful \<Rightarrow> ('a \<Rightarrow> ('s, 'b) stateful) \<Rightarrow> ('s, 'b) stateful" where
  "vm_bind m f b = (case m b of (Inl e, b') \<Rightarrow> (Inl e, b') | (Inr x, b') \<Rightarrow> f x b')"

definition vm_lift :: "vm_error + 'a \<Rightarrow> ('s, 'a) stateful" where
  "vm_lift r b = (r, b)"

definition budget_new :: "execution_limits \<Rightarrow> nat \<Rightarrow> budget" where
  "budget_new limits now =
     \<lparr>b_limits = limits,
      b_usage = \<lparr>eu_instructions = 0, eu_allocation_bytes = 0, eu_maximum_call_depth = 0,
        eu_tasks_started = 0, eu_maximum_live_tasks = 0, eu_maximum_concurrent_effects = 0\<rparr>,
      b_started = now, b_effects = counter_new (el_concurrent_effects limits), b_warned = 0,
      b_decode_input_bytes = 0, b_warnings = [], b_checkpoints = []\<rparr>"

definition warning_threshold :: "u64 \<Rightarrow> u64" where
  "warning_threshold limit = (let d = max (limit div 10) 1 in if d \<le> limit then limit - d else 0)"

definition warn_once :: "u8 \<Rightarrow> string \<Rightarrow> u64 \<Rightarrow> u64 \<Rightarrow> budget \<Rightarrow> budget" where
  "warn_once flag resource used limit b =
     (if limit = - 1 \<or> b_warned b AND flag \<noteq> 0 \<or> used < warning_threshold limit then b
      else b\<lparr>b_warned := b_warned b OR flag,
             b_warnings := b_warnings b @ [\<lparr>bw_resource = resource, bw_used = used, bw_limit = limit\<rparr>]\<rparr>)"

definition enter_frame :: "u32 \<Rightarrow> unit vm" where
  "enter_frame depth b =
     (if depth > el_call_depth (b_limits b) then (Inl (ResourceLimit RESOURCE_CALL_DEPTH), b)
      else
        let b = b\<lparr>b_usage := (b_usage b)\<lparr>eu_maximum_call_depth := max (eu_maximum_call_depth (b_usage b)) depth\<rparr>\<rparr>;
            b = (if el_call_depth (b_limits b) \<noteq> - 1
                 then warn_once WARNING_CALL_DEPTH RESOURCE_CALL_DEPTH (ucast depth) (ucast (el_call_depth (b_limits b))) b
                 else b)
        in (Inr (), b))"

definition millis_u64 :: "nat \<Rightarrow> u64" where
  "millis_u64 nanos = (if nanos div 10 ^ 6 < 2 ^ 64 then of_nat (nanos div 10 ^ 6) else - 1)"

definition check_interruption :: "bool \<Rightarrow> nat \<Rightarrow> unit vm" where
  "check_interruption cancelled now b =
     (if cancelled then (Inl VmCancelled, b)
      else if now < b_started b then (Inl (Invariant ''monotonic clock moved backwards''), b)
      else
        let elapsed = now - b_started b
        in if elapsed \<ge> el_wall_time (b_limits b) then (Inl (Timeout RESOURCE_WALL_TIME), b)
           else if el_wall_time (b_limits b) \<noteq> DURATION_MAX
           then (Inr (), warn_once WARNING_WALL_TIME RESOURCE_WALL_TIME (millis_u64 elapsed)
                   (millis_u64 (el_wall_time (b_limits b))) b)
           else (Inr (), b))"

definition count_instruction :: "unit vm" where
  "count_instruction b =
     (case checked_add_u64 (eu_instructions (b_usage b)) 1 of
        None \<Rightarrow> (Inl (ResourceLimit RESOURCE_INSTRUCTIONS), b)
      | Some next \<Rightarrow>
          if next > el_instructions (b_limits b) then (Inl (ResourceLimit RESOURCE_INSTRUCTIONS), b)
          else
            (Inr (), warn_once WARNING_INSTRUCTIONS RESOURCE_INSTRUCTIONS next (el_instructions (b_limits b))
               (b\<lparr>b_usage := (b_usage b)\<lparr>eu_instructions := next\<rparr>\<rparr>)))"

definition charge_instruction :: "checkpoint \<Rightarrow> bool \<Rightarrow> nat \<Rightarrow> unit vm" where
  "charge_instruction cp cancelled now b =
     vm_bind (check_interruption cancelled now) (\<lambda>_. count_instruction)
       (b\<lparr>b_checkpoints := b_checkpoints b @ [cp]\<rparr>)"

definition charge_allocation :: "u64 \<Rightarrow> unit vm" where
  "charge_allocation bytes b =
     (if bytes > el_maximum_allocation_bytes (b_limits b)
      then (Inl (ResourceLimit RESOURCE_MAXIMUM_ALLOCATION_BYTES), b)
      else
        let b = warn_once WARNING_MAXIMUM_ALLOCATION_BYTES RESOURCE_MAXIMUM_ALLOCATION_BYTES bytes
                  (el_maximum_allocation_bytes (b_limits b)) b
        in case checked_add_u64 (eu_allocation_bytes (b_usage b)) bytes of
             None \<Rightarrow> (Inl allocation_limit, b)
           | Some next \<Rightarrow>
               if next > el_allocation_bytes (b_limits b) then (Inl allocation_limit, b)
               else
                 (Inr (), warn_once WARNING_ALLOCATION_BYTES RESOURCE_ALLOCATION_BYTES next
                    (el_allocation_bytes (b_limits b))
                    (b\<lparr>b_usage := (b_usage b)\<lparr>eu_allocation_bytes := next\<rparr>\<rparr>)))"

definition start_effect :: "unit vm" where
  "start_effect b =
     (case counter_start (b_effects b) of
        Inl e \<Rightarrow> (Inl e, b)
      | Inr c \<Rightarrow>
          let b = b\<lparr>b_effects := c,
                    b_usage := (b_usage b)\<lparr>eu_maximum_concurrent_effects := ec_maximum c\<rparr>\<rparr>;
              b = (if el_concurrent_effects (b_limits b) \<noteq> - 1
                   then warn_once WARNING_CONCURRENT_EFFECTS RESOURCE_CONCURRENT_EFFECTS
                          (ucast (ec_active c)) (ucast (el_concurrent_effects (b_limits b))) b
                   else b)
          in (Inr (), b))"

definition complete_effect :: "unit vm" where
  "complete_effect b =
     (case counter_complete (b_effects b) of Inl e \<Rightarrow> (Inl e, b) | Inr c \<Rightarrow> (Inr (), b\<lparr>b_effects := c\<rparr>))"

definition record_task_started :: "u32 \<Rightarrow> budget \<Rightarrow> budget" where
  "record_task_started live b =
     (if el_tasks (b_limits b) \<noteq> - 1
      then warn_once WARNING_TASKS RESOURCE_TASKS (ucast live) (ucast (el_tasks (b_limits b))) b
      else b)"

text \<open>\<open>saturating_add(1)\<close>.\<close>

definition saturating_inc :: "'w::len word \<Rightarrow> 'w word" where
  "saturating_inc w = (if w = - 1 then - 1 else w + 1)"

text \<open>The budget's part of \<open>spawn_machine\<close>: the check before a task is made and the account after
  it. \<open>live\<close> is the number of live tasks beside the root.\<close>

definition admit_task :: "nat \<Rightarrow> u32 vm" where
  "admit_task others b =
     (if 2 ^ 32 \<le> others then (Inl (ResourceLimit RESOURCE_TASKS), b)
      else if of_nat others \<ge> el_tasks (b_limits b) then (Inl (ResourceLimit RESOURCE_TASKS), b)
      else (Inr (of_nat others), b))"

definition account_task :: "u32 \<Rightarrow> budget \<Rightarrow> budget" where
  "account_task live b =
     record_task_started (saturating_inc live)
       (b\<lparr>b_usage := (b_usage b)\<lparr>
            eu_tasks_started := saturating_inc (eu_tasks_started (b_usage b)),
            eu_maximum_live_tasks := max (eu_maximum_live_tasks (b_usage b)) (saturating_inc live)\<rparr>\<rparr>)"

text \<open>The input of the \<open>Decode\<close> instruction is charged before it is looked at.\<close>

definition charge_decode_input :: "nat \<Rightarrow> unit vm" where
  "charge_decode_input len b =
     (if 2 ^ 64 \<le> len then (Inl (ResourceLimit RESOURCE_DECODE_BYTES), b)
      else case checked_add_u64 (b_decode_input_bytes b) (of_nat len) of
        None \<Rightarrow> (Inl (ResourceLimit RESOURCE_DECODE_BYTES), b)
      | Some next \<Rightarrow>
          let b = b\<lparr>b_decode_input_bytes := next\<rparr>
          in if next > MAXIMUM_DECODE_BYTES then (Inl (ResourceLimit RESOURCE_DECODE_BYTES), b)
             else (Inr (), b))"

section \<open>Computations\<close>

lemma vm_bind_return [simp]: "vm_bind (vm_return x) f = f x" "vm_bind m vm_return = m"
  by (auto simp: vm_bind_def vm_return_def fun_eq_iff split: prod.split sum.split)

lemma vm_bind_assoc [simp]: "vm_bind (vm_bind m f) g = vm_bind m (\<lambda>x. vm_bind (f x) g)"
  by (auto simp: vm_bind_def fun_eq_iff split: prod.split sum.split)

lemma vm_bind_Inr [result_simps]:
  "vm_bind m f b = (Inr y, b') \<longleftrightarrow> (\<exists>x b1. m b = (Inr x, b1) \<and> f x b1 = (Inr y, b'))"
  by (auto simp: vm_bind_def split: prod.splits sum.splits)

lemma vm_lift_Inr [simp]: "vm_lift r b = (Inr x, b') \<longleftrightarrow> r = Inr x \<and> b' = b"
  by (auto simp: vm_lift_def)

lemma vm_return_Inr [simp]: "vm_return x b = (Inr y, b') \<longleftrightarrow> y = x \<and> b' = b"
  by (auto simp: vm_return_def)

lemma vm_fail_Inr [simp]: "vm_fail e b \<noteq> (Inr y, b')"
  by (simp add: vm_fail_def)

section \<open>Invariant\<close>

definition resource_bits :: "(nat \<times> string) list" where
  "resource_bits =
     [(0, RESOURCE_INSTRUCTIONS), (1, RESOURCE_ALLOCATION_BYTES), (2, RESOURCE_MAXIMUM_ALLOCATION_BYTES),
      (3, RESOURCE_CALL_DEPTH), (4, RESOURCE_WALL_TIME), (5, RESOURCE_TASKS), (6, RESOURCE_CONCURRENT_EFFECTS)]"

definition resource_limit :: "execution_limits \<Rightarrow> nat \<Rightarrow> u64" where
  "resource_limit l k =
     [el_instructions l, el_allocation_bytes l, el_maximum_allocation_bytes l, ucast (el_call_depth l),
      millis_u64 (el_wall_time l), ucast (el_tasks l), ucast (el_concurrent_effects l)] ! k"

text \<open>What was used stays within the limits.\<close>

definition within_limits :: "budget \<Rightarrow> bool" where
  "within_limits b \<longleftrightarrow>
     eu_instructions (b_usage b) \<le> el_instructions (b_limits b) \<and>
     eu_allocation_bytes (b_usage b) \<le> el_allocation_bytes (b_limits b) \<and>
     eu_maximum_call_depth (b_usage b) \<le> el_call_depth (b_limits b) \<and>
     eu_maximum_live_tasks (b_usage b) \<le> el_tasks (b_limits b) \<and>
     eu_maximum_concurrent_effects (b_usage b) = ec_maximum (b_effects b) \<and>
     ec_limit (b_effects b) = el_concurrent_effects (b_limits b) \<and>
     ec_active (b_effects b) \<le> ec_maximum (b_effects b) \<and>
     ec_maximum (b_effects b) \<le> ec_limit (b_effects b)"

text \<open>A warning names a bounded resource, its limit, and a use between nine tenths of it and all
  of it; each resource is warned about at most once, and the flags tell which.\<close>

definition warning_ok :: "execution_limits \<Rightarrow> budget_warning \<Rightarrow> bool" where
  "warning_ok l w \<longleftrightarrow>
     (\<exists>k. (k, bw_resource w) \<in> set resource_bits \<and> bw_limit w = resource_limit l k) \<and>
     bw_limit w \<noteq> - 1 \<and> warning_threshold (bw_limit w) \<le> bw_used w \<and> bw_used w \<le> bw_limit w"

definition warnings_ok :: "budget \<Rightarrow> bool" where
  "warnings_ok b \<longleftrightarrow>
     distinct (map bw_resource (b_warnings b)) \<and>
     (\<forall>w\<in>set (b_warnings b). warning_ok (b_limits b) w) \<and>
     (\<forall>(k, resource)\<in>set resource_bits. bit (b_warned b) k \<longleftrightarrow> resource \<in> bw_resource ` set (b_warnings b))"

lemmas resource_defs = RESOURCE_INSTRUCTIONS_def RESOURCE_ALLOCATION_BYTES_def
  RESOURCE_MAXIMUM_ALLOCATION_BYTES_def RESOURCE_CALL_DEPTH_def RESOURCE_WALL_TIME_def RESOURCE_TASKS_def
  RESOURCE_CONCURRENT_EFFECTS_def

lemmas warning_defs = WARNING_INSTRUCTIONS_def WARNING_ALLOCATION_BYTES_def
  WARNING_MAXIMUM_ALLOCATION_BYTES_def WARNING_CALL_DEPTH_def WARNING_WALL_TIME_def WARNING_TASKS_def
  WARNING_CONCURRENT_EFFECTS_def

lemma resource_bits_unique:
  "(k, r) \<in> set resource_bits \<Longrightarrow> (j, r') \<in> set resource_bits \<Longrightarrow> k = j \<longleftrightarrow> r = r'"
proof -
  have "distinct (map fst resource_bits)" "distinct (map snd resource_bits)" by code_simp+
  then show "(k, r) \<in> set resource_bits \<Longrightarrow> (j, r') \<in> set resource_bits \<Longrightarrow> k = j \<longleftrightarrow> r = r'"
    unfolding distinct_map by (metis inj_onD fst_conv snd_conv)
qed

lemma resource_bits_less: "(k, r) \<in> set resource_bits \<Longrightarrow> k < 7"
  by (auto simp: resource_bits_def)

lemma flag_unset: "(w :: u8) AND 2 ^ k = 0 \<longleftrightarrow> \<not> bit w k"
  by (rule and_exp_eq_0_iff_not_bit)

lemma bit_set_flag: "k < 8 \<Longrightarrow> bit ((w :: u8) OR 2 ^ k) j \<longleftrightarrow> bit w j \<or> j = k"
  by (auto simp: bit_or_iff bit_exp_iff)

lemma warn_once_ok:
  assumes "warnings_ok b" "(k, resource) \<in> set resource_bits"
    "limit = resource_limit (b_limits b) k" "used \<le> limit"
  shows "warnings_ok (warn_once (2 ^ k) resource used limit b)"
proof (cases "limit = - 1 \<or> bit (b_warned b) k \<or> used < warning_threshold limit")
  case True
  then show ?thesis using assms(1) by (auto simp: warn_once_def flag_unset)
next
  case False
  then have new: "resource \<notin> bw_resource ` set (b_warnings b)" using assms(1,2) by (fastforce simp: warnings_ok_def)
  have "k < 8" using resource_bits_less [OF assms(2)] by simp
  have bits: "bit (b_warned b OR 2 ^ k) j \<longleftrightarrow> r \<in> insert resource (bw_resource ` set (b_warnings b))"
    if "(j, r) \<in> set resource_bits" for j r
    using that assms(1) resource_bits_unique [OF assms(2) that] \<open>k < 8\<close>
    by (fastforce simp: warnings_ok_def bit_set_flag)
  have "warning_ok (b_limits b) \<lparr>bw_resource = resource, bw_used = used, bw_limit = limit\<rparr>"
    using False assms(2-4) by (auto simp: warning_ok_def)
  with False new bits assms(1) show ?thesis
    by (auto simp: warn_once_def warnings_ok_def flag_unset)
qed

lemma warn_once_frame [simp]:
  "b_limits (warn_once f r u l b) = b_limits b" "b_usage (warn_once f r u l b) = b_usage b"
  "b_effects (warn_once f r u l b) = b_effects b" "b_started (warn_once f r u l b) = b_started b"
  by (simp_all add: warn_once_def)

lemma within_limits_warn [simp]: "within_limits (warn_once f r u l b) = within_limits b"
  by (simp add: within_limits_def)

section \<open>Steps\<close>

text \<open>What the machine does to a budget. A task is accounted for only after its admission.\<close>

inductive budget_step :: "budget \<Rightarrow> budget \<Rightarrow> bool" where
  step_enter_frame: "budget_step b (snd (enter_frame depth b))"
| step_check_interruption: "budget_step b (snd (check_interruption cancelled now b))"
| step_charge_instruction: "budget_step b (snd (charge_instruction cp cancelled now b))"
| step_charge_allocation: "budget_step b (snd (charge_allocation bytes b))"
| step_start_effect: "budget_step b (snd (start_effect b))"
| step_complete_effect: "budget_step b (snd (complete_effect b))"
| step_charge_decode_input: "budget_step b (snd (charge_decode_input len b))"
| step_account_task: "admit_task others b = (Inr live, b) \<Longrightarrow> budget_step b (account_task live b)"

lemma warnings_ok_frame:
  assumes "b_limits b = b_limits b'" "b_warned b = b_warned b'" "b_warnings b = b_warnings b'"
  shows "warnings_ok b = warnings_ok b'"
  using assms by (simp add: warnings_ok_def)

lemma ucast_le_64: "(x :: u32) \<le> y \<Longrightarrow> (ucast x :: u64) \<le> ucast y"
proof -
  have u: "unat (ucast w :: u64) = unat w" for w :: u32
    using u32_less [of w] by (simp add: unsigned_ucast_eq take_bit_nat_eq_self)
  show "x \<le> y \<Longrightarrow> (ucast x :: u64) \<le> ucast y" by (simp add: word_le_nat_alt u)
qed

lemma millis_mono: "m \<le> n \<Longrightarrow> millis_u64 m \<le> millis_u64 n"
proof -
  assume "m \<le> n"
  then have "m div 10 ^ 6 \<le> n div 10 ^ 6" by (rule div_le_mono)
  then show ?thesis
    by (cases "n div 10 ^ 6 < 2 ^ 64") (simp_all add: millis_u64_def word_le_nat_alt [of "of_nat _"] unat_of_nat)
qed

lemma flags_as_powers: "WARNING_INSTRUCTIONS = 2 ^ 0" "WARNING_ALLOCATION_BYTES = 2 ^ 1"
  "WARNING_MAXIMUM_ALLOCATION_BYTES = 2 ^ 2" "WARNING_CALL_DEPTH = 2 ^ 3" "WARNING_WALL_TIME = 2 ^ 4"
  "WARNING_TASKS = 2 ^ 5" "WARNING_CONCURRENT_EFFECTS = 2 ^ 6"
  by (simp_all add: warning_defs)

lemmas warn_ok_at = warn_once_ok [of _ 0] warn_once_ok [of _ 1] warn_once_ok [of _ 2] warn_once_ok [of _ 3]
  warn_once_ok [of _ 4] warn_once_ok [of _ 5] warn_once_ok [of _ 6]

lemma counter_startD:
  "counter_start c = Inr c' \<Longrightarrow> ec_limit c' = ec_limit c \<and> ec_active c' \<le> ec_limit c \<and>
     ec_active c' \<le> ec_maximum c' \<and> ec_maximum c' = max (ec_maximum c) (ec_active c')"
  by (auto simp: counter_start_def result_simps split: if_splits)

lemma counter_completeD:
  "counter_complete c = Inr c' \<Longrightarrow> ec_limit c' = ec_limit c \<and> ec_maximum c' = ec_maximum c \<and> ec_active c' \<le> ec_active c"
  by (auto simp: counter_complete_def result_simps checked_sub_u32_Some word_le_nat_alt)

lemmas budget_ops = enter_frame_def check_interruption_def count_instruction_def charge_allocation_def
  start_effect_def complete_effect_def charge_decode_input_def account_task_def record_task_started_def

text \<open>A predicate on budgets kept by the two halves of \<open>charge_instruction\<close> is kept by it.\<close>

lemma charge_instruction_keeps:
  assumes "\<And>b. P b \<Longrightarrow> P (snd (check_interruption c n b))" "\<And>b. P b \<Longrightarrow> P (snd (count_instruction b))"
    and "P (b\<lparr>b_checkpoints := b_checkpoints b @ [cp]\<rparr>)"
  shows "P (snd (charge_instruction cp c n b))"
proof (cases "check_interruption c n (b\<lparr>b_checkpoints := b_checkpoints b @ [cp]\<rparr>)")
  case (Pair r b1)
  then have "P b1" using assms(1) [OF assms(3)] by simp
  with assms(2) Pair show ?thesis by (cases r) (simp_all add: charge_instruction_def vm_bind_def)
qed

lemma admitted_task: "admit_task others b = (Inr live, b') \<Longrightarrow> saturating_inc live \<le> el_tasks (b_limits b)"
proof -
  assume "admit_task others b = (Inr live, b')"
  then have "live < el_tasks (b_limits b)" by (auto simp: admit_task_def not_le split: if_splits)
  then show ?thesis using inc_le [of live "el_tasks (b_limits b)"] by (auto simp: saturating_inc_def)
qed

lemma step_limits: "budget_step b b' \<Longrightarrow> b_limits b' = b_limits b"
proof (induction rule: budget_step.induct)
  case (step_charge_instruction b cp c n)
  show ?case
    by (rule charge_instruction_keeps [where P = "\<lambda>x. b_limits x = b_limits b"])
      (simp_all add: budget_ops Let_def split: option.split)
qed (simp_all add: budget_ops Let_def split: option.split sum.split)

lemma step_within: "budget_step b b' \<Longrightarrow> within_limits b \<Longrightarrow> within_limits b'"
proof (induction rule: budget_step.induct)
  case (step_charge_instruction b cp c n)
  then show ?case
    by (intro charge_instruction_keeps [where P = within_limits])
      (auto simp: budget_ops within_limits_def Let_def not_less split: option.split)
next
  case (step_account_task others b live)
  with admitted_task [OF this(1)] show ?case by (auto simp: within_limits_def budget_ops)
next
  case (step_start_effect b)
  then show ?case
    by (auto simp: budget_ops within_limits_def Let_def split: sum.split dest!: counter_startD)
next
  case (step_complete_effect b)
  then show ?case
    by (auto simp: budget_ops within_limits_def split: sum.split dest!: counter_completeD)
qed (auto simp: budget_ops within_limits_def Let_def not_less split: option.split)

text \<open>The warnings.\<close>

definition budget_ok :: "budget \<Rightarrow> bool" where
  "budget_ok b \<longleftrightarrow> within_limits b \<and> warnings_ok b"

lemma warn_instructions_ok:
  "warnings_ok b \<Longrightarrow> n \<le> el_instructions (b_limits b) \<Longrightarrow>
   warnings_ok (warn_once WARNING_INSTRUCTIONS RESOURCE_INSTRUCTIONS n (el_instructions (b_limits b)) b)"
  using warn_once_ok [of b 0] by (simp add: flags_as_powers resource_bits_def resource_limit_def)

lemma warn_allocation_ok:
  "warnings_ok b \<Longrightarrow> n \<le> el_allocation_bytes (b_limits b) \<Longrightarrow>
   warnings_ok (warn_once WARNING_ALLOCATION_BYTES RESOURCE_ALLOCATION_BYTES n (el_allocation_bytes (b_limits b)) b)"
  using warn_once_ok [of b 1] by (simp add: flags_as_powers resource_bits_def resource_limit_def)

lemma warn_maximum_allocation_ok:
  "warnings_ok b \<Longrightarrow> n \<le> el_maximum_allocation_bytes (b_limits b) \<Longrightarrow>
   warnings_ok (warn_once WARNING_MAXIMUM_ALLOCATION_BYTES RESOURCE_MAXIMUM_ALLOCATION_BYTES n
     (el_maximum_allocation_bytes (b_limits b)) b)"
  using warn_once_ok [of b 2] by (simp add: flags_as_powers resource_bits_def resource_limit_def)

lemma warn_call_depth_ok:
  "warnings_ok b \<Longrightarrow> n \<le> el_call_depth (b_limits b) \<Longrightarrow>
   warnings_ok (warn_once WARNING_CALL_DEPTH RESOURCE_CALL_DEPTH (ucast n) (ucast (el_call_depth (b_limits b))) b)"
  using warn_once_ok [of b 3] by (simp add: flags_as_powers resource_bits_def resource_limit_def ucast_le_64)

lemma warn_wall_time_ok:
  "warnings_ok b \<Longrightarrow> n \<le> el_wall_time (b_limits b) \<Longrightarrow>
   warnings_ok (warn_once WARNING_WALL_TIME RESOURCE_WALL_TIME (millis_u64 n) (millis_u64 (el_wall_time (b_limits b))) b)"
  using warn_once_ok [of b 4] by (simp add: flags_as_powers resource_bits_def resource_limit_def millis_mono)

lemma warn_tasks_ok:
  "warnings_ok b \<Longrightarrow> n \<le> el_tasks (b_limits b) \<Longrightarrow>
   warnings_ok (warn_once WARNING_TASKS RESOURCE_TASKS (ucast n) (ucast (el_tasks (b_limits b))) b)"
  using warn_once_ok [of b 5] by (simp add: flags_as_powers resource_bits_def resource_limit_def ucast_le_64)

lemma warn_effects_ok:
  "warnings_ok b \<Longrightarrow> n \<le> el_concurrent_effects (b_limits b) \<Longrightarrow>
   warnings_ok (warn_once WARNING_CONCURRENT_EFFECTS RESOURCE_CONCURRENT_EFFECTS (ucast n)
     (ucast (el_concurrent_effects (b_limits b))) b)"
  using warn_once_ok [of b 6] by (simp add: flags_as_powers resource_bits_def resource_limit_def ucast_le_64)

lemmas warns_ok = warn_instructions_ok warn_allocation_ok warn_maximum_allocation_ok warn_call_depth_ok
  warn_wall_time_ok warn_tasks_ok warn_effects_ok

lemma warnings_ok_other [simp]:
  "warnings_ok (b\<lparr>b_usage := u\<rparr>) = warnings_ok b" "warnings_ok (b\<lparr>b_effects := e\<rparr>) = warnings_ok b"
  "warnings_ok (b\<lparr>b_checkpoints := c\<rparr>) = warnings_ok b" "warnings_ok (b\<lparr>b_decode_input_bytes := d\<rparr>) = warnings_ok b"
  by (simp_all add: warnings_ok_def)

lemma check_interruption_warnings: "warnings_ok b \<Longrightarrow> warnings_ok (snd (check_interruption c n b))"
  by (simp add: check_interruption_def Let_def warn_wall_time_ok)

lemma count_instruction_warnings: "warnings_ok b \<Longrightarrow> warnings_ok (snd (count_instruction b))"
proof (cases "checked_add_u64 (eu_instructions (b_usage b)) 1")
  case (Some k)
  then show "warnings_ok b \<Longrightarrow> ?thesis"
    using warn_instructions_ok [of "b\<lparr>b_usage := (b_usage b)\<lparr>eu_instructions := k\<rparr>\<rparr>" k]
    by (simp add: count_instruction_def not_less)
qed (simp add: count_instruction_def)

lemma charge_allocation_warnings:
  assumes "warnings_ok b"
  shows "warnings_ok (snd (charge_allocation n b))"
proof (cases "n \<le> el_maximum_allocation_bytes (b_limits b)")
  case True
  let ?b = "warn_once WARNING_MAXIMUM_ALLOCATION_BYTES RESOURCE_MAXIMUM_ALLOCATION_BYTES n
              (el_maximum_allocation_bytes (b_limits b)) b"
  have w: "warnings_ok ?b" using assms True by (rule warn_maximum_allocation_ok)
  show ?thesis
  proof (cases "checked_add_u64 (eu_allocation_bytes (b_usage b)) n")
    case (Some k)
    then show ?thesis
      using assms w True warn_allocation_ok [of "?b\<lparr>b_usage := (b_usage ?b)\<lparr>eu_allocation_bytes := k\<rparr>\<rparr>" k]
      by (simp add: charge_allocation_def Let_def not_less)
  qed (use assms w True in \<open>simp add: charge_allocation_def Let_def not_less\<close>)
qed (use assms in \<open>simp add: charge_allocation_def not_le\<close>)

lemma start_effect_warnings:
  assumes "warnings_ok b" "within_limits b"
  shows "warnings_ok (snd (start_effect b))"
proof (cases "counter_start (b_effects b)")
  case (Inr c)
  then have "ec_active c \<le> el_concurrent_effects (b_limits b)"
    using counter_startD [OF Inr] assms(2) by (auto simp: within_limits_def)
  then show ?thesis
    using Inr assms(1) warn_effects_ok [of "b\<lparr>b_effects := c,
        b_usage := (b_usage b)\<lparr>eu_maximum_concurrent_effects := ec_maximum c\<rparr>\<rparr>" "ec_active c"]
    by (simp add: start_effect_def Let_def)
qed (use assms in \<open>simp add: start_effect_def\<close>)

lemma enter_frame_warnings: "warnings_ok b \<Longrightarrow> warnings_ok (snd (enter_frame d b))"
  using warn_call_depth_ok [of "b\<lparr>b_usage := (b_usage b)\<lparr>eu_maximum_call_depth :=
      max (eu_maximum_call_depth (b_usage b)) d\<rparr>\<rparr>" d]
  by (simp add: enter_frame_def Let_def not_less)

lemma account_task_warnings:
  "warnings_ok b \<Longrightarrow> saturating_inc live \<le> el_tasks (b_limits b) \<Longrightarrow> warnings_ok (account_task live b)"
  using warn_tasks_ok [of "b\<lparr>b_usage := (b_usage b)\<lparr>
            eu_tasks_started := saturating_inc (eu_tasks_started (b_usage b)),
            eu_maximum_live_tasks := max (eu_maximum_live_tasks (b_usage b)) (saturating_inc live)\<rparr>\<rparr>" "saturating_inc live"]
  by (simp add: account_task_def record_task_started_def)

lemma step_warnings: "budget_step b b' \<Longrightarrow> within_limits b \<Longrightarrow> warnings_ok b \<Longrightarrow> warnings_ok b'"
proof (induction rule: budget_step.induct)
  case (step_charge_instruction b cp c n)
  then show ?case
    by (intro charge_instruction_keeps [where P = warnings_ok])
      (simp_all add: check_interruption_warnings count_instruction_warnings)
next
  case (step_charge_decode_input b len)
  then show ?case by (simp add: charge_decode_input_def Let_def split: option.split)
next
  case (step_complete_effect b)
  then show ?case by (simp add: complete_effect_def split: sum.split)
qed (simp_all add: check_interruption_warnings charge_allocation_warnings start_effect_warnings
    enter_frame_warnings account_task_warnings admitted_task)

interpretation budget: inductive_invariant budget_step budget_ok
  by unfold_locales (auto simp: budget_ok_def intro: step_within step_warnings)

lemma budget_new_ok: "budget_ok (budget_new limits now)"
  by (simp add: budget_ok_def within_limits_def warnings_ok_def budget_new_def counter_new_def)

lemma reaches_limits: "reaches budget_step b b' \<Longrightarrow> b_limits b' = b_limits b"
  by (induction rule: reaches.induct) (simp_all add: step_limits)

text \<open>Whatever the machine does, in whatever order and however its attempts fail, the
  instructions, the allocated bytes, the call depth, the live tasks and the effects in flight of an
  execution stay within its limits.\<close>

theorem usage_within_limits:
  assumes "reaches budget_step (budget_new limits now) b"
  shows "eu_instructions (b_usage b) \<le> el_instructions limits \<and>
    eu_allocation_bytes (b_usage b) \<le> el_allocation_bytes limits \<and>
    eu_maximum_call_depth (b_usage b) \<le> el_call_depth limits \<and>
    eu_maximum_live_tasks (b_usage b) \<le> el_tasks limits \<and>
    ec_active (b_effects b) \<le> eu_maximum_concurrent_effects (b_usage b) \<and>
    eu_maximum_concurrent_effects (b_usage b) \<le> el_concurrent_effects limits"
proof -
  have "within_limits b" "b_limits b = limits"
    using budget.reaches_inv [OF assms budget_new_ok] reaches_limits [OF assms]
    by (simp_all add: budget_ok_def budget_new_def)
  then show ?thesis by (auto simp: within_limits_def)
qed

definition small_limits :: execution_limits where
  "small_limits = default_limits\<lparr>el_allocation_bytes := 100, el_maximum_allocation_bytes := 64\<rparr>"

lemmas sample_budget = charge_allocation_def warn_once_def small_limits_def default_limits_def budget_new_def
  checked_add_u64_def Let_def warning_threshold_def warning_defs

lemma usage_within_limits_witness:
  "eu_allocation_bytes (b_usage (snd (charge_allocation 60 (snd (charge_allocation 60 (budget_new small_limits 0)))))) = 60 \<and>
   eu_allocation_bytes (b_usage (snd (charge_allocation 60 (snd (charge_allocation 60 (budget_new small_limits 0)))))) \<le> 100"
proof -
  let ?b = "snd (charge_allocation 60 (snd (charge_allocation 60 (budget_new small_limits 0))))"
  have "reaches budget_step (budget_new small_limits 0) ?b"
    by (blast intro: reaches.intros step_charge_allocation)
  from usage_within_limits [OF this] have "eu_allocation_bytes (b_usage ?b) \<le> 100"
    by (simp add: small_limits_def)
  moreover have "eu_allocation_bytes (b_usage ?b) = 60" by (simp add: sample_budget)
  ultimately show ?thesis by simp
qed

text \<open>The observer hears at most once about each resource, only about a resource that has a
  limit, and only with a use between the warning threshold and the limit.\<close>

theorem warned_once_near_the_limit:
  assumes "reaches budget_step (budget_new limits now) b"
  shows "distinct (map bw_resource (b_warnings b)) \<and>
    (\<forall>w\<in>set (b_warnings b). bw_limit w \<noteq> - 1 \<and> warning_threshold (bw_limit w) \<le> bw_used w \<and>
       bw_used w \<le> bw_limit w)"
  using budget.reaches_inv [OF assms budget_new_ok] by (auto simp: budget_ok_def warnings_ok_def warning_ok_def)

lemma warned_once_near_the_limit_witness:
  "map bw_resource (b_warnings (snd (charge_allocation 36 (snd (charge_allocation 60 (budget_new small_limits 0)))))) =
     [''maximum_allocation_bytes'', ''allocation_bytes''] \<and>
   distinct (map bw_resource (b_warnings (snd (charge_allocation 36 (snd (charge_allocation 60 (budget_new small_limits 0)))))))"
proof -
  let ?b = "snd (charge_allocation 36 (snd (charge_allocation 60 (budget_new small_limits 0))))"
  have "reaches budget_step (budget_new small_limits 0) ?b"
    by (blast intro: reaches.intros step_charge_allocation)
  from warned_once_near_the_limit [OF this] have "distinct (map bw_resource (b_warnings ?b))" by blast
  moreover have "map bw_resource (b_warnings ?b) = [''maximum_allocation_bytes'', ''allocation_bytes'']"
    by (simp add: sample_budget RESOURCE_MAXIMUM_ALLOCATION_BYTES_def RESOURCE_ALLOCATION_BYTES_def)
  ultimately show ?thesis by simp
qed

end
