(* ===== verification/Vm_Registers.thy ===== *)
theory Vm_Registers
  imports Vm_Budget
begin

text \<open>
  Registers of a frame and the values the machine's helpers build (\<open>allen-vm/src/lib.rs\<close>):
  constants, records, enums, options and results, with the bytes they charge.
\<close>

type_synonym register = "16 word"
type_synonym registers = "vm_value option list"

section \<open>Registers\<close>

definition read_register :: "registers \<Rightarrow> register \<Rightarrow> vm_error + vm_value" where
  "read_register rs r =
     (if unat r < length rs
      then ok_or (rs ! unat r) (Invariant ''register has no value'')
      else Inl (Invariant ''register has no value''))"

definition read_int :: "registers \<Rightarrow> register \<Rightarrow> vm_error + i64" where
  "read_int rs r = result_bind (read_register rs r) (\<lambda>v.
     case v of VInt i \<Rightarrow> Inr i | _ \<Rightarrow> Inl (Invariant ''integer operand contains another type''))"

definition read_float :: "registers \<Rightarrow> register \<Rightarrow> vm_error + u64" where
  "read_float rs r = result_bind (read_register rs r) (\<lambda>v.
     case v of VFloat b \<Rightarrow> Inr b | _ \<Rightarrow> Inl (Invariant ''float operand contains another type''))"

definition read_bool :: "registers \<Rightarrow> register \<Rightarrow> vm_error + bool" where
  "read_bool rs r = result_bind (read_register rs r) (\<lambda>v.
     case v of VBool b \<Rightarrow> Inr b | _ \<Rightarrow> Inl (Invariant ''Boolean operand contains another type''))"

definition read_string :: "registers \<Rightarrow> register \<Rightarrow> vm_error + string" where
  "read_string rs r = result_bind (read_register rs r) (\<lambda>v.
     case v of VString s \<Rightarrow> Inr s | _ \<Rightarrow> Inl (Invariant ''String operation operand is not String''))"

definition read_string_list :: "registers \<Rightarrow> register \<Rightarrow> vm_error + vm_value list" where
  "read_string_list rs r = result_bind (read_register rs r) (\<lambda>v.
     case v of VList vs \<Rightarrow> Inr vs | _ \<Rightarrow> Inl (Invariant ''String operation operand is not List''))"

text \<open>The \<open>let Value::List(..) = read_register(..)? else\<close> of the collection operations; the text is
  the one of the operation.\<close>

definition read_list :: "string \<Rightarrow> registers \<Rightarrow> register \<Rightarrow> vm_error + vm_value list" where
  "read_list msg rs r = result_bind (read_register rs r) (\<lambda>v.
     case v of VList vs \<Rightarrow> Inr vs | _ \<Rightarrow> Inl (Invariant msg))"

definition read_bytes :: "string \<Rightarrow> registers \<Rightarrow> register \<Rightarrow> vm_error + bytes" where
  "read_bytes msg rs r = result_bind (read_register rs r) (\<lambda>v.
     case v of VBytes b \<Rightarrow> Inr b | _ \<Rightarrow> Inl (Invariant msg))"

definition read_map :: "string \<Rightarrow> registers \<Rightarrow> register \<Rightarrow> vm_error + (vm_value \<times> vm_value) list" where
  "read_map msg rs r = result_bind (read_register rs r) (\<lambda>v.
     case v of VMap es \<Rightarrow> Inr es | _ \<Rightarrow> Inl (Invariant msg))"

definition write_register :: "registers \<Rightarrow> register \<Rightarrow> vm_value \<Rightarrow> vm_error + registers" where
  "write_register rs r v =
     (if unat r < length rs then Inr (rs[unat r := Some v])
      else Inl (Invariant ''destination register is missing''))"

fun clone_registers :: "registers \<Rightarrow> register list \<Rightarrow> vm_error + vm_value list" where
  "clone_registers rs [] = Inr []"
| "clone_registers rs (r # srcs) =
     result_bind (read_register rs r) (\<lambda>v.
     result_bind (clone_registers rs srcs) (\<lambda>vs. Inr (v # vs)))"

fun write_bindings :: "registers \<Rightarrow> (vm_value \<times> register) list \<Rightarrow> vm_error + registers" where
  "write_bindings rs [] = Inr rs"
| "write_bindings rs ((v, r) # bs) = result_bind (write_register rs r v) (\<lambda>rs. write_bindings rs bs)"

text \<open>An error ends the execution; the registers written before it are not looked at again.\<close>

definition write_switch_bindings :: "registers \<Rightarrow> enum_payload \<Rightarrow> register list \<Rightarrow> vm_error + registers" where
  "write_switch_bindings rs payload bindings =
     (case payload of
        PRecord fs \<Rightarrow>
          if length bindings \<noteq> length fs then Inl (Invariant ''record switch binding count is invalid'')
          else write_bindings rs (zip (map snd fs) bindings)
      | PTuple vs \<Rightarrow>
          if length vs \<noteq> length bindings then Inl (Invariant ''enum switch binding count is invalid'')
          else write_bindings rs (zip vs bindings)
      | PUnit \<Rightarrow>
          if bindings \<noteq> [] then Inl (Invariant ''enum switch binding count is invalid'') else Inr rs)"

section \<open>Building values\<close>

definition builtin_enum :: "enum_identity \<Rightarrow> u32 \<Rightarrow> enum_payload \<Rightarrow> vm_value" where
  "builtin_enum identity variant payload =
     (let (type_name, variant_name) =
        (if identity = OptionEnum \<and> variant = 0 then (''Option'', ''None'')
         else if identity = OptionEnum \<and> variant = 1 then (''Option'', ''Some'')
         else if identity = ResultEnum \<and> variant = 0 then (''Result'', ''Ok'')
         else if identity = ResultEnum \<and> variant = 1 then (''Result'', ''Err'')
         else ([], []))
      in VEnum identity type_name variant variant_name payload)"

definition option_none :: vm_value where
  "option_none = builtin_enum OptionEnum 0 PUnit"

definition option_some :: "vm_value \<Rightarrow> vm_value" where
  "option_some v = builtin_enum OptionEnum 1 (PTuple [v])"

definition charge_size :: "vm_error + u64 \<Rightarrow> unit vm" where
  "charge_size sz = vm_bind (vm_lift sz) charge_allocation"

definition allocate_string :: "string \<Rightarrow> vm_value vm" where
  "allocate_string s =
     vm_bind (charge_size (logical_size 8 (length s) 1)) (\<lambda>_. vm_return (VString s))"

definition allocated_some_string :: "string \<Rightarrow> vm_value vm" where
  "allocated_some_string s =
     vm_bind (charge_size
        (result_bind (enum_size 1) (\<lambda>a. result_bind (string_size s) (\<lambda>b. checked_allocation_add a b))))
       (\<lambda>_. vm_return (option_some (VString s)))"

definition standard_result_ok :: "vm_value \<Rightarrow> vm_value vm" where
  "standard_result_ok v =
     vm_bind (charge_size (enum_size 1)) (\<lambda>_. vm_return (builtin_enum ResultEnum 0 (PTuple [v])))"

definition standard_result_error :: "string \<Rightarrow> string \<Rightarrow> vm_value vm" where
  "standard_result_error code message =
     vm_bind (charge_size
        (result_bind (enum_size 1) (\<lambda>a. result_bind (record_size 2) (\<lambda>b.
         result_bind (checked_allocation_add a b) (\<lambda>ab.
         result_bind (string_size code) (\<lambda>c. result_bind (string_size message) (\<lambda>d.
         result_bind (checked_allocation_add c d) (\<lambda>cd. checked_allocation_add ab cd))))))))
       (\<lambda>_. vm_return (builtin_enum ResultEnum 1
              (PTuple [VRecord [(''code'', VString code), (''message'', VString message)]])))"

fun materialize_constant :: "bytecode_constant \<Rightarrow> vm_value vm" where
  "materialize_constant (CInt i) = vm_return (VInt i)"
| "materialize_constant (CBool b) = vm_return (VBool b)"
| "materialize_constant (CFloat bits) = vm_return (VFloat (canonical_float_bits bits))"
| "materialize_constant (CString s) =
     vm_bind (charge_size (logical_size 8 (length s) 1)) (\<lambda>_. vm_return (VString s))"
| "materialize_constant (CBytes b) =
     vm_bind (charge_size (logical_size 8 (length b) 1)) (\<lambda>_. vm_return (VBytes b))"
| "materialize_constant (CExternalFsAccess a) = vm_return (VExternalFsAccess a)"
| "materialize_constant CUnit = vm_return VUnit"

text \<open>\<open>construct_record\<close>: the loop from field \<open>i\<close>.\<close>

fun record_fields :: "registers \<Rightarrow> nat \<Rightarrow> (string \<times> value_type) list \<Rightarrow> (u32 \<times> register) list \<Rightarrow>
    vm_error + (string \<times> vm_value) list" where
  "record_fields rs i [] srcs = Inr []"
| "record_fields rs i ((name, t) # lay) srcs =
     (case srcs of
        [] \<Rightarrow> Inl (Invariant ''record field is missing'')
      | (field_index, src) # srcs' \<Rightarrow>
          if unat field_index \<noteq> i then Inl (Invariant ''record fields are not in canonical order'')
          else
            result_bind (read_register rs src) (\<lambda>v.
            result_bind (record_fields rs (Suc i) lay srcs') (\<lambda>vs. Inr ((name, v) # vs))))"

definition construct_record :: "registers \<Rightarrow> (string \<times> value_type) list \<Rightarrow> (u32 \<times> register) list \<Rightarrow>
    vm_error + (string \<times> vm_value) list" where
  "construct_record rs lay srcs =
     (if length srcs \<noteq> length lay then Inl (Invariant ''record has the wrong field count'')
      else record_fields rs 0 lay srcs)"

definition construct_payload :: "enum_payload_type \<Rightarrow> registers \<Rightarrow> register list \<Rightarrow> vm_error + enum_payload" where
  "construct_payload t rs srcs =
     (case t of
        TPUnit \<Rightarrow> if srcs \<noteq> [] then Inl (Invariant ''unit variant has a payload'') else Inr PUnit
      | TPTuple ts \<Rightarrow>
          if length srcs \<noteq> length ts then Inl (Invariant ''tuple variant has the wrong payload count'')
          else result_bind (clone_registers rs srcs) (\<lambda>vs. Inr (PTuple vs))
      | TPRecord fs \<Rightarrow>
          if length srcs \<noteq> length fs then Inl (Invariant ''record variant has the wrong payload count'')
          else result_bind (clone_registers rs srcs) (\<lambda>vs. Inr (PRecord (zip (map fst fs) vs))))"

definition construct_builtin_enum ::
  "enum_identity \<Rightarrow> u32 \<Rightarrow> enum_payload_type \<Rightarrow> registers \<Rightarrow> register list \<Rightarrow> vm_error + vm_value" where
  "construct_builtin_enum identity variant t rs srcs =
     result_bind (construct_payload t rs srcs) (\<lambda>p. Inr (builtin_enum identity variant p))"

definition construct_enum ::
  "enum_type list \<Rightarrow> value_type \<Rightarrow> u32 \<Rightarrow> registers \<Rightarrow> register list \<Rightarrow> vm_error + vm_value" where
  "construct_enum enum_types t variant rs srcs =
     (case t of
        TEnum type_id \<Rightarrow>
          if \<not> unat type_id < length enum_types then Inl (Invariant ''enum type is missing'')
          else
            let et = enum_types ! unat type_id
            in if \<not> unat variant < length (et_variants et) then Inl (Invariant ''enum variant is missing'')
               else
                 let ev = et_variants et ! unat variant
                 in result_bind (construct_payload (ev_payload ev) rs srcs) (\<lambda>p.
                    Inr (VEnum (UserEnum type_id) (et_name et) variant (ev_name ev) p))
      | TOption e \<Rightarrow>
          if variant = 0 then construct_builtin_enum OptionEnum variant TPUnit rs srcs
          else if variant = 1 then construct_builtin_enum OptionEnum variant (TPTuple [e]) rs srcs
          else Inl (Invariant ''Option variant is missing'')
      | TResult ok err \<Rightarrow>
          if variant = 0 then construct_builtin_enum ResultEnum variant (TPTuple [ok]) rs srcs
          else if variant = 1 then construct_builtin_enum ResultEnum variant (TPTuple [err]) rs srcs
          else Inl (Invariant ''Result variant is missing'')
      | _ \<Rightarrow> Inl (Invariant ''enum destination contains another type''))"

section \<open>Charges\<close>

text \<open>A helper that only charges and returns: it returns the value when the charge is granted.\<close>

definition granted :: "vm_error + u64 \<Rightarrow> budget \<Rightarrow> bool" where
  "granted sz b \<longleftrightarrow> is_ok (fst (charge_size sz b))"

lemma charge_then:
  "vm_bind (charge_size sz) (\<lambda>_. vm_return v) b = (Inr w, b') \<longleftrightarrow>
     w = v \<and> charge_size sz b = (Inr (), b')"
  by (auto simp: vm_bind_def vm_return_def split: prod.splits sum.splits)

lemma charge_size_Inr:
  "charge_size sz b = (Inr (), b') \<longleftrightarrow> (\<exists>n. sz = Inr n \<and> charge_allocation n b = (Inr (), b'))"
  by (cases sz) (auto simp: charge_size_def vm_bind_def vm_lift_def)

lemma option_some_simps [simp]:
  "option_some v = VEnum OptionEnum ''Option'' 1 ''Some'' (PTuple [v])"
  "option_none = VEnum OptionEnum ''Option'' 0 ''None'' PUnit"
  by (simp_all add: option_some_def option_none_def builtin_enum_def)

end
