(* ===== verification/Vm_Int.thy ===== *)
theory Vm_Int
  imports Vm_Registers "HOL-Library.Signed_Division"
begin

text \<open>
  Integer arithmetic of the virtual machine (\<open>allen-vm/src/lib.rs\<close>): trapping and checked
  operations on \<open>i64\<close>, and the reading of integers from text.
\<close>

section \<open>Checked operations of i64\<close>

definition fits_i64 :: "int \<Rightarrow> bool" where
  "fits_i64 x \<longleftrightarrow> - (2 ^ 63) \<le> x \<and> x < 2 ^ 63"

definition checked_i64 :: "int \<Rightarrow> i64 option" where
  "checked_i64 x = (if fits_i64 x then Some (word_of_int x) else None)"

definition checked_add_i64 :: "i64 \<Rightarrow> i64 \<Rightarrow> i64 option" where
  "checked_add_i64 a b = checked_i64 (sint a + sint b)"

definition checked_sub_i64 :: "i64 \<Rightarrow> i64 \<Rightarrow> i64 option" where
  "checked_sub_i64 a b = checked_i64 (sint a - sint b)"

definition checked_mul_i64 :: "i64 \<Rightarrow> i64 \<Rightarrow> i64 option" where
  "checked_mul_i64 a b = checked_i64 (sint a * sint b)"

text \<open>Division truncates; it fails on a zero divisor and on the one quotient out of range.\<close>

definition checked_div_i64 :: "i64 \<Rightarrow> i64 \<Rightarrow> i64 option" where
  "checked_div_i64 a b = (if b = 0 then None else checked_i64 (sint a sdiv sint b))"

definition checked_rem_i64 :: "i64 \<Rightarrow> i64 \<Rightarrow> i64 option" where
  "checked_rem_i64 a b =
     (if b = 0 \<or> sint a = - (2 ^ 63) \<and> sint b = - 1 then None else checked_i64 (sint a smod sint b))"

definition checked_neg_i64 :: "i64 \<Rightarrow> i64 option" where
  "checked_neg_i64 a = checked_i64 (- sint a)"

section \<open>Operations of the machine\<close>

definition int_binary :: "numeric_binary_op \<Rightarrow> i64 \<Rightarrow> i64 \<Rightarrow> vm_error + i64" where
  "int_binary operation left right =
     (case operation of
        OpAdd \<Rightarrow> ok_or (checked_add_i64 left right) ArithmeticOverflow
      | OpSubtract \<Rightarrow> ok_or (checked_sub_i64 left right) ArithmeticOverflow
      | OpMultiply \<Rightarrow> ok_or (checked_mul_i64 left right) ArithmeticOverflow
      | OpDivide \<Rightarrow>
          if right = 0 then Inl DivisionByZero
          else ok_or (checked_div_i64 left right) ArithmeticOverflow)"

definition int_remainder :: "i64 \<Rightarrow> i64 \<Rightarrow> vm_error + i64" where
  "int_remainder left right =
     (if right = 0 then Inl DivisionByZero
      else if sint left = - (2 ^ 63) \<and> sint right = - 1 then Inr 0
      else ok_or (checked_rem_i64 left right) ArithmeticOverflow)"

definition checked_int_operand :: "checked_int_operation \<Rightarrow> i64 \<Rightarrow> i64 \<Rightarrow> i64 option" where
  "checked_int_operand operation left right =
     (case operation of
        CheckedAdd \<Rightarrow> checked_add_i64 left right
      | CheckedSubtract \<Rightarrow> checked_sub_i64 left right
      | CheckedMultiply \<Rightarrow> checked_mul_i64 left right
      | CheckedDivide \<Rightarrow> checked_div_i64 left right
      | CheckedRemainder \<Rightarrow> if sint right = - 1 then Some 0 else checked_rem_i64 left right
      | CheckedNegate \<Rightarrow> None)"

definition checked_int_call :: "registers \<Rightarrow> checked_int_operation \<Rightarrow> register list \<Rightarrow> vm_value vm" where
  "checked_int_call rs operation arguments =
     vm_bind (vm_lift
       (if operation = CheckedNegate then
          (case arguments of
             [v] \<Rightarrow> result_bind (read_int rs v) (\<lambda>i. Inr (checked_neg_i64 i))
           | _ \<Rightarrow> Inl (Invariant ''int.checked_neg arity is invalid''))
        else
          (case arguments of
             [l, r] \<Rightarrow>
               result_bind (read_int rs l) (\<lambda>left.
               result_bind (read_int rs r) (\<lambda>right. Inr (checked_int_operand operation left right)))
           | _ \<Rightarrow> Inl (Invariant ''checked integer operation arity is invalid''))))
     (\<lambda>result. case result of
        Some i \<Rightarrow> vm_bind (charge_size (enum_size 1)) (\<lambda>_. vm_return (option_some (VInt i)))
      | None \<Rightarrow> vm_return option_none)"

section \<open>Integers as text\<close>

datatype int_parse_error = IntInvalid | IntOverflow

fun parse_digits :: "bool \<Rightarrow> i64 \<Rightarrow> string \<Rightarrow> i64 option" where
  "parse_digits negative v [] = Some v"
| "parse_digits negative v (c # cs) =
     (let digit = of_nat (of_char c - 48)
      in case Option.bind (checked_mul_i64 v 10)
               (\<lambda>v. if negative then checked_sub_i64 v digit else checked_add_i64 v digit) of
           None \<Rightarrow> None
         | Some v \<Rightarrow> parse_digits negative v cs)"

definition parse_int :: "string \<Rightarrow> int_parse_error + i64" where
  "parse_int text =
     (let (negative, digits) = (case text of CHR ''-'' # ds \<Rightarrow> (True, ds) | _ \<Rightarrow> (False, text))
      in if digits = [] \<or> \<not> list_all is_ascii_digit digits \<or> (length digits > 1 \<and> hd digits = CHR ''0'')
            \<or> (negative \<and> digits = ''0'')
         then Inl IntInvalid
         else ok_or (parse_digits negative 0 digits) IntOverflow)"

definition standard_to_int :: "registers \<Rightarrow> register list \<Rightarrow> vm_value vm" where
  "standard_to_int rs arguments =
     (case arguments of
        [text] \<Rightarrow>
          vm_bind (vm_lift (read_string rs text)) (\<lambda>s.
          case parse_int s of
            Inr i \<Rightarrow> standard_result_ok (VInt i)
          | Inl IntInvalid \<Rightarrow> standard_result_error ''parse.invalid_int'' ''expected a canonical base-10 Int''
          | Inl IntOverflow \<Rightarrow> standard_result_error ''parse.int_overflow'' ''integer text is outside the Int range'')
      | _ \<Rightarrow> vm_fail (Invariant ''to_int arity is invalid''))"

text \<open>\<open>Display\<close> for \<open>i64\<close>.\<close>

definition show_i64 :: "i64 \<Rightarrow> string" where
  "show_i64 i = (if sint i < 0 then CHR ''-'' # show_nat (nat (- sint i)) else show_nat (nat (sint i)))"

section \<open>Arithmetic\<close>

lemma sint_fits [simp]: "fits_i64 (sint (w :: i64))"
  using sint_greater_eq [of w] sint_less [of w] by (simp add: fits_i64_def)

lemma sint_word_of_int: "fits_i64 x \<Longrightarrow> sint (word_of_int x :: i64) = x"
  by (simp add: fits_i64_def signed_of_int signed_take_bit_int_eq_self)

lemma checked_i64_Some: "checked_i64 x = Some w \<longleftrightarrow> fits_i64 x \<and> sint w = x"
proof
  assume "fits_i64 x \<and> sint w = x"
  moreover have "word_of_int (sint w) = w" by simp
  ultimately show "checked_i64 x = Some w" by (simp add: checked_i64_def)
qed (auto simp: checked_i64_def sint_word_of_int split: if_splits)

lemma checked_i64_None: "checked_i64 x = None \<longleftrightarrow> \<not> fits_i64 x"
  by (simp add: checked_i64_def)

lemmas checked_defs = checked_add_i64_def checked_sub_i64_def checked_mul_i64_def checked_div_i64_def
  checked_rem_i64_def checked_neg_i64_def

lemma sint_eq_0 [simp]: "sint (w :: i64) = 0 \<longleftrightarrow> w = 0"
  by (metis sint_0 signed_word_eqI)

lemma fits_smod: "b \<noteq> 0 \<Longrightarrow> fits_i64 b \<Longrightarrow> fits_i64 (a smod b)"
  using smod_int_range [of b a] by (auto simp: fits_i64_def)

text \<open>The remainder exists for every divisor but zero.\<close>

lemma int_remainder_exact:
  "int_remainder l r = Inr m \<longleftrightarrow> r \<noteq> 0 \<and> sint m = sint l smod sint r"
proof (cases "sint l = - (2 ^ 63) \<and> sint r = - 1")
  case True
  then have "r \<noteq> 0" "sint l smod sint r = 0" by (auto simp: smod_int_alt_def)
  with True show ?thesis using signed_word_eqI [of m 0] by (auto simp: int_remainder_def)
next
  case False
  then show ?thesis
    using fits_smod [of "sint r" "sint l"]
    by (auto simp: int_remainder_def checked_rem_i64_def checked_i64_Some)
qed

lemma int_divide_exact:
  "int_binary OpDivide l r = Inr q \<longleftrightarrow> r \<noteq> 0 \<and> sint q = sint l sdiv sint r"
  by (auto simp: int_binary_def checked_div_i64_def checked_i64_Some) (metis sint_fits)

lemma smod_sign:
  assumes "r \<noteq> 0" "l smod r \<noteq> (0 :: int)"
  shows "sgn (l smod r) = sgn l"
proof -
  have r: "0 < r \<or> r < 0" using assms(1) by linarith
  show ?thesis
  proof (cases "0 < l")
    case True
    then have "0 \<le> l smod r" using r smod_int_compares(2,6) [of l r] by auto
    with True assms(2) show ?thesis by (auto simp: sgn_if)
  next
    case False
    then have "l smod r \<le> 0" using r smod_int_compares(4,7) [of l r] by auto
    moreover have "l \<noteq> 0" using assms(2) by auto
    ultimately show ?thesis using False assms(2) by (auto simp: sgn_if)
  qed
qed

lemma quotient_missing:
  assumes "r \<noteq> 0" "int_binary OpDivide l r = Inl e"
  shows "e = ArithmeticOverflow \<and> sint l = - (2 ^ 63) \<and> sint r = - 1"
proof -
  have e: "e = ArithmeticOverflow" "\<not> fits_i64 (sint l sdiv sint r)"
    using assms by (auto simp: int_binary_def checked_div_i64_def checked_i64_None)
  have "\<bar>sint l\<bar> \<le> 2 ^ 63" using sint_fits [of l] by (auto simp: fits_i64_def)
  with e(2) sdiv_int_range [of "sint l" "sint r"] have q: "sint l sdiv sint r = 2 ^ 63"
    by (auto simp: fits_i64_def)
  with sdiv_int_range [of "sint l" "sint r"] sint_fits [of l] have l: "sint l = - (2 ^ 63)"
    by (auto simp: fits_i64_def abs_if split: if_splits)
  with q have "sint r = - 1" using int_sdiv_negated_is_minus1 [of "sint l" "sint r"] by simp
  with e(1) l show ?thesis by simp
qed

text \<open>Division and remainder fit together: whenever the quotient exists so does the
  remainder, the dividend is quotient times divisor plus remainder, the remainder is smaller than
  the divisor and has the sign of the dividend; the quotient is missing only for a zero divisor and
  for the least integer divided by minus one, where the remainder is still zero.\<close>

theorem division_law:
  assumes "r \<noteq> 0"
  shows "\<exists>m. int_remainder l r = Inr m \<and> \<bar>sint m\<bar> < \<bar>sint r\<bar> \<and> (sint m \<noteq> 0 \<longrightarrow> sgn (sint m) = sgn (sint l)) \<and>
    (case int_binary OpDivide l r of
       Inr q \<Rightarrow> sint l = sint q * sint r + sint m
     | Inl e \<Rightarrow> e = ArithmeticOverflow \<and> sint l = - (2 ^ 63) \<and> sint r = - 1 \<and> m = 0)"
proof -
  have r0: "sint r \<noteq> 0" using assms by simp
  define m :: i64 where "m = word_of_int (sint l smod sint r)"
  have m: "sint m = sint l smod sint r"
    using fits_smod [OF r0 sint_fits] by (simp add: m_def sint_word_of_int)
  have less: "\<bar>sint m\<bar> < \<bar>sint r\<bar>" using smod_int_range [OF r0, of "sint l"] m by auto
  have quot: "case int_binary OpDivide l r of
       Inr q \<Rightarrow> sint l = sint q * sint r + sint m
     | Inl e \<Rightarrow> e = ArithmeticOverflow \<and> sint l = - (2 ^ 63) \<and> sint r = - 1 \<and> m = 0"
  proof (cases "int_binary OpDivide l r")
    case (Inr q)
    then have "sint q = sint l sdiv sint r" using int_divide_exact by blast
    with Inr m sdiv_mult_smod_eq [of "sint l" "sint r"] show ?thesis by simp
  next
    case (Inl e)
    with quotient_missing [OF assms Inl] less show ?thesis by simp
  qed
  show ?thesis
    using m less smod_sign [OF r0, of "sint l"] quot assms by (intro exI [of _ m]) (simp add: int_remainder_exact)
qed

lemma division_law_witness:
  "\<exists>m. int_remainder (- 7) 2 = Inr m \<and> sint m = - 1 \<and> \<bar>sint m\<bar> < \<bar>sint (2 :: i64)\<bar>"
proof -
  obtain m where m: "int_remainder (- 7) 2 = Inr m" "\<bar>sint m\<bar> < \<bar>sint (2 :: i64)\<bar>"
    using division_law [of 2 "- 7"] by auto
  moreover have "sint m = - 1" using m(1) by (simp add: int_remainder_exact)
  ultimately show ?thesis by blast
qed

section \<open>Reading and printing\<close>

definition signed_value :: "bool \<Rightarrow> int \<Rightarrow> int" where
  "signed_value negative n = (if negative then - n else n)"

lemma sint_digit: "is_ascii_digit c \<Longrightarrow> sint (of_nat (of_char c - 48) :: i64) = int (digit_val c)"
proof -
  assume "is_ascii_digit c"
  then have "digit_val c < 10" using is_ascii_digit_val by blast
  then have "fits_i64 (int (digit_val c))" by (simp add: fits_i64_def)
  then show ?thesis using sint_word_of_int [of "int (digit_val c)"] by (simp add: digit_val_def)
qed

lemma checked_shift:
  assumes "fits_i64 (sint v * 10 + e) \<Longrightarrow> fits_i64 (sint v * 10)"
  shows "Option.bind (checked_mul_i64 v 10) (\<lambda>x. checked_i64 (sint x + e)) = Some u \<longleftrightarrow>
    fits_i64 (sint v * 10 + e) \<and> sint u = sint v * 10 + e"
proof (cases "fits_i64 (sint v * 10)")
  case True
  then obtain x where "checked_mul_i64 v 10 = Some x" "sint x = sint v * 10"
    using checked_i64_Some [of "sint v * 10"] sint_word_of_int [OF True] by (auto simp: checked_mul_i64_def)
  then show ?thesis by (simp add: checked_i64_Some)
next
  case False
  with assms show ?thesis by (auto simp: checked_mul_i64_def checked_i64_def)
qed

text \<open>Reading digits computes the exact value and fails exactly when it is out of range: the
  magnitude only grows.\<close>

lemma parse_digits_Some:
  assumes "list_all is_ascii_digit cs" "0 \<le> m" "sint v = signed_value negative m"
  shows "parse_digits negative v cs = Some w \<longleftrightarrow>
    fits_i64 (signed_value negative (m * 10 ^ length cs + int (dec_value cs))) \<and>
    sint w = signed_value negative (m * 10 ^ length cs + int (dec_value cs))"
  using assms
proof (induction cs arbitrary: m v)
  case Nil
  moreover have "sint v = sint w \<longleftrightarrow> v = w" by (metis signed_word_eqI)
  ultimately show ?case using sint_fits [of v] by (auto simp: dec_value_def)
next
  case (Cons c cs)
  let ?d = "int (digit_val c)" and ?n = "m * 10 ^ length (c # cs) + int (dec_value (c # cs))"
  let ?digit = "of_nat (of_char c - 48) :: i64"
  let ?b = "Option.bind (checked_mul_i64 v 10)
    (\<lambda>v. if negative then checked_sub_i64 v ?digit else checked_add_i64 v ?digit)"
  have d: "sint ?digit = ?d" using Cons.prems(1) sint_digit by simp
  have exact: "?n = (10 * m + ?d) * 10 ^ length cs + int (dec_value cs)"
    by (simp add: dec_value_Cons algebra_simps)
  have ge: "10 * m + ?d \<le> ?n" "10 * m \<le> 10 * m + ?d"
    unfolding exact using Cons.prems(2) mult_left_mono [of 1 "10 ^ length cs" "10 * m + ?d"] by simp_all
  have step: "?b = Some u \<longleftrightarrow>
      fits_i64 (signed_value negative (10 * m + ?d)) \<and> sint u = signed_value negative (10 * m + ?d)" for u
  proof -
    have op: "(if negative then checked_sub_i64 x ?digit else checked_add_i64 x ?digit) =
        checked_i64 (sint x + signed_value negative ?d)" for x
      using d by (simp add: signed_value_def checked_defs)
    have eq: "sint v * 10 + signed_value negative ?d = signed_value negative (10 * m + ?d)"
      using Cons.prems(3) by (simp add: signed_value_def)
    have "fits_i64 (sint v * 10)" if "fits_i64 (signed_value negative (10 * m + ?d))"
    proof -
      have "0 \<le> ?d" by simp
      then show ?thesis
        using that Cons.prems(2) unfolding Cons.prems(3) fits_i64_def signed_value_def by (cases negative) simp_all
    qed
    then show ?thesis unfolding op using checked_shift [of v "signed_value negative ?d" u] unfolding eq by blast
  qed
  show ?case
  proof (cases "fits_i64 (signed_value negative (10 * m + ?d))")
    case True
    then obtain u :: i64 where u: "sint u = signed_value negative (10 * m + ?d)"
      using sint_word_of_int by blast
    then have "?b = Some u" using step True by blast
    then show ?thesis
      using Cons.IH [of "10 * m + ?d" u] Cons.prems u exact by simp
  next
    case False
    then have "?b \<noteq> Some u" for u using step by blast
    then have "?b = None" by (cases ?b) blast+
    moreover have "\<not> fits_i64 (signed_value negative ?n)"
      using False ge Cons.prems(2) by (auto simp: fits_i64_def signed_value_def split: if_splits)
    ultimately show ?thesis by (simp add: Let_def)
  qed
qed

lemma parse_int_split:
  obtains (negative) ds where "text = CHR ''-'' # ds"
    "parse_int text = (if canonical_decimal ds \<and> ds \<noteq> ''0'' then ok_or (parse_digits True 0 ds) IntOverflow
      else Inl IntInvalid)"
  | (positive) "\<not> (\<exists>ds. text = CHR ''-'' # ds)"
    "parse_int text = (if canonical_decimal text then ok_or (parse_digits False 0 text) IntOverflow
      else Inl IntInvalid)"
proof (cases "\<exists>ds. text = CHR ''-'' # ds")
  case True
  then obtain ds where "text = CHR ''-'' # ds" by blast
  then show ?thesis using negative by (auto simp: parse_int_def canonical_decimal_def)
next
  case False
  then have "(case text of CHR ''-'' # ds \<Rightarrow> (True, ds) | _ \<Rightarrow> (False, text)) = (False, text)"
    by (auto split: list.splits char.splits bool.splits)
  with False show ?thesis using positive by (auto simp: parse_int_def canonical_decimal_def)
qed

lemma show_nat_0 [simp]: "show_nat 0 = ''0''"
  by code_simp

lemma show_nat_no_sign: "show_nat n \<noteq> CHR ''-'' # ds"
proof
  assume "show_nat n = CHR ''-'' # ds"
  then have "CHR ''-'' \<in> set (show_nat n)" by simp
  from show_nat_digits [OF this] show False by (simp add: is_ascii_digit_def)
qed

lemma parse_int_negative:
  "canonical_decimal ds \<and> ds \<noteq> ''0'' \<and> parse_digits True 0 ds = Some i \<longleftrightarrow> CHR ''-'' # ds = show_i64 i"
proof
  assume a: "canonical_decimal ds \<and> ds \<noteq> ''0'' \<and> parse_digits True 0 ds = Some i"
  then have "list_all is_ascii_digit ds" by (simp add: canonical_decimal_def)
  with a have i: "sint i = - int (dec_value ds)"
    using parse_digits_Some [of ds 0 0 True i] by (simp add: signed_value_def)
  have ds: "show_nat (dec_value ds) = ds" using a show_nat_dec_value by blast
  with a have "dec_value ds \<noteq> 0" by (metis show_nat_0)
  with i ds show "CHR ''-'' # ds = show_i64 i" by (simp add: show_i64_def)
next
  assume a: "CHR ''-'' # ds = show_i64 i"
  have neg: "sint i < 0" "ds = show_nat (nat (- sint i))"
    using a show_nat_no_sign [of "nat (sint i)" ds] by (auto simp: show_i64_def split: if_splits)
  then have c: "canonical_decimal ds" "dec_value ds = nat (- sint i)" by simp_all
  moreover have "ds \<noteq> ''0''"
  proof
    assume "ds = ''0''"
    then have "dec_value ds = 0" by (simp add: dec_value_def digit_val_def)
    with c(2) neg(1) show False by simp
  qed
  moreover have "list_all is_ascii_digit ds" using c(1) by (simp add: canonical_decimal_def)
  then have "parse_digits True 0 ds = Some i"
    using parse_digits_Some [of ds 0 0 True i] c(2) neg(1) sint_fits [of i] by (simp add: signed_value_def)
  ultimately show "canonical_decimal ds \<and> ds \<noteq> ''0'' \<and> parse_digits True 0 ds = Some i" by simp
qed

lemma parse_int_positive:
  "canonical_decimal ds \<and> parse_digits False 0 ds = Some i \<longleftrightarrow> ds = show_i64 i \<and> 0 \<le> sint i"
proof
  assume a: "canonical_decimal ds \<and> parse_digits False 0 ds = Some i"
  then have "list_all is_ascii_digit ds" by (simp add: canonical_decimal_def)
  with a have i: "sint i = int (dec_value ds)"
    using parse_digits_Some [of ds 0 0 False i] by (simp add: signed_value_def)
  have "show_nat (dec_value ds) = ds" using a show_nat_dec_value by blast
  with i show "ds = show_i64 i \<and> 0 \<le> sint i" by (simp add: show_i64_def)
next
  assume a: "ds = show_i64 i \<and> 0 \<le> sint i"
  then have c: "canonical_decimal ds" "dec_value ds = nat (sint i)" by (simp_all add: show_i64_def)
  then have "list_all is_ascii_digit ds" by (simp add: canonical_decimal_def)
  with c a show "canonical_decimal ds \<and> parse_digits False 0 ds = Some i"
    using parse_digits_Some [of ds 0 0 False i] sint_fits [of i] by (simp add: signed_value_def)
qed

lemma parse_int_display: "parse_int s = Inr i \<longleftrightarrow> s = show_i64 i"
proof (rule parse_int_split [of s])
  fix ds
  assume "s = CHR ''-'' # ds" "parse_int s =
    (if canonical_decimal ds \<and> ds \<noteq> ''0'' then ok_or (parse_digits True 0 ds) IntOverflow else Inl IntInvalid)"
  then show ?thesis using parse_int_negative [of ds i] by auto
next
  assume s: "\<not> (\<exists>ds. s = CHR ''-'' # ds)" and p: "parse_int s =
    (if canonical_decimal s then ok_or (parse_digits False 0 s) IntOverflow else Inl IntInvalid)"
  have "s = show_i64 i \<Longrightarrow> 0 \<le> sint i" using s by (auto simp: show_i64_def split: if_splits)
  with p show ?thesis using parse_int_positive [of s i] by auto
qed

text \<open>(C31) Reading an integer from text is the inverse of printing it: the accepted texts are
  exactly the decimal texts of the 64-bit integers, each of one integer.\<close>

theorem parse_int_inverts_display: "parse_int s = Inr i \<longleftrightarrow> s = show_i64 i"
  by (rule parse_int_display)

end
