(* ===== verification/Vm_Time.thy ===== *)
theory Vm_Time
  imports Vm_Int
begin

text \<open>
  Instants of the virtual machine (\<open>allen-vm/src/lib.rs\<close>): seconds since the epoch and their
  text in UTC, the Gregorian calendar and time buckets. Seconds, days and the fields of a date are
  the integers that the \<open>i64\<close> of the source stand for; \<open>checked_mul\<close> and \<open>checked_add\<close> keep their
  range checks.
\<close>

section \<open>Calendar\<close>

definition UTC_MIN_SECONDS :: int where "UTC_MIN_SECONDS = - 62135596800"
definition UTC_MAX_SECONDS :: int where "UTC_MAX_SECONDS = 253402300799"
definition SECONDS_PER_DAY :: int where "SECONDS_PER_DAY = 86400"

definition days_from_civil :: "int \<Rightarrow> int \<Rightarrow> int \<Rightarrow> int" where
  "days_from_civil year month day =
     (let year = year - (if month \<le> 2 then 1 else 0);
          era = year div 400;
          year_of_era = year - era * 400;
          month_from_march = month + (if month > 2 then - 3 else 9);
          day_of_year = (153 * month_from_march + 2) div 5 + day - 1;
          day_of_era = year_of_era * 365 + year_of_era div 4 - year_of_era div 100 + day_of_year
      in era * 146097 + day_of_era - 719468)"

definition civil_from_days :: "int \<Rightarrow> int \<times> int \<times> int" where
  "civil_from_days days =
     (let days = days + 719468;
          era = days div 146097;
          day_of_era = days - era * 146097;
          year_of_era = (day_of_era - day_of_era div 1460 + day_of_era div 36524 - day_of_era div 146096) div 365;
          year = year_of_era + era * 400;
          day_of_year = day_of_era - (365 * year_of_era + year_of_era div 4 - year_of_era div 100);
          month_from_march = (5 * day_of_year + 2) div 153;
          day = day_of_year - (153 * month_from_march + 2) div 5 + 1;
          month = month_from_march + (if month_from_march < 10 then 3 else - 9);
          year = year + (if month \<le> 2 then 1 else 0)
      in (year, month, day))"

text \<open>The remainders of the source are only compared with zero. The caller has checked the month.\<close>

definition days_in_month :: "int \<Rightarrow> int \<Rightarrow> int" where
  "days_in_month year month =
     (if month \<in> {1, 3, 5, 7, 8, 10, 12} then 31
      else if month \<in> {4, 6, 9, 11} then 30
      else if year mod 4 = 0 \<and> (year mod 100 \<noteq> 0 \<or> year mod 400 = 0) then 29
      else 28)"

section \<open>Text\<close>

text \<open>Formatting with a zero flag and a width.\<close>

definition pad_zero :: "nat \<Rightarrow> int \<Rightarrow> string" where
  "pad_zero width n =
     (let digits = show_nat (nat \<bar>n\<bar>);
          sign = (if n < 0 then ''-'' else [])
      in sign @ replicate (width - length sign - length digits) (CHR ''0'') @ digits)"

definition format_utc :: "int \<Rightarrow> string" where
  "format_utc seconds =
     (let days = seconds div SECONDS_PER_DAY;
          day_seconds = seconds mod SECONDS_PER_DAY;
          (year, month, day) = civil_from_days days;
          hour = day_seconds div 3600;
          minute = day_seconds mod 3600 div 60;
          second = day_seconds mod 60
      in pad_zero 4 year @ ''-'' @ pad_zero 2 month @ ''-'' @ pad_zero 2 day @ ''T'' @
         pad_zero 2 hour @ '':'' @ pad_zero 2 minute @ '':'' @ pad_zero 2 second @ ''Z'')"

datatype utc_parse_error = UtcInvalidFormat | UtcOutOfRange

fun fold_digits :: "int \<Rightarrow> string \<Rightarrow> utc_parse_error + int" where
  "fold_digits v [] = Inr v"
| "fold_digits v (c # cs) =
     (if \<not> is_ascii_digit c then Inl UtcInvalidFormat
      else fold_digits (v * 10 + int (of_char c - 48)) cs)"

definition decimal_field :: "string \<Rightarrow> nat \<Rightarrow> nat \<Rightarrow> utc_parse_error + int" where
  "decimal_field bytes start width = fold_digits 0 (take width (drop start bytes))"

definition parse_utc :: "string \<Rightarrow> utc_parse_error + int" where
  "parse_utc bytes =
     (if length bytes \<noteq> 20 \<or> bytes ! 4 \<noteq> CHR ''-'' \<or> bytes ! 7 \<noteq> CHR ''-'' \<or> bytes ! 10 \<noteq> CHR ''T''
         \<or> bytes ! 13 \<noteq> CHR '':'' \<or> bytes ! 16 \<noteq> CHR '':'' \<or> bytes ! 19 \<noteq> CHR ''Z''
      then Inl UtcInvalidFormat
      else
        result_bind (decimal_field bytes 0 4) (\<lambda>year.
        result_bind (decimal_field bytes 5 2) (\<lambda>month.
        result_bind (decimal_field bytes 8 2) (\<lambda>day.
        result_bind (decimal_field bytes 11 2) (\<lambda>hour.
        result_bind (decimal_field bytes 14 2) (\<lambda>minute.
        result_bind (decimal_field bytes 17 2) (\<lambda>second.
        if \<not> (1 \<le> year \<and> year \<le> 9999) then Inl UtcOutOfRange
        else if \<not> (1 \<le> month \<and> month \<le> 12) \<or> day = 0 \<or> day > days_in_month year month
             \<or> hour > 23 \<or> minute > 59 \<or> second > 59
        then Inl UtcInvalidFormat
        else
          let days = days_from_civil year month day;
              scaled = days * SECONDS_PER_DAY;
              seconds = scaled + (hour * 3600 + minute * 60 + second)
          in if \<not> fits_i64 scaled \<or> \<not> fits_i64 seconds then Inl UtcOutOfRange
             else if \<not> (UTC_MIN_SECONDS \<le> seconds \<and> seconds \<le> UTC_MAX_SECONDS) then Inl UtcOutOfRange
             else Inr seconds)))))))"

section \<open>Operations\<close>

definition in_utc_range :: "int \<Rightarrow> bool" where
  "in_utc_range s \<longleftrightarrow> UTC_MIN_SECONDS \<le> s \<and> s \<le> UTC_MAX_SECONDS"

definition standard_time_format_utc :: "registers \<Rightarrow> register list \<Rightarrow> vm_value vm" where
  "standard_time_format_utc rs arguments =
     (case arguments of
        [seconds] \<Rightarrow>
          vm_bind (vm_lift (read_int rs seconds)) (\<lambda>s.
          if \<not> in_utc_range (sint s)
          then standard_result_error ''time.out_of_range'' ''epoch seconds are outside the supported UTC range''
          else vm_bind (allocate_string (format_utc (sint s))) standard_result_ok)
      | _ \<Rightarrow> vm_fail (Invariant ''Time format_utc arity is invalid''))"

definition standard_time_parse_utc :: "registers \<Rightarrow> register list \<Rightarrow> vm_value vm" where
  "standard_time_parse_utc rs arguments =
     (case arguments of
        [text] \<Rightarrow>
          vm_bind (vm_lift (read_string rs text)) (\<lambda>s.
          case parse_utc s of
            Inr seconds \<Rightarrow> standard_result_ok (VInt (word_of_int seconds))
          | Inl UtcInvalidFormat \<Rightarrow>
              standard_result_error ''time.invalid_format'' ''expected UTC text in YYYY-MM-DDTHH:MM:SSZ format''
          | Inl UtcOutOfRange \<Rightarrow>
              standard_result_error ''time.out_of_range'' ''UTC text is outside the supported range'')
      | _ \<Rightarrow> vm_fail (Invariant ''Time parse_utc arity is invalid''))"

definition standard_time_bucket :: "registers \<Rightarrow> register list \<Rightarrow> vm_value vm" where
  "standard_time_bucket rs arguments =
     (case arguments of
        [seconds, width] \<Rightarrow>
          vm_bind (vm_lift (read_int rs seconds)) (\<lambda>s.
          vm_bind (vm_lift (read_int rs width)) (\<lambda>w.
          if \<not> in_utc_range (sint s)
          then standard_result_error ''time.out_of_range'' ''epoch seconds are outside the supported UTC range''
          else if sint w \<le> 0
          then standard_result_error ''time.invalid_bucket'' ''bucket width must be positive''
          else case checked_mul_i64 (word_of_int (sint s div sint w)) w of
                 None \<Rightarrow> vm_fail (Invariant ''Time bucket result does not fit Int'')
               | Some bucket \<Rightarrow> standard_result_ok (VInt bucket)))
      | _ \<Rightarrow> vm_fail (Invariant ''Time bucket arity is invalid''))"

section \<open>The calendar is a bijection\<close>

text \<open>The years of a 400-year era, counted from March, by century, group of four and year; the
  last year of a group is followed by a leap day unless the group ends a century that is not the
  last one.\<close>

definition era_day :: "int \<Rightarrow> int \<Rightarrow> int \<Rightarrow> int \<Rightarrow> int" where
  "era_day c q r doy = 36524 * c + 1461 * q + 365 * r + doy"

definition era_ok :: "int \<Rightarrow> int \<Rightarrow> int \<Rightarrow> int \<Rightarrow> bool" where
  "era_ok c q r doy \<longleftrightarrow> 0 \<le> c \<and> c \<le> 3 \<and> 0 \<le> q \<and> q \<le> 24 \<and> 0 \<le> r \<and> r \<le> 3 \<and> 0 \<le> doy \<and>
     doy \<le> (if r = 3 \<and> (q \<noteq> 24 \<or> c = 3) then 365 else 364)"

lemma div_eqI: "0 < b \<Longrightarrow> k * b \<le> a \<Longrightarrow> a < (k + 1) * b \<Longrightarrow> a div b = (k :: int)"
  by (rule int_div_pos_eq [of a b k "a - k * b"]) (simp_all add: algebra_simps)

lemma era_century:
  assumes "era_ok c q r doy"
  shows "era_day c q r doy div 36524 - era_day c q r doy div 146096 = c"
proof (cases "era_day c q r doy = 146096")
  case True
  then have "c = 3" using assms by (auto simp: era_day_def era_ok_def split: if_splits)
  with True show ?thesis by simp
next
  case False
  have "era_day c q r doy < 146096" "36524 * c \<le> era_day c q r doy" "era_day c q r doy < 36524 * (c + 1)"
    using assms False by (auto simp: era_day_def era_ok_def split: if_splits)
  then have "era_day c q r doy div 36524 = c" "era_day c q r doy div 146096 = 0"
    using assms by (auto simp: era_ok_def intro!: div_eqI div_pos_pos_trivial)
  then show ?thesis by simp
qed

lemma era_year:
  assumes "era_ok c q r doy"
  shows "(era_day c q r doy - era_day c q r doy div 1460 + era_day c q r doy div 36524 -
    era_day c q r doy div 146096) div 365 = 100 * c + 4 * q + r"
proof -
  define i :: int where "i = (if 24 * c + q + 365 * r + doy \<ge> 1460 then 1 else 0)"
  have "era_day c q r doy div 1460 = 25 * c + q + i"
    using assms by (intro div_eqI) (auto simp: era_day_def era_ok_def i_def split: if_splits)
  with era_century [OF assms] have "era_day c q r doy - era_day c q r doy div 1460 + era_day c q r doy div 36524 -
      era_day c q r doy div 146096 = 365 * (100 * c + 4 * q + r) + (doy - i)"
    by (simp add: era_day_def)
  moreover have "0 \<le> doy - i" "doy - i < 365"
    using assms by (auto simp: era_ok_def i_def split: if_splits)
  ultimately show ?thesis by (intro div_eqI) auto
qed

lemma era_year_parts:
  assumes "era_ok c q r doy"
  shows "(100 * c + 4 * q + r) div 4 = 25 * c + q" "(100 * c + 4 * q + r) div 100 = c"
  using assms by (auto simp: era_ok_def intro!: div_eqI)

lemma era_decompose:
  assumes "0 \<le> n" "n < 146097"
  obtains c q r doy where "era_ok c q r doy" "n = era_day c q r doy"
proof -
  define c where "c = min 3 (n div 36524)"
  define n1 where "n1 = n - 36524 * c"
  define q where "q = min 24 (n1 div 1461)"
  define n2 where "n2 = n1 - 1461 * q"
  define r where "r = min 3 (n2 div 365)"
  define doy where "doy = n2 - 365 * r"
  have c: "0 \<le> c" "c \<le> 3" "0 \<le> n1" "n1 \<le> (if c = 3 then 36524 else 36523)"
    using assms by (auto simp: c_def n1_def min_def)
  have q: "0 \<le> q" "q \<le> 24" "0 \<le> n2" "n2 \<le> (if q = 24 \<and> c \<noteq> 3 then 1459 else 1460)"
    using c by (auto simp: q_def n2_def min_def)
  have r: "0 \<le> r" "r \<le> 3" "0 \<le> doy" "doy \<le> (if r = 3 \<and> (q \<noteq> 24 \<or> c = 3) then 365 else 364)"
    using q by (auto simp: r_def doy_def min_def)
  show ?thesis
  proof
    show "era_ok c q r doy" using c q r by (simp add: era_ok_def)
    show "n = era_day c q r doy" by (simp add: era_day_def doy_def n2_def n1_def)
  qed
qed

text \<open>Months counted from March.\<close>

definition month_start :: "int \<Rightarrow> int" where
  "month_start mp = (153 * mp + 2) div 5"

lemma month_of_day:
  assumes "month_start mp \<le> doy" "doy < month_start (mp + 1)"
  shows "(5 * doy + 2) div 153 = mp"
  using assms unfolding month_start_def by (intro div_eqI) linarith+

lemma day_in_month:
  assumes "0 \<le> doy" "doy \<le> 365" "mp = (5 * doy + 2) div 153"
  shows "0 \<le> mp" "mp \<le> 11" "month_start mp \<le> doy" "doy < month_start (mp + 1)"
  using assms unfolding month_start_def by (auto simp: zdiv_zmult2_eq)

definition march_month :: "int \<Rightarrow> int" where
  "march_month m = m + (if m > 2 then - 3 else 9)"

definition civil_month :: "int \<Rightarrow> int" where
  "civil_month mp = mp + (if mp < 10 then 3 else - 9)"

lemma march_civil:
  "1 \<le> m \<Longrightarrow> m \<le> 12 \<Longrightarrow> civil_month (march_month m) = m \<and> 0 \<le> march_month m \<and> march_month m \<le> 11"
  "0 \<le> mp \<Longrightarrow> mp \<le> 11 \<Longrightarrow> march_month (civil_month mp) = mp \<and> 1 \<le> civil_month mp \<and> civil_month mp \<le> 12"
  by (auto simp: march_month_def civil_month_def)

lemma int_upto_11:
  "0 \<le> (x :: int) \<Longrightarrow> x \<le> 11 \<Longrightarrow> x = 0 \<or> x = 1 \<or> x = 2 \<or> x = 3 \<or> x = 4 \<or> x = 5 \<or> x = 6 \<or> x = 7 \<or> x = 8 \<or> x = 9 \<or> x = 10 \<or> x = 11"
  by arith

lemma month_length:
  assumes "0 \<le> mp" "mp \<le> 10"
  shows "days_in_month y (civil_month mp) = month_start (mp + 1) - month_start mp"
  using int_upto_11 [of mp] assms by (auto simp: days_in_month_def civil_month_def month_start_def)

definition leap :: "int \<Rightarrow> bool" where
  "leap y \<longleftrightarrow> y mod 4 = 0 \<and> (y mod 100 \<noteq> 0 \<or> y mod 400 = 0)"

lemma february: "days_in_month y (civil_month 11) = (if leap y then 29 else 28)"
  by (simp add: days_in_month_def civil_month_def leap_def)

lemma multiple_below: "1 \<le> k \<Longrightarrow> k \<le> n \<Longrightarrow> (k :: int) mod n = 0 \<longleftrightarrow> k = n"
  using mod_pos_pos_trivial [of k n] by (cases "k = n") simp_all

lemma leap_parts:
  assumes "0 \<le> c" "c \<le> 3" "0 \<le> q" "q \<le> 24" "0 \<le> r" "r \<le> 3"
  shows "leap (400 * era + (100 * c + 4 * q + r) + 1) \<longleftrightarrow> r = 3 \<and> (q \<noteq> 24 \<or> c = 3)"
proof -
  let ?y = "400 * era + (100 * c + 4 * q + r) + 1"
  have "?y mod 4 = (4 * (100 * era + 25 * c + q) + (r + 1)) mod 4" by (simp add: algebra_simps)
  also have "\<dots> = (r + 1) mod 4" by (rule mod_mult_self4)
  finally have 4: "?y mod 4 = 0 \<longleftrightarrow> r = 3" using assms(5,6) by (cases "r = 3") auto
  have "?y mod 100 = (100 * (4 * era + c) + (4 * q + r + 1)) mod 100" by (simp add: algebra_simps)
  also have "\<dots> = (4 * q + r + 1) mod 100" by (rule mod_mult_self4)
  moreover have "4 * q + r + 1 = 100 \<longleftrightarrow> q = 24 \<and> r = 3" using assms(3-6) by presburger
  moreover have "(4 * q + r + 1) mod 100 = 0 \<longleftrightarrow> 4 * q + r + 1 = 100"
    using assms(3-6) by (intro multiple_below) simp_all
  ultimately have 100: "?y mod 100 = 0 \<longleftrightarrow> q = 24 \<and> r = 3" by (simp only:)
  have "?y mod 400 = (400 * era + (100 * c + 4 * q + r + 1)) mod 400" by (simp add: algebra_simps)
  also have "\<dots> = (100 * c + 4 * q + r + 1) mod 400" by (rule mod_mult_self4)
  moreover have "100 * c + 4 * q + r + 1 = 400 \<longleftrightarrow> c = 3 \<and> q = 24 \<and> r = 3" using assms by presburger
  moreover have "(100 * c + 4 * q + r + 1) mod 400 = 0 \<longleftrightarrow> 100 * c + 4 * q + r + 1 = 400"
    using assms by (intro multiple_below) simp_all
  ultimately have 400: "?y mod 400 = 0 \<longleftrightarrow> c = 3 \<and> q = 24 \<and> r = 3" by (simp only:)
  show ?thesis unfolding leap_def 4 100 400 by auto
qed

text \<open>The day of the year, as the calendar and the era see it.\<close>

lemma valid_day_of_year:
  assumes "era_ok c q r 0" "0 \<le> mp" "mp \<le> 11"
    "y = 400 * era + (100 * c + 4 * q + r) + (if civil_month mp \<le> 2 then 1 else 0)"
  shows "1 \<le> day \<and> day \<le> days_in_month y (civil_month mp) \<longleftrightarrow>
    era_ok c q r (month_start mp + day - 1) \<and> month_start mp \<le> month_start mp + day - 1 \<and>
    month_start mp + day - 1 < month_start (mp + 1)"
proof (cases "mp = 11")
  case True
  have "leap y \<longleftrightarrow> r = 3 \<and> (q \<noteq> 24 \<or> c = 3)"
    using assms(1,4) True leap_parts [of c q r era] by (simp add: era_ok_def civil_month_def)
  then show ?thesis using assms(1) True february [of y] by (auto simp: era_ok_def month_start_def)
next
  case False
  then have mp: "mp \<le> 10" using assms(3) by simp
  then have "month_start (mp + 1) \<le> 337" "0 \<le> month_start mp" using assms(2) by (simp_all add: month_start_def)
  with assms(1) month_length [OF assms(2) mp, of y] show ?thesis by (auto simp: era_ok_def)
qed

lemma era_of_year:
  obtains c q r where "era_ok c q r 0" "(y :: int) = 400 * (y div 400) + (100 * c + 4 * q + r)"
proof -
  define z where "z = y mod 400"
  define c where "c = z div 100"
  define w where "w = z - 100 * c"
  define q where "q = w div 4"
  define r where "r = w - 4 * q"
  have z: "0 \<le> z" "z < 400" by (simp_all add: z_def)
  then have c: "0 \<le> c" "c \<le> 3" "0 \<le> w" "w < 100" by (simp_all add: c_def w_def) 
  then have q: "0 \<le> q" "q \<le> 24" "0 \<le> r" "r \<le> 3" by (simp_all add: q_def r_def)
  show ?thesis
  proof
    show "era_ok c q r 0" using c q by (simp add: era_ok_def)
    have "y = 400 * (y div 400) + z" by (simp add: z_def)
    then show "y = 400 * (y div 400) + (100 * c + 4 * q + r)" by (simp add: r_def w_def)
  qed
qed

text \<open>Both directions through the parts of an era.\<close>

lemma days_from_parts:
  assumes "era_ok c q r 0" "0 \<le> mp" "mp \<le> 11"
    "y = 400 * era + (100 * c + 4 * q + r) + (if civil_month mp \<le> 2 then 1 else 0)"
  shows "days_from_civil y (civil_month mp) day =
    era * 146097 + era_day c q r (month_start mp + day - 1) - 719468"
proof -
  have "(400 * era + (100 * c + 4 * q + r)) div 400 = era"
    using assms(1) by (intro div_eqI) (auto simp: era_ok_def)
  then show ?thesis
    using assms march_civil(2) [OF assms(2,3)] era_year_parts [OF assms(1)]
    by (simp add: days_from_civil_def Let_def month_start_def era_day_def march_month_def)
qed

lemma civil_from_parts:
  assumes "era_ok c q r doy" "mp = (5 * doy + 2) div 153"
  shows "civil_from_days (era * 146097 + era_day c q r doy - 719468) =
    (400 * era + (100 * c + 4 * q + r) + (if civil_month mp \<le> 2 then 1 else 0), civil_month mp,
     doy - month_start mp + 1)"
proof -
  have "0 \<le> era_day c q r doy" "era_day c q r doy < 146097"
    using assms(1) by (auto simp: era_ok_def era_day_def split: if_splits)
  then have e1: "(era * 146097 + era_day c q r doy - 719468 + 719468) div 146097 = era" by (intro div_eqI) auto
  have e2: "era * 146097 + era_day c q r doy - 719468 + 719468 - era * 146097 = era_day c q r doy" by simp
  have e3: "era_day c q r doy - (365 * (100 * c + 4 * q + r) + (100 * c + 4 * q + r) div 4 -
      (100 * c + 4 * q + r) div 100) = doy"
    using era_year_parts [OF assms(1)] by (simp add: era_day_def)
  show ?thesis
    unfolding civil_from_days_def Let_def e1 e2 era_year [OF assms(1)] e3 assms(2) [symmetric]
    by (simp add: month_start_def civil_month_def)
qed

definition valid_date :: "int \<Rightarrow> int \<Rightarrow> int \<Rightarrow> bool" where
  "valid_date year month day \<longleftrightarrow> 1 \<le> month \<and> month \<le> 12 \<and> 1 \<le> day \<and> day \<le> days_in_month year month"

lemma civil_of_days_of_civil:
  assumes "valid_date y m d"
  shows "civil_from_days (days_from_civil y m d) = (y, m, d)"
proof -
  define mp where "mp = march_month m"
  have m: "civil_month mp = m" "0 \<le> mp" "mp \<le> 11"
    using assms march_civil(1) [of m] by (simp_all add: mp_def valid_date_def)
  define z where "z = y - (if m \<le> 2 then 1 else 0)"
  obtain c q r where p: "era_ok c q r 0" "z = 400 * (z div 400) + (100 * c + 4 * q + r)"
    by (rule era_of_year)
  have y: "y = 400 * (z div 400) + (100 * c + 4 * q + r) + (if civil_month mp \<le> 2 then 1 else 0)"
    using p(2) m(1) by (simp add: z_def)
  have doy: "era_ok c q r (month_start mp + d - 1)" "month_start mp \<le> month_start mp + d - 1"
      "month_start mp + d - 1 < month_start (mp + 1)"
    using valid_day_of_year [OF p(1) m(2,3) y, of d] assms m(1) by (simp_all add: valid_date_def)
  from month_of_day [OF doy(2,3)] show ?thesis
    using days_from_parts [OF p(1) m(2,3) y, of d] civil_from_parts [OF doy(1) refl, of "z div 400"] y m(1) by simp
qed

lemma days_of_civil_of_days:
  assumes "civil_from_days n = (y, m, d)"
  shows "valid_date y m d \<and> days_from_civil y m d = n"
proof -
  define era where "era = (n + 719468) div 146097"
  obtain c q r doy where p: "era_ok c q r doy" "(n + 719468) mod 146097 = era_day c q r doy"
    by (rule era_decompose [of "(n + 719468) mod 146097"]) simp_all
  have n: "n = era * 146097 + era_day c q r doy - 719468"
    using p(2) div_mult_mod_eq [of "n + 719468" 146097] by (simp add: era_def)
  define mp where "mp = (5 * doy + 2) div 153"
  have doy: "0 \<le> doy" "doy \<le> 365" using p(1) by (auto simp: era_ok_def split: if_splits)
  note mp = day_in_month [OF doy mp_def]
  have ymd: "y = 400 * era + (100 * c + 4 * q + r) + (if civil_month mp \<le> 2 then 1 else 0)" "m = civil_month mp"
      "d = doy - month_start mp + 1"
    using civil_from_parts [OF p(1) mp_def, of era] assms unfolding n by (metis prod.inject)+
  have "era_ok c q r 0" using p(1) by (simp add: era_ok_def)
  then show ?thesis
    using valid_day_of_year [OF _ mp(1,2) ymd(1), of d] days_from_parts [OF _ mp(1,2) ymd(1), of d] mp p(1) ymd
      march_civil(2) [OF mp(1,2)] n
    by (simp add: valid_date_def)
qed


section \<open>The supported range\<close>

text \<open>The days before the first of March of a year, and the days of a year.\<close>

definition leap_days :: "int \<Rightarrow> int" where
  "leap_days z = 365 * z + z div 4 - z div 100 + z div 400"

lemma leap_days_era: "leap_days (yoe + era * 400) = era * 146097 + (yoe * 365 + yoe div 4 - yoe div 100) + yoe div 400"
proof -
  have "(yoe + era * 100 * 4) div 4 = era * 100 + yoe div 4" "(yoe + era * 4 * 100) div 100 = era * 4 + yoe div 100"
       "(yoe + era * 400) div 400 = era + yoe div 400"
    by (simp_all only: div_mult_self1)
  moreover have "365 * (yoe + era * 400) + (era * 100 + a) - (era * 4 + b) + (era + c) =
      era * 146097 + (yoe * 365 + a - b) + c" for a b c :: int by simp
  ultimately show ?thesis by (simp only: leap_days_def mult.assoc) simp
qed

lemma days_from_civil_years:
  "days_from_civil y m d =
     leap_days (if m \<le> 2 then y - 1 else y) + (month_start (march_month m) + d - 1) - 719468"
proof -
  define z where "z = (if m \<le> 2 then y - 1 else y)"
  define yoe where "yoe = z - z div 400 * 400"
  have z: "yoe + z div 400 * 400 = z" by (simp add: yoe_def)
  have "yoe = z mod 400" by (simp add: yoe_def minus_div_mult_eq_mod)
  then have 0: "yoe div 400 = 0" by simp
  have y: "y - (if m \<le> 2 then 1 else 0) = z" by (simp add: z_def)
  have "e + (a + (b + d - 1)) - 719468 = (e + a + 0) + (b + d - 1) - 719468" for e a b :: int by simp
  then show ?thesis
    unfolding days_from_civil_def Let_def y yoe_def [symmetric] z_def [symmetric] march_month_def [symmetric]
      month_start_def [symmetric]
    using leap_days_era [of yoe "z div 400"] unfolding z 0 by simp
qed

lemma year_has_365_days: "leap_days z + 365 \<le> leap_days (z + 1)"
proof -
  define w where "w = z div 4"
  define w' where "w' = (z + 1) div 4"
  have "w \<le> w'" "w' \<le> w + 1"
    using zdiv_mono1 [of z "z + 1" 4] zdiv_mono1 [of "z + 1" "z + 4" 4] by (simp_all add: w_def w'_def)
  moreover have "(w + 1) div 25 \<le> w div 25 + 1" using zdiv_mono1 [of "w + 1" "w + 25" 25] by simp
  ultimately have "w' = w \<or> w' = w + 1" "(w + 1) div 25 \<le> w div 25 + 1" by auto
  then have c: "w - w div 25 \<le> w' - w' div 25" by auto
  have d: "z div 100 = w div 25" "(z + 1) div 100 = w' div 25"
    unfolding w_def w'_def by (simp_all flip: zdiv_zmult2_eq)
  have e: "z div 400 \<le> (z + 1) div 400" by (rule zdiv_mono1) simp_all
  have "a - b \<le> a' - b' \<Longrightarrow> k \<le> k' \<Longrightarrow> 365 * z + a - b + k + 365 \<le> 365 * (z + 1) + a' - b' + k'"
    for a b a' b' k k' :: int by simp
  from this [OF c e] show ?thesis unfolding leap_days_def d w_def [symmetric] w'_def [symmetric] .
qed

lemma leap_days_mono: "a \<le> b \<Longrightarrow> leap_days a \<le> leap_days b"
proof (induction b rule: int_ge_induct)
  case (step i)
  then show ?case using year_has_365_days [of i] by simp
qed simp

lemma valid_month_day:
  assumes "valid_date y m d"
  shows "d \<le> 31" "m > 2 \<Longrightarrow> month_start (march_month m) + d \<le> 306"
proof -
  show "d \<le> 31" using assms by (auto simp: valid_date_def days_in_month_def split: if_splits)
  assume "m > 2"
  define mp where "mp = march_month m"
  have m: "m = civil_month mp" "0 \<le> mp" "mp \<le> 9"
    using assms \<open>m > 2\<close> march_civil(1) [of m] by (auto simp: mp_def valid_date_def march_month_def)
  have "month_start mp + d \<le> month_start (mp + 1)"
    using assms m month_length [of mp y] by (simp add: valid_date_def)
  also have "\<dots> \<le> 306" using m(3) by (simp add: month_start_def)
  finally show "month_start (march_month m) + d \<le> 306" by (simp add: mp_def)
qed

lemma days_within_year:
  assumes "valid_date y m d"
  shows "leap_days (y - 1) - 719162 \<le> days_from_civil y m d" "days_from_civil y m d < leap_days y - 719162"
proof -
  have d: "1 \<le> m" "1 \<le> d" using assms by (simp_all add: valid_date_def)
  show "leap_days (y - 1) - 719162 \<le> days_from_civil y m d" "days_from_civil y m d < leap_days y - 719162"
    using valid_month_day [OF assms] d year_has_365_days [of "y - 1"]
    by (auto simp: days_from_civil_years month_start_def march_month_def)
qed

lemma supported_years:
  assumes "valid_date y m d"
  shows "1 \<le> y \<and> y \<le> 9999 \<longleftrightarrow> - 719162 \<le> days_from_civil y m d \<and> days_from_civil y m d < 2932897"
proof -
  have "leap_days 0 = 0" "leap_days 9999 = 3652059" by (simp_all add: leap_days_def)
  then have "1 \<le> y \<Longrightarrow> 0 \<le> leap_days (y - 1)" "y \<le> 0 \<Longrightarrow> leap_days y \<le> 0"
       "y \<le> 9999 \<Longrightarrow> leap_days y \<le> 3652059" "10000 \<le> y \<Longrightarrow> 3652059 \<le> leap_days (y - 1)"
    using leap_days_mono [of 0 "y - 1"] leap_days_mono [of y 0] leap_days_mono [of y 9999]
      leap_days_mono [of 9999 "y - 1"] by simp_all
  with days_within_year [OF assms] show ?thesis by linarith
qed

lemma in_utc_range_days: "in_utc_range s \<longleftrightarrow> - 719162 \<le> s div 86400 \<and> s div 86400 < 2932897"
  unfolding in_utc_range_def UTC_MIN_SECONDS_def UTC_MAX_SECONDS_def by linarith


section \<open>Fixed-width decimal fields\<close>

lemma pad_zero_field:
  assumes "0 < w" "0 \<le> n" "n < 10 ^ w"
  shows "length (pad_zero w n) = w" "list_all is_ascii_digit (pad_zero w n)" "int (dec_value (pad_zero w n)) = n"
proof -
  have "nat n < 10 ^ w" using assms by (simp add: nat_less_iff)
  then have "length (show_nat (nat n)) \<le> w" using assms by (intro length_show_nat)
  then show "length (pad_zero w n) = w" using assms by (simp add: pad_zero_def Let_def)
  show "list_all is_ascii_digit (pad_zero w n)"
    using assms by (auto simp: pad_zero_def Let_def list_all_iff is_ascii_digit_def [of "CHR ''0''"]
        less_eq_char_def dest: show_nat_digits)
  show "int (dec_value (pad_zero w n)) = n" using assms by (simp add: pad_zero_def Let_def)
qed

lemma pad_zero_dec_value:
  assumes "list_all is_ascii_digit s" "s \<noteq> []"
  shows "pad_zero (length s) (int (dec_value s)) = s"
  using assms dec_value_bound [OF assms(1)] pad_zero_field [of "length s" "int (dec_value s)"]
  by (intro dec_value_inject) (simp_all add: of_nat_less_iff flip: of_nat_power)

lemma fold_digits_value:
  "fold_digits (int v) cs =
     (if list_all is_ascii_digit cs then Inr (int (foldl (\<lambda>v c. 10 * v + digit_val c) v cs)) else Inl UtcInvalidFormat)"
proof (induction cs arbitrary: v)
  case (Cons c cs)
  have "int v * 10 + int (of_char c - 48) = int (10 * v + digit_val c)" by (simp add: digit_val_def)
  then show ?case by (simp only: fold_digits.simps Cons.IH foldl.simps) simp
qed simp

lemma fold_digits_field:
  "fold_digits 0 cs = (if list_all is_ascii_digit cs then Inr (int (dec_value cs)) else Inl UtcInvalidFormat)"
  using fold_digits_value [of 0 cs] by (simp add: dec_value_def)


section \<open>Parsing inverts formatting\<close>

text \<open>The text of six fields, and its decomposition by position.\<close>

definition utc_text :: "string \<Rightarrow> string \<Rightarrow> string \<Rightarrow> string \<Rightarrow> string \<Rightarrow> string \<Rightarrow> string" where
  "utc_text y mo d h mi s = y @ ''-'' @ mo @ ''-'' @ d @ ''T'' @ h @ '':'' @ mi @ '':'' @ s @ ''Z''"

definition utc_shape :: "string \<Rightarrow> bool" where
  "utc_shape b \<longleftrightarrow> length b = 20 \<and> b ! 4 = CHR ''-'' \<and> b ! 7 = CHR ''-'' \<and> b ! 10 = CHR ''T''
     \<and> b ! 13 = CHR '':'' \<and> b ! 16 = CHR '':'' \<and> b ! 19 = CHR ''Z''"

lemma utc_text_fields:
  assumes "length y = 4" "length mo = 2" "length d = 2" "length h = 2" "length mi = 2" "length s = 2"
    "b = utc_text y mo d h mi s"
  shows "utc_shape b" "take 4 (drop 0 b) = y" "take 2 (drop 5 b) = mo" "take 2 (drop 8 b) = d"
    "take 2 (drop 11 b) = h" "take 2 (drop 14 b) = mi" "take 2 (drop 17 b) = s"
  using assms by (simp_all add: utc_text_def utc_shape_def nth_append)

lemma utc_shape_fields:
  assumes "utc_shape b"
  obtains y mo d h mi s where "length y = 4" "length mo = 2" "length d = 2" "length h = 2" "length mi = 2"
    "length s = 2" "b = utc_text y mo d h mi s"
proof -
  have drop: "drop i b = take n (drop i b) @ b ! (i + n) # drop (Suc (i + n)) b" if "i + n < 20" for i n
    using assms that append_take_drop_id [of n "drop i b"]
    by (simp add: utc_shape_def Cons_nth_drop_Suc add.commute)
  have "drop 0 b = utc_text (take 4 (drop 0 b)) (take 2 (drop 5 b)) (take 2 (drop 8 b)) (take 2 (drop 11 b))
      (take 2 (drop 14 b)) (take 2 (drop 17 b))"
    using assms drop [of 0 4] drop [of 5 2] drop [of 8 2] drop [of 11 2] drop [of 14 2] drop [of 17 2]
    by (simp add: utc_text_def utc_shape_def)
  then have "b = utc_text (take 4 b) (take 2 (drop 5 b)) (take 2 (drop 8 b)) (take 2 (drop 11 b))
      (take 2 (drop 14 b)) (take 2 (drop 17 b))" by simp
  then show ?thesis using assms by (intro that [of "take 4 b"]) (simp_all add: utc_shape_def)
qed

lemma quotient_and_rest:
  assumes "0 \<le> (s :: int)" "s < k"
  shows "(a * k + s) div k = a" "(a * k + s) mod k = s"
  using assms by (simp_all add: add.commute)

lemma format_utc_text:
  assumes "civil_from_days (t div 86400) = (y, mo, d)" "0 \<le> h" "h \<le> 23" "0 \<le> mi" "mi \<le> 59" "0 \<le> s" "s \<le> 59"
    "t mod 86400 = h * 3600 + mi * 60 + s"
  shows "format_utc t =
    utc_text (pad_zero 4 y) (pad_zero 2 mo) (pad_zero 2 d) (pad_zero 2 h) (pad_zero 2 mi) (pad_zero 2 s)"
proof -
  have r: "0 \<le> mi * 60 + s" "mi * 60 + s < 3600" "s < 60" using assms(4-7) by simp_all
  have t: "t mod 86400 = h * 3600 + (mi * 60 + s)" "t mod 86400 = (h * 60 + mi) * 60 + s"
    unfolding assms(8) by (simp_all add: algebra_simps)
  have "t mod 86400 div 3600 = h" "t mod 86400 mod 3600 = mi * 60 + s"
    unfolding t(1) by (rule quotient_and_rest [OF r(1,2)])+
  moreover have "t mod 86400 mod 60 = s"
    unfolding t(2) by (rule quotient_and_rest(2) [OF assms(6) r(3)])
  moreover have "(mi * 60 + s) div 60 = mi" by (rule quotient_and_rest(1) [OF assms(6) r(3)])
  ultimately show ?thesis
    unfolding format_utc_def SECONDS_PER_DAY_def utc_text_def Let_def assms(1) by (simp only: prod.case)
qed

lemma parse_utc_fields:
  assumes "length y = 4" "length mo = 2" "length d = 2" "length h = 2" "length mi = 2" "length s = 2"
    "b = utc_text y mo d h mi s"
  defines "Y \<equiv> int (dec_value y)" and "M \<equiv> int (dec_value mo)" and "D \<equiv> int (dec_value d)"
    and "H \<equiv> int (dec_value h)" and "I \<equiv> int (dec_value mi)" and "S \<equiv> int (dec_value s)"
  shows "parse_utc b = Inr t \<longleftrightarrow> list_all (list_all is_ascii_digit) [y, mo, d, h, mi, s] \<and>
    1 \<le> Y \<and> Y \<le> 9999 \<and> valid_date Y M D \<and> H \<le> 23 \<and> I \<le> 59 \<and> S \<le> 59 \<and>
    t = days_from_civil Y M D * 86400 + (H * 3600 + I * 60 + S)"
proof -
  note f = utc_text_fields [OF assms(1-7)]
  have nn: "0 \<le> Y" "0 \<le> M" "0 \<le> D" "0 \<le> H" "0 \<le> I" "0 \<le> S"
    by (simp_all add: Y_def M_def D_def H_def I_def S_def)
  have in_range: "fits_i64 (days_from_civil Y M D * 86400)"
      "fits_i64 (days_from_civil Y M D * 86400 + (H * 3600 + I * 60 + S))"
      "UTC_MIN_SECONDS \<le> days_from_civil Y M D * 86400 + (H * 3600 + I * 60 + S)"
      "days_from_civil Y M D * 86400 + (H * 3600 + I * 60 + S) \<le> UTC_MAX_SECONDS"
    if "valid_date Y M D" "1 \<le> Y" "Y \<le> 9999" "H \<le> 23" "I \<le> 59" "S \<le> 59"
    using supported_years [OF that(1)] that nn
    by (simp_all add: UTC_MIN_SECONDS_def UTC_MAX_SECONDS_def fits_i64_def)
  have core: "(if \<not> (1 \<le> Y \<and> Y \<le> 9999) then Inl UtcOutOfRange
      else if \<not> (1 \<le> M \<and> M \<le> 12) \<or> D = 0 \<or> D > days_in_month Y M \<or> H > 23 \<or> I > 59 \<or> S > 59
      then Inl UtcInvalidFormat
      else let days = days_from_civil Y M D;
              scaled = days * SECONDS_PER_DAY;
              seconds = scaled + (H * 3600 + I * 60 + S)
          in if \<not> fits_i64 scaled \<or> \<not> fits_i64 seconds then Inl UtcOutOfRange
             else if \<not> (UTC_MIN_SECONDS \<le> seconds \<and> seconds \<le> UTC_MAX_SECONDS) then Inl UtcOutOfRange
             else Inr seconds) = Inr t \<longleftrightarrow>
      1 \<le> Y \<and> Y \<le> 9999 \<and> valid_date Y M D \<and> H \<le> 23 \<and> I \<le> 59 \<and> S \<le> 59 \<and>
      t = days_from_civil Y M D * 86400 + (H * 3600 + I * 60 + S)" (is "?l \<longleftrightarrow> ?r")
  proof (cases "1 \<le> Y \<and> Y \<le> 9999 \<and> valid_date Y M D \<and> H \<le> 23 \<and> I \<le> 59 \<and> S \<le> 59")
    case True
    with in_range show ?thesis by (auto simp: valid_date_def Let_def SECONDS_PER_DAY_def)
  next
    case False
    with nn(3) show ?thesis by (auto simp: valid_date_def split: if_splits)
  qed
  show ?thesis
    using f(1) core
    by (simp only: parse_utc_def utc_shape_def decimal_field_def f(2-7) fold_digits_field result_bind_Inr_iff
        Y_def M_def D_def H_def I_def S_def) auto
qed


lemma parse_utc_shape: "parse_utc b = Inr t \<Longrightarrow> utc_shape b"
  by (auto simp: parse_utc_def utc_shape_def split: if_splits)

lemma parsed_text_is_formatted:
  assumes "parse_utc b = Inr t"
  shows "in_utc_range t \<and> b = format_utc t"
proof -
  obtain y mo d h mi s where len: "length y = 4" "length mo = 2" "length d = 2" "length h = 2" "length mi = 2"
      "length s = 2" and b: "b = utc_text y mo d h mi s"
    using utc_shape_fields [OF parse_utc_shape [OF assms]] by metis
  note p = assms [unfolded parse_utc_fields [OF len b]]
  define days where "days = days_from_civil (int (dec_value y)) (int (dec_value mo)) (int (dec_value d))"
  define secs where "secs = int (dec_value h) * 3600 + int (dec_value mi) * 60 + int (dec_value s)"
  have secs: "0 \<le> secs" "secs < 86400" and t: "t = days * 86400 + secs"
    using p by (simp_all add: secs_def days_def)
  then have div: "t div 86400 = days" "t mod 86400 = secs" by (auto intro: div_eqI)
  have civil: "civil_from_days (t div 86400) = (int (dec_value y), int (dec_value mo), int (dec_value d))"
    using p div civil_of_days_of_civil by (simp add: days_def)
  have "in_utc_range t"
    using p div supported_years [of "int (dec_value y)"] by (simp add: in_utc_range_days days_def)
  moreover have "pad_zero 4 (int (dec_value y)) = y" "pad_zero 2 (int (dec_value mo)) = mo"
      "pad_zero 2 (int (dec_value d)) = d" "pad_zero 2 (int (dec_value h)) = h"
      "pad_zero 2 (int (dec_value mi)) = mi" "pad_zero 2 (int (dec_value s)) = s"
    using p len pad_zero_dec_value by fastforce+
  ultimately show ?thesis
    using format_utc_text [OF civil, of "int (dec_value h)" "int (dec_value mi)" "int (dec_value s)"] p div b
    by (simp add: secs_def)
qed

lemma formatted_text_parses:
  assumes "in_utc_range t"
  shows "parse_utc (format_utc t) = Inr t"
proof -
  obtain y mo d where civil: "civil_from_days (t div 86400) = (y, mo, d)" by (cases "civil_from_days (t div 86400)") auto
  note v = days_of_civil_of_days [OF civil]
  have y: "1 \<le> y" "y \<le> 9999" using v supported_years [of y mo d] assms by (simp_all add: in_utc_range_days)
  have md: "1 \<le> mo" "mo \<le> 12" "1 \<le> d" "d \<le> 31" using v valid_month_day(1) by (auto simp: valid_date_def)
  define u where "u = t mod 86400"
  define r where "r = u mod 3600"
  define h where "h = u div 3600"
  define mi where "mi = r div 60"
  define s where "s = r mod 60"
  have "0 \<le> u" "u < 86400" "0 \<le> r" "r < 3600" by (simp_all add: u_def r_def)
  then have "0 \<le> h" "h \<le> 23" "0 \<le> mi" "mi \<le> 59" "0 \<le> s" "s \<le> 59" by (simp_all add: h_def mi_def s_def)
  moreover have "u = h * 3600 + r" "r = mi * 60 + s" unfolding h_def r_def mi_def s_def by simp_all
  ultimately have hms: "0 \<le> h" "h \<le> 23" "0 \<le> mi" "mi \<le> 59" "0 \<le> s" "s \<le> 59"
      "t mod 86400 = h * 3600 + mi * 60 + s" by (simp_all add: u_def)
  note written = format_utc_text [OF civil hms]
  note fields = pad_zero_field [of 4 y] pad_zero_field [of 2 mo] pad_zero_field [of 2 d] pad_zero_field [of 2 h]
    pad_zero_field [of 2 mi] pad_zero_field [of 2 s]
  have "days_from_civil y mo d * 86400 + (h * 3600 + mi * 60 + s) = t"
    using v hms(7) by (metis div_mult_mod_eq)
  then show ?thesis
    using fields y md hms v by (subst parse_utc_fields [OF _ _ _ _ _ _ written]) simp_all
qed

text \<open>(C32) UTC text. The text forms that \<open>parse_utc\<close> accepts are exactly the texts that
  \<open>format_utc\<close> writes for the supported instants, and each parses to the instant it was written
  for: the calendar arithmetic, the field widths, leap years and the range checks agree.\<close>

theorem utc_text_round_trip: "parse_utc b = Inr t \<longleftrightarrow> in_utc_range t \<and> b = format_utc t"
  using parsed_text_is_formatted formatted_text_parses by blast

end
