(* ===== verification/Vm_Strings.thy ===== *)
theory Vm_Strings
  imports Vm_Int Json_Value
begin

text \<open>
  String operations of the virtual machine (\<open>allen-vm/src/lib.rs\<close>). A string is its UTF-8 bytes;
  positions of the language count Unicode scalars, positions of the code count bytes. The methods
  of \<open>str\<close> the code calls are modelled on bytes: a match of one UTF-8 text in another starts and
  ends at scalar boundaries.
\<close>

datatype string_operation =
    StrByteLength | StrConcat | StrGet | StrSlice | StrFind | StrContains | StrStartsWith | StrEndsWith
  | StrSplit | StrJoin | StrTrimAscii | StrFromUtf8 | StrReplace | StrTemplateConcat

section \<open>Methods of strings\<close>

text \<open>\<open>char_indices\<close>, \<open>chars().count()\<close>, \<open>find\<close>, \<open>split\<close> and \<open>match_indices\<close>. The last two are only
  called with a separator or needle that is not empty.\<close>

fun char_offsets :: "nat \<Rightarrow> string \<Rightarrow> nat list" where
  "char_offsets i [] = []"
| "char_offsets i (c # cs) = (if utf8_cont c then char_offsets (Suc i) cs else i # char_offsets (Suc i) cs)"

definition char_count :: "string \<Rightarrow> nat" where
  "char_count s = length (char_offsets 0 s)"

fun starts_with :: "string \<Rightarrow> string \<Rightarrow> bool" where
  "starts_with s [] = True"
| "starts_with [] (c # cs) = False"
| "starts_with (d # ds) (c # cs) = (d = c \<and> starts_with ds cs)"

definition ends_with :: "string \<Rightarrow> string \<Rightarrow> bool" where
  "ends_with s suffix = starts_with (rev s) (rev suffix)"

fun find_text :: "string \<Rightarrow> string \<Rightarrow> nat option" where
  "find_text [] needle = (if needle = [] then Some 0 else None)"
| "find_text (c # cs) needle =
     (if starts_with (c # cs) needle then Some 0 else map_option Suc (find_text cs needle))"

lemma find_text_bound: "find_text s needle = Some i \<Longrightarrow> i + length needle \<le> length s"
proof (induction s needle arbitrary: i rule: find_text.induct)
  case (2 c cs needle)
  have p: "starts_with s t \<Longrightarrow> length t \<le> length s" for s t
    by (induction s t rule: starts_with.induct) auto
  from 2 show ?case by (auto split: if_splits dest: p)
qed (simp split: if_splits)

lemma find_text_shorter:
  "find_text s needle = Some i \<Longrightarrow> needle \<noteq> [] \<Longrightarrow> length (drop (i + length needle) s) < length s"
  using find_text_bound [of s needle i] by (cases needle) auto

function split_text :: "string \<Rightarrow> string \<Rightarrow> string list" where
  "split_text s sep =
     (case find_text s sep of
        None \<Rightarrow> [s]
      | Some i \<Rightarrow> if sep = [] then [s] else take i s # split_text (drop (i + length sep) s) sep)"
  by pat_completeness auto
termination
  by (relation "measure (length o fst)") (use find_text_shorter in auto)

function match_indices :: "nat \<Rightarrow> string \<Rightarrow> string \<Rightarrow> nat list" where
  "match_indices base s needle =
     (case find_text s needle of
        None \<Rightarrow> []
      | Some i \<Rightarrow> if needle = [] then []
          else (base + i) # match_indices (base + i + length needle) (drop (i + length needle) s) needle)"
  by pat_completeness auto
termination
  by (relation "measure (\<lambda>(_, s, _). length s)") (use find_text_shorter in auto)

declare split_text.simps [simp del] match_indices.simps [simp del]

fun is_ascii_trim_char :: "byte \<Rightarrow> bool" where
  "is_ascii_trim_char c \<longleftrightarrow> c \<in> {CHR '' '', CHR 0x09, CHR 0x0a, CHR 0x0d, CHR 0x0c, CHR 0x0b}"

definition trim_matches :: "string \<Rightarrow> string" where
  "trim_matches s = rev (dropWhile is_ascii_trim_char (rev (dropWhile is_ascii_trim_char s)))"

section \<open>Operations\<close>

definition usize_of_int :: "i64 \<Rightarrow> nat option" where
  "usize_of_int i = (if sint i < 0 then None else Some (nat (sint i)))"

definition int_of_usize :: "string \<Rightarrow> nat \<Rightarrow> vm_error + i64" where
  "int_of_usize msg n = (if n < 2 ^ 63 then Inr (of_nat n) else Inl (Invariant msg))"

definition scalar_byte_index :: "string \<Rightarrow> nat \<Rightarrow> nat option" where
  "scalar_byte_index s index =
     (let offsets = char_offsets 0 s @ [length s]
      in if index < length offsets then Some (offsets ! index) else None)"

text \<open>The scalar at an offset ends before the next offset.\<close>

definition string_get :: "string \<Rightarrow> i64 \<Rightarrow> vm_value vm" where
  "string_get s index =
     (case usize_of_int index of
        None \<Rightarrow> vm_return option_none
      | Some index \<Rightarrow>
          if \<not> index < length (char_offsets 0 s) then vm_return option_none
          else
            let start = char_offsets 0 s ! index;
                end = (char_offsets 0 s @ [length s]) ! Suc index
            in allocated_some_string (take (end - start) (drop start s)))"

definition string_slice :: "string \<Rightarrow> i64 \<Rightarrow> i64 \<Rightarrow> vm_value vm" where
  "string_slice s start end =
     (case (usize_of_int start, usize_of_int end) of
        (Some start, Some end) \<Rightarrow>
          if start > end then vm_return option_none
          else (case scalar_byte_index s start of
              None \<Rightarrow> vm_return option_none
            | Some start \<Rightarrow> (case scalar_byte_index s end of
                None \<Rightarrow> vm_return option_none
              | Some end \<Rightarrow> allocated_some_string (take (end - start) (drop start s))))
      | _ \<Rightarrow> vm_return option_none)"

definition string_find :: "string \<Rightarrow> string \<Rightarrow> vm_value vm" where
  "string_find s needle =
     (case find_text s needle of
        None \<Rightarrow> vm_return option_none
      | Some byte_index \<Rightarrow>
          vm_bind (vm_lift (int_of_usize ''String scalar index exceeds Int'' (char_count (take byte_index s)))) (\<lambda>i.
          vm_bind (charge_size (enum_size 1)) (\<lambda>_. vm_return (option_some (VInt i)))))"

fun split_allocation :: "nat \<Rightarrow> u64 \<Rightarrow> string list \<Rightarrow> vm_error + nat \<times> u64" where
  "split_allocation n a [] = Inr (n, a)"
| "split_allocation n a (f # fs) =
     result_bind (ok_or (checked_add_usize n 1) allocation_limit) (\<lambda>n.
     result_bind (string_size f) (\<lambda>sz.
     result_bind (checked_allocation_add a sz) (\<lambda>a. split_allocation n a fs)))"

definition string_split :: "string \<Rightarrow> string \<Rightarrow> vm_value vm" where
  "string_split s separator =
     (if separator = [] then vm_return option_none
      else
        let fs = split_text s separator
        in vm_bind (charge_size
             (result_bind (enum_size 1) (\<lambda>a.
              result_bind (split_allocation 0 a fs) (\<lambda>(n, a).
              result_bind (collection_size n VALUE_SLOT_BYTES) (checked_allocation_add a)))))
             (\<lambda>_. vm_return (option_some (VList (map VString fs)))))"

fun joined_bytes :: "nat \<Rightarrow> vm_value list \<Rightarrow> vm_error + nat" where
  "joined_bytes n [] = Inr n"
| "joined_bytes n (v # vs) =
     (case v of
        VString s \<Rightarrow> result_bind (ok_or (checked_add_usize n (length s)) allocation_limit) (\<lambda>n. joined_bytes n vs)
      | _ \<Rightarrow> Inl (Invariant ''String join list element is not String''))"

fun push_joined :: "string \<Rightarrow> string \<Rightarrow> nat \<Rightarrow> vm_value list \<Rightarrow> string" where
  "push_joined separator out i [] = out"
| "push_joined separator out i (v # vs) =
     (let out = (if i > 0 then out @ separator else out)
      in push_joined separator (case v of VString s \<Rightarrow> out @ s | _ \<Rightarrow> out) (Suc i) vs)"

definition string_join :: "vm_value list \<Rightarrow> string \<Rightarrow> vm_value vm" where
  "string_join vs separator =
     vm_bind (charge_size
       (result_bind (joined_bytes 0 vs) (\<lambda>n.
        result_bind (ok_or (checked_mul_usize (length separator) (length vs - 1)) allocation_limit) (\<lambda>sep.
        result_bind (ok_or (checked_add_usize n sep) allocation_limit) string_size_bytes))))
       (\<lambda>_. vm_return (VString (push_joined separator [] 0 vs)))"

fun replace_matches :: "string \<Rightarrow> string \<Rightarrow> nat \<Rightarrow> string \<Rightarrow> nat \<Rightarrow> nat list \<Rightarrow> string" where
  "replace_matches s replacement needle_len out cursor [] = out @ drop cursor s"
| "replace_matches s replacement needle_len out cursor (i # is) =
     replace_matches s replacement needle_len (out @ take (i - cursor) (drop cursor s) @ replacement) (i + needle_len) is"

definition replaced_length :: "nat \<Rightarrow> nat \<Rightarrow> nat \<Rightarrow> nat \<Rightarrow> vm_error + nat" where
  "replaced_length len needle_len replacement_len matches =
     result_bind (ok_or (checked_mul_usize needle_len matches) allocation_limit) (\<lambda>removed.
     result_bind (ok_or (checked_mul_usize replacement_len matches) allocation_limit) (\<lambda>added.
     ok_or (if removed \<le> len then checked_add_usize (len - removed) added else None) allocation_limit))"

definition string_replace :: "string \<Rightarrow> string \<Rightarrow> string \<Rightarrow> vm_value vm" where
  "string_replace s needle replacement =
     (if needle = [] then allocate_string s
      else
        let found = match_indices 0 s needle
        in vm_bind (charge_size
             (result_bind (replaced_length (length s) (length needle) (length replacement) (length found))
                string_size_bytes))
             (\<lambda>_. vm_return (VString (replace_matches s replacement (length needle) [] 0 found))))"

fun concatenated_bytes :: "registers \<Rightarrow> nat \<Rightarrow> register list \<Rightarrow> vm_error + nat" where
  "concatenated_bytes rs n [] = Inr n"
| "concatenated_bytes rs n (r # srcs) =
     result_bind (read_string rs r) (\<lambda>s.
     result_bind (ok_or (checked_add_usize n (length s)) allocation_limit) (\<lambda>n. concatenated_bytes rs n srcs))"

fun push_registers :: "registers \<Rightarrow> string \<Rightarrow> register list \<Rightarrow> vm_error + string" where
  "push_registers rs out [] = Inr out"
| "push_registers rs out (r # srcs) = result_bind (read_string rs r) (\<lambda>s. push_registers rs (out @ s) srcs)"

definition concatenate_string_registers :: "registers \<Rightarrow> register list \<Rightarrow> vm_value vm" where
  "concatenate_string_registers rs arguments =
     vm_bind (charge_size (result_bind (concatenated_bytes rs 0 arguments) string_size_bytes)) (\<lambda>_.
     vm_bind (vm_lift (push_registers rs [] arguments)) (\<lambda>out. vm_return (VString out)))"

definition with_string :: "registers \<Rightarrow> register \<Rightarrow> (string \<Rightarrow> 'a vm) \<Rightarrow> 'a vm" where
  "with_string rs r f = vm_bind (vm_lift (read_string rs r)) f"

definition with_int :: "registers \<Rightarrow> register \<Rightarrow> (i64 \<Rightarrow> 'a vm) \<Rightarrow> 'a vm" where
  "with_int rs r f = vm_bind (vm_lift (read_int rs r)) f"

definition string_call :: "registers \<Rightarrow> string_operation \<Rightarrow> register list \<Rightarrow> vm_value vm" where
  "string_call rs operation arguments =
     (case operation of
        StrByteLength \<Rightarrow> (case arguments of
            [v] \<Rightarrow> with_string rs v (\<lambda>s.
              vm_bind (vm_lift (int_of_usize ''String byte length exceeds Int'' (length s))) (\<lambda>i. vm_return (VInt i)))
          | _ \<Rightarrow> vm_fail (Invariant ''String byte_length arity is invalid''))
      | StrConcat \<Rightarrow> (case arguments of
            [_, _] \<Rightarrow> concatenate_string_registers rs arguments
          | _ \<Rightarrow> vm_fail (Invariant ''String concat arity is invalid''))
      | StrGet \<Rightarrow> (case arguments of
            [v, i] \<Rightarrow> with_string rs v (\<lambda>s. with_int rs i (\<lambda>i. string_get s i))
          | _ \<Rightarrow> vm_fail (Invariant ''String get arity is invalid''))
      | StrSlice \<Rightarrow> (case arguments of
            [v, a, z] \<Rightarrow> with_string rs v (\<lambda>s. with_int rs a (\<lambda>a. with_int rs z (\<lambda>z. string_slice s a z)))
          | _ \<Rightarrow> vm_fail (Invariant ''String slice arity is invalid''))
      | StrFind \<Rightarrow> (case arguments of
            [v, n] \<Rightarrow> with_string rs v (\<lambda>s. with_string rs n (\<lambda>needle. string_find s needle))
          | _ \<Rightarrow> vm_fail (Invariant ''String find arity is invalid''))
      | StrContains \<Rightarrow> (case arguments of
            [v, n] \<Rightarrow> with_string rs v (\<lambda>s. with_string rs n (\<lambda>needle. vm_return (VBool (find_text s needle \<noteq> None))))
          | _ \<Rightarrow> vm_fail (Invariant ''String contains arity is invalid''))
      | StrStartsWith \<Rightarrow> (case arguments of
            [v, p] \<Rightarrow> with_string rs v (\<lambda>s. with_string rs p (\<lambda>p. vm_return (VBool (starts_with s p))))
          | _ \<Rightarrow> vm_fail (Invariant ''String starts_with arity is invalid''))
      | StrEndsWith \<Rightarrow> (case arguments of
            [v, p] \<Rightarrow> with_string rs v (\<lambda>s. with_string rs p (\<lambda>p. vm_return (VBool (ends_with s p))))
          | _ \<Rightarrow> vm_fail (Invariant ''String ends_with arity is invalid''))
      | StrSplit \<Rightarrow> (case arguments of
            [v, p] \<Rightarrow> with_string rs v (\<lambda>s. with_string rs p (\<lambda>p. string_split s p))
          | _ \<Rightarrow> vm_fail (Invariant ''String split arity is invalid''))
      | StrJoin \<Rightarrow> (case arguments of
            [vs, p] \<Rightarrow> vm_bind (vm_lift (read_string_list rs vs)) (\<lambda>vs. with_string rs p (\<lambda>p. string_join vs p))
          | _ \<Rightarrow> vm_fail (Invariant ''String join arity is invalid''))
      | StrTrimAscii \<Rightarrow> (case arguments of
            [v] \<Rightarrow> with_string rs v (\<lambda>s. allocate_string (trim_matches s))
          | _ \<Rightarrow> vm_fail (Invariant ''String trim_ascii arity is invalid''))
      | StrFromUtf8 \<Rightarrow> (case arguments of
            [v] \<Rightarrow> vm_bind (vm_lift (read_bytes ''String from_utf8 operand is not Bytes'' rs v)) (\<lambda>b.
              if utf8_valid b then allocated_some_string b else vm_return option_none)
          | _ \<Rightarrow> vm_fail (Invariant ''String from_utf8 arity is invalid''))
      | StrReplace \<Rightarrow> (case arguments of
            [v, n, r] \<Rightarrow> with_string rs v (\<lambda>s. with_string rs n (\<lambda>needle. with_string rs r (\<lambda>r. string_replace s needle r)))
          | _ \<Rightarrow> vm_fail (Invariant ''String replace arity is invalid''))
      | StrTemplateConcat \<Rightarrow>
          if arguments = [] then vm_fail (Invariant ''template concatenation has no String segments'')
          else concatenate_string_registers rs arguments)"

section \<open>Splitting, joining and replacing\<close>

fun join_text :: "string \<Rightarrow> string list \<Rightarrow> string" where
  "join_text sep [] = []"
| "join_text sep [f] = f"
| "join_text sep (f # fs) = f @ sep @ join_text sep fs"

lemma join_text_Cons: "fs \<noteq> [] \<Longrightarrow> join_text sep (f # fs) = f @ sep @ join_text sep fs"
  by (cases fs) simp_all

lemma starts_with_iff: "starts_with s p \<longleftrightarrow> (\<exists>r. s = p @ r)"
  by (induction s p rule: starts_with.induct) auto

lemma find_text_Some:
  "find_text s needle = Some i \<Longrightarrow> s = take i s @ needle @ drop (i + length needle) s"
proof (induction s needle arbitrary: i rule: find_text.induct)
  case (2 c cs needle)
  show ?case
  proof (cases "starts_with (c # cs) needle")
    case True
    with "2.prems" show ?thesis by (auto simp: starts_with_iff)
  next
    case False
    with "2.prems" obtain j where j: "i = Suc j" "find_text cs needle = Some j" by auto
    with "2.IH" [OF False j(2)] show ?thesis by simp
  qed
qed (simp split: if_splits)

lemma find_text_None: "find_text s needle = None \<longleftrightarrow> (\<nexists>p r. s = p @ needle @ r)"
proof (induction s needle rule: find_text.induct)
  case (2 c cs needle)
  then show ?case
    by (auto simp: starts_with_iff Cons_eq_append_conv append_eq_Cons_conv; metis append_Cons)
qed auto

lemma before_match:
  assumes "find_text s needle = Some i" "needle \<noteq> []"
  shows "find_text (take i s) needle = None"
  using assms
proof (induction s needle arbitrary: i rule: find_text.induct)
  case (2 c cs needle)
  show ?case
  proof (cases "starts_with (c # cs) needle")
    case True
    with "2.prems" show ?thesis by simp
  next
    case False
    with "2.prems" obtain j where j: "i = Suc j" "find_text cs needle = Some j" by auto
    have "\<not> starts_with (c # take j cs) needle"
      using False by (auto simp: starts_with_iff) (metis append.assoc append_Cons append_take_drop_id)
    with "2.IH" [OF False j(2) "2.prems"(2)] j(1) show ?thesis by simp
  qed
qed (simp split: if_splits)

lemma split_text_not_Nil [simp]: "split_text s sep \<noteq> []"
  by (subst split_text.simps) (simp split: option.splits)

lemma join_split_text: "join_text sep (split_text s sep) = s"
proof (induction s sep rule: split_text.induct)
  case (1 s sep)
  show ?case
  proof (cases "find_text s sep")
    case (Some i)
    with "1.IH" [OF Some] find_text_Some [OF Some] show ?thesis
      by (subst split_text.simps) (simp add: join_text_Cons)
  qed (simp add: split_text.simps)
qed

lemma split_text_pieces: "sep \<noteq> [] \<Longrightarrow> f \<in> set (split_text s sep) \<Longrightarrow> find_text f sep = None"
proof (induction s sep rule: split_text.induct)
  case (1 s sep)
  show ?case
  proof (cases "find_text s sep")
    case None
    with "1.prems" show ?thesis by (simp add: split_text.simps)
  next
    case (Some i)
    with "1.prems" have "f = take i s \<or> f \<in> set (split_text (drop (i + length sep) s) sep)"
      by (subst (asm) split_text.simps) simp
    then show ?thesis using before_match [OF Some] "1.IH" [OF Some] "1.prems"(1) by (elim disjE) simp_all
  qed
qed

lemma match_count: "needle \<noteq> [] \<Longrightarrow> length (split_text s needle) = Suc (length (match_indices base s needle))"
proof (induction base s needle rule: match_indices.induct)
  case (1 base s needle)
  then show ?case
    by (subst split_text.simps, subst match_indices.simps) (simp split: option.splits)
qed

lemma replace_matches_join:
  "needle \<noteq> [] \<Longrightarrow> base \<le> length s \<Longrightarrow>
    replace_matches s r (length needle) out base (match_indices base (drop base s) needle) =
      out @ join_text r (split_text (drop base s) needle)"
proof (induction base "drop base s" needle arbitrary: base out rule: match_indices.induct)
  case (1 base needle)
  show ?case
  proof (cases "find_text (drop base s) needle")
    case None
    then show ?thesis by (simp add: match_indices.simps [of base] split_text.simps [of "drop base s"])
  next
    case (Some i)
    let ?next = "base + i + length needle"
    have n: "?next \<le> length s" using find_text_bound [OF Some] "1.prems"(2) by simp
    have d: "drop (i + length needle) (drop base s) = drop ?next s" by (simp add: add.commute add.left_commute)
    have "replace_matches s r (length needle) out base (match_indices base (drop base s) needle) =
        replace_matches s r (length needle) (out @ take i (drop base s) @ r) ?next (match_indices ?next (drop ?next s) needle)"
      using Some "1.prems"(1) d by (simp add: match_indices.simps [of base])
    also have "\<dots> = (out @ take i (drop base s) @ r) @ join_text r (split_text (drop ?next s) needle)"
      using "1.hyps" [OF Some _ d] "1.prems"(1) n by simp
    also have "\<dots> = out @ join_text r (split_text (drop base s) needle)"
      using Some "1.prems"(1) d by (simp add: split_text.simps [of "drop base s"] join_text_Cons)
    finally show ?thesis .
  qed
qed

lemma length_join_text:
  "fs \<noteq> [] \<Longrightarrow> length (join_text sep fs) = sum_list (map length fs) + length sep * (length fs - 1)"
proof (induction sep fs rule: join_text.induct)
  case (3 sep f g fs)
  then show ?case by simp
qed simp_all

lemma replaced_length_exact:
  assumes "needle \<noteq> []" "replaced_length (length s) (length needle) (length r) (length (match_indices 0 s needle)) = Inr n"
  shows "n = length (join_text r (split_text s needle))"
proof -
  let ?fs = "split_text s needle"
  have "length s = sum_list (map length ?fs) + length needle * (length ?fs - 1)"
    using length_join_text [of ?fs needle] join_split_text [of needle s] by simp
  moreover have "length (join_text r ?fs) = sum_list (map length ?fs) + length r * (length ?fs - 1)"
    by (rule length_join_text) simp
  ultimately show ?thesis
    using assms match_count [OF assms(1), of s 0]
    by (auto simp: replaced_length_def result_simps ok_or_Inr_iff split: if_splits)
qed

text \<open>Replacement is splitting and joining: when the machine replaces a needle that is not
  empty, the result joins with the replacement exactly the fields that the needle separates in the
  text, none of which contains the needle, and the budget is charged for exactly that text.\<close>

theorem replace_joins_split_fields:
  assumes "needle \<noteq> []" "string_replace s needle r b = (Inr v, b')"
  shows "\<exists>fs. join_text needle fs = s \<and> (\<forall>f\<in>set fs. find_text f needle = None) \<and>
    v = VString (join_text r fs) \<and> charge_size (string_size (join_text r fs)) b = (Inr (), b')"
proof -
  let ?fs = "split_text s needle"
  let ?sz = "result_bind (replaced_length (length s) (length needle) (length r) (length (match_indices 0 s needle)))
    string_size_bytes"
  have v: "v = VString (replace_matches s r (length needle) [] 0 (match_indices 0 s needle))"
    and c: "charge_size ?sz b = (Inr (), b')"
    using assms by (simp_all add: string_replace_def Let_def charge_then)
  from c have "?sz = string_size (join_text r ?fs)"
    using replaced_length_exact [OF assms(1), of s r] by (auto simp: charge_size_Inr result_simps string_size_def)
  with c v replace_matches_join [OF assms(1), of 0 s r "[]"] show ?thesis
    using join_split_text [of needle s] split_text_pieces [OF assms(1)] by (intro exI [of _ ?fs]) auto
qed

lemma replace_joins_split_fields_witness:
  "\<exists>fs. join_text ''-'' fs = ''a-b'' \<and>
     fst (string_replace ''a-b'' ''-'' ''++'' (budget_new default_limits 0)) = Inr (VString (join_text ''++'' fs))"
proof -
  have sz: "result_bind (replaced_length (length ''a-b'') (length ''-'') (length ''++'') (length [1 :: nat]))
      string_size_bytes = Inr 12"
    by (simp add: replaced_length_def checked_mul_usize_def checked_add_usize_def usize_limit_def ok_or_simps
        string_size_bytes_def logical_size_def checked_mul_u64_def checked_add_u64_def)
  have m: "match_indices 0 ''a-b'' ''-'' = [1]" by (simp add: match_indices.simps)
  have "fst (charge_size (Inr 12) (budget_new default_limits 0)) = Inr ()"
    by (simp add: charge_size_def vm_bind_def vm_lift_def sample_budget)
  then obtain b' where "charge_size (Inr 12) (budget_new default_limits 0) = (Inr (), b')"
    by (metis prod.collapse)
  with sz m have r: "string_replace ''a-b'' ''-'' ''++'' (budget_new default_limits 0) = (Inr (VString ''a++b''), b')"
    by (simp add: string_replace_def charge_then [where b' = b'])
  from replace_joins_split_fields [OF _ r] r show ?thesis by auto
qed

end
