(* ===== verification/Vm_Collections.thy ===== *)
theory Vm_Collections
  imports Vm_Strings Vm_Canonical_Accept
begin

text \<open>
  Collections of the virtual machine (\<open>allen-vm/src/lib.rs\<close>): lists, bytes and maps, their
  indexing, slices and updates. A map is the list of its entries, in key order; keys are compared
  with the equality and the order of the language.
\<close>

datatype safe_collection_operation =
    SafeListGet | SafeListTrySet | SafeBytesGet | SafeMapGet | SafeMapInsert | SafeMapRemove | SafeMapKeys

datatype collection_operation = ColZip | ColListMin | ColListMax | ColListSumInt | ColListSumFloat

section \<open>Maps\<close>

definition map_find :: "(vm_value \<times> vm_value) list \<Rightarrow> vm_value \<Rightarrow> vm_value option" where
  "map_find es k = map_option snd (find (\<lambda>e. language_equal (fst e) k) es)"

definition map_without :: "(vm_value \<times> vm_value) list \<Rightarrow> vm_value \<Rightarrow> (vm_value \<times> vm_value) list" where
  "map_without es k = filter (\<lambda>e. \<not> language_equal (fst e) k) es"

text \<open>\<open>sort_by\<close> with the order of keys: stable, as an insertion from the right.\<close>

fun insert_by_key :: "vm_value \<times> vm_value \<Rightarrow> (vm_value \<times> vm_value) list \<Rightarrow> (vm_value \<times> vm_value) list" where
  "insert_by_key e [] = [e]"
| "insert_by_key e (f # fs) =
     (if compare_map_keys (fst f) (fst e) = OLess then f # insert_by_key e fs else e # f # fs)"

definition sort_by_key :: "(vm_value \<times> vm_value) list \<Rightarrow> (vm_value \<times> vm_value) list" where
  "sort_by_key es = foldr insert_by_key es []"

fun map_literal_insert :: "(vm_value \<times> vm_value) list \<Rightarrow> vm_value \<Rightarrow> vm_value \<Rightarrow> (vm_value \<times> vm_value) list" where
  "map_literal_insert [] k v = [(k, v)]"
| "map_literal_insert (e # es) k v =
     (if language_equal (fst e) k then (k, v) # es else e # map_literal_insert es k v)"

section \<open>Indexing\<close>

definition nth_value :: "'a list \<Rightarrow> nat \<Rightarrow> 'a option" where
  "nth_value xs i = (if i < length xs then Some (xs ! i) else None)"

definition int_of_byte :: "byte \<Rightarrow> vm_value" where
  "int_of_byte c = VInt (of_nat (of_char c))"

definition sequence_index :: "'a list \<Rightarrow> i64 \<Rightarrow> vm_error + 'a" where
  "sequence_index xs i =
     result_bind (ok_or (usize_of_int i) IndexOutOfBounds) (\<lambda>i. ok_or (nth_value xs i) IndexOutOfBounds)"

definition unsupported_index :: "vm_error + vm_value" where
  "unsupported_index = Inl (Invariant ''index instruction contains unsupported values'')"

fun index_get :: "vm_value \<Rightarrow> vm_value \<Rightarrow> vm_error + vm_value" where
  "index_get (VList vs) i = (case i of VInt i \<Rightarrow> sequence_index vs i | _ \<Rightarrow> unsupported_index)"
| "index_get (VBytes b) i =
     (case i of VInt i \<Rightarrow> result_bind (sequence_index b i) (\<lambda>c. Inr (int_of_byte c)) | _ \<Rightarrow> unsupported_index)"
| "index_get (VMap es) k = ok_or (map_find es k) MapKeyNotFound"
| "index_get _ i = unsupported_index"

definition collection_length :: "vm_value \<Rightarrow> vm_error + i64" where
  "collection_length c =
     result_bind (case c of
         VBytes b \<Rightarrow> Inr (length b)
       | VString s \<Rightarrow> Inr (char_count s)
       | VList vs \<Rightarrow> Inr (length vs)
       | VMap es \<Rightarrow> Inr (length es)
       | _ \<Rightarrow> Inl (Invariant ''length instruction contains unsupported value''))
       (int_of_usize ''collection length exceeds Int'')"

definition slice_get :: "vm_value \<Rightarrow> i64 \<Rightarrow> i64 \<Rightarrow> vm_value vm" where
  "slice_get c start end =
     (case (usize_of_int start, usize_of_int end) of
        (Some start, Some end) \<Rightarrow>
          if start > end then vm_return option_none
          else (case c of
              VList vs \<Rightarrow>
                if end > length vs then vm_return option_none
                else vm_bind (charge_size (enum_size 1)) (\<lambda>_.
                     vm_bind (charge_size (collection_size (end - start) VALUE_SLOT_BYTES)) (\<lambda>_.
                     vm_return (option_some (VList (take (end - start) (drop start vs))))))
            | VBytes b \<Rightarrow>
                if end > length b then vm_return option_none
                else vm_bind (charge_size (enum_size 1)) (\<lambda>_.
                     vm_bind (charge_size (collection_size (end - start) 1)) (\<lambda>_.
                     vm_return (option_some (VBytes (take (end - start) (drop start b))))))
            | VString s \<Rightarrow>
                (case scalar_byte_index s start of
                   None \<Rightarrow> vm_return option_none
                 | Some start \<Rightarrow> (case scalar_byte_index s end of
                     None \<Rightarrow> vm_return option_none
                   | Some end \<Rightarrow> allocated_some_string (take (end - start) (drop start s))))
            | _ \<Rightarrow> vm_fail (Invariant ''slice source is not List, Bytes, or String''))
      | _ \<Rightarrow> vm_return option_none)"

definition map_entry_at :: "registers \<Rightarrow> register \<Rightarrow> register \<Rightarrow> vm_value vm" where
  "map_entry_at rs m index =
     vm_bind (vm_lift (read_map ''map entry access operand contains another type'' rs m)) (\<lambda>es.
     vm_bind (vm_lift (result_bind (read_int rs index) (sequence_index es))) (\<lambda>(k, v).
     vm_bind (charge_size (collection_size 2 VALUE_SLOT_BYTES)) (\<lambda>_. vm_return (VTuple [k, v]))))"

section \<open>Lists\<close>

definition list_append :: "registers \<Rightarrow> register \<Rightarrow> register \<Rightarrow> vm_value vm" where
  "list_append rs values v =
     vm_bind (vm_lift (read_list ''list append operand contains another type'' rs values)) (\<lambda>input.
     vm_bind (charge_size (result_bind (ok_or (checked_add_usize (length input) 1) allocation_limit)
         (\<lambda>n. collection_size n VALUE_SLOT_BYTES))) (\<lambda>_.
     vm_bind (vm_lift (read_register rs v)) (\<lambda>appended. vm_return (VList (input @ [appended])))))"

definition index_below :: "i64 \<Rightarrow> nat \<Rightarrow> nat option" where
  "index_below i n = Option.bind (usize_of_int i) (\<lambda>i. if i < n then Some i else None)"

definition list_set :: "registers \<Rightarrow> register \<Rightarrow> register \<Rightarrow> register \<Rightarrow> vm_value vm" where
  "list_set rs values index v =
     vm_bind (vm_lift (read_list ''list set operand contains another type'' rs values)) (\<lambda>input.
     with_int rs index (\<lambda>i.
     vm_bind (vm_lift (ok_or (index_below i (length input)) IndexOutOfBounds)) (\<lambda>i.
     vm_bind (charge_size (collection_size (length input) VALUE_SLOT_BYTES)) (\<lambda>_.
     vm_bind (vm_lift (read_register rs v)) (\<lambda>replacement. vm_return (VList (input[i := replacement])))))))"

section \<open>Operations that do not trap\<close>

definition some_or_none :: "vm_value option \<Rightarrow> vm_value" where
  "some_or_none x = (case x of None \<Rightarrow> option_none | Some v \<Rightarrow> option_some v)"

definition found_value :: "vm_value option \<Rightarrow> vm_value vm" where
  "found_value found =
     (case found of
        Some v \<Rightarrow> vm_bind (charge_size (enum_size 1)) (\<lambda>_. vm_return (option_some v))
      | None \<Rightarrow> vm_return option_none)"

definition update_size :: "vm_error + u64 \<Rightarrow> vm_error + u64" where
  "update_size entries =
     result_bind entries (\<lambda>a.
     result_bind (enum_size 1) (\<lambda>e. result_bind (collection_size 2 MAP_ENTRY_BYTES) (\<lambda>r.
     result_bind (checked_allocation_add e r) (checked_allocation_add a))))"

definition safe_map_insert :: "registers \<Rightarrow> register list \<Rightarrow> vm_value vm" where
  "safe_map_insert rs arguments =
     (case arguments of
        [m, k, v] \<Rightarrow>
          vm_bind (vm_lift (read_map ''map.insert operand is not Map'' rs m)) (\<lambda>es.
          vm_bind (vm_lift (read_register rs k)) (\<lambda>key.
          vm_bind (vm_lift (read_register rs v)) (\<lambda>replacement.
          vm_bind (charge_size (update_size
            (result_bind (ok_or (checked_add_usize (length es) 1) allocation_limit)
               (\<lambda>n. collection_size n MAP_ENTRY_BYTES)))) (\<lambda>_.
          vm_return (VRecord
            [(''previous'', some_or_none (map_find es key)),
             (''values'', VMap (sort_by_key (map_without es key @ [(key, replacement)])))])))))
      | _ \<Rightarrow> vm_fail (Invariant ''map.insert arity is invalid''))"

definition safe_map_remove :: "registers \<Rightarrow> register list \<Rightarrow> vm_value vm" where
  "safe_map_remove rs arguments =
     (case arguments of
        [m, k] \<Rightarrow>
          vm_bind (vm_lift (read_map ''map.remove operand is not Map'' rs m)) (\<lambda>es.
          vm_bind (vm_lift (read_register rs k)) (\<lambda>key.
          vm_bind (charge_size (update_size (collection_size (length es) MAP_ENTRY_BYTES))) (\<lambda>_.
          vm_return (VRecord
            [(''removed'', some_or_none (map_find es key)), (''values'', VMap (map_without es key))]))))
      | _ \<Rightarrow> vm_fail (Invariant ''map.remove arity is invalid''))"

definition list_try_set :: "registers \<Rightarrow> register list \<Rightarrow> vm_value vm" where
  "list_try_set rs arguments =
     (case arguments of
        [values, index, v] \<Rightarrow>
          vm_bind (vm_lift (read_list ''list.try_set operand is not List'' rs values)) (\<lambda>input.
          with_int rs index (\<lambda>i.
          case index_below i (length input) of
            None \<Rightarrow> vm_return option_none
          | Some i \<Rightarrow>
              vm_bind (charge_size
                (result_bind (collection_size (length input) VALUE_SLOT_BYTES) (\<lambda>a.
                 result_bind (enum_size 1) (checked_allocation_add a)))) (\<lambda>_.
              vm_bind (vm_lift (read_register rs v)) (\<lambda>replacement.
              vm_return (option_some (VList (input[i := replacement])))))))
      | _ \<Rightarrow> vm_fail (Invariant ''list.try_set arity is invalid''))"

definition safe_collection_call :: "registers \<Rightarrow> safe_collection_operation \<Rightarrow> register list \<Rightarrow> vm_value vm" where
  "safe_collection_call rs operation arguments =
     (case operation of
        SafeListGet \<Rightarrow> (case arguments of
            [values, index] \<Rightarrow>
              vm_bind (vm_lift (read_list ''list.get operand is not List'' rs values)) (\<lambda>vs.
              with_int rs index (\<lambda>i. found_value (Option.bind (usize_of_int i) (nth_value vs))))
          | _ \<Rightarrow> vm_fail (Invariant ''list.get arity is invalid''))
      | SafeBytesGet \<Rightarrow> (case arguments of
            [values, index] \<Rightarrow>
              vm_bind (vm_lift (read_bytes ''bytes.get operand is not Bytes'' rs values)) (\<lambda>b.
              with_int rs index (\<lambda>i.
                found_value (map_option int_of_byte (Option.bind (usize_of_int i) (nth_value b)))))
          | _ \<Rightarrow> vm_fail (Invariant ''bytes.get arity is invalid''))
      | SafeMapGet \<Rightarrow> (case arguments of
            [m, k] \<Rightarrow>
              vm_bind (vm_lift (read_map ''map.get operand is not Map'' rs m)) (\<lambda>es.
              vm_bind (vm_lift (read_register rs k)) (\<lambda>key. found_value (map_find es key)))
          | _ \<Rightarrow> vm_fail (Invariant ''map.get arity is invalid''))
      | SafeMapInsert \<Rightarrow> safe_map_insert rs arguments
      | SafeMapRemove \<Rightarrow> safe_map_remove rs arguments
      | SafeMapKeys \<Rightarrow> (case arguments of
            [m] \<Rightarrow>
              vm_bind (vm_lift (read_map ''map.keys operand is not Map'' rs m)) (\<lambda>es.
              vm_bind (charge_size (collection_size (length es) VALUE_SLOT_BYTES)) (\<lambda>_.
              vm_return (VList (map fst es))))
          | _ \<Rightarrow> vm_fail (Invariant ''map.keys arity is invalid''))
      | SafeListTrySet \<Rightarrow> list_try_set rs arguments)"

section \<open>Operations over whole lists\<close>

fun read_lists :: "registers \<Rightarrow> register list \<Rightarrow> vm_error + vm_value list list" where
  "read_lists rs [] = Inr []"
| "read_lists rs (r # srcs) =
     result_bind (read_list ''list.zip operand is not List'' rs r) (\<lambda>vs.
     result_bind (read_lists rs srcs) (\<lambda>lists. Inr (vs # lists)))"

definition collection_zip :: "registers \<Rightarrow> register list \<Rightarrow> vm_value vm" where
  "collection_zip rs arguments =
     (if \<not> (2 \<le> length arguments \<and> length arguments \<le> 8) then vm_fail (Invariant ''list.zip arity is invalid'')
      else
        vm_bind (vm_lift (read_lists rs arguments)) (\<lambda>lists.
        let len = length (hd lists)
        in if \<exists>vs\<in>set lists. length vs \<noteq> len then vm_fail ListLengthMismatch
           else
             vm_bind (charge_size
               (result_bind (collection_size len VALUE_SLOT_BYTES) (\<lambda>a.
                result_bind (ok_or (checked_mul_usize len (length lists)) allocation_limit) (\<lambda>n.
                result_bind (collection_size n VALUE_SLOT_BYTES) (checked_allocation_add a)))))
               (\<lambda>_. vm_return (VList (map (\<lambda>i. VTuple (map (\<lambda>vs. vs ! i) lists)) [0..<len])))))"

definition is_nan_value :: "vm_value \<Rightarrow> bool" where
  "is_nan_value v = (case v of VFloat b \<Rightarrow> is_nan_bits b | _ \<Rightarrow> False)"

fun extremum :: "ordering \<Rightarrow> vm_value \<Rightarrow> vm_value list \<Rightarrow> vm_error + vm_value" where
  "extremum better chosen [] = Inr chosen"
| "extremum better chosen (v # vs) =
     (if is_nan_value chosen \<or> is_nan_value v then Inr (VFloat CANONICAL_NAN_BITS)
      else
        result_bind (language_order v chosen) (\<lambda>order.
        result_bind (ok_or order (Invariant ''list extremum values are not ordered'')) (\<lambda>order.
        extremum better (if order = better then v else chosen) vs)))"

definition collection_extremum :: "registers \<Rightarrow> ordering \<Rightarrow> register list \<Rightarrow> vm_value vm" where
  "collection_extremum rs better arguments =
     (case arguments of
        [values] \<Rightarrow>
          vm_bind (vm_lift (read_list ''list extremum operand is not List'' rs values)) (\<lambda>vs.
          case vs of
            [] \<Rightarrow> vm_return option_none
          | first # rest \<Rightarrow>
              vm_bind (vm_lift (extremum better first rest)) (\<lambda>chosen.
              vm_bind (charge_size (enum_size 1)) (\<lambda>_. vm_return (option_some chosen))))
      | _ \<Rightarrow> vm_fail (Invariant ''list extremum arity is invalid''))"

fun sum_ints :: "i64 \<Rightarrow> vm_value list \<Rightarrow> vm_error + i64 option" where
  "sum_ints s [] = Inr (Some s)"
| "sum_ints s (v # vs) =
     (case v of
        VInt i \<Rightarrow> (case checked_add_i64 s i of None \<Rightarrow> Inr None | Some s \<Rightarrow> sum_ints s vs)
      | _ \<Rightarrow> Inl (Invariant ''integer list sum received non-Int''))"

fun sum_floats :: "(u64 \<Rightarrow> u64 \<Rightarrow> u64) \<Rightarrow> u64 \<Rightarrow> vm_value list \<Rightarrow> vm_error + u64" where
  "sum_floats float_add s [] = Inr s"
| "sum_floats float_add s (v # vs) =
     (case v of
        VFloat b \<Rightarrow> sum_floats float_add (float_add s b) vs
      | _ \<Rightarrow> Inl (Invariant ''float list sum received non-Float''))"

text \<open>\<open>float_add\<close> is the addition of the floating point unit, on bits.\<close>

definition collection_call ::
  "(u64 \<Rightarrow> u64 \<Rightarrow> u64) \<Rightarrow> registers \<Rightarrow> collection_operation \<Rightarrow> register list \<Rightarrow> vm_value vm" where
  "collection_call float_add rs operation arguments =
     (case operation of
        ColZip \<Rightarrow> collection_zip rs arguments
      | ColListMin \<Rightarrow> collection_extremum rs OLess arguments
      | ColListMax \<Rightarrow> collection_extremum rs OGreater arguments
      | ColListSumInt \<Rightarrow> (case arguments of
            [values] \<Rightarrow>
              vm_bind (vm_lift (read_list ''list sum operand is not List'' rs values)) (\<lambda>vs.
              vm_bind (vm_lift (sum_ints 0 vs)) (\<lambda>s.
              case s of
                None \<Rightarrow> vm_return option_none
              | Some s \<Rightarrow> vm_bind (charge_size (enum_size 1)) (\<lambda>_. vm_return (option_some (VInt s)))))
          | _ \<Rightarrow> vm_fail (Invariant ''list sum arity is invalid''))
      | ColListSumFloat \<Rightarrow> (case arguments of
            [values] \<Rightarrow>
              vm_bind (vm_lift (read_list ''list sum operand is not List'' rs values)) (\<lambda>vs.
              vm_bind (vm_lift (sum_floats float_add 0 vs)) (\<lambda>s. vm_return (VFloat (canonical_float_bits s))))
          | _ \<Rightarrow> vm_fail (Invariant ''list sum arity is invalid'')))"

section \<open>The map laws\<close>

text \<open>What a client of keyed collections relies on. Keys have a kind: only a key that fits the keys
  present may be inserted.\<close>

locale kinded_store =
  fixes get :: "'m \<Rightarrow> 'k \<Rightarrow> 'v option"
    and ins :: "'k \<Rightarrow> 'v \<Rightarrow> 'm \<Rightarrow> 'm"
    and del :: "'k \<Rightarrow> 'm \<Rightarrow> 'm"
    and fits :: "'m \<Rightarrow> 'k \<Rightarrow> bool"
    and inv :: "'m \<Rightarrow> bool"
  assumes get_ins: "inv m \<Longrightarrow> fits m k \<Longrightarrow> get (ins k v m) = (get m)(k := Some v)"
    and get_del: "inv m \<Longrightarrow> get (del k m) = (get m)(k := None)"
    and inv_ins: "inv m \<Longrightarrow> fits m k \<Longrightarrow> inv (ins k v m)"
    and inv_del: "inv m \<Longrightarrow> inv (del k m)"
    and fits_ins: "inv m \<Longrightarrow> fits m k \<Longrightarrow> fits (ins k v m) k"
    and ext: "inv m \<Longrightarrow> inv n \<Longrightarrow> get m = get n \<Longrightarrow> m = n"
begin

lemma ins_ins: "inv m \<Longrightarrow> fits m k \<Longrightarrow> ins k w (ins k v m) = ins k w m"
  by (rule ext) (simp_all add: inv_ins get_ins fits_ins)

lemma del_ins: "inv m \<Longrightarrow> fits m k \<Longrightarrow> get m k = None \<Longrightarrow> del k (ins k v m) = m"
  by (rule ext) (auto simp: inv_ins get_ins inv_del get_del fun_eq_iff)

end

definition map_wf :: "(vm_value \<times> vm_value) list \<Rightarrow> bool" where
  "map_wf es \<longleftrightarrow> sorted_wrt key_before (map fst es) \<and> list_all (\<lambda>e. is_map_key (fst e)) es"

definition key_fits :: "(vm_value \<times> vm_value) list \<Rightarrow> vm_value \<Rightarrow> bool" where
  "key_fits es k \<longleftrightarrow> is_map_key k \<and> (\<forall>e\<in>set es. same_map_key_kind (fst e) k)"

definition map_insert :: "vm_value \<Rightarrow> vm_value \<Rightarrow> (vm_value \<times> vm_value) list \<Rightarrow> (vm_value \<times> vm_value) list" where
  "map_insert k v es = sort_by_key (map_without es k @ [(k, v)])"

lemma map_find_of: "map_wf es \<Longrightarrow> map_find es k = map_of es k"
  by (induction es) (auto simp: map_find_def map_wf_def language_equal_key)

lemma map_without_filter: "map_wf es \<Longrightarrow> map_without es k = filter (\<lambda>e. fst e \<noteq> k) es"
  by (induction es) (auto simp: map_without_def map_wf_def language_equal_key)

lemma map_wf_filter: "map_wf es \<Longrightarrow> map_wf (filter P es)"
  by (auto simp: map_wf_def sorted_wrt_map list_all_iff intro: sorted_wrt_filter)

lemma key_before_irrefl: "is_map_key k \<Longrightarrow> \<not> key_before k k"
  by (simp add: key_before_def compare_map_keys_code cmp_def)

lemma map_wf_distinct: "map_wf es \<Longrightarrow> distinct (map fst es)"
  by (induction es) (auto simp: map_wf_def key_before_irrefl)

lemma key_before_total:
  "same_map_key_kind a b \<Longrightarrow> a \<noteq> b \<Longrightarrow> compare_map_keys a b \<noteq> OLess \<Longrightarrow> key_before b a"
  using key_code_inject [of a b] same_kind_sym [of a b]
  by (auto simp: key_before_def compare_map_keys_code cmp_def split: if_splits)

lemma set_insert_by_key [simp]: "set (insert_by_key e fs) = insert e (set fs)"
  by (induction e fs rule: insert_by_key.induct) auto

lemma map_wf_Cons:
  "map_wf (e # es) \<longleftrightarrow> is_map_key (fst e) \<and> (\<forall>f\<in>set es. key_before (fst e) (fst f)) \<and> map_wf es"
  by (auto simp: map_wf_def)

lemma map_wf_insert_by_key:
  "map_wf fs \<Longrightarrow> key_fits fs (fst e) \<Longrightarrow> fst e \<notin> fst ` set fs \<Longrightarrow> map_wf (insert_by_key e fs)"
proof (induction e fs rule: insert_by_key.induct)
  case (1 e)
  then show ?case by (simp add: map_wf_def key_fits_def)
next
  case (2 e f fs)
  have fits: "key_fits fs (fst e)" "same_map_key_kind (fst f) (fst e)" "is_map_key (fst e)"
    using "2.prems"(2) by (auto simp: key_fits_def)
  show ?case
  proof (cases "compare_map_keys (fst f) (fst e) = OLess")
    case True
    then have "key_before (fst f) (fst e)"
      using fits(2) by (auto simp: key_before_def compare_map_keys_code cmp_def split: if_splits)
    with True 2 fits(1) show ?thesis by (auto simp: map_wf_Cons)
  next
    case False
    with fits(2) "2.prems"(3) have "key_before (fst e) (fst f)" by (intro key_before_total) auto
    with False "2.prems"(1) fits(3) show ?thesis
      by (auto simp: map_wf_Cons intro: transp_key_before)
  qed
qed

lemma sort_by_key_wf:
  assumes "distinct (map fst es)" "\<forall>e\<in>set es. \<forall>f\<in>set es. same_map_key_kind (fst e) (fst f)"
  shows "map_wf (sort_by_key es) \<and> set (sort_by_key es) = set es"
  using assms
proof (induction es)
  case Nil
  show ?case by (simp add: sort_by_key_def map_wf_def)
next
  case (Cons e es)
  then have IH: "map_wf (sort_by_key es)" "set (sort_by_key es) = set es" by auto
  have "key_fits (sort_by_key es) (fst e)"
    using Cons.prems(2) IH(2) same_kind_map_key by (fastforce simp: key_fits_def)
  then show ?case
    using IH Cons.prems(1) map_wf_insert_by_key [of "sort_by_key es" e]
    by (auto simp: sort_by_key_def)
qed

lemma map_wf_strict: "map_wf es \<Longrightarrow> sorted_wrt (<) (map entry_key es)"
  by (induction es) (auto simp: map_wf_Cons key_before_def entry_key_def)

lemma map_wf_ext:
  assumes "map_wf xs" "map_wf ys" "map_of xs = map_of ys"
  shows "xs = ys"
proof -
  have s: "set xs = set ys"
    using assms(3) map_of_eq_Some_iff [OF map_wf_distinct [OF assms(1)]]
      map_of_eq_Some_iff [OF map_wf_distinct [OF assms(2)]] by auto
  have "sorted (map entry_key xs) \<and> distinct (map entry_key xs)" "sorted (map entry_key ys) \<and> distinct (map entry_key ys)"
    using map_wf_strict [OF assms(1)] map_wf_strict [OF assms(2)] by (simp_all add: strict_sorted_iff)
  with s show ?thesis
    by (intro map_sorted_distinct_set_unique [of entry_key]) (simp_all add: distinct_map)
qed

lemma map_insert_wf:
  assumes "map_wf es" "key_fits es k"
  shows "map_wf (map_insert k v es) \<and> set (map_insert k v es) = insert (k, v) {e \<in> set es. fst e \<noteq> k}"
proof -
  let ?xs = "map_without es k @ [(k, v)]"
  have d: "distinct (map fst ?xs)"
    using map_wf_distinct [OF map_wf_filter [OF assms(1)]] by (auto simp: map_without_filter [OF assms(1)])
  have sub: "set (map_without es k) = {e \<in> set es. fst e \<noteq> k}" by (auto simp: map_without_filter [OF assms(1)])
  have "\<forall>e\<in>set ?xs. same_map_key_kind k (fst e)"
    using assms(2) sub same_kind_sym by (auto simp: key_fits_def)
  then have "\<forall>e\<in>set ?xs. \<forall>f\<in>set ?xs. same_map_key_kind (fst e) (fst f)" using same_kind_trans by blast
  from sort_by_key_wf [OF d this] sub show ?thesis by (auto simp: map_insert_def)
qed

lemma map_of_filter_key: "map_of (filter (\<lambda>e. fst e \<noteq> k) es) = (map_of es)(k := None)"
  by (induction es) (auto simp: fun_eq_iff)

interpretation vm_map: kinded_store map_of map_insert "\<lambda>k es. map_without es k" key_fits map_wf
proof
  fix m :: "(vm_value \<times> vm_value) list" and k v :: vm_value
  assume m: "map_wf m" and fits: "key_fits m k"
  note ins = map_insert_wf [OF m fits, of v]
  show "map_wf (map_insert k v m)" using ins by blast
  have "(map_of (map_insert k v m) j = Some w) = (((map_of m)(k := Some v)) j = Some w)" for j w
    using ins map_of_eq_Some_iff [OF map_wf_distinct [OF m]]
      map_of_eq_Some_iff [OF map_wf_distinct [OF conjunct1 [OF ins]]] by auto
  then show "map_of (map_insert k v m) = (map_of m)(k := Some v)"
    by (intro HOL.ext) (metis option.exhaust)
  show "key_fits (map_insert k v m) k" using ins fits by (auto simp: key_fits_def)
next
  fix m n :: "(vm_value \<times> vm_value) list" and k :: vm_value
  assume m: "map_wf m"
  show "map_wf (map_without m k)" using m by (simp add: map_without_filter map_wf_filter)
  show "map_of (map_without m k) = (map_of m)(k := None)"
    using m by (simp add: map_without_filter map_of_filter_key)
  show "map_wf n \<Longrightarrow> map_of m = map_of n \<Longrightarrow> m = n" using m by (rule map_wf_ext)
qed


lemma read_map_VMap: "read_register rs m = Inr (VMap es) \<Longrightarrow> read_map msg rs m = Inr es"
  by (simp add: read_map_def)

lemma map_insert_law:
  assumes "map_wf es" "read_register rs m = Inr (VMap es)" "read_register rs k = Inr key" "key_fits es key"
    "read_register rs r = Inr v" "safe_map_insert rs [m, k, r] b = (Inr out, b')"
  shows "\<exists>es'. out = VRecord [(''previous'', some_or_none (map_of es key)), (''values'', VMap es')] \<and>
    map_wf es' \<and> map_of es' = (map_of es)(key := Some v)"
proof -
  have "out = VRecord [(''previous'', some_or_none (map_find es key)), (''values'', VMap (map_insert key v es))]"
    using assms by (auto simp: safe_map_insert_def read_map_VMap vm_bind_Inr map_insert_def)
  with assms(1,4) show ?thesis by (simp add: map_find_of vm_map.get_ins vm_map.inv_ins)
qed

lemma map_remove_law:
  assumes "map_wf es" "read_register rs m = Inr (VMap es)" "read_register rs k = Inr key"
    "safe_map_remove rs [m, k] b = (Inr out, b')"
  shows "\<exists>es'. out = VRecord [(''removed'', some_or_none (map_of es key)), (''values'', VMap es')] \<and>
    map_wf es' \<and> map_of es' = (map_of es)(key := None)"
proof -
  have "out = VRecord [(''removed'', some_or_none (map_find es key)), (''values'', VMap (map_without es key))]"
    using assms by (auto simp: safe_map_remove_def read_map_VMap vm_bind_Inr)
  with assms(1) show ?thesis by (simp add: map_find_of vm_map.get_del vm_map.inv_del)
qed

text \<open>(C33) Maps of the machine are finite maps: inserting into a map in key order a key of its
  kind returns the value the key had before and a map in key order that differs from the old one at
  that key only, where it has the new value; removing returns the value the key had and a map in key
  order without the key; and looking up finds exactly the value of the key.\<close>

theorem map_operations_are_finite_maps:
  assumes "map_wf es" "read_register rs m = Inr (VMap es)" "read_register rs k = Inr key" "read_register rs r = Inr v"
  shows "(key_fits es key \<longrightarrow> safe_collection_call rs SafeMapInsert [m, k, r] b = (Inr out, b') \<longrightarrow>
      (\<exists>es'. out = VRecord [(''previous'', some_or_none (map_of es key)), (''values'', VMap es')] \<and>
        map_wf es' \<and> map_of es' = (map_of es)(key := Some v))) \<and>
    (safe_collection_call rs SafeMapRemove [m, k] b = (Inr out, b') \<longrightarrow>
      (\<exists>es'. out = VRecord [(''removed'', some_or_none (map_of es key)), (''values'', VMap es')] \<and>
        map_wf es' \<and> map_of es' = (map_of es)(key := None))) \<and>
    index_get (VMap es) key = ok_or (map_of es key) MapKeyNotFound"
  using map_insert_law [OF assms(1-3) _ assms(4)] map_remove_law [OF assms(1-3)] assms(1)
  by (auto simp: safe_collection_call_def map_find_of)

lemma map_operations_are_finite_maps_witness:
  "\<exists>es'. fst (safe_collection_call [Some (VMap [(VInt 3, VUnit)]), Some (VInt 1), Some (VBool True)] SafeMapInsert [0, 1, 2]
        (budget_new default_limits 0)) =
      Inr (VRecord [(''previous'', option_none), (''values'', VMap es')]) \<and>
    map_of es' (VInt 1) = Some (VBool True) \<and> map_of es' (VInt 3) = Some VUnit"
proof -
  let ?es = "[(VInt 3, VUnit)]"
  let ?rs = "[Some (VMap ?es), Some (VInt 1), Some (VBool True)]"
  let ?b = "budget_new default_limits 0"
  have r: "read_register ?rs 0 = Inr (VMap ?es)" "read_register ?rs 1 = Inr (VInt 1)" "read_register ?rs 2 = Inr (VBool True)"
    by (simp_all add: read_register_def ok_or_simps)
  have wf: "map_wf ?es" "key_fits ?es (VInt 1)" by (simp_all add: map_wf_def key_fits_def)
  have sz: "update_size (result_bind (ok_or (checked_add_usize (length ?es) 1) allocation_limit)
      (\<lambda>n. collection_size n MAP_ENTRY_BYTES)) = Inr 168"
    by (simp add: update_size_def checked_add_usize_def usize_limit_def ok_or_simps collection_size_def enum_size_def
        logical_size_def checked_mul_u64_def checked_add_u64_def checked_allocation_add_def MAP_ENTRY_BYTES_def
        COLLECTION_BASE_BYTES_def VALUE_SLOT_BYTES_def)
  have "fst (charge_size (Inr 168) ?b) = Inr ()"
    by (simp add: charge_size_def vm_bind_def vm_lift_def sample_budget)
  then obtain b' where "charge_size (Inr 168) ?b = (Inr (), b')" by (metis prod.collapse)
  then obtain out where c: "safe_collection_call ?rs SafeMapInsert [0, 1, 2] ?b = (Inr out, b')"
    unfolding safe_collection_call_def safe_map_insert_def
    using r read_map_VMap [OF r(1)] sz by (simp add: vm_bind_def vm_lift_def vm_return_def)
  from map_operations_are_finite_maps [OF wf(1) r] wf(2) c obtain es' where
    "out = VRecord [(''previous'', some_or_none (map_of ?es (VInt 1))), (''values'', VMap es')]"
    "map_of es' = (map_of ?es)(VInt 1 := Some (VBool True))" by metis
  with c show ?thesis by (intro exI [of _ es']) (simp add: some_or_none_def)
qed

end
