(* ===== verification/Vm_Types.thy ===== *)
theory Vm_Types
  imports Vm_Collections
begin

text \<open>
  Types at run time: the types of effects (\<open>allen-bytecode/src/model.rs\<close>), the check of a value
  against a type, the charge for a value from outside and the closing of provider errors
  (\<open>allen-vm/src/lib.rs\<close>).
\<close>

section \<open>Types of effects\<close>

definition task_snapshot_type :: value_type where
  "task_snapshot_type = TRecord
     [(''function'', TString), (''id'', TInt), (''location'', TOption TString), (''owner_id'', TInt), (''state'', TString)]"

text \<open>The error types of files, network, agents, users, models, permissions, processes, time, parsing,
  formatting and decoding are all this record.\<close>

definition standard_error_type :: value_type where
  "standard_error_type = TRecord [(''code'', TString), (''message'', TString)]"

definition exec_response_type :: value_type where
  "exec_response_type = TRecord [(''status'', TInt), (''stderr'', TBytes), (''stdout'', TBytes)]"

definition http_response_type :: value_type where
  "http_response_type = TRecord
     [(''body'', TBytes), (''final_url'', TString), (''headers'', TMap TString (TList TString)), (''status'', TInt)]"

definition search_match_type :: value_type where
  "search_match_type = TRecord [(''column'', TInt), (''line'', TInt), (''path'', TString), (''text'', TString)]"

definition transcript_message_type :: "u32 \<Rightarrow> value_type" where
  "transcript_message_type transcript_part = TRecord
     [(''content'', TList (TEnum transcript_part)), (''id'', TOption TString), (''role'', TString), (''time'', TOption TString)]"

definition transcript_snapshot_type :: "u32 \<Rightarrow> value_type" where
  "transcript_snapshot_type transcript_part = TRecord
     [(''captured_at'', TString), (''messages'', TList (transcript_message_type transcript_part)),
      (''policy_version'', TString), (''session_id'', TString), (''snapshot_id'', TString), (''truncated'', TBool)]"

definition effect_ok_type :: "effect_operation \<Rightarrow> u32 option \<Rightarrow> value_type option" where
  "effect_ok_type operation transcript_part =
     (case operation of
        ReadText \<Rightarrow> Some TString
      | ReadBytes \<Rightarrow> Some TBytes
      | WriteText \<Rightarrow> Some TUnit
      | WriteBytes \<Rightarrow> Some TUnit
      | ListDir \<Rightarrow> Some (TList TString)
      | Search \<Rightarrow> Some (TList search_match_type)
      | HttpGet \<Rightarrow> Some http_response_type
      | ExecRun \<Rightarrow> Some exec_response_type
      | PermissionRequestFile \<Rightarrow> Some TWorkspace
      | PermissionRequestDirectory \<Rightarrow> Some TWorkspace
      | AgentMessage \<Rightarrow> Some TUnit
      | AgentAsk \<Rightarrow> Some TString
      | AgentTranscript \<Rightarrow> map_option transcript_snapshot_type transcript_part
      | SubAgentCreate \<Rightarrow> Some TSubAgent
      | SubAgentMessage \<Rightarrow> Some TUnit
      | SubAgentRun \<Rightarrow> None
      | SubAgentAsk \<Rightarrow> None
      | ModelRequest \<Rightarrow> None
      | UserAsk \<Rightarrow> None)"

definition model_effect_result_type :: "effect_operation \<Rightarrow> u32 option \<Rightarrow> value_type option" where
  "model_effect_result_type operation transcript_part =
     map_option (\<lambda>t. TResult t standard_error_type) (effect_ok_type operation transcript_part)"

definition effect_result_type :: "effect_operation \<Rightarrow> value_type" where
  "effect_result_type operation =
     (case model_effect_result_type operation None of None \<Rightarrow> TNever | Some t \<Rightarrow> t)"

section \<open>Values of a type\<close>

text \<open>\<open>value_matches_type\<close>. The source memoises answers by the address of an aggregate and the type;
  a value here is a tree, none of whose aggregates is shared, so every question is asked once. The
  folds stop asking at the first mismatch.\<close>

fun keys_ascend :: "(vm_value \<times> vm_value) list \<Rightarrow> bool" where
  "keys_ascend (e # f # es) = (compare_map_keys (fst e) (fst f) = OLess \<and> keys_ascend (f # es))"
| "keys_ascend _ = True"

definition and_match :: "vm_error + bool \<Rightarrow> vm_error + bool \<Rightarrow> vm_error + bool" where
  "and_match p q = result_bind p (\<lambda>b. if b then q else Inr False)"

lemma and_match_cong [fundef_cong]:
  "p = p' \<Longrightarrow> (p' = Inr True \<Longrightarrow> q = q') \<Longrightarrow> and_match p q = and_match p' q'"
  by (cases p') (auto simp: and_match_def)

function (sequential) value_matches_type :: "enum_type list \<Rightarrow> nat \<Rightarrow> vm_value \<Rightarrow> value_type \<Rightarrow> vm_error + bool"
  and type_shape :: "enum_type list \<Rightarrow> nat \<Rightarrow> vm_value \<Rightarrow> value_type \<Rightarrow> vm_error + bool"
  and values_match :: "enum_type list \<Rightarrow> nat \<Rightarrow> vm_value list \<Rightarrow> value_type list \<Rightarrow> vm_error + bool"
  and elements_match :: "enum_type list \<Rightarrow> nat \<Rightarrow> vm_value list \<Rightarrow> value_type \<Rightarrow> vm_error + bool"
  and entries_match :: "enum_type list \<Rightarrow> nat \<Rightarrow> (vm_value \<times> vm_value) list \<Rightarrow> value_type \<Rightarrow> value_type \<Rightarrow> vm_error + bool"
  and record_match :: "enum_type list \<Rightarrow> nat \<Rightarrow> (string \<times> vm_value) list \<Rightarrow> (string \<times> value_type) list \<Rightarrow> vm_error + bool"
  and payload_matches_type :: "enum_type list \<Rightarrow> nat \<Rightarrow> enum_payload \<Rightarrow> enum_payload_type \<Rightarrow> vm_error + bool" where
  "value_matches_type ets depth v t = (if depth > MAX_VALUE_NESTING then Inr False else type_shape ets depth v t)"
| "type_shape ets depth (VInt _) t = Inr (t = TInt)"
| "type_shape ets depth (VBool _) t = Inr (t = TBool)"
| "type_shape ets depth (VFloat _) t = Inr (t = TFloat)"
| "type_shape ets depth (VString _) t = Inr (t = TString)"
| "type_shape ets depth (VBytes _) t = Inr (t = TBytes)"
| "type_shape ets depth (VRange _ _ _) t = Inr (t = TRange)"
| "type_shape ets depth (VSequence _) t = Inr (case t of TSequence _ \<Rightarrow> True | _ \<Rightarrow> False)"
| "type_shape ets depth (VExternalFsAccess _) t = Inr (t = TExternalFsAccess)"
| "type_shape ets depth VUnit t = Inr (t = TUnit)"
| "type_shape ets depth (VUnknown _) t = Inr (t = TUnknown)"
| "type_shape ets depth (VClosure _ _) t = Inr (case t of TFunction _ _ _ \<Rightarrow> True | _ \<Rightarrow> False)"
| "type_shape ets depth (VFuture _) t = Inr (case t of TFuture _ \<Rightarrow> True | _ \<Rightarrow> False)"
| "type_shape ets depth (VTask _) t = Inr (case t of TTask _ \<Rightarrow> True | _ \<Rightarrow> False)"
| "type_shape ets depth (VWorkspace _ _ _) t = Inr (t = TWorkspace)"
| "type_shape ets depth (VSubAgent _ _ _) t = Inr (t = TSubAgent)"
| "type_shape ets depth (VList vs) t =
     (case t of TList e \<Rightarrow> elements_match ets depth vs e | _ \<Rightarrow> Inr False)"
| "type_shape ets depth (VMap es) t =
     (case t of
        TMap k v \<Rightarrow> if \<not> keys_ascend es then Inr False else entries_match ets depth es k v
      | _ \<Rightarrow> Inr False)"
| "type_shape ets depth (VTuple vs) t =
     (case t of TTuple ts \<Rightarrow> if length vs \<noteq> length ts then Inr False else values_match ets depth vs ts | _ \<Rightarrow> Inr False)"
| "type_shape ets depth (VRecord fs) t =
     (case t of TRecord ts \<Rightarrow> if length fs \<noteq> length ts then Inr False else record_match ets depth fs ts | _ \<Rightarrow> Inr False)"
| "type_shape ets depth (VNewtype i v) t =
     (case t of TNewtype n u \<Rightarrow> if i \<noteq> n then Inr False else value_matches_type ets (Suc depth) v u | _ \<Rightarrow> Inr False)"
| "type_shape ets depth (VEnum i tn variant vn p) t =
     (case t of
        TEnum type_id \<Rightarrow>
          if i \<noteq> UserEnum type_id then Inr False
          else if \<not> unat type_id < length ets then Inl (Invariant ''enum type is missing'')
          else if \<not> unat variant < length (et_variants (ets ! unat type_id)) then Inl (Invariant ''enum variant is missing'')
          else payload_matches_type ets depth p (ev_payload (et_variants (ets ! unat type_id) ! unat variant))
      | TOption e \<Rightarrow>
          if i \<noteq> OptionEnum then Inr False
          else if variant = 0 \<and> p = PUnit then Inr True
          else if variant = 1
          then (case p of PTuple [x] \<Rightarrow> value_matches_type ets (Suc depth) x e | _ \<Rightarrow> Inr False)
          else Inr False
      | TResult ok err \<Rightarrow>
          if i \<noteq> ResultEnum then Inr False
          else if variant = 0
          then (case p of PTuple [x] \<Rightarrow> value_matches_type ets (Suc depth) x ok | _ \<Rightarrow> Inr False)
          else if variant = 1
          then (case p of PTuple [x] \<Rightarrow> value_matches_type ets (Suc depth) x err | _ \<Rightarrow> Inr False)
          else Inr False
      | _ \<Rightarrow> Inr False)"
| "values_match ets depth [] ts = Inr True"
| "values_match ets depth (v # vs) ts =
     (case ts of [] \<Rightarrow> Inr True
      | t # ts' \<Rightarrow> and_match (value_matches_type ets (Suc depth) v t) (values_match ets depth vs ts'))"
| "elements_match ets depth [] t = Inr True"
| "elements_match ets depth (v # vs) t =
     and_match (value_matches_type ets (Suc depth) v t) (elements_match ets depth vs t)"
| "entries_match ets depth [] k v = Inr True"
| "entries_match ets depth ((x, y) # es) k v =
     and_match (value_matches_type ets (Suc depth) x k)
       (and_match (value_matches_type ets (Suc depth) y v) (entries_match ets depth es k v))"
| "record_match ets depth [] ts = Inr True"
| "record_match ets depth ((n, v) # fs) ts =
     (case ts of [] \<Rightarrow> Inr True
      | (m, t) # ts' \<Rightarrow>
          if n \<noteq> m then Inr False
          else and_match (value_matches_type ets (Suc depth) v t) (record_match ets depth fs ts'))"
| "payload_matches_type ets depth PUnit pt = Inr (pt = TPUnit)"
| "payload_matches_type ets depth (PTuple vs) pt =
     (case pt of TPTuple ts \<Rightarrow> if length vs \<noteq> length ts then Inr False else values_match ets depth vs ts | _ \<Rightarrow> Inr False)"
| "payload_matches_type ets depth (PRecord fs) pt =
     (case pt of TPRecord ts \<Rightarrow> if length fs \<noteq> length ts then Inr False else record_match ets depth fs ts | _ \<Rightarrow> Inr False)"
  by pat_completeness auto
termination
  by (relation "measure (\<lambda>x. case x of
        Inl (Inl (_, _, v, _)) \<Rightarrow> 2 * size v + 1
      | Inl (Inr (Inl (_, _, v, _))) \<Rightarrow> 2 * size v
      | Inl (Inr (Inr (_, _, vs, _))) \<Rightarrow> 2 * size_list size vs
      | Inr (Inl (Inl (_, _, vs, _))) \<Rightarrow> 2 * size_list size vs
      | Inr (Inl (Inr (_, _, es, _, _))) \<Rightarrow> 2 * size_list (size_prod size size) es
      | Inr (Inr (Inl (_, _, fs, _))) \<Rightarrow> 2 * size_list (size_prod (\<lambda>_. 0) size) fs
      | Inr (Inr (Inr (_, _, p, _))) \<Rightarrow> 2 * size p)") auto

section \<open>Values from outside\<close>

text \<open>\<open>charge_external_value\<close>: a value that comes from a provider is charged as if the machine had
  built it.\<close>

function (sequential) charge_external_value :: "vm_value \<Rightarrow> nat \<Rightarrow> unit vm"
  and charge_parts :: "vm_value \<Rightarrow> nat \<Rightarrow> unit vm"
  and charge_values :: "vm_value list \<Rightarrow> nat \<Rightarrow> unit vm"
  and charge_entries :: "(vm_value \<times> vm_value) list \<Rightarrow> nat \<Rightarrow> unit vm"
  and charge_fields :: "(string \<times> vm_value) list \<Rightarrow> nat \<Rightarrow> unit vm" where
  "charge_external_value v depth =
     (if depth > MAX_VALUE_NESTING then vm_fail allocation_limit else charge_parts v depth)"
| "charge_parts (VString s) depth = charge_size (logical_size 8 (length s) 1)"
| "charge_parts (VBytes b) depth = charge_size (logical_size 8 (length b) 1)"
| "charge_parts (VList vs) depth =
     vm_bind (charge_size (collection_size (length vs) VALUE_SLOT_BYTES)) (\<lambda>_. charge_values vs depth)"
| "charge_parts (VTuple vs) depth =
     vm_bind (charge_size (collection_size (length vs) VALUE_SLOT_BYTES)) (\<lambda>_. charge_values vs depth)"
| "charge_parts (VMap es) depth =
     vm_bind (charge_size (collection_size (length es) MAP_ENTRY_BYTES)) (\<lambda>_. charge_entries es depth)"
| "charge_parts (VRecord fs) depth =
     vm_bind (charge_size (record_size (length fs))) (\<lambda>_. charge_fields fs depth)"
| "charge_parts (VEnum i t v n PUnit) depth = charge_size (enum_size 0)"
| "charge_parts (VEnum i t v n (PTuple vs)) depth =
     vm_bind (charge_size (enum_size (length vs))) (\<lambda>_. charge_values vs depth)"
| "charge_parts (VEnum i t v n (PRecord fs)) depth =
     vm_bind (charge_size (enum_size (length fs))) (\<lambda>_. charge_fields fs depth)"
| "charge_parts (VNewtype i v) depth =
     vm_bind (charge_size (newtype_size (length i))) (\<lambda>_. charge_external_value v (Suc depth))"
| "charge_parts (VUnknown v) depth =
     vm_bind (charge_allocation VALUE_SLOT_BYTES) (\<lambda>_. charge_external_value v (Suc depth))"
| "charge_parts (VSequence _) depth = vm_fail (Invariant ''effect result contains an affine value'')"
| "charge_parts (VClosure _ _) depth = vm_fail (Invariant ''effect result contains an affine value'')"
| "charge_parts (VFuture _) depth = vm_fail (Invariant ''effect result contains an affine value'')"
| "charge_parts (VTask _) depth = vm_fail (Invariant ''effect result contains an affine value'')"
| "charge_parts _ depth = vm_return ()"
| "charge_values [] depth = vm_return ()"
| "charge_values (v # vs) depth = vm_bind (charge_external_value v (Suc depth)) (\<lambda>_. charge_values vs depth)"
| "charge_entries [] depth = vm_return ()"
| "charge_entries ((k, v) # es) depth =
     vm_bind (charge_external_value k (Suc depth)) (\<lambda>_.
     vm_bind (charge_external_value v (Suc depth)) (\<lambda>_. charge_entries es depth))"
| "charge_fields [] depth = vm_return ()"
| "charge_fields ((n, v) # fs) depth = vm_bind (charge_external_value v (Suc depth)) (\<lambda>_. charge_fields fs depth)"
  by pat_completeness auto
termination
  by (relation "measure (\<lambda>x. case x of
        Inl (Inl (v, _)) \<Rightarrow> 2 * size v + 1
      | Inl (Inr (v, _)) \<Rightarrow> 2 * size v
      | Inr (Inl (vs, _)) \<Rightarrow> 2 * size_list size vs
      | Inr (Inr (Inl (es, _))) \<Rightarrow> 2 * size_list (size_prod size size) es
      | Inr (Inr (Inr (fs, _))) \<Rightarrow> 2 * size_list (size_prod (\<lambda>_. 0) size) fs)") auto

section \<open>Provider results\<close>

datatype effect_failure_family = FamilyOperation effect_operation | FamilyTool

fun failure_family :: "future_value \<Rightarrow> effect_failure_family option" where
  "failure_family (FutureEffect operation _) = Some (FamilyOperation operation)"
| "failure_family (FutureAgent operation _ _) = Some (FamilyOperation operation)"
| "failure_family (FutureTool _ _ _) = Some FamilyTool"
| "failure_family (FutureFunction _ _) = None"

fun scan_error_fields :: "string option \<Rightarrow> string option \<Rightarrow> (string \<times> vm_value) list \<Rightarrow> string option \<times> string option" where
  "scan_error_fields code message [] = (code, message)"
| "scan_error_fields code message ((name, v) # fs) =
     (case v of
        VString s \<Rightarrow>
          if name = ''code'' then scan_error_fields (Some s) message fs
          else if name = ''message'' then scan_error_fields code (Some s) fs
          else scan_error_fields code message fs
      | _ \<Rightarrow> scan_error_fields code message fs)"

definition standard_error_fields :: "(string \<times> vm_value) list \<Rightarrow> vm_error + string \<times> string" where
  "standard_error_fields fs =
     (case scan_error_fields None None fs of
        (Some code, Some message) \<Rightarrow> Inr (code, message)
      | _ \<Rightarrow> Inl VmProtocolViolation)"

definition fs_write_codes :: "string list" where
  "fs_write_codes =
     [''fs.hard_link_denied'', ''fs.invalid_path'', ''fs.io'', ''fs.not_directory'', ''fs.permission_denied'',
      ''fs.special_file_denied'', ''fs.symlink_denied'', ''fs.target_changed'', ''fs.unavailable'',
      ''fs.unsupported_platform'']"

definition network_codes :: "string list" where
  "network_codes =
     [''net.connect_timeout'', ''net.destination_denied'', ''net.dns'', ''net.dns_timeout'', ''net.first_byte_timeout'',
      ''net.idle_timeout'', ''net.invalid_limits'', ''net.invalid_url'', ''net.io'', ''net.origin_denied'',
      ''net.peer_mismatch'', ''net.permission_denied'', ''net.protocol'', ''net.redirect_invalid'', ''net.tls'',
      ''net.total_timeout'', ''net.unsupported_encoding'', ''network.unavailable'']"

definition exec_codes :: "string list" where
  "exec_codes =
     [''exec.denied'', ''exec.invalid_argv'', ''exec.stdin_limit'', ''exec.stdout_limit'', ''exec.stderr_limit'',
      ''exec.timeout'', ''exec.unavailable'', ''exec.limit'']"

definition operation_error_codes :: "effect_operation \<Rightarrow> string list" where
  "operation_error_codes operation =
     (case operation of
        ReadText \<Rightarrow> fs_write_codes @ [''fs.invalid_utf8'', ''fs.is_directory'', ''fs.not_found'']
      | ReadBytes \<Rightarrow> fs_write_codes @ [''fs.is_directory'', ''fs.not_found'']
      | WriteText \<Rightarrow> fs_write_codes
      | WriteBytes \<Rightarrow> fs_write_codes
      | ListDir \<Rightarrow> fs_write_codes @ [''fs.invalid_utf8'', ''fs.not_found'']
      | Search \<Rightarrow> fs_write_codes @ [''fs.invalid_utf8'', ''fs.not_found'']
      | HttpGet \<Rightarrow> network_codes
      | ExecRun \<Rightarrow> exec_codes
      | PermissionRequestFile \<Rightarrow> [''permission.denied'', ''permission.unavailable'']
      | PermissionRequestDirectory \<Rightarrow> [''permission.denied'', ''permission.unavailable'']
      | AgentMessage \<Rightarrow> [''agent.denied'', ''agent.unavailable'']
      | AgentTranscript \<Rightarrow> [''agent.denied'', ''agent.unavailable'']
      | AgentAsk \<Rightarrow> [''agent.denied'', ''agent.unavailable'', ''agent.validation_failed'']
      | ModelRequest \<Rightarrow> [''model.denied'', ''model.unavailable'', ''model.validation_failed'']
      | UserAsk \<Rightarrow> [''user.denied'', ''user.unavailable'', ''user.validation_failed'']
      | SubAgentCreate \<Rightarrow> [''sub_agent.denied'', ''sub_agent.unavailable'']
      | SubAgentMessage \<Rightarrow> [''sub_agent.denied'', ''sub_agent.unavailable'']
      | SubAgentRun \<Rightarrow> [''sub_agent.denied'', ''sub_agent.unavailable'', ''sub_agent.validation_failed'']
      | SubAgentAsk \<Rightarrow> [''sub_agent.denied'', ''sub_agent.unavailable'', ''sub_agent.validation_failed''])"

definition operation_allows_error_code :: "effect_operation \<Rightarrow> string \<Rightarrow> bool" where
  "operation_allows_error_code operation code \<longleftrightarrow> code \<in> set (operation_error_codes operation)"

definition validate_error_payload :: "effect_failure_family \<Rightarrow> vm_value \<Rightarrow> vm_error + unit" where
  "validate_error_payload family error =
     (case family of
        FamilyOperation operation \<Rightarrow> (case error of
            VRecord fs \<Rightarrow>
              result_bind (standard_error_fields fs) (\<lambda>(code, message).
              if length message > 1024 \<or> \<not> operation_allows_error_code operation code
              then Inl VmProtocolViolation else Inr ())
          | _ \<Rightarrow> Inl VmProtocolViolation)
      | FamilyTool \<Rightarrow> (case error of
            VEnum i t variant n payload \<Rightarrow>
              if variant = 0 then Inr ()
              else (case payload of
                  PRecord fs \<Rightarrow>
                    result_bind (standard_error_fields fs) (\<lambda>(code, message).
                    let valid = (if variant = 1 then code = ''tool.unavailable'' \<or> code = ''tool.denied''
                                 else if variant = 2 then code = ''tool.schema'' else False)
                    in if length message > 1024 \<or> \<not> valid then Inl VmProtocolViolation else Inr ())
                | _ \<Rightarrow> Inl VmProtocolViolation)
          | _ \<Rightarrow> Inl VmProtocolViolation))"

definition validate_closed_provider_result :: "vm_value \<Rightarrow> effect_failure_family \<Rightarrow> vm_error + unit" where
  "validate_closed_provider_result v family =
     (case v of
        VEnum identity t variant n payload \<Rightarrow>
          if identity \<noteq> ResultEnum then Inl VmProtocolViolation
          else if variant = 0 then Inr ()
          else if variant \<noteq> 1 then Inl VmProtocolViolation
          else (case payload of
              PTuple (error # _) \<Rightarrow> validate_error_payload family error
            | _ \<Rightarrow> Inl VmProtocolViolation)
      | _ \<Rightarrow> Inl VmProtocolViolation)"

definition validate_provider_value ::
  "enum_type list \<Rightarrow> vm_value \<Rightarrow> value_type \<Rightarrow> effect_failure_family \<Rightarrow> vm_error + unit" where
  "validate_provider_value ets v expected family =
     (case value_matches_type ets 0 v expected of
        Inr True \<Rightarrow> validate_closed_provider_result v family
      | _ \<Rightarrow> Inl VmProtocolViolation)"

definition operational_error_result :: "value_type \<Rightarrow> u32 \<Rightarrow> string \<Rightarrow> string \<Rightarrow> vm_error + vm_value" where
  "operational_error_result result_type variant code message =
     (case result_type of
        TResult _ error_type \<Rightarrow>
          let fs = [(''code'', VString code), (''message'', VString message)]
          in result_bind (case error_type of
                 TRecord _ \<Rightarrow> Inr (VRecord fs)
               | TEnum i \<Rightarrow> Inr (VEnum (UserEnum i) ''<generated-tool-error>'' variant
                     (if variant = 2 then ''Schema'' else ''Unavailable'') (PRecord fs))
               | _ \<Rightarrow> Inl (Invariant ''provider error type is not closed''))
               (\<lambda>error. Inr (builtin_enum ResultEnum 1 (PTuple [error])))
      | _ \<Rightarrow> Inl (Invariant ''provider result is not recoverable''))"

text \<open>The code and the text that stand for an error of the provider; the variant is that of the
  generated error enum of a tool.\<close>

definition fs_operations :: "effect_operation list" where
  "fs_operations = [ReadText, ReadBytes, WriteText, WriteBytes, ListDir, Search]"

definition agent_operations :: "effect_operation list" where
  "agent_operations = [AgentMessage, AgentAsk, AgentTranscript]"

definition sub_agent_operations :: "effect_operation list" where
  "sub_agent_operations = [SubAgentCreate, SubAgentRun, SubAgentMessage, SubAgentAsk]"

definition closed_error :: "effect_failure_family \<Rightarrow> vm_error \<Rightarrow> (u32 \<times> string \<times> string) option" where
  "closed_error family error =
     (case family of
        FamilyOperation op \<Rightarrow>
          if op \<in> set fs_operations \<and> error = CapabilityMissing
          then Some (1, ''fs.unavailable'', ''filesystem provider is unavailable'')
          else if op = HttpGet \<and> error = CapabilityMissing
          then Some (1, ''network.unavailable'', ''network provider is unavailable'')
          else if op = ExecRun \<and> error = CapabilityMissing
          then Some (1, ''exec.unavailable'', ''subprocess provider is unavailable'')
          else if op \<in> {PermissionRequestFile, PermissionRequestDirectory} \<and>
            (error = CapabilityMissing \<or> error = AgentUnavailable)
          then Some (1, ''permission.unavailable'', ''permission provider is unavailable'')
          else if op \<in> set agent_operations \<and> error = AgentUnavailable
          then Some (1, ''agent.unavailable'', ''the invoking agent is unavailable'')
          else if op \<in> set agent_operations \<and> error = CapabilityMissing
          then Some (1, ''agent.denied'', ''the invoking-agent operation was denied'')
          else if op = AgentAsk \<and> error = AgentResponseSchema
          then Some (1, ''agent.validation_failed'', ''the agent response failed validation'')
          else if op = ModelRequest \<and> error = ModelUnavailable
          then Some (1, ''model.unavailable'', ''the model provider is unavailable'')
          else if op = ModelRequest \<and> error = CapabilityMissing
          then Some (1, ''model.denied'', ''the model operation was denied'')
          else if op = ModelRequest \<and> error = ModelValidationError
          then Some (1, ''model.validation_failed'', ''the model response failed validation'')
          else if op = UserAsk \<and> error = UserUnavailable
          then Some (1, ''user.unavailable'', ''the user provider is unavailable'')
          else if op = UserAsk \<and> error = CapabilityMissing
          then Some (1, ''user.denied'', ''the user operation was denied'')
          else if op = UserAsk \<and> error = ResponseValidationError
          then Some (1, ''user.validation_failed'', ''the user response failed validation'')
          else if op \<in> set sub_agent_operations \<and> error = SubAgentUnavailable
          then Some (1, ''sub_agent.unavailable'', ''the sub-agent provider is unavailable'')
          else if op \<in> set sub_agent_operations \<and> error = CapabilityMissing
          then Some (1, ''sub_agent.denied'', ''the sub-agent operation was denied'')
          else if op \<in> {SubAgentRun, SubAgentAsk} \<and> error = SubAgentResponseSchema
          then Some (1, ''sub_agent.validation_failed'', ''the sub-agent response failed validation'')
          else None
      | FamilyTool \<Rightarrow>
          if error = ToolUnavailable then Some (1, ''tool.unavailable'', ''the tool provider is unavailable'')
          else if error = CapabilityMissing then Some (1, ''tool.denied'', ''the tool operation was denied'')
          else if error = ToolSchemaError then Some (2, ''tool.schema'', ''the tool response failed schema validation'')
          else None)"

definition uncaught_error :: "vm_error \<Rightarrow> vm_error" where
  "uncaught_error error =
     (case error of
        VmCancelled \<Rightarrow> error
      | Timeout _ \<Rightarrow> error
      | ResourceLimit _ \<Rightarrow> error
      | VmProtocolViolation \<Rightarrow> error
      | ReplayRuntimeDiverged \<Rightarrow> error
      | ReplayDiverged \<Rightarrow> ReplayRuntimeDiverged
      | _ \<Rightarrow> VmProtocolViolation)"

definition close_provider_error :: "effect_failure_family \<Rightarrow> value_type \<Rightarrow> vm_error \<Rightarrow> vm_error + vm_value" where
  "close_provider_error family result_type error =
     (case closed_error family error of
        Some (variant, code, message) \<Rightarrow> operational_error_result result_type variant code message
      | None \<Rightarrow> Inl (uncaught_error error))"

definition is_agent_operation :: "effect_operation \<Rightarrow> bool" where
  "is_agent_operation op \<longleftrightarrow> op \<in> set agent_operations \<union> set sub_agent_operations \<union> {ModelRequest, UserAsk}"

section \<open>Typing\<close>

abbreviation typed :: "enum_type list \<Rightarrow> nat \<Rightarrow> vm_value \<Rightarrow> value_type \<Rightarrow> bool" where
  "typed ets d v t \<equiv> value_matches_type ets d v t = Inr True"

lemma and_match_True [simp]: "and_match p q = Inr True \<longleftrightarrow> p = Inr True \<and> q = Inr True"
  by (cases p) (auto simp: and_match_def)

lemma elements_match_True: "elements_match ets d vs t = Inr True \<longleftrightarrow> (\<forall>v\<in>set vs. typed ets (Suc d) v t)"
  by (induction vs) (simp_all del: value_matches_type.simps)

lemma entries_match_True:
  "entries_match ets d es k v = Inr True \<longleftrightarrow> (\<forall>e\<in>set es. typed ets (Suc d) (fst e) k \<and> typed ets (Suc d) (snd e) v)"
  by (induction es) (auto simp del: value_matches_type.simps)

lemma values_match_True:
  "length vs = length ts \<Longrightarrow> values_match ets d vs ts = Inr True \<longleftrightarrow> list_all2 (typed ets (Suc d)) vs ts"
  by (induction vs ts rule: list_induct2) (simp_all del: value_matches_type.simps)

lemma record_match_True:
  "length fs = length ts \<Longrightarrow> record_match ets d fs ts = Inr True \<longleftrightarrow>
     list_all2 (\<lambda>f t. fst f = fst t \<and> typed ets (Suc d) (snd f) (snd t)) fs ts"
  by (induction fs ts rule: list_induct2) (auto simp del: value_matches_type.simps split: if_splits)

fun payload_typed :: "enum_type list \<Rightarrow> nat \<Rightarrow> enum_payload \<Rightarrow> enum_payload_type \<Rightarrow> bool" where
  "payload_typed ets d PUnit pt \<longleftrightarrow> pt = TPUnit"
| "payload_typed ets d (PTuple vs) pt \<longleftrightarrow> (\<exists>ts. pt = TPTuple ts \<and> list_all2 (typed ets (Suc d)) vs ts)"
| "payload_typed ets d (PRecord fs) pt \<longleftrightarrow>
     (\<exists>ts. pt = TPRecord ts \<and> list_all2 (\<lambda>f t. fst f = fst t \<and> typed ets (Suc d) (snd f) (snd t)) fs ts)"

lemma payload_matches_True: "payload_matches_type ets d p pt = Inr True \<longleftrightarrow> payload_typed ets d p pt"
  by (cases p; cases pt) (auto simp: values_match_True record_match_True dest: list_all2_lengthD simp del: value_matches_type.simps)

text \<open>One inversion for each kind of aggregate.\<close>

lemma typed_VList [simp]:
  "typed ets d (VList vs) t \<longleftrightarrow> d \<le> MAX_VALUE_NESTING \<and> (\<exists>e. t = TList e \<and> (\<forall>v\<in>set vs. typed ets (Suc d) v e))"
  by (cases t) (simp_all add: elements_match_True value_matches_type.simps [of _ d])

lemma typed_VMap [simp]:
  "typed ets d (VMap es) t \<longleftrightarrow> d \<le> MAX_VALUE_NESTING \<and> (\<exists>k u. t = TMap k u \<and> keys_ascend es \<and>
     (\<forall>e\<in>set es. typed ets (Suc d) (fst e) k \<and> typed ets (Suc d) (snd e) u))"
  by (cases t) (simp_all add: entries_match_True value_matches_type.simps [of _ d])

lemma typed_VTuple [simp]:
  "typed ets d (VTuple vs) t \<longleftrightarrow> d \<le> MAX_VALUE_NESTING \<and> (\<exists>ts. t = TTuple ts \<and> list_all2 (typed ets (Suc d)) vs ts)"
  by (cases t) (auto simp: values_match_True value_matches_type.simps [of _ d] dest: list_all2_lengthD
      simp del: value_matches_type.simps)

lemma typed_VRecord [simp]:
  "typed ets d (VRecord fs) t \<longleftrightarrow> d \<le> MAX_VALUE_NESTING \<and> (\<exists>ts. t = TRecord ts \<and>
     list_all2 (\<lambda>f t. fst f = fst t \<and> typed ets (Suc d) (snd f) (snd t)) fs ts)"
  by (cases t) (auto simp: record_match_True value_matches_type.simps [of _ d] dest: list_all2_lengthD
      simp del: value_matches_type.simps)

lemma typed_VNewtype [simp]:
  "typed ets d (VNewtype n v) t \<longleftrightarrow> d \<le> MAX_VALUE_NESTING \<and> (\<exists>u. t = TNewtype n u \<and> typed ets (Suc d) v u)"
  by (cases t) (auto simp: value_matches_type.simps [of _ d] simp del: value_matches_type.simps)

lemma typed_VEnum [simp]:
  "typed ets d (VEnum i tn variant vn p) t \<longleftrightarrow> d \<le> MAX_VALUE_NESTING \<and>
     ((\<exists>type_id. t = TEnum type_id \<and> i = UserEnum type_id \<and> unat type_id < length ets \<and>
        unat variant < length (et_variants (ets ! unat type_id)) \<and>
        payload_typed ets d p (ev_payload (et_variants (ets ! unat type_id) ! unat variant))) \<or>
      (\<exists>e. t = TOption e \<and> i = OptionEnum \<and>
        (variant = 0 \<and> p = PUnit \<or> variant = 1 \<and> (\<exists>x. p = PTuple [x] \<and> typed ets (Suc d) x e))) \<or>
      (\<exists>ok err. t = TResult ok err \<and> i = ResultEnum \<and>
        (\<exists>x. p = PTuple [x] \<and> (variant = 0 \<and> typed ets (Suc d) x ok \<or> variant = 1 \<and> typed ets (Suc d) x err))))"
  by (cases t) (auto simp: payload_matches_True value_matches_type.simps [of _ d] simp del: value_matches_type.simps
      split: enum_payload.splits list.splits if_splits)

declare value_matches_type.simps [simp del]

lemma typed_depth: "typed ets d v t \<Longrightarrow> d \<le> MAX_VALUE_NESTING"
  by (simp add: value_matches_type.simps split: if_splits)

lemma typed_shallower: "typed ets d v t \<Longrightarrow> d' \<le> d \<Longrightarrow> typed ets d' v t"
proof (induction v arbitrary: t d d' rule: measure_induct_rule [of size])
  case (less v)
  have m: "d' \<le> MAX_VALUE_NESTING" using typed_depth [OF less.prems(1)] less.prems(2) by simp
  have IH: "size w < size v \<Longrightarrow> typed ets (Suc d) w u \<Longrightarrow> typed ets (Suc d') w u" for w u
    using less.IH [of w "Suc d" u "Suc d'"] less.prems(2) by simp
  show ?case
  proof (cases v)
    case (VList vs)
    then have "w \<in> set vs \<Longrightarrow> size w < size v" for w using size_member by simp
    with VList IH show ?thesis using less.prems m by auto
  next
    case (VMap es)
    with less.prems(1) obtain k u where t: "t = TMap k u" "keys_ascend es"
        "\<forall>e\<in>set es. typed ets (Suc d) (fst e) k \<and> typed ets (Suc d) (snd e) u" by auto
    have "size (fst e) < size v \<and> size (snd e) < size v" if "e \<in> set es" for e
      using VMap that size_entry [of "fst e" "snd e" es] by simp
    then have "\<forall>e\<in>set es. typed ets (Suc d') (fst e) k \<and> typed ets (Suc d') (snd e) u" using IH t(3) by blast
    with VMap t m show ?thesis by simp
  next
    case (VTuple vs)
    then show ?thesis using less.prems m by (auto intro!: IH size_member elim!: list.rel_mono_strong)
  next
    case (VRecord fs)
    then have "f \<in> set fs \<Longrightarrow> typed ets (Suc d) (snd f) u \<Longrightarrow> typed ets (Suc d') (snd f) u" for f u
      using IH size_field [of "fst f" "snd f" fs] by simp
    with VRecord show ?thesis using less.prems m by (auto elim!: list.rel_mono_strong)
  next
    case (VEnum i tn variant vn p)
    have "payload_typed ets d p pt \<Longrightarrow> payload_typed ets d' p pt" for pt
    proof (cases p)
      case (PRecord fs)
      then have "f \<in> set fs \<Longrightarrow> typed ets (Suc d) (snd f) u \<Longrightarrow> typed ets (Suc d') (snd f) u" for f u
        using VEnum IH size_field [of "fst f" "snd f" fs] by simp
      with PRecord show "payload_typed ets d p pt \<Longrightarrow> payload_typed ets d' p pt" by (auto elim!: list.rel_mono_strong)
    next
      case (PTuple vs)
      then have "w \<in> set vs \<Longrightarrow> typed ets (Suc d) w u \<Longrightarrow> typed ets (Suc d') w u" for w u
        using VEnum IH size_member [of w vs] by simp
      with PTuple show "payload_typed ets d p pt \<Longrightarrow> payload_typed ets d' p pt" by (auto elim!: list.rel_mono_strong)
    qed simp
    then show ?thesis using VEnum less.prems m by (auto intro!: IH)
  next
    case (VNewtype i w)
    with IH [of w] show ?thesis using less.prems m by auto
  qed (use less.prems m in \<open>simp_all add: value_matches_type.simps split: if_splits\<close>)
qed


section \<open>Maps of a type satisfy the map laws\<close>

lemma typed_scalar:
  "typed ets d v TBool \<Longrightarrow> \<exists>b. v = VBool b" "typed ets d v TInt \<Longrightarrow> \<exists>i. v = VInt i"
  "typed ets d v TString \<Longrightarrow> \<exists>s. v = VString s" "typed ets d v TBytes \<Longrightarrow> \<exists>s. v = VBytes s"
  by (cases v; simp add: value_matches_type.simps split: if_splits)+

lemma typed_newtype: "typed ets d v (TNewtype n u) \<Longrightarrow> \<exists>x. v = VNewtype n x \<and> typed ets (Suc d) x u"
  by (cases v) (simp_all add: value_matches_type.simps [of _ d] split: if_splits)

lemma typed_keys_same_kind:
  "is_map_key_type k \<Longrightarrow> typed ets d a k \<Longrightarrow> typed ets d' b k \<Longrightarrow> same_map_key_kind a b"
proof (induction k arbitrary: a b d d' rule: is_map_key_type.induct)
  case (5 n u)
  from typed_newtype [OF "5.prems"(2)] typed_newtype [OF "5.prems"(3)] "5.IH" "5.prems"(1)
  show ?case by auto
qed (auto dest!: typed_scalar)

lemma typed_map_wf:
  assumes "is_map_key_type k" "keys_ascend es" "\<forall>e\<in>set es. typed ets d (fst e) k"
  shows "map_wf es"
  using assms(2,3)
proof (induction es rule: keys_ascend.induct)
  case (1 e f es)
  then have wf: "map_wf (f # es)" by simp
  have "same_map_key_kind (fst e) (fst f)"
    using typed_keys_same_kind [OF assms(1), of ets d "fst e" d "fst f"] "1.prems"(2) by simp
  then have "is_map_key (fst e)" using same_kind_map_key by blast
  note \<open>same_map_key_kind (fst e) (fst f)\<close>
  then have "key_before (fst e) (fst f)" using "1.prems"(1)
    by (auto simp: key_before_def compare_map_keys_code cmp_def split: if_splits)
  with wf \<open>is_map_key (fst e)\<close> show ?case by (auto simp: map_wf_Cons intro: transp_key_before)
next
  case single: "2_2"
  show ?case
    using typed_keys_same_kind [OF assms(1) _ _, of ets d _ d] single(2)
    by (auto simp: map_wf_def dest: same_kind_map_key)
qed (simp add: map_wf_def)

lemma map_wf_keys_ascend: "map_wf es \<Longrightarrow> keys_ascend es"
  by (induction es rule: keys_ascend.induct) (auto simp: map_wf_Cons key_before_def compare_map_keys_code cmp_def)


section \<open>Collection operations preserve types\<close>

text \<open>The types of the operands of an operation and of its result.\<close>

inductive safe_signature :: "safe_collection_operation \<Rightarrow> value_type list \<Rightarrow> value_type \<Rightarrow> bool" where
  sig_list_get: "safe_signature SafeListGet [TList t, TInt] (TOption t)"
| sig_list_try_set: "safe_signature SafeListTrySet [TList t, TInt, t] (TOption (TList t))"
| sig_bytes_get: "safe_signature SafeBytesGet [TBytes, TInt] (TOption TInt)"
| sig_map_get: "safe_signature SafeMapGet [TMap k v, k] (TOption v)"
| sig_map_insert: "is_map_key_type k \<Longrightarrow>
    safe_signature SafeMapInsert [TMap k v, k, v] (TRecord [(''previous'', TOption v), (''values'', TMap k v)])"
| sig_map_remove: "is_map_key_type k \<Longrightarrow>
    safe_signature SafeMapRemove [TMap k v, k] (TRecord [(''removed'', TOption v), (''values'', TMap k v)])"
| sig_map_keys: "safe_signature SafeMapKeys [TMap k v] (TList k)"

definition reg_typed :: "enum_type list \<Rightarrow> nat \<Rightarrow> registers \<Rightarrow> register \<Rightarrow> value_type \<Rightarrow> bool" where
  "reg_typed ets d rs r t \<longleftrightarrow> (\<forall>v. read_register rs r = Inr v \<longrightarrow> typed ets d v t)"

lemma typed_some: "typed ets (Suc d) v t \<Longrightarrow> typed ets d (option_some v) (TOption t)"
  using typed_depth [of ets "Suc d" v t] by simp

lemma typed_none: "d \<le> MAX_VALUE_NESTING \<Longrightarrow> typed ets d option_none (TOption t)"
  by simp

lemma found_value_typed:
  assumes "found_value x b = (Inr out, b')" "d \<le> MAX_VALUE_NESTING" "\<And>v. x = Some v \<Longrightarrow> typed ets (Suc d) v t"
  shows "typed ets d out (TOption t)"
  using assms typed_some [of ets d _ t]
  by (cases x) (auto simp: found_value_def result_simps simp del: option_some_simps intro: typed_none)

lemma some_or_none_typed:
  "d \<le> MAX_VALUE_NESTING \<Longrightarrow> (\<And>v. x = Some v \<Longrightarrow> typed ets (Suc d) v t) \<Longrightarrow> typed ets d (some_or_none x) (TOption t)"
  by (cases x) (auto simp: some_or_none_def)

lemma read_aggregate:
  "read_list msg rs r = Inr vs \<longleftrightarrow> read_register rs r = Inr (VList vs)"
  "read_map msg rs r = Inr es \<longleftrightarrow> read_register rs r = Inr (VMap es)"
  by (cases "read_register rs r"; auto simp: read_list_def read_map_def split: vm_value.splits)+

lemma reg_typed_list: "reg_typed ets d rs r (TList t) \<Longrightarrow> read_list msg rs r = Inr vs \<Longrightarrow> \<forall>v\<in>set vs. typed ets (Suc d) v t"
  by (auto simp: reg_typed_def read_aggregate)

lemma reg_typed_map:
  assumes "reg_typed ets d rs r (TMap k v)" "read_map msg rs r = Inr es"
  shows "keys_ascend es" "\<forall>e\<in>set es. typed ets (Suc d) (fst e) k \<and> typed ets (Suc d) (snd e) v"
  using assms by (auto simp: reg_typed_def read_aggregate)

lemma map_find_typed:
  assumes "map_find es k = Some x" "\<forall>e\<in>set es. typed ets d (fst e) t \<and> typed ets d (snd e) v" "d' \<le> d"
  shows "typed ets d' x v"
proof -
  obtain e where "e \<in> set es" "x = snd e" using assms(1) by (auto simp: map_find_def find_Some_iff) (metis nth_mem)
  with assms(2,3) show ?thesis by (blast intro: typed_shallower)
qed

lemma typed_map_insert:
  assumes "is_map_key_type k" "keys_ascend es" "\<forall>e\<in>set es. typed ets (Suc d) (fst e) k \<and> typed ets (Suc d) (snd e) v"
    "typed ets (Suc d) key k" "typed ets (Suc d) val v"
  shows "typed ets d (VMap (map_insert key val es)) (TMap k v)"
proof -
  have wf: "map_wf es" using typed_map_wf [OF assms(1,2)] assms(3) by blast
  have "key_fits es key"
    using typed_keys_same_kind [OF assms(1)] assms(3,4) same_kind_map_key by (meson key_fits_def)
  note ins = map_insert_wf [OF wf this, of val]
  then show ?thesis
    using assms(3-5) typed_depth [OF assms(4)] map_wf_keys_ascend by auto
qed

lemma typed_map_without:
  assumes "is_map_key_type k" "keys_ascend es" "\<forall>e\<in>set es. typed ets (Suc d) (fst e) k \<and> typed ets (Suc d) (snd e) v"
    "d \<le> MAX_VALUE_NESTING"
  shows "typed ets d (VMap (map_without es key)) (TMap k v)"
proof -
  have wf: "map_wf es" using typed_map_wf [OF assms(1,2)] assms(3) by blast
  then have "map_wf (map_without es key)" by (rule vm_map.inv_del)
  with assms(3,4) map_wf_keys_ascend show ?thesis by (auto simp: map_without_def)
qed


lemma nth_value_set: "nth_value xs i = Some x \<Longrightarrow> x \<in> set xs"
  by (auto simp: nth_value_def split: if_splits)

lemma list_get_typed:
  assumes "reg_typed ets (Suc (Suc d)) rs r (TList t)" "Suc (Suc d) \<le> MAX_VALUE_NESTING"
    "safe_collection_call rs SafeListGet [r, i] b = (Inr out, b')"
  shows "typed ets d out (TOption t)"
proof -
  obtain vs n where vs: "read_list ''list.get operand is not List'' rs r = Inr vs"
      "found_value (Option.bind (usize_of_int n) (nth_value vs)) b = (Inr out, b')"
    using assms(3) by (auto simp: safe_collection_call_def with_int_def vm_bind_Inr)
  from reg_typed_list [OF assms(1) vs(1)] have "Option.bind (usize_of_int n) (nth_value vs) = Some v \<Longrightarrow> typed ets (Suc d) v t" for v
    by (auto simp: bind_eq_Some_conv dest!: nth_value_set intro: typed_shallower)
  with assms(2) vs(2) show ?thesis by (intro found_value_typed) simp_all
qed

lemma bytes_get_typed:
  assumes "Suc (Suc d) \<le> MAX_VALUE_NESTING" "safe_collection_call rs SafeBytesGet [r, i] b = (Inr out, b')"
  shows "typed ets d out (TOption TInt)"
proof -
  obtain x where "found_value (map_option int_of_byte x) b = (Inr out, b')"
    using assms(2) by (auto simp: safe_collection_call_def with_int_def vm_bind_Inr)
  then show ?thesis
    by (rule found_value_typed) (use assms(1) in \<open>auto simp: int_of_byte_def value_matches_type.simps\<close>)
qed

lemma map_get_typed:
  assumes "reg_typed ets (Suc (Suc d)) rs r (TMap k v)" "Suc (Suc d) \<le> MAX_VALUE_NESTING"
    "safe_collection_call rs SafeMapGet [r, i] b = (Inr out, b')"
  shows "typed ets d out (TOption v)"
proof -
  obtain es key where es: "read_map ''map.get operand is not Map'' rs r = Inr es"
      "found_value (map_find es key) b = (Inr out, b')"
    using assms(3) by (auto simp: safe_collection_call_def vm_bind_Inr)
  have "typed ets (Suc d) x v" if "map_find es key = Some x" for x
    by (rule map_find_typed [OF that reg_typed_map(2) [OF assms(1) es(1)]]) simp
  with assms(2) es(2) show ?thesis by (intro found_value_typed) simp_all
qed

lemma map_keys_typed:
  assumes "reg_typed ets (Suc (Suc d)) rs r (TMap k v)" "Suc (Suc d) \<le> MAX_VALUE_NESTING"
    "safe_collection_call rs SafeMapKeys [r] b = (Inr out, b')"
  shows "typed ets d out (TList k)"
proof -
  obtain es where es: "read_map ''map.keys operand is not Map'' rs r = Inr es" "out = VList (map fst es)"
    using assms(3) by (auto simp: safe_collection_call_def vm_bind_Inr)
  with reg_typed_map(2) [OF assms(1) es(1)] assms(2) show ?thesis by (auto intro: typed_shallower)
qed

lemma list_try_set_typed:
  assumes "reg_typed ets (Suc (Suc d)) rs r (TList t)" "reg_typed ets (Suc (Suc d)) rs x t" "Suc (Suc d) \<le> MAX_VALUE_NESTING"
    "safe_collection_call rs SafeListTrySet [r, i, x] b = (Inr out, b')"
  shows "typed ets d out (TOption (TList t))"
proof -
  obtain vs where vs: "read_list ''list.try_set operand is not List'' rs r = Inr vs"
      "out = option_none \<or> (\<exists>j v. read_register rs x = Inr v \<and> out = option_some (VList (vs[j := v])))"
    using assms(4) by (auto simp: safe_collection_call_def list_try_set_def with_int_def vm_bind_Inr split: option.splits) blast
  have "\<forall>w\<in>set vs. typed ets (Suc (Suc d)) w t"
    using reg_typed_list [OF assms(1) vs(1)] by (auto intro: typed_shallower)
  then have "\<forall>w\<in>set (vs[j := v]). typed ets (Suc (Suc d)) w t" if "read_register rs x = Inr v" for j v
    using that assms(2) set_update_subset_insert [of vs j v] by (fastforce simp: reg_typed_def)
  with vs(2) assms(3) show ?thesis by auto
qed

lemma map_update_typed:
  assumes "typed ets (Suc d) m (TMap k v)" "\<And>x. found = Some x \<Longrightarrow> typed ets (Suc (Suc d)) x v"
  shows "typed ets d (VRecord [(n, some_or_none found), (''values'', m)]) (TRecord [(n, TOption v), (''values'', TMap k v)])"
  using assms typed_depth [OF assms(1)] some_or_none_typed [of "Suc d" found ets v] by simp

lemma map_insert_typed:
  assumes "is_map_key_type k" "reg_typed ets (Suc (Suc d)) rs r (TMap k v)" "reg_typed ets (Suc (Suc d)) rs i k"
    "reg_typed ets (Suc (Suc d)) rs x v" "safe_collection_call rs SafeMapInsert [r, i, x] b = (Inr out, b')"
  shows "typed ets d out (TRecord [(''previous'', TOption v), (''values'', TMap k v)])"
proof -
  obtain es key val where es: "read_map ''map.insert operand is not Map'' rs r = Inr es" "read_register rs i = Inr key"
      "read_register rs x = Inr val"
      "out = VRecord [(''previous'', some_or_none (map_find es key)), (''values'', VMap (map_insert key val es))]"
    using assms(5) by (auto simp: safe_collection_call_def safe_map_insert_def vm_bind_Inr map_insert_def)
  note m = reg_typed_map [OF assms(2) es(1)]
  have "typed ets (Suc d) (VMap (map_insert key val es)) (TMap k v)"
    using assms(1,3,4) m es(2,3) by (intro typed_map_insert) (auto simp: reg_typed_def intro: typed_shallower)
  moreover have "typed ets (Suc (Suc d)) w v" if "map_find es key = Some w" for w
    by (rule map_find_typed [OF that m(2)]) simp
  ultimately show ?thesis unfolding es(4) by (rule map_update_typed)
qed

lemma map_remove_typed:
  assumes "is_map_key_type k" "reg_typed ets (Suc (Suc d)) rs r (TMap k v)" "Suc (Suc d) \<le> MAX_VALUE_NESTING"
    "safe_collection_call rs SafeMapRemove [r, i] b = (Inr out, b')"
  shows "typed ets d out (TRecord [(''removed'', TOption v), (''values'', TMap k v)])"
proof -
  obtain es key where es: "read_map ''map.remove operand is not Map'' rs r = Inr es"
      "out = VRecord [(''removed'', some_or_none (map_find es key)), (''values'', VMap (map_without es key))]"
    using assms(4) by (auto simp: safe_collection_call_def safe_map_remove_def vm_bind_Inr)
  note m = reg_typed_map [OF assms(2) es(1)]
  have "typed ets (Suc d) (VMap (map_without es key)) (TMap k v)"
    using assms(1,3) m by (intro typed_map_without) (auto intro: typed_shallower)
  moreover have "typed ets (Suc (Suc d)) w v" if "map_find es key = Some w" for w
    by (rule map_find_typed [OF that m(2)]) simp
  ultimately show ?thesis unfolding es(2) by (rule map_update_typed)
qed

lemmas collection_typed = list_get_typed bytes_get_typed map_get_typed map_keys_typed list_try_set_typed
  map_insert_typed map_remove_typed

text \<open>(C34) The operations on collections preserve types: an operation whose operands have the types
  of its signature and which returns, returns a value of the result type; in particular updated maps
  keep their keys ascending. The operands are checked two levels of nesting deeper than the result, which
  may wrap an operand twice.\<close>

theorem collection_results_typed:
  assumes "safe_signature op ts t" "list_all2 (reg_typed ets (Suc (Suc d)) rs) args ts" "Suc (Suc d) \<le> MAX_VALUE_NESTING"
    "safe_collection_call rs op args b = (Inr out, b')"
  shows "value_matches_type ets d out t = Inr True"
  using assms by (cases rule: safe_signature.cases) (auto simp: list_all2_Cons2 intro: collection_typed simp del: One_nat_def)

lemma collection_results_typed_witness:
  "\<exists>out b'. safe_collection_call [Some (VList [VInt 7]), Some (VInt 0)] SafeListGet [0, 1] (budget_new default_limits 0) = (Inr out, b') \<and>
     value_matches_type [] 0 out (TOption TInt) = Inr True"
proof -
  let ?rs = "[Some (VList [VInt 7]), Some (VInt 0)]"
  let ?b = "budget_new default_limits 0"
  have r: "read_register ?rs 0 = Inr (VList [VInt 7])" "read_register ?rs 1 = Inr (VInt 0)"
    by (simp_all add: read_register_def ok_or_simps)
  have t: "list_all2 (reg_typed [] (Suc (Suc 0)) ?rs) [0, 1] [TList TInt, TInt]"
    using r by (simp add: reg_typed_def MAX_VALUE_NESTING_def value_matches_type.simps)
  have sz: "enum_size 1 = Inr 24"
    by (simp add: enum_size_def logical_size_def checked_mul_u64_def checked_add_u64_def ok_or_simps
        COLLECTION_BASE_BYTES_def VALUE_SLOT_BYTES_def)
  have "fst (charge_size (Inr 24) ?b) = Inr ()"
    by (simp add: charge_size_def vm_bind_def vm_lift_def sample_budget)
  then obtain b' where "charge_size (Inr 24) ?b = (Inr (), b')" by (metis prod.collapse)
  then obtain out where c: "safe_collection_call ?rs SafeListGet [0, 1] ?b = (Inr out, b')"
    using r sz by (simp add: safe_collection_call_def read_aggregate read_list_def read_int_def with_int_def found_value_def
        usize_of_int_def nth_value_def vm_bind_def vm_lift_def vm_return_def)
  from collection_results_typed [OF sig_list_get t _ c] c show ?thesis by (auto simp: MAX_VALUE_NESTING_def)
qed

section \<open>Closed errors\<close>

text \<open>The result types that effects have: an operation fails with the standard error record, a tool
  with its generated error enum.\<close>

definition error_record :: "(string \<times> value_type) list" where
  "error_record = [(''code'', TString), (''message'', TString)]"

fun closed_result :: "enum_type list \<Rightarrow> effect_failure_family \<Rightarrow> value_type \<Rightarrow> bool" where
  "closed_result ets (FamilyOperation op) t \<longleftrightarrow> (\<exists>ok. t = TResult ok (TRecord error_record))"
| "closed_result ets FamilyTool t \<longleftrightarrow> (\<exists>ok i. t = TResult ok (TEnum i) \<and> unat i < length ets \<and>
     2 < length (et_variants (ets ! unat i)) \<and>
     ev_payload (et_variants (ets ! unat i) ! 1) = TPRecord error_record \<and>
     ev_payload (et_variants (ets ! unat i) ! 2) = TPRecord error_record)"

lemma closed_code_allowed:
  "closed_error (FamilyOperation op) e = Some (variant, code, message) \<Longrightarrow>
     operation_allows_error_code op code \<and> length message \<le> 1024"
  by (cases op)
    (auto simp: closed_error_def operation_allows_error_code_def operation_error_codes_def fs_operations_def
      agent_operations_def sub_agent_operations_def fs_write_codes_def network_codes_def exec_codes_def split: if_splits)

lemma typed_error_fields:
  "d < MAX_VALUE_NESTING \<Longrightarrow>
    list_all2 (\<lambda>f t. fst f = fst t \<and> typed ets (Suc d) (snd f) (snd t))
      [(''code'', VString code), (''message'', VString message)] error_record"
  by (simp add: error_record_def value_matches_type.simps)

lemma validate_provider_iff:
  "validate_provider_value ets v t family = Inr () \<longleftrightarrow> typed ets 0 v t \<and> validate_closed_provider_result v family = Inr ()"
  by (auto simp: validate_provider_value_def split: sum.splits bool.splits)

lemma scan_error_record [simp]:
  "standard_error_fields [(''code'', VString code), (''message'', VString message)] = Inr (code, message)"
  by (simp add: standard_error_fields_def)

text \<open>(C35) The machine's own error results pass its own checks: when a provider fails and the failure is
  turned into a recoverable error, the result has the declared type of the effect and a code that the
  effect may report, so that the check of provider results accepts it.\<close>

theorem closed_errors_validate:
  assumes "closed_result ets family t" "close_provider_error family t error = Inr v"
  shows "validate_provider_value ets v t family = Inr ()"
proof -
  obtain variant code message where e: "closed_error family error = Some (variant, code, message)"
      "operational_error_result t variant code message = Inr v"
    using assms(2) by (auto simp: close_provider_error_def split: option.splits)
  note f = typed_error_fields [of "Suc 0" ets code message] typed_error_fields [of "Suc (Suc 0)" ets code message]
  show ?thesis
  proof (cases family)
    case (FamilyOperation op)
    then show ?thesis
      using e assms(1) closed_code_allowed [of op error variant code message] f
      by (auto simp: operational_error_result_def validate_provider_iff validate_closed_provider_result_def
          validate_error_payload_def builtin_enum_def MAX_VALUE_NESTING_def simp del: list_all2_Cons)
  next
    case FamilyTool
    then have "variant = 1 \<and> (code = ''tool.unavailable'' \<or> code = ''tool.denied'') \<or> variant = 2 \<and> code = ''tool.schema''"
        "length message \<le> 1024"
      using e(1) by (auto simp: closed_error_def split: if_splits)
    then show ?thesis
      using e(2) assms(1) FamilyTool f
      by (auto simp: operational_error_result_def validate_provider_iff validate_closed_provider_result_def
          validate_error_payload_def builtin_enum_def MAX_VALUE_NESTING_def simp del: list_all2_Cons)
  qed
qed

lemma closed_errors_validate_witness:
  "\<exists>v. close_provider_error (FamilyOperation ReadText) (effect_result_type ReadText) CapabilityMissing = Inr v \<and>
     validate_provider_value [] v (effect_result_type ReadText) (FamilyOperation ReadText) = Inr ()"
proof -
  have t: "effect_result_type ReadText = TResult TString (TRecord error_record)"
    by (simp add: effect_result_type_def model_effect_result_type_def effect_ok_type_def standard_error_type_def error_record_def)
  obtain v where v: "close_provider_error (FamilyOperation ReadText) (effect_result_type ReadText) CapabilityMissing = Inr v"
    unfolding t by (simp add: close_provider_error_def closed_error_def fs_operations_def operational_error_result_def)
  with closed_errors_validate [OF _ v] t show ?thesis by simp
qed

end
