(* ===== verification/Bytecode_Code.thy ===== *)
theory Bytecode_Code
  imports Vm_Types
begin

text \<open>
  Instructions, functions and modules (\<open>allen-bytecode/src/model.rs\<close>). A register is an index into the
  frame's registers; the fields of an instruction are in the order of the source.
\<close>

datatype bool_binary_op = OpAnd | OpOr

datatype conversion = IntToFloat | ToString | StringToBytes

datatype standard_operation = ToInt | FloatFormat | TimeFormatUtc | TimeParseUtc | TimeBucket

datatype capability_operation = IsGranted | Granted

datatype list_combinator =
    CombMap | CombFilter | CombFlatMap | CombFilterMap | CombFind | CombAny | CombAll | CombPartition | CombScan

record enum_switch_arm =
  sa_variant :: u32
  sa_target :: u32
  sa_bindings :: "register list"

datatype list_literal_item = ListElement register | ListSpread register

datatype map_literal_item = MapEntry register register | MapSpread register

text \<open>The instruction set, split by what an instruction works on: the source has one enum.\<close>

datatype scalar_instruction =
    IConst register u32
  | IMove register register
  | IIntBinary register register register numeric_binary_op
  | IIntRemainder register register register
  | IFloatBinary register register register numeric_binary_op
  | IIntNegate register register
  | IFloatNegate register register
  | ICompare register register register compare_op
  | IBoolNot register register
  | IBoolBinary register register register bool_binary_op
  | IRangeNew register register register bool
  | IRangeStart register register
  | IRangeEnd register register
  | IRangeInclusive register register
  | IConvert register register conversion

datatype aggregate_instruction =
    IListNew register "register list"
  | IListLiteralBuild register "list_literal_item list"
  | IMapNew register "(register \<times> register) list"
  | IMapLiteralBuild register "map_literal_item list"
  | ITupleNew register "register list"
  | IIndexGet register register register
  | ISliceGet register register register register
  | IMapEntryAt register register register
  | ILength register register
  | IListAppend register register register
  | IListSet register register register register
  | ITupleGet register register u32
  | IRecordNew register "(u32 \<times> register) list"
  | INewtypeWrap register register
  | INewtypeUnwrap register register
  | IFieldGet register register u32
  | IEnumNew register u32 "register list"
  | IToUnknown register register
  | INarrow register register value_type

datatype library_instruction =
    IStringCall register string_operation "register list"
  | ITemplateRender register u32 "register list"
  | IStandardCall register standard_operation "register list"
  | ICapabilityInspect register capability_operation "register list"
  | ISafeCollectionCall register safe_collection_operation "register list"
  | ICheckedIntCall register checked_int_operation "register list"
  | ICollectionCall register collection_operation "register list"
  | IDecode register register value_type
  | IClosureNew register u32 "register list"
  | IAsyncCall register u32 "register list"
  | IEffectCall register effect_operation "register list"
  | IToolInvoke register u32 register
  | IWorkspaceGet register

datatype control_instruction =
    IBranchBool register u32 u32
  | ISwitchEnum register "enum_switch_arm list"
  | IJump u32
  | ITryResult register register
  | ITryOption register register
  | IDirectCall register u32 "register list"
  | IClosureCall register register "register list"
  | IStop register
  | IFail register
  | IReturn register

datatype task_instruction =
    ISpawn register register u32
  | IAwait register register
  | ITaskSnapshot register register
  | ITaskScopeEnter u32
  | ITaskScopeExit u32

datatype loop_instruction =
    IListFold register register register register
  | IListCombinator register list_combinator register "register option" register register
  | ISequenceFromList register register
  | ISequenceTake register register register
  | ISequenceMap register register register
  | ISequenceFilter register register register
  | ISequenceToList register register
  | ISequenceFind register register register
  | ISequenceAny register register register
  | ISequenceAll register register register
  | ISequenceFold register register register register

datatype instruction =
    Scalar scalar_instruction
  | Aggregate aggregate_instruction
  | Library library_instruction
  | Control control_instruction
  | Tasking task_instruction
  | Looping loop_instruction

text \<open>The parts of a function and of a module that execution reads.\<close>

record function_def =
  fn_name :: string
  fn_parameters :: "register list"
  fn_captures :: "register list"
  fn_registers :: "value_type list"
  fn_code :: "instruction list"

record template_hole =
  th_name :: string
  th_value_type :: value_type

record template_marker =
  tk_start :: u32
  tk_end :: u32
  tk_hole :: u32

record template_resource =
  tr_content :: string
  tr_holes :: "template_hole list"
  tr_markers :: "template_marker list"

record module_def =
  md_constants :: "bytecode_constant list"
  md_enum_types :: "enum_type list"
  md_functions :: "function_def list"
  md_async_functions :: "u32 list"

end
