(* ===== verification/Vm_Machine.thy ===== *)
theory Vm_Machine
  imports Bytecode_Code Ordered_Map
begin

text \<open>
  The state of the task machine (\<open>TaskMachine\<close> of \<open>allen-vm/src/lib.rs\<close>): frames, pending callbacks,
  tasks and what the scheduler keeps, and the cells of sequences, which are shared and mutable.

  Everything outside the machine is one argument: the effect provider, the cancellation source and
  the clock act on a world of type \<open>'w\<close>. What the observer is told is kept in lists, in the budget
  for the budget's warnings and in the machine for task events and the cleanup warning.
\<close>

section \<open>Sequences\<close>

type_synonym closure = "u32 \<times> vm_value list"

datatype sequence_plan =
    PlanList "vm_value list" nat
  | PlanTake nat nat
  | PlanMap nat closure
  | PlanFilter nat closure

record sequence_cell =
  sc_consumed :: bool
  sc_plan :: sequence_plan

text \<open>The cells made so far; a handle is a position. A plan's upstream is a handle made before it.\<close>

type_synonym sequence_heap = "sequence_cell list"

datatype sequence_adapter = AdaptMap closure | AdaptFilter closure | AdaptTake nat

definition new_sequence :: "sequence_plan \<Rightarrow> sequence_heap \<Rightarrow> nat \<times> sequence_heap" where
  "new_sequence plan h = (length h, h @ [\<lparr>sc_consumed = False, sc_plan = plan\<rparr>])"

definition consume :: "nat \<Rightarrow> sequence_heap \<Rightarrow> vm_error + sequence_heap" where
  "consume s h =
     (if sc_consumed (h ! s) then Inl (Invariant ''sequence handle has already been consumed'')
      else Inr (h[s := (h ! s)\<lparr>sc_consumed := True\<rparr>]))"

text \<open>\<open>next_plan\<close>: the next source value with the adapters it still has to pass, innermost first. The
  upstream of a cell is an older cell, so the recursion goes down in the handles.\<close>

function next_plan :: "nat \<Rightarrow> sequence_heap \<Rightarrow> (vm_value \<times> sequence_adapter list) option \<times> sequence_heap" where
  "next_plan s h =
     (case sc_plan (h ! s) of
        PlanList vs i \<Rightarrow>
          if i < length vs then (Some (vs ! i, []), h[s := (h ! s)\<lparr>sc_plan := PlanList vs (Suc i)\<rparr>])
          else (None, h)
      | PlanTake u remaining \<Rightarrow>
          if remaining = 0 then (None, h)
          else if u < s then
            (case next_plan u h of
               (None, h) \<Rightarrow> (None, h)
             | (Some (v, adapters), h) \<Rightarrow> (Some (v, adapters @ [AdaptTake s]), h))
          else (None, h)
      | PlanMap u callback \<Rightarrow>
          if u < s then
            (case next_plan u h of
               (None, h) \<Rightarrow> (None, h)
             | (Some (v, adapters), h) \<Rightarrow> (Some (v, adapters @ [AdaptMap callback]), h))
          else (None, h)
      | PlanFilter u callback \<Rightarrow>
          if u < s then
            (case next_plan u h of
               (None, h) \<Rightarrow> (None, h)
             | (Some (v, adapters), h) \<Rightarrow> (Some (v, adapters @ [AdaptFilter callback]), h))
          else (None, h))"
  by pat_completeness auto
termination by (relation "measure fst") auto

declare next_plan.simps [simp del]

definition take_one :: "nat \<Rightarrow> sequence_heap \<Rightarrow> bool \<times> sequence_heap" where
  "take_one s h =
     (case sc_plan (h ! s) of
        PlanTake u remaining \<Rightarrow>
          if remaining = 0 then (False, h)
          else (True, h[s := (h ! s)\<lparr>sc_plan := PlanTake u (remaining - 1)\<rparr>])
      | _ \<Rightarrow> (False, h))"

section \<open>Frames\<close>

record active_frame =
  af_function :: u32
  af_instruction :: u32

record pending_fold =
  pf_instruction :: nat
  pf_destination :: register
  pf_values :: "vm_value list"
  pf_callback :: closure
  pf_index :: nat

record pending_list_combinator =
  pc_instruction :: nat
  pc_operation :: list_combinator
  pc_values :: "vm_value list"
  pc_callback :: closure
  pc_callback_result :: register
  pc_index :: nat
  pc_current :: "vm_value option"
  pc_accumulator :: "vm_value option"
  pc_output :: "vm_value list"
  pc_rest :: "vm_value list"
  pc_answer :: "bool option"
  pc_waiting :: bool

datatype sequence_terminal = TermToList | TermFind | TermAny | TermAll | TermFold

datatype sequence_waiting = WaitAdapter | WaitTerminal

record pending_sequence =
  ps_instruction :: nat
  ps_destination :: register
  ps_sequence :: nat
  ps_terminal :: sequence_terminal
  ps_callback :: "closure option"
  ps_adapters :: "sequence_adapter list"
  ps_adapter_index :: nat
  ps_current :: "vm_value option"
  ps_output :: "vm_value list"
  ps_answer :: "bool option"
  ps_accumulator :: "vm_value option"
  ps_waiting :: "sequence_waiting option"

text \<open>The last scope of \<open>mf_active_scopes\<close> is the innermost one.\<close>

record machine_frame =
  mf_function :: u32
  mf_registers :: registers
  mf_program_counter :: nat
  mf_activation :: u32
  mf_active_scopes :: "u32 list"
  mf_continuation :: "register option"
  mf_fold :: "pending_fold option"
  mf_combinator :: "pending_list_combinator option"
  mf_sequence :: "pending_sequence option"

definition u32_saturated :: "nat \<Rightarrow> u32" where
  "u32_saturated n = (if n < 2 ^ 32 then of_nat n else - 1)"

text \<open>\<open>MachineFrame::active\<close>.\<close>

definition frame_active :: "machine_frame \<Rightarrow> active_frame" where
  "frame_active f =
     \<lparr>af_function = mf_function f, af_instruction = u32_saturated (mf_program_counter f - 1)\<rparr>"

section \<open>Tasks\<close>

record scope_key =
  sk_activation :: u32
  sk_lexical :: u32

definition innermost_scope :: "machine_frame \<Rightarrow> scope_key option" where
  "innermost_scope f =
     (if mf_active_scopes f = [] then None
      else Some \<lparr>sk_activation = mf_activation f, sk_lexical = last (mf_active_scopes f)\<rparr>)"

record task_failure =
  tf_error :: vm_error
  tf_stack :: "active_frame list"

datatype wait_state =
    WaitTask u64 register
  | WaitEffect u64 "register option" value_type effect_failure_family
  | WaitScope scope_key
  | WaitReturn scope_key vm_value

datatype machine_task_state =
    TaskReady
  | TaskWaiting wait_state
  | TaskCompleted "task_failure + vm_value"

text \<open>The last frame of \<open>mt_frames\<close> is the running one.\<close>

record machine_task =
  mt_owner :: u64
  mt_scope :: "scope_key option"
  mt_entry_function :: u32
  mt_frames :: "machine_frame list"
  mt_state :: machine_task_state

fun is_completed :: "machine_task_state \<Rightarrow> bool" where
  "is_completed (TaskCompleted _) = True"
| "is_completed _ = False"

fun is_waiting :: "machine_task_state \<Rightarrow> bool" where
  "is_waiting (TaskWaiting _) = True"
| "is_waiting _ = False"

fun future_arguments :: "future_value \<Rightarrow> vm_value list" where
  "future_arguments (FutureFunction _ args) = args"
| "future_arguments (FutureEffect _ args) = args"
| "future_arguments (FutureTool _ input _) = [input]"
| "future_arguments (FutureAgent _ args _) = args"

text \<open>The handles of tasks a value carries: itself, or the arguments of a future.\<close>

function (sequential) task_handles :: "vm_value \<Rightarrow> u64 list" where
  "task_handles (VTask i) = [i]"
| "task_handles (VFuture f) = concat (map task_handles (future_arguments f))"
| "task_handles _ = []"
  by pat_completeness auto
termination
proof (relation "measure size")
  fix f v
  assume "v \<in> set (future_arguments f)"
  then show "(v, VFuture f) \<in> measure size"
    by (cases f) (auto dest: size_list_estimation' [OF _ order_refl, where f = size] simp: less_Suc_eq_le trans_le_add1 trans_le_add2)
qed simp

definition machine_failure :: "machine_task \<Rightarrow> vm_error \<Rightarrow> task_failure" where
  "machine_failure task error =
     \<lparr>tf_error = error, tf_stack = map frame_active (rev (mt_frames task))\<rparr>"

section \<open>The machine\<close>

datatype task_event_kind =
    EventSpawned | EventWaiting | EventReady | EventCompleted | EventFailed | EventCancelled | EventStopped

record task_event =
  te_sequence :: u64
  te_task_id :: u64
  te_owner_id :: u64
  te_kind :: task_event_kind

record task_machine =
  tm_next_task :: u64
  tm_next_effect :: u64
  tm_next_event :: u64
  tm_rotation_cursor :: "u64 option"
  tm_terminal_cleanup_failure :: "string option"
  tm_cleanup_limit :: u64
  tm_cleanup_remaining :: u64
  tm_cleanup_warning_emitted :: bool
  tm_providers_cancelled :: bool
  tm_tasks :: "(u64, machine_task) btree_map"
  tm_events :: "task_event list"
  tm_warnings :: "budget_warning list"

definition machine_new :: "u64 \<Rightarrow> task_machine" where
  "machine_new cleanup =
     \<lparr>tm_next_task = 0, tm_next_effect = 0, tm_next_event = 0, tm_rotation_cursor = None,
      tm_terminal_cleanup_failure = None, tm_cleanup_limit = cleanup, tm_cleanup_remaining = cleanup,
      tm_cleanup_warning_emitted = False, tm_providers_cancelled = False, tm_tasks = bt_empty,
      tm_events = [], tm_warnings = []\<rparr>"

section \<open>The world outside\<close>

datatype effect_poll = PollReady vm_value | PollPending

text \<open>The methods of \<open>EffectProvider\<close> that execution calls, the cancellation source, the clock and the
  debug map. Polling may look at the cancellation source, which is part of the world.\<close>

record 'w environment =
  env_start_call :: "u64 \<Rightarrow> effect_operation \<Rightarrow> vm_value list \<Rightarrow> 'w \<Rightarrow> (vm_error + effect_poll) \<times> 'w"
  env_start_tool :: "u64 \<Rightarrow> u32 \<Rightarrow> vm_value \<Rightarrow> value_type \<Rightarrow> 'w \<Rightarrow> (vm_error + effect_poll) \<times> 'w"
  env_start_agent ::
    "u64 \<Rightarrow> effect_operation \<Rightarrow> vm_value list \<Rightarrow> value_type \<Rightarrow> 'w \<Rightarrow> (vm_error + effect_poll) \<times> 'w"
  env_poll_effect :: "u64 \<Rightarrow> 'w \<Rightarrow> (vm_error + effect_poll) \<times> 'w"
  env_cancel_effect :: "u64 \<Rightarrow> 'w \<Rightarrow> 'w"
  env_cancel_pending :: "'w \<Rightarrow> 'w"
  env_workspace :: "'w \<Rightarrow> (vm_error + (u64 \<times> u32 \<times> u64)) \<times> 'w"
  env_is_cancelled :: "'w \<Rightarrow> bool \<times> 'w"
  env_now :: "'w \<Rightarrow> nat \<times> 'w"
  env_source_location :: "u32 \<Rightarrow> u32 \<Rightarrow> (string \<times> u32 \<times> u32) option"

record 'w run =
  r_machine :: task_machine
  r_budget :: budget
  r_heap :: sequence_heap
  r_world :: 'w

end
