(* ===== verification/Vm_Tasks.thy ===== *)
theory Vm_Tasks
  imports Vm_Machine
begin

text \<open>
  The operations of the task machine (\<open>allen-vm/src/lib.rs\<close>): making frames, spawning, waking waiters,
  returning, cancelling, and the choice of the next task. \<open>None\<close> as the result of waking or cancelling
  stands for a panic of the source or for a loop that does not end.
\<close>

section \<open>Frames\<close>

fun write_zip :: "registers \<Rightarrow> register list \<Rightarrow> vm_value list \<Rightarrow> vm_error + registers" where
  "write_zip rs (r # dst) (v # vs) = result_bind (write_register rs r v) (\<lambda>rs. write_zip rs dst vs)"
| "write_zip rs _ _ = Inr rs"

definition fetch_function :: "module_def \<Rightarrow> u32 \<Rightarrow> string \<Rightarrow> vm_error + function_def" where
  "fetch_function md f msg =
     (if unat f < length (md_functions md) then Inr (md_functions md ! unat f) else Inl (Invariant msg))"

definition new_machine_frame ::
  "module_def \<Rightarrow> u32 \<Rightarrow> vm_value list \<Rightarrow> vm_value list \<Rightarrow> register option \<Rightarrow> u32 \<Rightarrow> machine_frame vm" where
  "new_machine_frame md function_id arguments captures continuation depth =
     vm_bind (vm_lift (fetch_function md function_id ''function is missing'')) (\<lambda>function.
     if length arguments \<noteq> length (fn_parameters function) \<or> length captures \<noteq> length (fn_captures function)
     then vm_fail (Invariant ''function input count is invalid'')
     else
       vm_bind (enter_frame depth) (\<lambda>_.
       vm_bind (charge_size (frame_size (length (fn_registers function)))) (\<lambda>_.
       vm_bind (vm_lift
         (result_bind (write_zip (replicate (length (fn_registers function)) None) (fn_parameters function) arguments)
           (\<lambda>rs. write_zip rs (fn_captures function) captures))) (\<lambda>rs.
       vm_return
         \<lparr>mf_function = function_id, mf_registers = rs, mf_program_counter = 0, mf_activation = depth,
          mf_active_scopes = [], mf_continuation = continuation, mf_fold = None, mf_combinator = None,
          mf_sequence = None\<rparr>))))"

section \<open>Events and the choice of a task\<close>

definition emit_event :: "u64 \<Rightarrow> u64 \<Rightarrow> task_event_kind \<Rightarrow> task_machine \<Rightarrow> task_machine" where
  "emit_event task_id owner_id kind m =
     (let m = m\<lparr>tm_next_event := saturating_inc (tm_next_event m)\<rparr>
      in m\<lparr>tm_events := tm_events m @
            [\<lparr>te_sequence = tm_next_event m, te_task_id = task_id, te_owner_id = owner_id, te_kind = kind\<rparr>]\<rparr>)"

definition next_ready :: "task_machine \<Rightarrow> u64 option" where
  "next_ready m =
     (let after = (case tm_rotation_cursor m of None \<Rightarrow> - 1 | Some c \<Rightarrow> c)
      in map_option fst (find (\<lambda>(i, task). mt_state task = TaskReady)
           (filter (\<lambda>(i, task). after < i) (tm_tasks m) @ filter (\<lambda>(i, task). i \<le> after) (tm_tasks m))))"

section \<open>Cancelling\<close>

definition RESOURCE_CLEANUP_INSTRUCTIONS :: string where
  "RESOURCE_CLEANUP_INSTRUCTIONS = ''cleanup_instructions''"

definition charge_cleanup :: "u64 \<Rightarrow> task_machine \<Rightarrow> string option \<times> task_machine" where
  "charge_cleanup charge m =
     (if charge > tm_cleanup_remaining m
      then (Some RESOURCE_CLEANUP_INSTRUCTIONS, m\<lparr>tm_cleanup_remaining := 0\<rparr>)
      else
        let m = m\<lparr>tm_cleanup_remaining := tm_cleanup_remaining m - charge\<rparr>;
            used = tm_cleanup_limit m - tm_cleanup_remaining m
        in (None,
            if tm_cleanup_limit m \<noteq> - 1 \<and> \<not> tm_cleanup_warning_emitted m \<and> used \<ge> warning_threshold (tm_cleanup_limit m)
            then m\<lparr>tm_cleanup_warning_emitted := True,
                   tm_warnings := tm_warnings m @
                     [\<lparr>bw_resource = RESOURCE_CLEANUP_INSTRUCTIONS, bw_used = used, bw_limit = tm_cleanup_limit m\<rparr>]\<rparr>
            else m))"

fun emit_cancelled :: "(u64 \<times> machine_task) list \<Rightarrow> task_machine \<Rightarrow> task_machine" where
  "emit_cancelled [] m = m"
| "emit_cancelled ((i, task) # removed) m =
     emit_cancelled removed (if is_completed (mt_state task) then m else emit_event i (mt_owner task) EventCancelled m)"

definition cancel_all :: "task_machine \<Rightarrow> string option \<times> task_machine" where
  "cancel_all m =
     (let cancelled = filter (\<lambda>(i, task). i \<noteq> 0) (tm_tasks m);
          m = m\<lparr>tm_tasks := filter (\<lambda>(i, task). i = 0) (tm_tasks m)\<rparr>
      in charge_cleanup (of_nat (length cancelled)) (emit_cancelled cancelled m))"

definition owned_by :: "(u64, machine_task) btree_map \<Rightarrow> u64 \<Rightarrow> u64 list" where
  "owned_by tasks parent = map fst (filter (\<lambda>(i, task). mt_owner task = parent) tasks)"

text \<open>The worklist of \<open>cancel_descendants\<close>; the head of \<open>frontier\<close> is the end of the source's vector.\<close>

partial_function (option) collect_descendants ::
  "(u64, machine_task) btree_map \<Rightarrow> u64 list \<Rightarrow> u64 list \<Rightarrow> u64 list option" where
  "collect_descendants tasks frontier removed =
     (case frontier of
        [] \<Rightarrow> Some removed
      | parent # rest \<Rightarrow>
          let children = owned_by tasks parent
          in collect_descendants tasks (rev children @ rest) (removed @ children))"

fun remove_tasks :: "u64 list \<Rightarrow> task_machine \<Rightarrow> task_machine" where
  "remove_tasks [] m = m"
| "remove_tasks (i # is) m =
     (case bt_get (tm_tasks m) i of
        None \<Rightarrow> remove_tasks is m
      | Some task \<Rightarrow>
          let m = m\<lparr>tm_tasks := bt_remove i (tm_tasks m)\<rparr>
          in remove_tasks is
               (if is_completed (mt_state task) then m else emit_event i (mt_owner task) EventCancelled m))"

definition cancel_descendants :: "u64 \<Rightarrow> task_machine \<Rightarrow> (string option \<times> task_machine) option" where
  "cancel_descendants owner m =
     map_option (\<lambda>removed.
       let removed = sort (remdups removed)
       in charge_cleanup (of_nat (length removed)) (remove_tasks removed m))
       (collect_descendants (tm_tasks m) [owner] [])"

definition or_else :: "'a option \<Rightarrow> 'a option \<Rightarrow> 'a option" where
  "or_else x y = (case x of None \<Rightarrow> y | Some _ \<Rightarrow> x)"

definition cancel_task_tree :: "u64 \<Rightarrow> task_machine \<Rightarrow> (string option \<times> task_machine) option" where
  "cancel_task_tree owner m =
     Option.bind (cancel_descendants owner m) (\<lambda>(descendants, m).
       let live = bt_get (tm_tasks m) owner;
           m = remove_tasks [owner] m;
           (owner_charge, m) = charge_cleanup (if live = None then 0 else 1) m
       in Some (or_else descendants owner_charge, m))"

definition pending_effects :: "task_machine \<Rightarrow> u64 list" where
  "pending_effects m =
     List.map_filter (\<lambda>(i, task). case mt_state task of
        TaskWaiting (WaitEffect pending _ _ _) \<Rightarrow> Some pending | _ \<Rightarrow> None) (tm_tasks m)"

fun cancel_each :: "'w environment \<Rightarrow> u64 list \<Rightarrow> 'w run \<Rightarrow> 'w run" where
  "cancel_each env [] r = r"
| "cancel_each env (p # ps) r =
     cancel_each env ps
       (r\<lparr>r_world := env_cancel_effect env p (r_world r), r_budget := snd (complete_effect (r_budget r))\<rparr>)"

definition cancel_pending_effects :: "'w environment \<Rightarrow> 'w run \<Rightarrow> 'w run" where
  "cancel_pending_effects env r = cancel_each env (pending_effects (r_machine r)) r"

definition cancel_effects :: "'w environment \<Rightarrow> 'w run \<Rightarrow> 'w run" where
  "cancel_effects env r =
     (if tm_providers_cancelled (r_machine r) then r
      else r\<lparr>r_world := env_cancel_pending env (r_world r),
             r_machine := (r_machine r)\<lparr>tm_providers_cancelled := True\<rparr>\<rparr>)"

section \<open>Computations on a run\<close>

text \<open>The budget's and the machine's computations inside a run.\<close>

definition on_budget :: "'a vm \<Rightarrow> ('w run, 'a) stateful" where
  "on_budget c r = (case c (r_budget r) of (x, b) \<Rightarrow> (x, r\<lparr>r_budget := b\<rparr>))"

definition on_machine :: "(task_machine \<Rightarrow> task_machine) \<Rightarrow> 'w run \<Rightarrow> 'w run" where
  "on_machine f r = r\<lparr>r_machine := f (r_machine r)\<rparr>"

definition on_world :: "('w \<Rightarrow> 'a \<times> 'w) \<Rightarrow> ('w run, 'a) stateful" where
  "on_world f r = (case f (r_world r) of (x, w) \<Rightarrow> (Inr x, r\<lparr>r_world := w\<rparr>))"

definition set_task :: "u64 \<Rightarrow> machine_task \<Rightarrow> task_machine \<Rightarrow> task_machine" where
  "set_task i task m = m\<lparr>tm_tasks := bt_insert i task (tm_tasks m)\<rparr>"

definition find_task :: "'w run \<Rightarrow> u64 \<Rightarrow> machine_task option" where
  "find_task r i = bt_get (tm_tasks (r_machine r)) i"

text \<open>A change of a task's state, with the event that reports it.\<close>

definition move_task :: "u64 \<Rightarrow> machine_task \<Rightarrow> machine_task_state \<Rightarrow> task_event_kind \<Rightarrow> 'w run \<Rightarrow> 'w run" where
  "move_task i task state kind =
     on_machine (\<lambda>m. emit_event i (mt_owner task) kind (set_task i (task\<lparr>mt_state := state\<rparr>) m))"

definition fail_task :: "u64 \<Rightarrow> machine_task \<Rightarrow> vm_error \<Rightarrow> 'w run \<Rightarrow> 'w run" where
  "fail_task i task error = move_task i task (TaskCompleted (Inl (machine_failure task error))) EventFailed"

text \<open>The failure of a child reaches the task that waits for it with the frames of both.\<close>

definition propagate_failure :: "u64 \<Rightarrow> machine_task \<Rightarrow> task_failure \<Rightarrow> 'w run \<Rightarrow> 'w run" where
  "propagate_failure i task failure =
     move_task i task
       (TaskCompleted (Inl \<lparr>tf_error = tf_error failure,
          tf_stack = tf_stack failure @ map frame_active (rev (mt_frames task))\<rparr>)) EventFailed"

section \<open>Effects\<close>

definition next_pending_effect :: "('w run, u64) stateful" where
  "next_pending_effect r =
     (case checked_add_u64 (tm_next_effect (r_machine r)) 1 of
        None \<Rightarrow> (Inl (ResourceLimit ''pending_effects''), r)
      | Some p \<Rightarrow> (Inr p, on_machine (\<lambda>m. m\<lparr>tm_next_effect := p\<rparr>) r))"

definition start_effect_future ::
  "'w environment \<Rightarrow> future_value \<Rightarrow> ('w run, u64 \<times> effect_poll \<times> value_type \<times> effect_failure_family) stateful" where
  "start_effect_future env future =
     vm_bind next_pending_effect (\<lambda>pending.
     vm_bind (vm_lift (ok_or (failure_family future) (Invariant ''function is not an external effect''))) (\<lambda>family.
     vm_bind (case future of
         FutureEffect operation _ \<Rightarrow> vm_return (effect_result_type operation)
       | FutureTool _ _ result_type \<Rightarrow> vm_return result_type
       | FutureAgent _ _ result_type \<Rightarrow> vm_return result_type
       | FutureFunction _ _ \<Rightarrow> vm_fail (Invariant ''function is not an external effect'')) (\<lambda>result_type.
     vm_bind (on_budget start_effect) (\<lambda>_.
     vm_bind (on_world (case future of
         FutureEffect operation arguments \<Rightarrow> env_start_call env pending operation arguments
       | FutureTool tool input rt \<Rightarrow> env_start_tool env pending tool input rt
       | FutureAgent operation arguments rt \<Rightarrow> env_start_agent env pending operation arguments rt
       | FutureFunction _ _ \<Rightarrow> (\<lambda>w. (Inl VmProtocolViolation, w)))) (\<lambda>poll r.
     case (case poll of
             Inl error \<Rightarrow> map_sum id PollReady (close_provider_error family result_type error)
           | Inr p \<Rightarrow> Inr p) of
       Inr p \<Rightarrow> (Inr (pending, p, result_type, family), r)
     | Inl error \<Rightarrow> (Inl error, r\<lparr>r_budget := snd (complete_effect (r_budget r))\<rparr>))))))"

text \<open>What is done with a value a provider answered: the slot is freed, the value checked and charged.\<close>

definition accept_external :: "enum_type list \<Rightarrow> value_type \<Rightarrow> effect_failure_family \<Rightarrow> vm_value \<Rightarrow> vm_value vm" where
  "accept_external ets result_type family v =
     vm_bind complete_effect (\<lambda>_.
     vm_bind (vm_lift (validate_provider_value ets v result_type family)) (\<lambda>_.
     vm_bind (charge_external_value v 0) (\<lambda>_. vm_return v)))"

section \<open>Spawning\<close>

definition SCHEDULER_TASK_BYTES :: u64 where "SCHEDULER_TASK_BYTES = 64"
definition TASK_HANDLE_BYTES :: u64 where "TASK_HANDLE_BYTES = 16"

text \<open>Tasks may change hands only if their handles occur once and the giver owns them.\<close>

definition may_transfer :: "task_machine \<Rightarrow> u64 \<Rightarrow> u64 list \<Rightarrow> bool" where
  "may_transfer m giver handles \<longleftrightarrow>
     distinct handles \<and>
     (\<forall>h\<in>set handles. case bt_get (tm_tasks m) h of None \<Rightarrow> False | Some task \<Rightarrow> mt_owner task = giver)"

text \<open>The tasks get a new owner; the task that is itself the result also gets the scope it arrives in.\<close>

fun adopt :: "u64 \<Rightarrow> u64 option \<Rightarrow> scope_key option \<Rightarrow> u64 list \<Rightarrow> task_machine \<Rightarrow> task_machine option" where
  "adopt owner direct scope [] m = Some m"
| "adopt owner direct scope (h # hs) m =
     Option.bind (bt_get (tm_tasks m) h) (\<lambda>task.
       let task = task\<lparr>mt_owner := owner\<rparr>;
           task = (if direct = Some h then task\<lparr>mt_scope := scope\<rparr> else task)
       in adopt owner direct scope hs (set_task h task m))"

text \<open>The task a future becomes: a function gets a frame, everything else is started at the provider.\<close>

definition new_task ::
  "'w environment \<Rightarrow> module_def \<Rightarrow> u64 \<Rightarrow> u32 \<Rightarrow> scope_key option \<Rightarrow> future_value \<Rightarrow> ('w run, machine_task) stateful" where
  "new_task env md owner origin_function scope future =
     (case future of
        FutureFunction function arguments \<Rightarrow>
          vm_bind (on_budget (new_machine_frame md function arguments [] None 1)) (\<lambda>frame.
          vm_return \<lparr>mt_owner = owner, mt_scope = scope, mt_entry_function = function, mt_frames = [frame],
            mt_state = TaskReady\<rparr>)
      | external \<Rightarrow>
          vm_bind (start_effect_future env external) (\<lambda>(pending, poll, result_type, family).
          vm_bind (case poll of
              PollReady v \<Rightarrow>
                vm_bind (on_budget (accept_external (md_enum_types md) result_type family v)) (\<lambda>v.
                vm_return (TaskCompleted (Inr v)))
            | PollPending \<Rightarrow> vm_return (TaskWaiting (WaitEffect pending None result_type family))) (\<lambda>state.
          vm_return \<lparr>mt_owner = owner, mt_scope = scope, mt_entry_function = origin_function, mt_frames = [],
            mt_state = state\<rparr>)))"

text \<open>\<open>captured\<close> are live tasks of \<open>owner\<close>, so giving them to the new task finds them.\<close>

definition add_task :: "u64 \<Rightarrow> machine_task \<Rightarrow> u64 list \<Rightarrow> task_machine \<Rightarrow> task_machine" where
  "add_task i task captured m =
     (let m = (case adopt i None None captured (set_task i task m) of Some m \<Rightarrow> m | None \<Rightarrow> m);
          m = emit_event i (mt_owner task) EventSpawned m
      in if is_completed (mt_state task) then emit_event i (mt_owner task) EventCompleted m
         else if is_waiting (mt_state task) then emit_event i (mt_owner task) EventWaiting m
         else m)"

definition spawn_machine ::
  "'w environment \<Rightarrow> module_def \<Rightarrow> u64 \<Rightarrow> u32 \<Rightarrow> scope_key option \<Rightarrow> future_value \<Rightarrow> ('w run, u64) stateful" where
  "spawn_machine env md owner origin_function scope future r =
     vm_bind (on_budget (admit_task (bt_len (tm_tasks (r_machine r)) - 1))) (\<lambda>live.
     vm_bind (on_budget (charge_allocation SCHEDULER_TASK_BYTES)) (\<lambda>_.
     vm_bind (on_budget (charge_allocation TASK_HANDLE_BYTES)) (\<lambda>_.
     vm_bind (vm_lift (ok_or (checked_add_u64 (tm_next_task (r_machine r)) 1) (ResourceLimit RESOURCE_TASKS))) (\<lambda>i.
     let captured = sort (concat (map task_handles (future_arguments future)))
     in if \<not> may_transfer (r_machine r) owner captured
        then vm_fail (Invariant ''captured task cannot transfer ownership'')
        else (\<lambda>r.
          vm_bind (new_task env md owner origin_function scope future) (\<lambda>task r.
            (Inr i, on_machine (add_task i task captured) (r\<lparr>r_budget := account_task live (r_budget r)\<rparr>)))
          (on_machine (\<lambda>m. m\<lparr>tm_next_task := i\<rparr>) r)))))) r"

section \<open>Returning\<close>

text \<open>A returned task moves to the scope of the caller.\<close>

definition mark_returned :: "u64 \<Rightarrow> scope_key option \<Rightarrow> vm_value \<Rightarrow> ('w run, unit) stateful" where
  "mark_returned i caller_scope v =
     (case v of
        VTask h \<Rightarrow> (\<lambda>r. (case find_task r h of
            None \<Rightarrow> (Inl (Invariant ''returned task is not live''), r)
          | Some returned \<Rightarrow>
              if mt_owner returned \<noteq> i then (Inl (Invariant ''returned task has another owner''), r)
              else (Inr (), on_machine (set_task h (returned\<lparr>mt_scope := caller_scope\<rparr>)) r)))
      | _ \<Rightarrow> vm_return ())"

definition resume_caller :: "u64 \<Rightarrow> register \<Rightarrow> vm_value \<Rightarrow> ('w run, unit) stateful" where
  "resume_caller i destination v r =
     (case find_task r i of
        None \<Rightarrow> (Inl (Invariant ''returning task exists''), r)
      | Some task \<Rightarrow>
          if mt_frames task = [] then (Inl (Invariant ''call has no caller''), r)
          else
            let caller = last (mt_frames task)
            in case write_register (mf_registers caller) destination v of
                 Inl e \<Rightarrow> (Inl e, r)
               | Inr rs \<Rightarrow>
                   (Inr (), on_machine (set_task i (task\<lparr>mt_frames :=
                      butlast (mt_frames task) @ [caller\<lparr>mf_registers := rs\<rparr>]\<rparr>)) r))"

text \<open>\<open>return_value\<close>: the frame is popped even if an error follows.\<close>

definition return_value :: "u64 \<Rightarrow> vm_value \<Rightarrow> ('w run, unit) stateful" where
  "return_value i v r =
     (case find_task r i of
        None \<Rightarrow> (Inl (Invariant ''task is missing''), r)
      | Some task \<Rightarrow>
          if mt_frames task = [] then (Inl (Invariant ''task has no frame''), r)
          else
            let frame = last (mt_frames task);
                frames = butlast (mt_frames task);
                caller_scope = (if frames = [] then None else innermost_scope (last frames));
                task = task\<lparr>mt_frames := frames\<rparr>;
                r = on_machine (set_task i task) r
            in case mf_continuation frame of
                 None \<Rightarrow>
                   (Inr (), move_task i task (TaskCompleted (Inr v)) EventCompleted r)
               | Some destination \<Rightarrow>
                   vm_bind (mark_returned i caller_scope v) (\<lambda>_. resume_caller i destination v) r)"

section \<open>Snapshots\<close>

definition state_name :: "machine_task_state \<Rightarrow> string" where
  "state_name state =
     (case state of
        TaskReady \<Rightarrow> ''ready''
      | TaskWaiting _ \<Rightarrow> ''waiting''
      | TaskCompleted (Inr _) \<Rightarrow> ''completed''
      | TaskCompleted (Inl _) \<Rightarrow> ''failed'')"

definition location_text :: "string \<times> u32 \<times> u32 \<Rightarrow> string" where
  "location_text loc =
     (case loc of (path, start, stop) \<Rightarrow>
        path @ '':'' @ show_nat (unat start) @ ''..'' @ show_nat (unat stop))"

definition int_of_id :: "u64 \<Rightarrow> string \<Rightarrow> vm_error + i64" where
  "int_of_id i msg = (if unat i < 2 ^ 63 then Inr (ucast i) else Inl (Invariant msg))"

definition task_snapshot :: "'w environment \<Rightarrow> module_def \<Rightarrow> u64 \<Rightarrow> u64 \<Rightarrow> task_machine \<Rightarrow> vm_value vm" where
  "task_snapshot env md observer_id handle m =
     vm_bind (vm_lift (ok_or (bt_get (tm_tasks m) handle) (Invariant ''task snapshot handle is not live''))) (\<lambda>observed.
     if mt_owner observed \<noteq> observer_id then vm_fail (Invariant ''task snapshot handle has another owner'')
     else
       let active = (if mt_frames observed = [] then None else Some (frame_active (last (mt_frames observed))));
           function_id = (case active of None \<Rightarrow> mt_entry_function observed | Some f \<Rightarrow> af_function f);
           location = Option.bind active (\<lambda>f. env_source_location env (af_function f) (af_instruction f))
       in vm_bind (vm_lift (fetch_function md function_id ''task snapshot function is missing'')) (\<lambda>function.
          vm_bind (vm_lift (int_of_id handle ''task ID does not fit Int'')) (\<lambda>i.
          vm_bind (vm_lift (int_of_id (mt_owner observed) ''task owner ID does not fit Int'')) (\<lambda>owner_id.
          vm_bind (case location of
              Some loc \<Rightarrow> vm_bind (allocate_string (location_text loc)) (\<lambda>text. vm_return (option_some text))
            | None \<Rightarrow> vm_return option_none) (\<lambda>location_value.
          vm_bind (charge_size (enum_size (if location = None then 0 else 1))) (\<lambda>_.
          vm_bind (charge_size (record_size 5)) (\<lambda>_.
          vm_bind (allocate_string (fn_name function)) (\<lambda>name.
          vm_bind (allocate_string (state_name (mt_state observed))) (\<lambda>state.
          vm_return (VRecord
            [(''function'', name), (''id'', VInt i), (''location'', location_value), (''owner_id'', VInt owner_id),
             (''state'', state)]))))))))))"

section \<open>Waking\<close>

definition scope_children :: "task_machine \<Rightarrow> u64 \<Rightarrow> scope_key \<Rightarrow> u64 list" where
  "scope_children m owner scope =
     map fst (filter (\<lambda>(i, task). mt_owner task = owner \<and> mt_scope task = Some scope) (tm_tasks m))"

definition write_top :: "machine_task \<Rightarrow> register \<Rightarrow> vm_value \<Rightarrow> vm_error + machine_task" where
  "write_top task destination v =
     (if mt_frames task = [] then Inr task
      else
        let frame = last (mt_frames task)
        in result_bind (write_register (mf_registers frame) destination v) (\<lambda>rs.
           Inr (task\<lparr>mt_frames := butlast (mt_frames task) @ [frame\<lparr>mf_registers := rs\<rparr>]\<rparr>)))"

text \<open>The value a waiting task was waiting for arrives.\<close>

definition deliver :: "u64 \<Rightarrow> machine_task \<Rightarrow> register \<Rightarrow> vm_value \<Rightarrow> 'w run \<Rightarrow> 'w run" where
  "deliver i task destination v r =
     (case write_top task destination v of
        Inl error \<Rightarrow> fail_task i task error r
      | Inr task \<Rightarrow> move_task i task TaskReady EventReady r)"

definition finish_effect ::
  "u64 \<Rightarrow> machine_task \<Rightarrow> register option \<Rightarrow> (vm_error + vm_value) \<times> 'w run \<Rightarrow> 'w run" where
  "finish_effect i task destination res =
     (case res of
        (Inl error, r) \<Rightarrow> fail_task i task error r
      | (Inr v, r) \<Rightarrow>
          (case destination of
             Some d \<Rightarrow> deliver i task d v r
           | None \<Rightarrow> move_task i task (TaskCompleted (Inr v)) EventCompleted r))"

definition wake_effect ::
  "'w environment \<Rightarrow> module_def \<Rightarrow> u64 \<Rightarrow> machine_task \<Rightarrow> u64 \<Rightarrow> register option \<Rightarrow> value_type \<Rightarrow> effect_failure_family \<Rightarrow>
    'w run \<Rightarrow> 'w run" where
  "wake_effect env md i task pending destination result_type family r =
     (let (poll, w) = env_poll_effect env pending (r_world r);
          r = r\<lparr>r_world := w\<rparr>
      in case poll of
           Inr PollPending \<Rightarrow> r
         | Inr (PollReady v) \<Rightarrow>
             finish_effect i task destination
               (on_budget (accept_external (md_enum_types md) result_type family v) r)
         | Inl error \<Rightarrow>
             finish_effect i task destination
               (on_budget (\<lambda>b. (close_provider_error family result_type error, snd (complete_effect b))) r))"

definition current_scope :: "machine_task \<Rightarrow> scope_key option" where
  "current_scope task = (if mt_frames task = [] then None else innermost_scope (last (mt_frames task)))"

definition drop_task :: "u64 \<Rightarrow> task_machine \<Rightarrow> task_machine" where
  "drop_task i m = m\<lparr>tm_tasks := bt_remove i (tm_tasks m)\<rparr>"

definition wake_join :: "u64 \<Rightarrow> machine_task \<Rightarrow> u64 \<Rightarrow> register \<Rightarrow> 'w run \<Rightarrow> 'w run option" where
  "wake_join i task handle destination r =
     (case map_option mt_state (find_task r handle) of
        Some (TaskCompleted result) \<Rightarrow>
          let r = on_machine (drop_task handle) r
          in (case result of
                Inl failure \<Rightarrow> Some (propagate_failure i task failure r)
              | Inr v \<Rightarrow>
                  let transferred = sort (task_handles v);
                      direct = (case v of VTask t \<Rightarrow> Some t | _ \<Rightarrow> None)
                  in if \<not> may_transfer (r_machine r) handle transferred
                     then Some (fail_task i task (Invariant ''returned task cannot transfer ownership'') r)
                     else
                       Option.bind (adopt i direct (current_scope task) transferred (r_machine r)) (\<lambda>m.
                       Option.bind (bt_get (tm_tasks m) i) (\<lambda>task.
                       Some (deliver i task destination v (r\<lparr>r_machine := m\<rparr>)))))
      | _ \<Rightarrow> Some r)"

fun cancel_siblings :: "u64 list \<Rightarrow> string option \<Rightarrow> task_machine \<Rightarrow> (string option \<times> task_machine) option" where
  "cancel_siblings [] cleanup m = Some (cleanup, m)"
| "cancel_siblings (s # ss) cleanup m =
     Option.bind (cancel_task_tree s m) (\<lambda>(failed, m). cancel_siblings ss (or_else cleanup failed) m)"

definition cleanup_failure :: "task_failure \<Rightarrow> string option \<Rightarrow> task_failure" where
  "cleanup_failure failure cleanup =
     (if cleanup = None then failure
      else failure\<lparr>tf_error := ResourceLimit RESOURCE_CLEANUP_INSTRUCTIONS\<rparr>)"

text \<open>The loop over the children of a scope: completed children are removed until one is still running
  (\<open>True\<close>) or one has failed, which cancels those after it.\<close>

fun join_children :: "u64 list \<Rightarrow> task_failure option \<Rightarrow> task_machine \<Rightarrow> (bool \<times> task_failure option \<times> task_machine) option" where
  "join_children [] failure m = Some (False, failure, m)"
| "join_children (c # cs) failure m =
     (case map_option mt_state (bt_get (tm_tasks m) c) of
        Some (TaskCompleted (Inr v)) \<Rightarrow>
          join_children cs
            (if task_handles v = [] then failure
             else Some \<lparr>tf_error = Invariant ''implicit scope join produced affine result'', tf_stack = []\<rparr>)
            (drop_task c m)
      | Some (TaskCompleted (Inl child_failure)) \<Rightarrow>
          map_option (\<lambda>(cleanup, m). (False, Some (cleanup_failure child_failure cleanup), m))
            (cancel_siblings cs None (drop_task c m))
      | _ \<Rightarrow> Some (True, failure, m))"

definition wake_scope :: "u64 \<Rightarrow> scope_key \<Rightarrow> 'w run \<Rightarrow> 'w run option" where
  "wake_scope i scope r =
     Option.bind (join_children (scope_children (r_machine r) i scope) None (r_machine r)) (\<lambda>(waiting, failure, m).
       let r = r\<lparr>r_machine := m\<rparr>
       in if waiting then Some r
          else
            Option.bind (find_task r i) (\<lambda>task.
            Some (case failure of
                Some f \<Rightarrow> propagate_failure i task f r
              | None \<Rightarrow> move_task i task TaskReady EventReady r)))"

fun first_failure :: "u64 list \<Rightarrow> task_machine \<Rightarrow> task_failure option" where
  "first_failure [] m = None"
| "first_failure (c # cs) m =
     (case map_option mt_state (bt_get (tm_tasks m) c) of
        Some (TaskCompleted (Inl failure)) \<Rightarrow> Some failure
      | _ \<Rightarrow> first_failure cs m)"

fun drop_tasks :: "u64 list \<Rightarrow> task_machine \<Rightarrow> task_machine" where
  "drop_tasks [] m = m"
| "drop_tasks (c # cs) m = drop_tasks cs (drop_task c m)"

definition completed_task :: "'w run \<Rightarrow> u64 \<Rightarrow> bool" where
  "completed_task r c = (case find_task r c of None \<Rightarrow> False | Some task \<Rightarrow> is_completed (mt_state task))"

text \<open>A task that returns early waits for the children of its innermost scope, then for those of the
  scope that is then innermost, and returns when its frame has none.\<close>

definition wake_return :: "u64 \<Rightarrow> scope_key \<Rightarrow> vm_value \<Rightarrow> 'w run \<Rightarrow> 'w run option" where
  "wake_return i scope v r =
     (let children = scope_children (r_machine r) i scope
      in if \<exists>c\<in>set children. \<not> completed_task r c then Some r
         else
           let failure = first_failure children (r_machine r);
               r = on_machine (drop_tasks children) r
           in Option.bind (find_task r i) (\<lambda>task.
              case failure of
                Some f \<Rightarrow> Some (propagate_failure i task f r)
              | None \<Rightarrow>
                  (case current_scope task of
                     Some outer \<Rightarrow>
                       Some (on_machine (set_task i (task\<lparr>mt_state := TaskWaiting (WaitReturn outer v)\<rparr>)) r)
                   | None \<Rightarrow>
                       (case return_value i v r of
                          (Inl error, r) \<Rightarrow>
                            Option.bind (find_task r i) (\<lambda>task. Some (fail_task i task error r))
                        | (Inr _, r) \<Rightarrow>
                            Option.bind (find_task r i) (\<lambda>task.
                              Some (if is_completed (mt_state task) then r
                                    else move_task i task TaskReady EventReady r))))))"

definition wake_one :: "'w environment \<Rightarrow> module_def \<Rightarrow> u64 \<Rightarrow> 'w run \<Rightarrow> 'w run option" where
  "wake_one env md i r =
     (case find_task r i of
        None \<Rightarrow> Some r
      | Some task \<Rightarrow>
          (case mt_state task of
             TaskWaiting (WaitEffect pending destination result_type family) \<Rightarrow>
               Some (wake_effect env md i task pending destination result_type family r)
           | TaskWaiting (WaitTask handle destination) \<Rightarrow> wake_join i task handle destination r
           | TaskWaiting (WaitScope scope) \<Rightarrow> wake_scope i scope r
           | TaskWaiting (WaitReturn scope v) \<Rightarrow> wake_return i scope v r
           | _ \<Rightarrow> Some r))"

fun wake_each :: "'w environment \<Rightarrow> module_def \<Rightarrow> u64 list \<Rightarrow> 'w run \<Rightarrow> 'w run option" where
  "wake_each env md [] r = Some r"
| "wake_each env md (i # is) r = Option.bind (wake_one env md i r) (wake_each env md is)"

definition wake_waiters :: "'w environment \<Rightarrow> module_def \<Rightarrow> 'w run \<Rightarrow> 'w run option" where
  "wake_waiters env md r =
     wake_each env md (map fst (filter (\<lambda>(i, task). is_waiting (mt_state task)) (tm_tasks (r_machine r)))) r"

end
