(* ===== verification/Vm_Json.thy ===== *)
theory Vm_Json
  imports Vm_Types Json_Value
begin

text \<open>
  JSON into values of a type (\<open>allen-vm/src/json.rs\<close>). The events of the JSON syntax come from
  \<open>serde_json\<close> and base64 from a crate: both are arguments. Every failure of the projection is the
  same error, so it is \<open>None\<close>.
\<close>

section \<open>JSON values\<close>

datatype vm_json =
    JsonNull
  | JsonBool bool
  | JsonInt i64
  | JsonFloat u64
  | JsonOutOfRange
  | JsonString string
  | JsonArray "vm_json list"
  | JsonObject "(string \<times> vm_json) list"

datatype json_decode_error_kind = JsonInvalidUtf8 | JsonInvalid | JsonDuplicateKey | JsonTypeMismatch | JsonResourceDepth

fun error_kind_code :: "json_decode_error_kind \<Rightarrow> string" where
  "error_kind_code JsonInvalidUtf8 = ''invalid_utf8''"
| "error_kind_code JsonInvalid = ''invalid_json''"
| "error_kind_code JsonDuplicateKey = ''duplicate_key''"
| "error_kind_code JsonTypeMismatch = ''type_mismatch''"
| "error_kind_code JsonResourceDepth = ''resource.limit''"

text \<open>The texts are fixed and shorter than the limit on messages.\<close>

fun error_kind_message :: "json_decode_error_kind \<Rightarrow> bool \<Rightarrow> string" where
  "error_kind_message JsonInvalidUtf8 _ = ''input is not valid UTF-8''"
| "error_kind_message JsonInvalid bom =
     (if bom then ''JSON must not begin with a byte-order mark'' else ''input is not one complete JSON value'')"
| "error_kind_message JsonDuplicateKey _ = ''JSON object contains a duplicate key''"
| "error_kind_message JsonTypeMismatch _ = ''JSON value does not match the target type''"
| "error_kind_message JsonResourceDepth _ = ''JSON nesting exceeds 128''"

section \<open>Projection\<close>

text \<open>\<open>member\<close>: the first member with the name.\<close>

definition json_member :: "(string \<times> vm_json) list \<Rightarrow> string \<Rightarrow> vm_json option" where
  "json_member object name = map_of object name"

lemma size_json_member: "json_member object name = Some v \<Longrightarrow> size v < Suc (size_list (size_prod (\<lambda>_. 0) size) object)"
  by (induction object) (auto simp: json_member_def split: if_splits)

lemma size_json_element: "v \<in> set vs \<Longrightarrow> size v < Suc (size_list size vs)"
  by (induction vs) auto

lemma size_json_zip: "(v, t) \<in> set (zip vs ts) \<Longrightarrow> size v < Suc (size_list size vs)"
  by (auto dest: set_zip_leftD size_json_element)

lemma size_json_array:
  "json_member object name = Some (JsonArray vs) \<Longrightarrow> Suc (size_list size vs) < Suc (size_list (size_prod (\<lambda>_. 0) size) object)"
  using size_json_member by fastforce

definition tag_of :: "(string \<times> vm_json) list \<Rightarrow> string option" where
  "tag_of object = (case json_member object ''tag'' of Some (JsonString tag) \<Rightarrow> Some tag | _ \<Rightarrow> None)"

fun find_variant :: "nat \<Rightarrow> string \<Rightarrow> enum_variant list \<Rightarrow> (nat \<times> enum_variant) option" where
  "find_variant i name [] = None"
| "find_variant i name (v # vs) = (if ev_name v = name then Some (i, v) else find_variant (Suc i) name vs)"

definition special_float :: "string \<Rightarrow> vm_value option" where
  "special_float s =
     (if s = ''NaN'' then Some (VFloat CANONICAL_NAN_BITS)
      else if s = ''Infinity'' then Some (VFloat 0x7ff0000000000000)
      else if s = ''-Infinity'' then Some (VFloat 0xfff0000000000000)
      else None)"

text \<open>\<open>b64\<close> decodes the standard alphabet with padding and \<open>enc\<close> encodes it.\<close>

definition project_bytes :: "(string \<Rightarrow> bytes option) \<Rightarrow> (bytes \<Rightarrow> string) \<Rightarrow> (string \<times> vm_json) list \<Rightarrow> vm_value option" where
  "project_bytes b64 enc object =
     (if length object \<noteq> 1 then None
      else case json_member object ''$bytes'' of
        Some (JsonString encoded) \<Rightarrow>
          (case b64 encoded of
             Some decoded \<Rightarrow> if enc decoded = encoded then Some (VBytes decoded) else None
           | None \<Rightarrow> None)
      | _ \<Rightarrow> None)"

function project ::
  "(string \<Rightarrow> bytes option) \<Rightarrow> (bytes \<Rightarrow> string) \<Rightarrow> enum_type list \<Rightarrow> vm_json \<Rightarrow> value_type \<Rightarrow> vm_value option" where
  "project b64 enc ets j target =
     (case target of
        TNewtype name underlying \<Rightarrow> map_option (VNewtype name) (project b64 enc ets j underlying)
      | TInt \<Rightarrow> (case j of JsonInt i \<Rightarrow> Some (VInt i) | _ \<Rightarrow> None)
      | TBool \<Rightarrow> (case j of JsonBool b \<Rightarrow> Some (VBool b) | _ \<Rightarrow> None)
      | TFloat \<Rightarrow>
          (case j of
             JsonFloat bits \<Rightarrow> Some (VFloat (canonical_float_bits bits))
           | JsonString s \<Rightarrow> special_float s
           | _ \<Rightarrow> None)
      | TString \<Rightarrow> (case j of JsonString s \<Rightarrow> Some (VString s) | _ \<Rightarrow> None)
      | TBytes \<Rightarrow> (case j of JsonObject object \<Rightarrow> project_bytes b64 enc object | _ \<Rightarrow> None)
      | TUnit \<Rightarrow> (case j of JsonNull \<Rightarrow> Some VUnit | _ \<Rightarrow> None)
      | TList item \<Rightarrow>
          (case j of
             JsonArray vs \<Rightarrow> map_option VList (those (map (\<lambda>v. project b64 enc ets v item) vs))
           | _ \<Rightarrow> None)
      | TTuple items \<Rightarrow>
          (case j of
             JsonArray vs \<Rightarrow>
               if length items = length vs
               then map_option VTuple (those (map (\<lambda>(v, item). project b64 enc ets v item) (zip vs items)))
               else None
           | _ \<Rightarrow> None)
      | TRecord layout \<Rightarrow>
          (case j of
             JsonObject object \<Rightarrow>
               if length layout = length object
               then map_option VRecord (those (map (\<lambda>(name, t).
                      case json_member object name of
                        Some v \<Rightarrow> map_option (Pair name) (project b64 enc ets v t)
                      | None \<Rightarrow> None) layout))
               else None
           | _ \<Rightarrow> None)
      | TMap key_type value_type \<Rightarrow>
          (case j of
             JsonArray pairs \<Rightarrow>
               (case those (map (\<lambda>pair. case pair of
                    JsonArray [k, v] \<Rightarrow>
                      (case (project b64 enc ets k key_type, project b64 enc ets v value_type) of
                         (Some key, Some w) \<Rightarrow> Some (key, w)
                       | _ \<Rightarrow> None)
                  | _ \<Rightarrow> None) pairs) of
                  Some entries \<Rightarrow> if keys_ascend entries then Some (VMap entries) else None
                | None \<Rightarrow> None)
           | _ \<Rightarrow> None)
      | TOption item \<Rightarrow>
          (case j of
             JsonObject object \<Rightarrow>
               (case tag_of object of
                  Some tag \<Rightarrow>
                    if tag = ''None'' \<and> length object = 1
                    then Some (VEnum OptionEnum ''Option'' 0 tag PUnit)
                    else if tag = ''Some'' \<and> length object = 2
                    then (case json_member object ''value'' of
                        Some v \<Rightarrow> map_option (\<lambda>w. VEnum OptionEnum ''Option'' 1 tag (PTuple [w])) (project b64 enc ets v item)
                      | None \<Rightarrow> None)
                    else None
                | None \<Rightarrow> None)
           | _ \<Rightarrow> None)
      | TResult ok error \<Rightarrow>
          (case j of
             JsonObject object \<Rightarrow>
               (case tag_of object of
                  Some tag \<Rightarrow>
                    if tag = ''Ok'' \<or> tag = ''Err''
                    then
                      let (variant, t) = (if tag = ''Ok'' then (0, ok) else (1, error))
                      in map_option (\<lambda>w. VEnum ResultEnum ''Result'' variant tag (PTuple [w]))
                           (if t = TUnit then (if length object = 1 then Some VUnit else None)
                            else if length object = 2
                            then (case json_member object ''value'' of
                                Some v \<Rightarrow> project b64 enc ets v t
                              | None \<Rightarrow> None)
                            else None)
                    else None
                | None \<Rightarrow> None)
           | _ \<Rightarrow> None)
      | TEnum type_id \<Rightarrow>
          (case j of
             JsonObject object \<Rightarrow>
               if \<not> unat type_id < length ets then None
               else (case tag_of object of
                  Some tag \<Rightarrow>
                    (case find_variant 0 tag (et_variants (ets ! unat type_id)) of
                       Some (variant, shape) \<Rightarrow>
                         if 2 ^ 32 \<le> variant then None
                         else map_option (VEnum (UserEnum type_id) (et_name (ets ! unat type_id)) (of_nat variant) tag)
                           (case ev_payload shape of
                              TPUnit \<Rightarrow> if length object = 1 then Some PUnit else None
                            | TPTuple items \<Rightarrow>
                                (case json_member object ''value'' of
                                   Some (JsonArray vs) \<Rightarrow>
                                     if length object = 2 \<and> length vs = length items
                                     then map_option PTuple (those (map (\<lambda>(v, item). project b64 enc ets v item) (zip vs items)))
                                     else None
                                 | _ \<Rightarrow> None)
                            | TPRecord layout \<Rightarrow>
                                (case json_member object ''value'' of
                                   Some v \<Rightarrow>
                                     if length object = 2
                                     then (case project b64 enc ets v (TRecord layout) of
                                         Some (VRecord fs) \<Rightarrow> Some (PRecord fs)
                                       | _ \<Rightarrow> None)
                                     else None
                                 | None \<Rightarrow> None))
                     | None \<Rightarrow> None)
                | None \<Rightarrow> None)
           | _ \<Rightarrow> None)
      | _ \<Rightarrow> None)"
  by pat_completeness auto
termination
  by (relation "measures [\<lambda>(_, _, _, j, _). size j, \<lambda>(_, _, _, _, t). size t]")
    (auto dest: size_json_member size_json_element size_json_zip dest!: size_json_array)

declare project.simps [simp del]

section \<open>Decoding\<close>

text \<open>What the deserializer tells its visitor. An error ends the input at the place where it stands: inside
  a value, or where the next element or the next key of an aggregate was expected.\<close>

datatype de_error = DeSyntax | DeRecursion

datatype de_event =
    DeUnit
  | DeBool bool
  | DeI64 i64
  | DeU64 u64
  | DeF64 u64
  | DeStr string
  | DeSeq "de_event list" "de_error option"
  | DeMap "(string \<times> de_event) list" "de_error option"
  | DeError de_error

definition MAXIMUM_DECODE_DEPTH :: nat where "MAXIMUM_DECODE_DEPTH = 128"

fun de_error_kind :: "de_error \<Rightarrow> json_decode_error_kind" where
  "de_error_kind DeSyntax = JsonInvalid"
| "de_error_kind DeRecursion = JsonResourceDepth"

definition finish_events :: "de_error option \<Rightarrow> json_decode_error_kind + unit" where
  "finish_events e = (case e of None \<Rightarrow> Inr () | Some e \<Rightarrow> Inl (de_error_kind e))"

text \<open>\<open>JsonSeed\<close> and \<open>JsonVisitor\<close>.\<close>

function (sequential) json_seed :: "nat \<Rightarrow> de_event \<Rightarrow> json_decode_error_kind + vm_json"
  and json_visit_seq :: "nat \<Rightarrow> de_event list \<Rightarrow> json_decode_error_kind + vm_json list"
  and json_visit_map :: "nat \<Rightarrow> string list \<Rightarrow> (string \<times> de_event) list \<Rightarrow> json_decode_error_kind + (string \<times> vm_json) list" where
  "json_seed depth ev =
     (if depth > MAXIMUM_DECODE_DEPTH then Inl JsonResourceDepth
      else case ev of
        DeUnit \<Rightarrow> Inr JsonNull
      | DeBool b \<Rightarrow> Inr (JsonBool b)
      | DeI64 i \<Rightarrow> Inr (JsonInt i)
      | DeU64 u \<Rightarrow> Inr (if unat u < 2 ^ 63 then JsonInt (ucast u) else JsonOutOfRange)
      | DeF64 bits \<Rightarrow> Inr (JsonFloat bits)
      | DeStr s \<Rightarrow> Inr (JsonString s)
      | DeSeq es e \<Rightarrow>
          result_bind (json_visit_seq (Suc depth) es) (\<lambda>vs.
          result_bind (finish_events e) (\<lambda>_. Inr (JsonArray vs)))
      | DeMap ms e \<Rightarrow>
          result_bind (json_visit_map (Suc depth) [] ms) (\<lambda>vs.
          result_bind (finish_events e) (\<lambda>_. Inr (JsonObject vs)))
      | DeError e \<Rightarrow> Inl (de_error_kind e))"
| "json_visit_seq depth [] = Inr []"
| "json_visit_seq depth (e # es) =
     result_bind (json_seed depth e) (\<lambda>v. result_bind (json_visit_seq depth es) (\<lambda>vs. Inr (v # vs)))"
| "json_visit_map depth names [] = Inr []"
| "json_visit_map depth names ((name, e) # ms) =
     (if name \<in> set names then Inl JsonDuplicateKey
      else
        result_bind (json_seed depth e) (\<lambda>v.
        result_bind (json_visit_map depth (name # names) ms) (\<lambda>vs. Inr ((name, v) # vs))))"
  by pat_completeness auto
termination
  by (relation "measure (\<lambda>x. case x of
        Inl (_, e) \<Rightarrow> size e
      | Inr (Inl (_, es)) \<Rightarrow> size_list size es
      | Inr (Inr (_, _, ms)) \<Rightarrow> size_list (size_prod (\<lambda>_. 0) size) ms)") auto

record json_decode_error =
  je_kind :: json_decode_error_kind
  je_message :: string

definition byte_order_mark :: bytes where
  "byte_order_mark = [CHR 0xEF, CHR 0xBB, CHR 0xBF]"

text \<open>\<open>syntax_of\<close> is the deserializer on a text: its events and whether nothing but white space follows.\<close>

definition decode_json ::
  "(string \<Rightarrow> bytes option) \<Rightarrow> (bytes \<Rightarrow> string) \<Rightarrow> (string \<Rightarrow> de_event \<times> bool) \<Rightarrow> enum_type list \<Rightarrow> bytes \<Rightarrow> value_type \<Rightarrow>
    json_decode_error + vm_value" where
  "decode_json b64 enc syntax_of ets input target =
     (let failed = (\<lambda>kind bom. Inl \<lparr>je_kind = kind, je_message = error_kind_message kind bom\<rparr>)
      in if \<not> utf8_valid input then failed JsonInvalidUtf8 False
         else if take 3 input = byte_order_mark then failed JsonInvalid True
         else case syntax_of input of (events, complete) \<Rightarrow>
           (case json_seed 0 events of
              Inl kind \<Rightarrow> failed kind False
            | Inr v \<Rightarrow>
                if \<not> complete then failed JsonInvalid False
                else (case project b64 enc ets v target of
                    None \<Rightarrow> failed JsonTypeMismatch False
                  | Some w \<Rightarrow> Inr w)))"

end
