(* ===== verification/Vm_Library.thy ===== *)
theory Vm_Library
  imports Vm_Machine Vm_Time Vm_Json
begin

text \<open>
  The operations behind the remaining instructions (\<open>allen-vm/src/lib.rs\<close>): conversions, templates,
  standard calls and the inspection of capabilities. The arithmetic and the text of floats belong to the
  language's library; what the machine needs of them is an argument.
\<close>

unbundle bit_operations_syntax

section \<open>Floats\<close>

record float_library =
  fl_binary :: "numeric_binary_op \<Rightarrow> u64 \<Rightarrow> u64 \<Rightarrow> u64"
  fl_of_int :: "i64 \<Rightarrow> u64"
  fl_debug :: "u64 \<Rightarrow> string"
  fl_fixed :: "u64 \<Rightarrow> nat \<Rightarrow> string"

definition float_binary :: "float_library \<Rightarrow> numeric_binary_op \<Rightarrow> u64 \<Rightarrow> u64 \<Rightarrow> vm_value" where
  "float_binary fl operation left right = VFloat (canonical_float_bits (fl_binary fl operation left right))"

text \<open>Negation flips the sign bit.\<close>

definition float_negate :: "u64 \<Rightarrow> vm_value" where
  "float_negate b = VFloat (canonical_float_bits (b XOR 0x8000000000000000))"

definition write_float :: "float_library \<Rightarrow> u64 \<Rightarrow> string option" where
  "write_float fl b =
     (if is_nan_bits b then Some ''NaN''
      else if b = 0x7ff0000000000000 then Some ''Infinity''
      else if b = 0xfff0000000000000 then Some ''-Infinity''
      else let text = fl_debug fl b in if length text \<le> 32 then Some text else None)"

text \<open>Text through the buffer of 32 bytes.\<close>

definition buffered_int :: "i64 \<Rightarrow> vm_error + string" where
  "buffered_int i = (if length (show_i64 i) \<le> 32 then Inr (show_i64 i) else Inl (Invariant ''Int text is too long''))"

definition buffered_float :: "float_library \<Rightarrow> u64 \<Rightarrow> vm_error + string" where
  "buffered_float fl b =
     (case write_float fl b of
        Some text \<Rightarrow> if length text \<le> 32 then Inr text else Inl (Invariant ''Float text is too long'')
      | None \<Rightarrow> Inl (Invariant ''Float text is too long''))"

definition convert :: "float_library \<Rightarrow> vm_value \<Rightarrow> conversion \<Rightarrow> vm_value vm" where
  "convert fl source conv =
     (case conv of
        IntToFloat \<Rightarrow>
          (case source of
             VInt i \<Rightarrow> vm_return (VFloat (canonical_float_bits (fl_of_int fl i)))
           | _ \<Rightarrow> vm_fail (Invariant ''conversion contains unsupported values''))
      | ToString \<Rightarrow>
          (case source of
             VString s \<Rightarrow> vm_return (VString s)
           | VBool b \<Rightarrow> allocate_string (if b then ''true'' else ''false'')
           | VInt i \<Rightarrow> vm_bind (vm_lift (buffered_int i)) allocate_string
           | VFloat b \<Rightarrow> vm_bind (vm_lift (buffered_float fl b)) allocate_string
           | _ \<Rightarrow> vm_fail (Invariant ''conversion contains unsupported values''))
      | StringToBytes \<Rightarrow>
          (case source of
             VString s \<Rightarrow> vm_bind (charge_size (logical_size 8 (length s) 1)) (\<lambda>_. vm_return (VBytes s))
           | _ \<Rightarrow> vm_fail (Invariant ''conversion contains unsupported values'')))"

section \<open>Templates\<close>

definition RESOURCE_TEMPLATE_OUTPUT_BYTES :: string where
  "RESOURCE_TEMPLATE_OUTPUT_BYTES = ''template_output_bytes''"

definition MAXIMUM_TEMPLATE_OUTPUT_BYTES :: nat where "MAXIMUM_TEMPLATE_OUTPUT_BYTES = 1048576"

fun template_scalar_length :: "float_library \<Rightarrow> vm_value \<Rightarrow> vm_error + nat" where
  "template_scalar_length fl (VBool b) = Inr (if b then 4 else 5)"
| "template_scalar_length fl (VInt i) = result_bind (buffered_int i) (\<lambda>s. Inr (length s))"
| "template_scalar_length fl (VFloat b) = result_bind (buffered_float fl b) (\<lambda>s. Inr (length s))"
| "template_scalar_length fl (VString s) = Inr (length s)"
| "template_scalar_length fl (VNewtype n v) = template_scalar_length fl v"
| "template_scalar_length fl _ = Inl (Invariant ''template operand is not a scalar'')"

fun write_template_scalar :: "float_library \<Rightarrow> vm_value \<Rightarrow> vm_error + string" where
  "write_template_scalar fl (VBool b) = Inr (if b then ''true'' else ''false'')"
| "write_template_scalar fl (VInt i) = Inr (show_i64 i)"
| "write_template_scalar fl (VFloat b) = ok_or (write_float fl b) (Invariant ''writing Float template text failed'')"
| "write_template_scalar fl (VString s) = Inr s"
| "write_template_scalar fl (VNewtype n v) = write_template_scalar fl v"
| "write_template_scalar fl _ = Inl (Invariant ''template operand is not a scalar'')"

definition template_limit :: vm_error where
  "template_limit = ResourceLimit RESOURCE_TEMPLATE_OUTPUT_BYTES"

text \<open>\<open>saturating_sub\<close> on the two ends of a marker.\<close>

fun marker_bytes :: "nat \<Rightarrow> template_marker list \<Rightarrow> vm_error + nat" where
  "marker_bytes acc [] = Inr acc"
| "marker_bytes acc (k # ks) =
     result_bind (ok_or (checked_add_usize acc (unat (tk_end k) - unat (tk_start k))) template_limit) (\<lambda>acc.
     marker_bytes acc ks)"

fun rendered_length :: "float_library \<Rightarrow> registers \<Rightarrow> register list \<Rightarrow> nat \<Rightarrow> template_marker list \<Rightarrow> vm_error + nat" where
  "rendered_length fl rs arguments acc [] = Inr acc"
| "rendered_length fl rs arguments acc (k # ks) =
     result_bind (ok_or (nth_value arguments (unat (tk_hole k))) (Invariant ''template marker hole is invalid'')) (\<lambda>r.
     result_bind (read_register rs r) (\<lambda>v.
     result_bind (template_scalar_length fl v) (\<lambda>n.
     result_bind (ok_or (checked_add_usize acc n) template_limit) (\<lambda>acc. rendered_length fl rs arguments acc ks))))"

text \<open>The output from a position on; slicing at positions out of order or inside a character panics, here
  an error of its own.\<close>

definition template_slice :: "string \<Rightarrow> nat \<Rightarrow> nat \<Rightarrow> vm_error + string" where
  "template_slice content start stop =
     (if start \<le> stop \<and> stop \<le> length content \<and> utf8_valid (take start content) \<and> utf8_valid (take stop content)
      then Inr (drop start (take stop content)) else Inl (Invariant ''template slice panics''))"

fun render_markers ::
  "float_library \<Rightarrow> registers \<Rightarrow> register list \<Rightarrow> string \<Rightarrow> nat \<Rightarrow> template_marker list \<Rightarrow> vm_error + string" where
  "render_markers fl rs arguments content position [] = template_slice content position (length content)"
| "render_markers fl rs arguments content position (k # ks) =
     result_bind (template_slice content position (unat (tk_start k))) (\<lambda>literal.
     result_bind (ok_or (nth_value arguments (unat (tk_hole k))) (Invariant ''template marker hole is invalid'')) (\<lambda>r.
     result_bind (read_register rs r) (\<lambda>v.
     result_bind (write_template_scalar fl v) (\<lambda>scalar.
     result_bind (render_markers fl rs arguments content (unat (tk_end k)) ks) (\<lambda>rest.
     Inr (literal @ scalar @ rest))))))"

definition render_template :: "float_library \<Rightarrow> template_resource \<Rightarrow> registers \<Rightarrow> register list \<Rightarrow> vm_value vm" where
  "render_template fl template rs arguments =
     (if length arguments \<noteq> length (tr_holes template) then vm_fail (Invariant ''template render arity is invalid'')
      else
        vm_bind (vm_lift (marker_bytes 0 (tr_markers template))) (\<lambda>markers.
        if length (tr_content template) < markers then vm_fail (Invariant ''template marker ranges are invalid'')
        else
          vm_bind (vm_lift (rendered_length fl rs arguments (length (tr_content template) - markers) (tr_markers template)))
            (\<lambda>len.
          if len > MAXIMUM_TEMPLATE_OUTPUT_BYTES then vm_fail template_limit
          else
            vm_bind (charge_size (string_size_bytes len)) (\<lambda>_.
            vm_bind (vm_lift (render_markers fl rs arguments (tr_content template) 0 (tr_markers template))) (\<lambda>text.
            vm_return (VString text))))))"

section \<open>Standard calls and capabilities\<close>

definition standard_float_format :: "float_library \<Rightarrow> registers \<Rightarrow> register list \<Rightarrow> vm_value vm" where
  "standard_float_format fl rs arguments =
     (case arguments of
        [v, decimals] \<Rightarrow>
          vm_bind (vm_lift (read_float rs v)) (\<lambda>b.
          vm_bind (vm_lift (read_int rs decimals)) (\<lambda>d.
          if \<not> (0 \<le> sint d \<and> sint d \<le> 18)
          then standard_result_error ''float.invalid_decimals'' ''decimal places must be between 0 and 18''
          else if \<not> is_finite_bits b
          then standard_result_error ''float.non_finite'' ''cannot format a non-finite Float''
          else vm_bind (allocate_string (fl_fixed fl b (nat (sint d)))) standard_result_ok))
      | _ \<Rightarrow> vm_fail (Invariant ''Float format arity is invalid''))"

definition standard_call :: "float_library \<Rightarrow> registers \<Rightarrow> standard_operation \<Rightarrow> register list \<Rightarrow> vm_value vm" where
  "standard_call fl rs operation arguments =
     (case operation of
        ToInt \<Rightarrow> standard_to_int rs arguments
      | FloatFormat \<Rightarrow> standard_float_format fl rs arguments
      | TimeFormatUtc \<Rightarrow> standard_time_format_utc rs arguments
      | TimeParseUtc \<Rightarrow> standard_time_parse_utc rs arguments
      | TimeBucket \<Rightarrow> standard_time_bucket rs arguments)"

text \<open>The frozen grants: the grantable names, ascending.\<close>

definition is_manifest_grantable_capability :: "string \<Rightarrow> bool" where
  "is_manifest_grantable_capability name \<longleftrightarrow>
     name \<in> {''fs.read'', ''fs.write'', ''net.http_get'', ''permission.request_external_fs'', ''exec.run''}"

definition execution_capabilities :: "string list \<Rightarrow> string list" where
  "execution_capabilities names = sort (remdups (filter is_manifest_grantable_capability names))"

fun grants_allocation :: "u64 \<Rightarrow> string list \<Rightarrow> vm_error + u64" where
  "grants_allocation acc [] = Inr acc"
| "grants_allocation acc (name # names) =
     result_bind (string_size name) (\<lambda>n.
     result_bind (checked_allocation_add acc n) (\<lambda>acc. grants_allocation acc names))"

definition capability_inspect :: "registers \<Rightarrow> capability_operation \<Rightarrow> register list \<Rightarrow> string list \<Rightarrow> vm_value vm" where
  "capability_inspect rs operation arguments capabilities =
     (case operation of
        IsGranted \<Rightarrow>
          (case arguments of
             [name] \<Rightarrow> vm_bind (vm_lift (read_string rs name)) (\<lambda>s. vm_return (VBool (s \<in> set capabilities)))
           | _ \<Rightarrow> vm_fail (Invariant ''capability is_granted arity is invalid''))
      | Granted \<Rightarrow>
          if arguments \<noteq> [] then vm_fail (Invariant ''capability granted arity is invalid'')
          else
            vm_bind (charge_size
              (result_bind (collection_size (length capabilities) VALUE_SLOT_BYTES) (\<lambda>n.
               grants_allocation n capabilities)))
              (\<lambda>_. vm_return (VList (map VString capabilities))))"

end
