(* ===== verification/Vm_Step.thy ===== *)
theory Vm_Step
  imports Vm_Tasks Vm_Library
begin

text \<open>
  One instruction of a task (\<open>TaskMachine::step\<close> of \<open>allen-vm/src/lib.rs\<close>), by the groups of the
  instruction set. A failed instruction ends its task, whose registers are not read again; an
  \<open>expect\<close> that cannot fail is an error with its text.
\<close>

record 'w machine_context =
  cx_module :: module_def
  cx_templates :: "template_resource list"
  cx_environment :: "'w environment"
  cx_capabilities :: "string list"
  cx_floats :: float_library
  cx_base64_decode :: "string \<Rightarrow> bytes option"
  cx_base64_encode :: "bytes \<Rightarrow> string"
  cx_json_syntax :: "string \<Rightarrow> de_event \<times> bool"

section \<open>Instructions that compute a value\<close>

text \<open>The destination and the value it gets.\<close>

definition register_type :: "function_def \<Rightarrow> register \<Rightarrow> vm_error + value_type" where
  "register_type function r = ok_or (nth_value (fn_registers function) (unat r)) (Invariant ''register type is missing'')"

definition giving :: "register \<Rightarrow> ('a \<Rightarrow> vm_value) \<Rightarrow> vm_error + 'a \<Rightarrow> (register \<times> vm_value) vm" where
  "giving destination mk res = vm_bind (vm_lift res) (\<lambda>x. vm_return (destination, mk x))"

definition giving_vm :: "register \<Rightarrow> vm_value vm \<Rightarrow> (register \<times> vm_value) vm" where
  "giving_vm destination c = vm_bind c (\<lambda>v. vm_return (destination, v))"

definition with_ints :: "registers \<Rightarrow> register \<Rightarrow> register \<Rightarrow> (i64 \<Rightarrow> i64 \<Rightarrow> vm_error + 'a) \<Rightarrow> vm_error + 'a" where
  "with_ints rs left right f =
     result_bind (read_int rs left) (\<lambda>x. result_bind (read_int rs right) (\<lambda>y. f x y))"

definition read_range :: "registers \<Rightarrow> register \<Rightarrow> vm_error + i64 \<times> i64 \<times> bool" where
  "read_range rs r = result_bind (read_register rs r) (\<lambda>v.
     case v of VRange a b c \<Rightarrow> Inr (a, b, c) | _ \<Rightarrow> Inl (Invariant ''range projection source is not Range''))"

definition scalar_value :: "'w machine_context \<Rightarrow> registers \<Rightarrow> scalar_instruction \<Rightarrow> (register \<times> vm_value) vm" where
  "scalar_value cx rs ins =
     (case ins of
        IConst d c \<Rightarrow>
          vm_bind (vm_lift (ok_or (nth_value (md_constants (cx_module cx)) (unat c)) (Invariant ''constant is missing'')))
            (\<lambda>k. giving_vm d (materialize_constant k))
      | IMove d s \<Rightarrow> giving d id (read_register rs s)
      | IIntBinary d l r operation \<Rightarrow> giving d VInt (with_ints rs l r (int_binary operation))
      | IIntRemainder d l r \<Rightarrow> giving d VInt (with_ints rs l r int_remainder)
      | IFloatBinary d l r operation \<Rightarrow>
          giving d id (result_bind (read_float rs l) (\<lambda>x. result_bind (read_float rs r) (\<lambda>y.
            Inr (float_binary (cx_floats cx) operation x y))))
      | IIntNegate d s \<Rightarrow>
          giving d VInt (result_bind (read_int rs s) (\<lambda>x. ok_or (checked_neg_i64 x) ArithmeticOverflow))
      | IFloatNegate d s \<Rightarrow> giving d float_negate (read_float rs s)
      | ICompare d l r operation \<Rightarrow>
          giving d VBool (result_bind (read_register rs l) (\<lambda>x. result_bind (read_register rs r) (\<lambda>y.
            compare_values operation x y)))
      | IBoolNot d s \<Rightarrow> giving d (\<lambda>b. VBool (\<not> b)) (read_bool rs s)
      | IBoolBinary d l r operation \<Rightarrow>
          giving d VBool (result_bind (read_bool rs l) (\<lambda>x. result_bind (read_bool rs r) (\<lambda>y.
            Inr (case operation of OpAnd \<Rightarrow> x \<and> y | OpOr \<Rightarrow> x \<or> y))))
      | IRangeNew d start stop inclusive \<Rightarrow>
          giving d id (with_ints rs start stop (\<lambda>x y. Inr (VRange x y inclusive)))
      | IRangeStart d r \<Rightarrow> giving d (\<lambda>(a, b, c). VInt a) (read_range rs r)
      | IRangeEnd d r \<Rightarrow> giving d (\<lambda>(a, b, c). VInt b) (read_range rs r)
      | IRangeInclusive d r \<Rightarrow> giving d (\<lambda>(a, b, c). VBool c) (read_range rs r)
      | IConvert d s conv \<Rightarrow>
          vm_bind (vm_lift (read_register rs s)) (\<lambda>v. giving_vm d (convert (cx_floats cx) v conv)))"

fun list_items :: "enum_type list \<Rightarrow> value_type \<Rightarrow> registers \<Rightarrow> list_literal_item list \<Rightarrow> vm_error + vm_value list" where
  "list_items ets t rs [] = Inr []"
| "list_items ets t rs (ListElement s # items) =
     result_bind (read_register rs s) (\<lambda>v.
     result_bind (value_matches_type ets 0 v t) (\<lambda>ok.
     if \<not> ok then Inl (Invariant ''list literal element has another type'')
     else result_bind (list_items ets t rs items) (\<lambda>vs. Inr (v # vs))))"
| "list_items ets t rs (ListSpread s # items) =
     result_bind (read_register rs s) (\<lambda>v.
     result_bind (value_matches_type ets 0 v (TList t)) (\<lambda>ok.
     case v of
       VList spread \<Rightarrow>
         if \<not> ok then Inl (Invariant ''list literal spread contains another type'')
         else result_bind (list_items ets t rs items) (\<lambda>vs. Inr (spread @ vs))
     | _ \<Rightarrow> Inl (Invariant ''list literal spread contains another type'')))"

fun insert_entries :: "(vm_value \<times> vm_value) list \<Rightarrow> (vm_value \<times> vm_value) list \<Rightarrow> (vm_value \<times> vm_value) list" where
  "insert_entries entries [] = entries"
| "insert_entries entries ((k, v) # es) = insert_entries (map_literal_insert entries k v) es"

fun map_items :: "enum_type list \<Rightarrow> value_type \<Rightarrow> value_type \<Rightarrow> registers \<Rightarrow> (vm_value \<times> vm_value) list \<Rightarrow> map_literal_item list \<Rightarrow>
    vm_error + (vm_value \<times> vm_value) list" where
  "map_items ets kt vt rs entries [] = Inr entries"
| "map_items ets kt vt rs entries (MapEntry k v # items) =
     result_bind (read_register rs k) (\<lambda>key.
     result_bind (read_register rs v) (\<lambda>w.
     result_bind (and_match (value_matches_type ets 0 key kt) (value_matches_type ets 0 w vt)) (\<lambda>ok.
     if \<not> ok then Inl (Invariant ''map literal entry has another type'')
     else map_items ets kt vt rs (map_literal_insert entries key w) items)))"
| "map_items ets kt vt rs entries (MapSpread s # items) =
     result_bind (read_register rs s) (\<lambda>v.
     result_bind (value_matches_type ets 0 v (TMap kt vt)) (\<lambda>ok.
     case v of
       VMap spread \<Rightarrow>
         if \<not> ok then Inl (Invariant ''map literal spread contains another type'')
         else map_items ets kt vt rs (insert_entries entries spread) items
     | _ \<Rightarrow> Inl (Invariant ''map literal spread contains another type'')))"

fun read_pairs :: "registers \<Rightarrow> (register \<times> register) list \<Rightarrow> vm_error + (vm_value \<times> vm_value) list" where
  "read_pairs rs [] = Inr []"
| "read_pairs rs ((k, v) # ps) =
     result_bind (read_register rs k) (\<lambda>key. result_bind (read_register rs v) (\<lambda>w.
     result_bind (read_pairs rs ps) (\<lambda>es. Inr ((key, w) # es))))"

fun adjacent_equal :: "(vm_value \<times> vm_value) list \<Rightarrow> bool" where
  "adjacent_equal (e # f # es) = (language_equal (fst e) (fst f) \<or> adjacent_equal (f # es))"
| "adjacent_equal _ = False"

definition aggregate_value ::
  "'w machine_context \<Rightarrow> function_def \<Rightarrow> registers \<Rightarrow> aggregate_instruction \<Rightarrow> (register \<times> vm_value) vm" where
  "aggregate_value cx function rs ins =
     (let ets = md_enum_types (cx_module cx)
      in case ins of
        IListNew d elements \<Rightarrow>
          vm_bind (charge_size (collection_size (length elements) VALUE_SLOT_BYTES)) (\<lambda>_.
          giving d VList (clone_registers rs elements))
      | IListLiteralBuild d items \<Rightarrow>
          vm_bind (vm_lift (register_type function d)) (\<lambda>t.
          case t of
            TList element \<Rightarrow>
              vm_bind (vm_lift (list_items ets element rs items)) (\<lambda>vs.
              vm_bind (charge_size (collection_size (length vs) VALUE_SLOT_BYTES)) (\<lambda>_. vm_return (d, VList vs)))
          | _ \<Rightarrow> vm_fail (Invariant ''list literal build destination contains another type''))
      | IMapNew d entries \<Rightarrow>
          vm_bind (charge_size (collection_size (length entries) MAP_ENTRY_BYTES)) (\<lambda>_.
          vm_bind (vm_lift (read_pairs rs entries)) (\<lambda>es.
          let sorted_entries = sort_by_key es
          in if adjacent_equal sorted_entries then vm_fail DuplicateMapKey else vm_return (d, VMap sorted_entries)))
      | IMapLiteralBuild d items \<Rightarrow>
          vm_bind (vm_lift (register_type function d)) (\<lambda>t.
          case t of
            TMap kt vt \<Rightarrow>
              vm_bind (vm_lift (map_items ets kt vt rs [] items)) (\<lambda>es.
              vm_bind (charge_size (collection_size (length es) MAP_ENTRY_BYTES)) (\<lambda>_.
              vm_return (d, VMap (sort_by_key es))))
          | _ \<Rightarrow> vm_fail (Invariant ''map literal build destination contains another type''))
      | ITupleNew d elements \<Rightarrow>
          vm_bind (charge_size (collection_size (length elements) VALUE_SLOT_BYTES)) (\<lambda>_.
          giving d VTuple (clone_registers rs elements))
      | IIndexGet d c i \<Rightarrow>
          giving d id (result_bind (read_register rs c) (\<lambda>x. result_bind (read_register rs i) (\<lambda>y. index_get x y)))
      | ISliceGet d c start stop \<Rightarrow>
          vm_bind (vm_lift (read_int rs start)) (\<lambda>x.
          vm_bind (vm_lift (read_int rs stop)) (\<lambda>y.
          vm_bind (vm_lift (read_register rs c)) (\<lambda>v. giving_vm d (slice_get v x y))))
      | IMapEntryAt d m i \<Rightarrow> giving_vm d (map_entry_at rs m i)
      | ILength d c \<Rightarrow> giving d VInt (result_bind (read_register rs c) collection_length)
      | IListAppend d vs v \<Rightarrow> giving_vm d (list_append rs vs v)
      | IListSet d vs i v \<Rightarrow> giving_vm d (list_set rs vs i v)
      | ITupleGet d t i \<Rightarrow>
          giving d id (result_bind (read_register rs t) (\<lambda>v. case v of
              VTuple vs \<Rightarrow> ok_or (nth_value vs (unat i)) (Invariant ''verified tuple index is out of bounds'')
            | _ \<Rightarrow> Inl (Invariant ''tuple operand contains another type'')))
      | IRecordNew d fs \<Rightarrow>
          vm_bind (vm_lift (register_type function d)) (\<lambda>t.
          case t of
            TRecord layout \<Rightarrow>
              vm_bind (charge_size (record_size (length layout))) (\<lambda>_.
              giving d VRecord (construct_record rs layout fs))
          | _ \<Rightarrow> vm_fail (Invariant ''record destination contains another type''))
      | INewtypeWrap d s \<Rightarrow>
          vm_bind (vm_lift (register_type function d)) (\<lambda>t.
          case t of
            TNewtype name _ \<Rightarrow>
              vm_bind (charge_size (newtype_size (length name))) (\<lambda>_. giving d (VNewtype name) (read_register rs s))
          | _ \<Rightarrow> vm_fail (Invariant ''newtype destination contains another type''))
      | INewtypeUnwrap d s \<Rightarrow>
          vm_bind (vm_lift (read_register rs s)) (\<lambda>v.
          case v of
            VNewtype identity w \<Rightarrow>
              vm_bind (vm_lift (register_type function s)) (\<lambda>t.
              case t of
                TNewtype name _ \<Rightarrow>
                  if identity \<noteq> name then vm_fail (Invariant ''newtype source has another identity'')
                  else vm_return (d, w)
              | _ \<Rightarrow> vm_fail (Invariant ''newtype source has another register type''))
          | _ \<Rightarrow> vm_fail (Invariant ''newtype source contains another type''))
      | IFieldGet d r i \<Rightarrow>
          giving d id (result_bind (read_register rs r) (\<lambda>v. case v of
              VRecord fs \<Rightarrow> ok_or (map_option snd (nth_value fs (unat i))) (Invariant ''verified record field is out of bounds'')
            | _ \<Rightarrow> Inl (Invariant ''record operand contains another type'')))
      | IEnumNew d variant payload \<Rightarrow>
          vm_bind (vm_lift (register_type function d)) (\<lambda>t.
          vm_bind (charge_size (enum_size (length payload))) (\<lambda>_.
          giving d id (construct_enum ets t variant rs payload)))
      | IToUnknown d s \<Rightarrow>
          vm_bind (charge_allocation VALUE_SLOT_BYTES) (\<lambda>_. giving d VUnknown (read_register rs s))
      | INarrow d s target \<Rightarrow>
          vm_bind (vm_lift (read_register rs s)) (\<lambda>v.
          case v of
            VUnknown w \<Rightarrow>
              vm_bind (vm_lift (value_matches_type ets 0 w target)) (\<lambda>ok.
              vm_bind (charge_size (enum_size (if ok then 1 else 0))) (\<lambda>_.
              vm_return (d, if ok then option_some w else option_none)))
          | _ \<Rightarrow> vm_fail (Invariant ''Narrow operand contains another type'')))"

definition FUTURE_BASE_BYTES :: u64 where "FUTURE_BASE_BYTES = 16"
definition RESOURCE_DECODE_DEPTH :: string where "RESOURCE_DECODE_DEPTH = ''decode_depth''"

definition decode_value :: "'w machine_context \<Rightarrow> bytes \<Rightarrow> value_type \<Rightarrow> vm_value vm" where
  "decode_value cx input target =
     vm_bind (charge_decode_input (length input)) (\<lambda>_.
     case decode_json (cx_base64_decode cx) (cx_base64_encode cx) (cx_json_syntax cx) (md_enum_types (cx_module cx)) input target of
       Inr v \<Rightarrow> vm_bind (charge_external_value v 0) (\<lambda>_. standard_result_ok v)
     | Inl error \<Rightarrow>
         if je_kind error = JsonResourceDepth then vm_fail (ResourceLimit RESOURCE_DECODE_DEPTH)
         else standard_result_error (error_kind_code (je_kind error)) (je_message error))"

definition future_result_type :: "function_def \<Rightarrow> register \<Rightarrow> string \<Rightarrow> vm_error + value_type" where
  "future_result_type function d msg =
     (case nth_value (fn_registers function) (unat d) of Some (TFuture t) \<Rightarrow> Inr t | _ \<Rightarrow> Inl (Invariant msg))"

text \<open>The library instructions but for \<open>IWorkspaceGet\<close>, which asks the provider. The target of an
  asynchronous call is looked up by binary search in the ascending list of asynchronous functions.\<close>

definition library_value ::
  "'w machine_context \<Rightarrow> function_def \<Rightarrow> registers \<Rightarrow> library_instruction \<Rightarrow> (register \<times> vm_value) vm" where
  "library_value cx function rs ins =
     (case ins of
        IStringCall d operation arguments \<Rightarrow> giving_vm d (string_call rs operation arguments)
      | ITemplateRender d template arguments \<Rightarrow>
          vm_bind (vm_lift (ok_or (nth_value (cx_templates cx) (unat template)) (Invariant ''template resource is missing'')))
            (\<lambda>resource. giving_vm d (render_template (cx_floats cx) resource rs arguments))
      | IStandardCall d operation arguments \<Rightarrow> giving_vm d (standard_call (cx_floats cx) rs operation arguments)
      | ICapabilityInspect d operation arguments \<Rightarrow>
          giving_vm d (capability_inspect rs operation arguments (cx_capabilities cx))
      | ISafeCollectionCall d operation arguments \<Rightarrow> giving_vm d (safe_collection_call rs operation arguments)
      | ICheckedIntCall d operation arguments \<Rightarrow> giving_vm d (checked_int_call rs operation arguments)
      | ICollectionCall d operation arguments \<Rightarrow>
          giving_vm d (collection_call (fl_binary (cx_floats cx) OpAdd) rs operation arguments)
      | IDecode d s target \<Rightarrow>
          vm_bind (vm_lift (read_bytes ''Decode operand is not Bytes'' rs s)) (\<lambda>input. giving_vm d (decode_value cx input target))
      | IClosureNew d f captures \<Rightarrow>
          vm_bind (charge_size (collection_size (length captures) VALUE_SLOT_BYTES)) (\<lambda>_.
          giving d (VClosure f) (clone_registers rs captures))
      | IAsyncCall d f arguments \<Rightarrow>
          if f \<notin> set (md_async_functions (cx_module cx)) then vm_fail (Invariant ''async call target is not async'')
          else
            vm_bind (charge_size (logical_size FUTURE_BASE_BYTES (length arguments) VALUE_SLOT_BYTES)) (\<lambda>_.
            giving d (\<lambda>vs. VFuture (FutureFunction f vs)) (clone_registers rs arguments))
      | IEffectCall d operation arguments \<Rightarrow>
          vm_bind (charge_size (logical_size FUTURE_BASE_BYTES (length arguments) VALUE_SLOT_BYTES)) (\<lambda>_.
          vm_bind (vm_lift (clone_registers rs arguments)) (\<lambda>vs.
          vm_bind (vm_lift (future_result_type function d ''effect call destination is not a future'')) (\<lambda>t.
          vm_return (d, VFuture (if is_agent_operation operation then FutureAgent operation vs t
                                 else FutureEffect operation vs)))))
      | IToolInvoke d tool input \<Rightarrow>
          vm_bind (charge_allocation (FUTURE_BASE_BYTES + VALUE_SLOT_BYTES)) (\<lambda>_.
          vm_bind (vm_lift (read_register rs input)) (\<lambda>v.
          vm_bind (vm_lift (future_result_type function d ''tool invocation destination is not a future'')) (\<lambda>t.
          vm_return (d, VFuture (FutureTool tool v t)))))
      | IWorkspaceGet d \<Rightarrow> vm_fail VmProtocolViolation)"

section \<open>The running frame\<close>

definition put_frame :: "u64 \<Rightarrow> machine_task \<Rightarrow> machine_frame \<Rightarrow> 'w run \<Rightarrow> 'w run" where
  "put_frame i task frame =
     on_machine (set_task i (task\<lparr>mt_frames := butlast (mt_frames task) @ [frame]\<rparr>))"

definition modify :: "('s \<Rightarrow> 's) \<Rightarrow> ('s, unit) stateful" where
  "modify f s = (Inr (), f s)"

definition write_value ::
  "u64 \<Rightarrow> machine_task \<Rightarrow> machine_frame \<Rightarrow> register \<Rightarrow> vm_value \<Rightarrow> ('w run, unit) stateful" where
  "write_value i task frame d v =
     vm_bind (vm_lift (write_register (mf_registers frame) d v)) (\<lambda>rs.
     modify (put_frame i task (frame\<lparr>mf_registers := rs\<rparr>)))"

definition exec_value ::
  "u64 \<Rightarrow> machine_task \<Rightarrow> machine_frame \<Rightarrow> (register \<times> vm_value) vm \<Rightarrow> ('w run, unit) stateful" where
  "exec_value i task frame c = vm_bind (on_budget c) (\<lambda>(d, v). write_value i task frame d v)"

definition jump :: "u64 \<Rightarrow> machine_task \<Rightarrow> machine_frame \<Rightarrow> u32 \<Rightarrow> ('w run, unit) stateful" where
  "jump i task frame target = modify (put_frame i task (frame\<lparr>mf_program_counter := unat target\<rparr>))"

text \<open>A call pushes a frame whose result goes to a register of \<open>frame\<close>.\<close>

definition push_call ::
  "'w machine_context \<Rightarrow> u64 \<Rightarrow> machine_task \<Rightarrow> machine_frame \<Rightarrow> u32 \<Rightarrow> vm_value list \<Rightarrow> vm_value list \<Rightarrow> register \<Rightarrow>
    ('w run, unit) stateful" where
  "push_call cx i task frame function arguments captures result =
     (let depth = length (mt_frames task) + 1
      in if 2 ^ 32 \<le> depth then vm_fail (ResourceLimit RESOURCE_CALL_DEPTH)
         else
           vm_bind (on_budget (new_machine_frame (cx_module cx) function arguments captures (Some result) (of_nat depth))) (\<lambda>child.
           modify (on_machine (set_task i (task\<lparr>mt_frames := butlast (mt_frames task) @ [frame, child]\<rparr>)))))"

definition park :: "u64 \<Rightarrow> machine_task \<Rightarrow> machine_frame \<Rightarrow> wait_state \<Rightarrow> ('w run, unit) stateful" where
  "park i task frame w =
     modify (move_task i (task\<lparr>mt_frames := butlast (mt_frames task) @ [frame]\<rparr>) (TaskWaiting w) EventWaiting)"

section \<open>Control\<close>

text \<open>The early return of the question mark.\<close>

definition early_return :: "u64 \<Rightarrow> machine_task \<Rightarrow> machine_frame \<Rightarrow> vm_value \<Rightarrow> ('w run, unit) stateful" where
  "early_return i task frame v =
     (if mf_active_scopes frame \<noteq> []
      then park i task (frame\<lparr>mf_active_scopes := butlast (mf_active_scopes frame)\<rparr>)
             (WaitReturn \<lparr>sk_activation = mf_activation frame, sk_lexical = last (mf_active_scopes frame)\<rparr> v)
      else return_value i v)"

definition exec_try :: "enum_identity \<Rightarrow> string \<Rightarrow> u64 \<Rightarrow> machine_task \<Rightarrow> machine_frame \<Rightarrow> register \<Rightarrow> register \<Rightarrow> ('w run, unit) stateful" where
  "exec_try identity name i task frame d s =
     vm_bind (vm_lift (read_register (mf_registers frame) s)) (\<lambda>v.
     case v of
       VEnum e t variant n payload \<Rightarrow>
         if e \<noteq> identity then vm_fail (Invariant (''Try'' @ name @ '' operand is not '' @ name))
         else if identity = ResultEnum then
           (case payload of
              PTuple vs \<Rightarrow>
                if variant = 0 then
                  (case vs of w # _ \<Rightarrow> write_value i task frame d w | [] \<Rightarrow> vm_fail (Invariant ''Ok has no payload''))
                else if variant = 1 then early_return i task frame v
                else vm_fail (Invariant ''Result has an invalid payload'')
            | _ \<Rightarrow> vm_fail (Invariant ''Result has an invalid payload''))
         else
           (case payload of
              PTuple vs \<Rightarrow>
                if variant = 1 then
                  (case vs of w # _ \<Rightarrow> write_value i task frame d w | [] \<Rightarrow> vm_fail (Invariant ''Some has no payload''))
                else vm_fail (Invariant ''Option has an invalid payload'')
            | PUnit \<Rightarrow>
                if variant = 0 then early_return i task frame v else vm_fail (Invariant ''Option has an invalid payload'')
            | _ \<Rightarrow> vm_fail (Invariant ''Option has an invalid payload''))
     | _ \<Rightarrow> vm_fail (Invariant (''Try'' @ name @ '' operand contains another type'')))"

definition exec_control ::
  "'w machine_context \<Rightarrow> u64 \<Rightarrow> machine_task \<Rightarrow> machine_frame \<Rightarrow> control_instruction \<Rightarrow> ('w run, unit) stateful" where
  "exec_control cx i task frame ins =
     (let rs = mf_registers frame
      in case ins of
        IBranchBool c t f \<Rightarrow> vm_bind (vm_lift (read_bool rs c)) (\<lambda>b. jump i task frame (if b then t else f))
      | ISwitchEnum s arms \<Rightarrow>
          vm_bind (vm_lift (read_register rs s)) (\<lambda>v.
          case v of
            VEnum e t variant n payload \<Rightarrow>
              vm_bind (vm_lift (ok_or (find (\<lambda>arm. sa_variant arm = variant) arms) (Invariant ''enum switch has no matching arm'')))
                (\<lambda>arm.
              vm_bind (vm_lift (write_switch_bindings rs payload (sa_bindings arm))) (\<lambda>rs.
              jump i task (frame\<lparr>mf_registers := rs\<rparr>) (sa_target arm)))
          | _ \<Rightarrow> vm_fail (Invariant ''enum switch operand contains another type''))
      | IJump target \<Rightarrow> jump i task frame target
      | ITryResult d s \<Rightarrow> exec_try ResultEnum ''Result'' i task frame d s
      | ITryOption d s \<Rightarrow> exec_try OptionEnum ''Option'' i task frame d s
      | IDirectCall d f arguments \<Rightarrow>
          vm_bind (vm_lift (clone_registers rs arguments)) (\<lambda>vs. push_call cx i task frame f vs [] d)
      | IClosureCall d c arguments \<Rightarrow>
          vm_bind (vm_lift (read_register rs c)) (\<lambda>v.
          case v of
            VClosure f captures \<Rightarrow>
              vm_bind (vm_lift (clone_registers rs arguments)) (\<lambda>vs. push_call cx i task frame f vs captures d)
          | _ \<Rightarrow> vm_fail (Invariant ''closure operand contains another type''))
      | IStop s \<Rightarrow>
          vm_bind (vm_lift (read_register rs s)) (\<lambda>v.
          case v of VString reason \<Rightarrow> vm_fail (Stopped reason) | _ \<Rightarrow> vm_fail (Invariant ''stop reason contains another type''))
      | IFail s \<Rightarrow>
          vm_bind (vm_lift (read_register rs s)) (\<lambda>v.
          case v of
            VString reason \<Rightarrow>
              if length reason > 2048 then vm_fail (ResourceLimit ''failure_reason_bytes'') else vm_fail (ProgramFailed reason)
          | _ \<Rightarrow> vm_fail (Invariant ''fail reason contains another type''))
      | IReturn s \<Rightarrow>
          if mf_active_scopes frame \<noteq> [] then vm_fail (Invariant ''return left an active task scope'')
          else vm_bind (vm_lift (read_register rs s)) (\<lambda>v. return_value i v))"

section \<open>Tasks\<close>

text \<open>Starting an effect and spawning do not touch the task itself, but the task may own others that change
  hands, so it is read again.\<close>

definition write_task_value :: "u64 \<Rightarrow> register \<Rightarrow> vm_value \<Rightarrow> ('w run, unit) stateful" where
  "write_task_value i d v r =
     (case find_task r i of
        None \<Rightarrow> (Inl (Invariant ''task is missing''), r)
      | Some task \<Rightarrow>
          if mt_frames task = [] then (Inl (Invariant ''task has no frame''), r)
          else write_value i task (last (mt_frames task)) d v r)"

definition exec_await_effect ::
  "'w machine_context \<Rightarrow> u64 \<Rightarrow> machine_task \<Rightarrow> machine_frame \<Rightarrow> register \<Rightarrow> future_value \<Rightarrow> ('w run, unit) stateful" where
  "exec_await_effect cx i task frame d future =
     vm_bind (start_effect_future (cx_environment cx) future) (\<lambda>(pending, poll, result_type, family).
     case poll of
       PollReady v \<Rightarrow>
         vm_bind (on_budget (accept_external (md_enum_types (cx_module cx)) result_type family v)) (\<lambda>v.
         write_value i task frame d v)
     | PollPending \<Rightarrow> park i task frame (WaitEffect pending (Some d) result_type family))"

definition exec_await :: "'w machine_context \<Rightarrow> u64 \<Rightarrow> machine_task \<Rightarrow> machine_frame \<Rightarrow> register \<Rightarrow> vm_value \<Rightarrow> ('w run, unit) stateful" where
  "exec_await cx i task frame d v =
     (case v of
        VFuture (FutureFunction f arguments) \<Rightarrow> push_call cx i task frame f arguments [] d
      | VFuture external \<Rightarrow> exec_await_effect cx i task frame d external
      | VTask handle \<Rightarrow>
          (\<lambda>r. case find_task r handle of
             None \<Rightarrow> (Inl (Invariant ''task handle is not live''), r)
           | Some child \<Rightarrow>
               if mt_owner child \<noteq> i then (Inl (Invariant ''task handle has another owner''), r)
               else park i task frame (WaitTask handle d) r)
      | _ \<Rightarrow> vm_fail (Invariant ''await operand contains another type''))"

definition exec_tasking ::
  "'w machine_context \<Rightarrow> u64 \<Rightarrow> machine_task \<Rightarrow> machine_frame \<Rightarrow> task_instruction \<Rightarrow> ('w run, unit) stateful" where
  "exec_tasking cx i task frame ins =
     (let rs = mf_registers frame
      in case ins of
        ISpawn d f scope \<Rightarrow>
          if scope \<noteq> 0 \<and> (mf_active_scopes frame = [] \<or> last (mf_active_scopes frame) \<noteq> scope)
          then vm_fail (Invariant ''spawn scope is not active'')
          else
            vm_bind (vm_lift (read_register rs f)) (\<lambda>v.
            case v of
              VFuture future \<Rightarrow>
                vm_bind (spawn_machine (cx_environment cx) (cx_module cx) i (mf_function frame)
                  (if scope = 0 then None else Some \<lparr>sk_activation = mf_activation frame, sk_lexical = scope\<rparr>) future) (\<lambda>handle.
                write_task_value i d (VTask handle))
            | _ \<Rightarrow> vm_fail (Invariant ''spawn operand contains another type''))
      | IAwait d s \<Rightarrow> vm_bind (vm_lift (read_register rs s)) (\<lambda>v. exec_await cx i task frame d v)
      | ITaskSnapshot d s \<Rightarrow>
          vm_bind (vm_lift (read_register rs s)) (\<lambda>v.
          case v of
            VTask handle \<Rightarrow>
              (\<lambda>r. vm_bind (on_budget (task_snapshot (cx_environment cx) (cx_module cx) i handle (r_machine r))) (\<lambda>w.
                write_value i task frame d w) r)
          | _ \<Rightarrow> vm_fail (Invariant ''task snapshot operand contains another type''))
      | ITaskScopeEnter scope \<Rightarrow>
          if scope = 0 \<or> scope \<in> set (mf_active_scopes frame) then vm_fail (Invariant ''task scope ID is invalid'')
          else modify (put_frame i task (frame\<lparr>mf_active_scopes := mf_active_scopes frame @ [scope]\<rparr>))
      | ITaskScopeExit scope \<Rightarrow>
          if mf_active_scopes frame = [] \<or> last (mf_active_scopes frame) \<noteq> scope
          then vm_fail (Invariant ''task scope exit is not nested'')
          else park i task (frame\<lparr>mf_active_scopes := butlast (mf_active_scopes frame)\<rparr>)
                 (WaitScope \<lparr>sk_activation = mf_activation frame, sk_lexical = scope\<rparr>))"

section \<open>Folds and combinators\<close>

definition read_closure :: "string \<Rightarrow> registers \<Rightarrow> register \<Rightarrow> vm_error + closure" where
  "read_closure msg rs r = result_bind (read_register rs r) (\<lambda>v.
     case v of VClosure f captures \<Rightarrow> Inr (f, captures) | _ \<Rightarrow> Inl (Invariant msg))"

text \<open>The frame with the state of the fold at \<open>pc\<close>: a state left by another instruction is replaced.\<close>

definition new_fold :: "nat \<Rightarrow> machine_frame \<Rightarrow> register \<Rightarrow> register \<Rightarrow> register \<Rightarrow> register \<Rightarrow> vm_error + machine_frame \<times> pending_fold" where
  "new_fold pc frame d vs initial callback =
     result_bind (read_list ''list fold values are not List'' (mf_registers frame) vs) (\<lambda>input.
     result_bind (read_closure ''list fold callback is not Closure'' (mf_registers frame) callback) (\<lambda>closure.
     result_bind (read_register (mf_registers frame) initial) (\<lambda>start.
     result_bind (write_register (mf_registers frame) d start) (\<lambda>rs.
     Inr (frame\<lparr>mf_registers := rs\<rparr>,
          \<lparr>pf_instruction = pc, pf_destination = d, pf_values = input, pf_callback = closure, pf_index = 0\<rparr>)))))"

definition start_fold :: "nat \<Rightarrow> machine_frame \<Rightarrow> register \<Rightarrow> register \<Rightarrow> register \<Rightarrow> register \<Rightarrow> vm_error + machine_frame \<times> pending_fold" where
  "start_fold pc frame d vs initial callback =
     (case mf_fold frame of
        Some f \<Rightarrow> if pf_instruction f = pc then Inr (frame, f) else new_fold pc frame d vs initial callback
      | None \<Rightarrow> new_fold pc frame d vs initial callback)"

definition exec_fold ::
  "'w machine_context \<Rightarrow> u64 \<Rightarrow> machine_task \<Rightarrow> machine_frame \<Rightarrow> nat \<Rightarrow> register \<Rightarrow> register \<Rightarrow> register \<Rightarrow> register \<Rightarrow>
    ('w run, unit) stateful" where
  "exec_fold cx i task frame pc d vs initial callback =
     vm_bind (vm_lift (start_fold pc frame d vs initial callback)) (\<lambda>(frame, f).
     if pf_index f = length (pf_values f) then modify (put_frame i task (frame\<lparr>mf_fold := None\<rparr>))
     else
       vm_bind (vm_lift (read_register (mf_registers frame) (pf_destination f))) (\<lambda>accumulator.
       push_call cx i task
         (frame\<lparr>mf_fold := Some (f\<lparr>pf_index := Suc (pf_index f)\<rparr>), mf_program_counter := pc\<rparr>)
         (fst (pf_callback f)) [accumulator, pf_values f ! pf_index f] (snd (pf_callback f)) (pf_destination f)))"

definition new_combinator ::
  "nat \<Rightarrow> registers \<Rightarrow> list_combinator \<Rightarrow> register \<Rightarrow> register option \<Rightarrow> register \<Rightarrow> register \<Rightarrow> vm_error + pending_list_combinator" where
  "new_combinator pc rs operation vs initial callback callback_result =
     result_bind (read_list ''list combinator values are not List'' rs vs) (\<lambda>input.
     result_bind (read_closure ''list combinator callback is not Closure'' rs callback) (\<lambda>closure.
     result_bind (case initial of None \<Rightarrow> Inr None | Some r \<Rightarrow> result_bind (read_register rs r) (\<lambda>v. Inr (Some v))) (\<lambda>accumulator.
     Inr \<lparr>pc_instruction = pc, pc_operation = operation, pc_values = input, pc_callback = closure,
          pc_callback_result = callback_result, pc_index = 0, pc_current = None, pc_accumulator = accumulator,
          pc_output = [], pc_rest = [], pc_answer = None, pc_waiting = False\<rparr>)))"

definition need_bool :: "string \<Rightarrow> vm_value \<Rightarrow> vm_error + bool" where
  "need_bool msg v = (case v of VBool b \<Rightarrow> Inr b | _ \<Rightarrow> Inl (Invariant msg))"

text \<open>What the result of a callback does to the state, and whether it ends the operation.\<close>

definition combinator_result :: "pending_list_combinator \<Rightarrow> vm_value \<Rightarrow> vm_value \<Rightarrow> vm_error + pending_list_combinator \<times> bool" where
  "combinator_result p current res =
     (case pc_operation p of
        CombMap \<Rightarrow> Inr (p\<lparr>pc_output := pc_output p @ [res]\<rparr>, False)
      | CombFilter \<Rightarrow>
          result_bind (need_bool ''list filter callback result is not Bool'' res) (\<lambda>b.
          Inr (if b then p\<lparr>pc_output := pc_output p @ [current]\<rparr> else p, False))
      | CombFlatMap \<Rightarrow>
          (case res of
             VList vs \<Rightarrow> Inr (p\<lparr>pc_output := pc_output p @ vs\<rparr>, False)
           | _ \<Rightarrow> Inl (Invariant ''list flat_map callback result is not List''))
      | CombFilterMap \<Rightarrow>
          (case res of
             VEnum e t variant n payload \<Rightarrow>
               if e \<noteq> OptionEnum then Inl (Invariant ''list filter_map callback result is not Option'')
               else if variant = 0 \<and> payload = PUnit then Inr (p, False)
               else (case payload of
                   PTuple [v] \<Rightarrow>
                     if variant = 1 then Inr (p\<lparr>pc_output := pc_output p @ [v]\<rparr>, False)
                     else Inl (Invariant ''list filter_map callback Option is malformed'')
                 | _ \<Rightarrow> Inl (Invariant ''list filter_map callback Option is malformed''))
           | _ \<Rightarrow> Inl (Invariant ''list filter_map callback result is not Option''))
      | CombFind \<Rightarrow>
          result_bind (need_bool ''list find callback result is not Bool'' res) (\<lambda>b.
          Inr (if b then (p\<lparr>pc_output := pc_output p @ [current]\<rparr>, True) else (p, False)))
      | CombAny \<Rightarrow>
          result_bind (need_bool ''list any callback result is not Bool'' res) (\<lambda>b.
          Inr (if b then (p\<lparr>pc_answer := Some True\<rparr>, True) else (p, False)))
      | CombAll \<Rightarrow>
          result_bind (need_bool ''list all callback result is not Bool'' res) (\<lambda>b.
          Inr (if b then (p, False) else (p\<lparr>pc_answer := Some False\<rparr>, True)))
      | CombPartition \<Rightarrow>
          result_bind (need_bool ''list partition callback result is not Bool'' res) (\<lambda>b.
          Inr (if b then p\<lparr>pc_output := pc_output p @ [current]\<rparr> else p\<lparr>pc_rest := pc_rest p @ [current]\<rparr>, False))
      | CombScan \<Rightarrow> Inr (p\<lparr>pc_accumulator := Some res, pc_output := pc_output p @ [res]\<rparr>, False))"

definition first_or_none :: "vm_value list \<Rightarrow> vm_value" where
  "first_or_none vs = (case vs of [] \<Rightarrow> option_none | v # _ \<Rightarrow> option_some v)"

definition finish_list_combinator :: "pending_list_combinator \<Rightarrow> vm_value vm" where
  "finish_list_combinator p =
     (if pc_operation p \<in> {CombMap, CombFilter, CombFlatMap, CombFilterMap, CombScan}
      then vm_bind (charge_size (collection_size (length (pc_output p)) VALUE_SLOT_BYTES)) (\<lambda>_.
           vm_return (VList (pc_output p)))
      else if pc_operation p = CombFind
      then vm_bind (charge_size (enum_size (if pc_output p = [] then 0 else 1))) (\<lambda>_.
           vm_return (first_or_none (pc_output p)))
      else if pc_operation p = CombAny then vm_return (VBool (case pc_answer p of None \<Rightarrow> False | Some b \<Rightarrow> b))
      else if pc_operation p = CombAll then vm_return (VBool (case pc_answer p of None \<Rightarrow> True | Some b \<Rightarrow> b))
      else
        vm_bind (charge_size (collection_size (length (pc_output p)) VALUE_SLOT_BYTES)) (\<lambda>_.
        vm_bind (charge_size (collection_size (length (pc_rest p)) VALUE_SLOT_BYTES)) (\<lambda>_.
        vm_bind (charge_size (record_size 2)) (\<lambda>_.
        vm_return (VRecord [(''matched'', VList (pc_output p)), (''rest'', VList (pc_rest p))])))))"

definition absorb_result :: "registers \<Rightarrow> pending_list_combinator \<Rightarrow> vm_error + pending_list_combinator \<times> bool" where
  "absorb_result rs p =
     (if \<not> pc_waiting p then Inr (p, False)
      else
        result_bind (read_register rs (pc_callback_result p)) (\<lambda>res.
        result_bind (ok_or (pc_current p) (Invariant ''callback has an item'')) (\<lambda>current.
        combinator_result (p\<lparr>pc_current := None, pc_waiting := False\<rparr>) current res)))"

definition exec_combinator ::
  "'w machine_context \<Rightarrow> u64 \<Rightarrow> machine_task \<Rightarrow> machine_frame \<Rightarrow> nat \<Rightarrow> register \<Rightarrow> list_combinator \<Rightarrow> register \<Rightarrow> register option \<Rightarrow>
    register \<Rightarrow> register \<Rightarrow> ('w run, unit) stateful" where
  "exec_combinator cx i task frame pc d operation vs initial callback callback_result =
     vm_bind (vm_lift (case mf_combinator frame of
         Some p \<Rightarrow>
           if pc_instruction p = pc then Inr p
           else new_combinator pc (mf_registers frame) operation vs initial callback callback_result
       | None \<Rightarrow> new_combinator pc (mf_registers frame) operation vs initial callback callback_result)) (\<lambda>p.
     vm_bind (vm_lift (absorb_result (mf_registers frame) p)) (\<lambda>(p, complete).
     if complete \<or> pc_index p = length (pc_values p)
     then
       vm_bind (on_budget (finish_list_combinator p)) (\<lambda>v.
       write_value i task (frame\<lparr>mf_combinator := None\<rparr>) d v)
     else
       let current = pc_values p ! pc_index p
       in vm_bind (vm_lift (if pc_operation p = CombScan
              then result_bind (ok_or (pc_accumulator p) (Invariant ''scan accumulator'')) (\<lambda>a. Inr [a, current])
              else Inr [current])) (\<lambda>arguments.
          push_call cx i task
            (frame\<lparr>mf_combinator := Some (p\<lparr>pc_index := Suc (pc_index p), pc_current := Some current, pc_waiting := True\<rparr>),
                   mf_program_counter := pc\<rparr>)
            (fst (pc_callback p)) arguments (snd (pc_callback p)) (pc_callback_result p))))"

section \<open>Sequences\<close>

definition read_sequence :: "registers \<Rightarrow> register \<Rightarrow> vm_error + nat" where
  "read_sequence rs r = result_bind (read_register rs r) (\<lambda>v.
     case v of VSequence s \<Rightarrow> Inr s | _ \<Rightarrow> Inl (Invariant ''sequence source is not Sequence''))"

definition on_heap :: "(sequence_heap \<Rightarrow> vm_error + sequence_heap) \<Rightarrow> ('w run, unit) stateful" where
  "on_heap f r = (case f (r_heap r) of Inl e \<Rightarrow> (Inl e, r) | Inr h \<Rightarrow> (Inr (), r\<lparr>r_heap := h\<rparr>))"

definition allocate_sequence :: "u64 \<Rightarrow> machine_task \<Rightarrow> machine_frame \<Rightarrow> register \<Rightarrow> sequence_plan \<Rightarrow> ('w run, unit) stateful" where
  "allocate_sequence i task frame d plan =
     vm_bind (on_budget (charge_allocation VALUE_SLOT_BYTES)) (\<lambda>_ r.
       case new_sequence plan (r_heap r) of (s, h) \<Rightarrow>
         write_value i task frame d (VSequence s) (r\<lparr>r_heap := h\<rparr>))"

text \<open>The source values still to come, over all cells.\<close>

definition cell_remaining :: "sequence_cell \<Rightarrow> nat" where
  "cell_remaining c = (case sc_plan c of PlanList vs i \<Rightarrow> length vs - i | _ \<Rightarrow> 0)"

definition heap_remaining :: "sequence_heap \<Rightarrow> nat" where
  "heap_remaining h = sum_list (map cell_remaining h)"

lemma sum_list_update_nat:
  "k < length xs \<Longrightarrow> sum_list (xs[k := y]) + xs ! k = sum_list xs + (y :: nat)"
  by (induction xs arbitrary: k) (auto split: nat.splits simp: nth_Cons')

lemma heap_remaining_update:
  "s < length h \<Longrightarrow> heap_remaining (h[s := c]) + cell_remaining (h ! s) = heap_remaining h + cell_remaining c"
  using sum_list_update_nat [of s "map cell_remaining h" "cell_remaining c"]
  by (simp add: heap_remaining_def map_update)

lemma next_plan_remaining:
  "s < length h \<Longrightarrow> next_plan s h = (Some x, h') \<Longrightarrow> heap_remaining h' < heap_remaining h"
proof (induction s h arbitrary: x h' rule: next_plan.induct)
  case (1 s h)
  show ?case
  proof (cases "sc_plan (h ! s)")
    case (PlanList vs i)
    with 1 heap_remaining_update [of s h "(h ! s)\<lparr>sc_plan := PlanList vs (Suc i)\<rparr>"] show ?thesis
      by (simp add: next_plan.simps [of s] cell_remaining_def split: if_splits)
  qed (use 1 in \<open>auto simp: next_plan.simps [of s] split: if_splits prod.splits option.splits\<close>)
qed

lemma take_one_remaining: "heap_remaining (snd (take_one s h)) = heap_remaining h"
proof (cases "s < length h")
  case True
  then show ?thesis
    using heap_remaining_update [of s h] by (auto simp: take_one_def cell_remaining_def split: sequence_plan.splits)
qed (auto simp: take_one_def list_update_beyond split: sequence_plan.splits)

definition next_pipeline :: "nat \<Rightarrow> sequence_heap \<Rightarrow> (vm_value \<times> sequence_adapter list) option \<times> sequence_heap" where
  "next_pipeline s h = (if s < length h then next_plan s h else (None, h))"

datatype sequence_outcome = SequenceComplete | SequenceCall closure "vm_value list"

text \<open>The result of a callback: of an adapter, which changes or drops the current item, or of the terminal.
  \<open>True\<close> ends the operation.\<close>

definition sequence_result :: "pending_sequence \<Rightarrow> sequence_waiting \<Rightarrow> vm_value \<Rightarrow> vm_value \<Rightarrow> vm_error + pending_sequence \<times> bool" where
  "sequence_result p waiting current res =
     (case waiting of
        WaitAdapter \<Rightarrow>
          (case nth_value (ps_adapters p) (ps_adapter_index p) of
             Some (AdaptMap _) \<Rightarrow>
               Inr (p\<lparr>ps_current := Some res, ps_adapter_index := Suc (ps_adapter_index p)\<rparr>, False)
           | Some (AdaptFilter _) \<Rightarrow>
               result_bind (need_bool ''sequence filter callback result is not Bool'' res) (\<lambda>b.
               Inr (if b then p\<lparr>ps_current := Some current, ps_adapter_index := Suc (ps_adapter_index p)\<rparr>
                    else p\<lparr>ps_adapters := [], ps_adapter_index := 0\<rparr>, False))
           | Some (AdaptTake _) \<Rightarrow> Inl (Invariant ''sequence take adapter cannot await a callback'')
           | None \<Rightarrow> Inl (Invariant ''adapter exists''))
      | WaitTerminal \<Rightarrow>
          (case ps_terminal p of
             TermFind \<Rightarrow>
               result_bind (need_bool ''sequence find callback result is not Bool'' res) (\<lambda>b.
               Inr (if b then (p\<lparr>ps_output := ps_output p @ [current]\<rparr>, True) else (p, False)))
           | TermAny \<Rightarrow>
               result_bind (need_bool ''sequence any callback result is not Bool'' res) (\<lambda>b.
               Inr (if b then (p\<lparr>ps_answer := Some True\<rparr>, True) else (p, False)))
           | TermAll \<Rightarrow>
               result_bind (need_bool ''sequence all callback result is not Bool'' res) (\<lambda>b.
               Inr (if b then (p, False) else (p\<lparr>ps_answer := Some False\<rparr>, True)))
           | TermFold \<Rightarrow> Inr (p\<lparr>ps_accumulator := Some res\<rparr>, False)
           | TermToList \<Rightarrow> Inl (Invariant ''list terminal callback is invalid'')))"

definition absorb_sequence_result :: "registers \<Rightarrow> pending_sequence \<Rightarrow> vm_error + pending_sequence \<times> bool" where
  "absorb_sequence_result rs p =
     (case ps_waiting p of
        None \<Rightarrow> Inr (p, False)
      | Some waiting \<Rightarrow>
          result_bind (read_register rs (ps_destination p)) (\<lambda>res.
          result_bind (ok_or (ps_current p) (Invariant ''sequence callback item'')) (\<lambda>current.
          sequence_result (p\<lparr>ps_waiting := None, ps_current := None\<rparr>) waiting current res)))"

definition terminal_call :: "pending_sequence \<Rightarrow> vm_value \<Rightarrow> vm_error + sequence_outcome" where
  "terminal_call p current =
     result_bind (ok_or (ps_callback p) (Invariant ''terminal callback'')) (\<lambda>callback.
     if ps_terminal p = TermFold
     then result_bind (ok_or (ps_accumulator p) (Invariant ''fold accumulator'')) (\<lambda>a.
          Inr (SequenceCall callback [a, current]))
     else Inr (SequenceCall callback [current]))"

text \<open>The loop over items and adapters up to the next callback. A turn that does not leave it takes an item
  from the source or passes an adapter.\<close>

function sequence_loop ::
  "pending_sequence \<Rightarrow> budget \<Rightarrow> sequence_heap \<Rightarrow> (vm_error + sequence_outcome) \<times> pending_sequence \<times> budget \<times> sequence_heap" where
  "sequence_loop p b h =
     (case ps_current p of
        None \<Rightarrow>
          (case next_pipeline (ps_sequence p) h of
             (None, h) \<Rightarrow> (Inr SequenceComplete, p, b, h)
           | (Some (v, adapters), h) \<Rightarrow>
               (case charge_allocation VALUE_SLOT_BYTES b of
                  (Inl e, b) \<Rightarrow> (Inl e, p, b, h)
                | (Inr _, b) \<Rightarrow>
                    sequence_loop (p\<lparr>ps_current := Some v, ps_adapters := adapters, ps_adapter_index := 0\<rparr>) b h))
      | Some current \<Rightarrow>
          if ps_adapter_index p < length (ps_adapters p) then
            (case ps_adapters p ! ps_adapter_index p of
               AdaptTake s \<Rightarrow>
                 (case take_one s h of
                    (False, h) \<Rightarrow> (Inr SequenceComplete, p, b, h)
                  | (True, h) \<Rightarrow> sequence_loop (p\<lparr>ps_adapter_index := Suc (ps_adapter_index p)\<rparr>) b h)
             | AdaptMap callback \<Rightarrow> (Inr (SequenceCall callback [current]), p\<lparr>ps_waiting := Some WaitAdapter\<rparr>, b, h)
             | AdaptFilter callback \<Rightarrow> (Inr (SequenceCall callback [current]), p\<lparr>ps_waiting := Some WaitAdapter\<rparr>, b, h))
          else if ps_terminal p = TermToList
          then sequence_loop (p\<lparr>ps_current := None, ps_output := ps_output p @ [current]\<rparr>) b h
          else (terminal_call p current, p\<lparr>ps_waiting := Some WaitTerminal\<rparr>, b, h))"
  by pat_completeness auto
termination
proof (relation "measures [\<lambda>(p, b, h). heap_remaining h,
    \<lambda>(p, b, h). case ps_current p of None \<Rightarrow> 0 | Some _ \<Rightarrow> Suc (length (ps_adapters p) - ps_adapter_index p)]", goal_cases)
  case (2 p b h x h' x2)
  then have "next_pipeline (ps_sequence p) h = (Some x2, h')" by simp
  then have "heap_remaining h' < heap_remaining h"
    using next_plan_remaining by (simp add: next_pipeline_def split: if_splits)
  then show ?case by simp
next
  case (3 p b h current s x h')
  then have "heap_remaining h' = heap_remaining h" using take_one_remaining [of s h] by (metis snd_conv)
  then show ?case using 3(1,2) by simp
qed simp_all

declare sequence_loop.simps [simp del]

definition finish_sequence :: "pending_sequence \<Rightarrow> vm_value vm" where
  "finish_sequence p =
     (case ps_terminal p of
        TermToList \<Rightarrow>
          vm_bind (charge_size (collection_size (length (ps_output p)) VALUE_SLOT_BYTES)) (\<lambda>_. vm_return (VList (ps_output p)))
      | TermFind \<Rightarrow>
          vm_bind (charge_size (enum_size (if ps_output p = [] then 0 else 1))) (\<lambda>_. vm_return (first_or_none (ps_output p)))
      | TermAny \<Rightarrow> vm_return (VBool (case ps_answer p of None \<Rightarrow> False | Some b \<Rightarrow> b))
      | TermAll \<Rightarrow> vm_return (VBool (case ps_answer p of None \<Rightarrow> True | Some b \<Rightarrow> b))
      | TermFold \<Rightarrow> vm_lift (ok_or (ps_accumulator p) (Invariant ''fold accumulator'')))"

definition optional :: "('a \<Rightarrow> vm_error + 'b) \<Rightarrow> 'a option \<Rightarrow> vm_error + 'b option" where
  "optional f x = (case x of None \<Rightarrow> Inr None | Some y \<Rightarrow> result_bind (f y) (\<lambda>z. Inr (Some z)))"

text \<open>The state of the terminal operation at \<open>pc\<close>; a new one consumes the sequence.\<close>

definition start_sequence ::
  "machine_frame \<Rightarrow> nat \<Rightarrow> register \<Rightarrow> register \<Rightarrow> sequence_terminal \<Rightarrow> register option \<Rightarrow> register option \<Rightarrow>
    ('w run, pending_sequence) stateful" where
  "start_sequence frame pc d sequence terminal callback initial =
     (if map_option ps_instruction (mf_sequence frame) = Some pc then vm_return (the (mf_sequence frame))
      else
        vm_bind (vm_lift (read_sequence (mf_registers frame) sequence)) (\<lambda>s.
        vm_bind (on_heap (consume s)) (\<lambda>_.
        vm_bind (vm_lift (optional (read_closure ''sequence callback is not Closure'' (mf_registers frame)) callback)) (\<lambda>cb.
        vm_bind (vm_lift (optional (read_register (mf_registers frame)) initial)) (\<lambda>accumulator.
        vm_return \<lparr>ps_instruction = pc, ps_destination = d, ps_sequence = s, ps_terminal = terminal, ps_callback = cb,
          ps_adapters = [], ps_adapter_index = 0, ps_current = None, ps_output = [], ps_answer = None,
          ps_accumulator = accumulator, ps_waiting = None\<rparr>)))))"

definition exec_sequence ::
  "'w machine_context \<Rightarrow> u64 \<Rightarrow> machine_task \<Rightarrow> machine_frame \<Rightarrow> nat \<Rightarrow> register \<Rightarrow> register \<Rightarrow> sequence_terminal \<Rightarrow> register option \<Rightarrow>
    register option \<Rightarrow> ('w run, unit) stateful" where
  "exec_sequence cx i task frame pc d sequence terminal callback initial =
     vm_bind (start_sequence frame pc d sequence terminal callback initial) (\<lambda>p.
     vm_bind (vm_lift (absorb_sequence_result (mf_registers frame) p)) (\<lambda>(p, complete).
     vm_bind (if complete then vm_return (SequenceComplete, p)
       else (\<lambda>r. case sequence_loop p (r_budget r) (r_heap r) of (res, p, b, h) \<Rightarrow>
          (map_sum id (\<lambda>outcome. (outcome, p)) res, r\<lparr>r_budget := b, r_heap := h\<rparr>))) (\<lambda>(outcome, p).
     case outcome of
       SequenceComplete \<Rightarrow>
         vm_bind (on_budget (finish_sequence p)) (\<lambda>v. write_value i task (frame\<lparr>mf_sequence := None\<rparr>) d v)
     | SequenceCall callback arguments \<Rightarrow>
         push_call cx i task (frame\<lparr>mf_sequence := Some p, mf_program_counter := pc\<rparr>)
           (fst callback) arguments (snd callback) (ps_destination p))))"

definition exec_looping ::
  "'w machine_context \<Rightarrow> u64 \<Rightarrow> machine_task \<Rightarrow> machine_frame \<Rightarrow> nat \<Rightarrow> loop_instruction \<Rightarrow> ('w run, unit) stateful" where
  "exec_looping cx i task frame pc ins =
     (let rs = mf_registers frame
      in case ins of
        IListFold d vs initial callback \<Rightarrow> exec_fold cx i task frame pc d vs initial callback
      | IListCombinator d operation vs initial callback callback_result \<Rightarrow>
          exec_combinator cx i task frame pc d operation vs initial callback callback_result
      | ISequenceFromList d vs \<Rightarrow>
          vm_bind (vm_lift (read_list ''sequence source is not List'' rs vs)) (\<lambda>xs.
          allocate_sequence i task frame d (PlanList xs 0))
      | ISequenceTake d s limit \<Rightarrow>
          vm_bind (vm_lift (read_sequence rs s)) (\<lambda>upstream.
          vm_bind (on_heap (consume upstream)) (\<lambda>_.
          vm_bind (vm_lift (read_int rs limit)) (\<lambda>n.
          allocate_sequence i task frame d (PlanTake upstream (if sint n < 0 then 0 else nat (sint n))))))
      | ISequenceMap d s callback \<Rightarrow>
          vm_bind (vm_lift (read_sequence rs s)) (\<lambda>upstream.
          vm_bind (vm_lift (read_closure ''sequence callback is not Closure'' rs callback)) (\<lambda>closure.
          vm_bind (on_heap (consume upstream)) (\<lambda>_.
          allocate_sequence i task frame d (PlanMap upstream closure))))
      | ISequenceFilter d s callback \<Rightarrow>
          vm_bind (vm_lift (read_sequence rs s)) (\<lambda>upstream.
          vm_bind (vm_lift (read_closure ''sequence callback is not Closure'' rs callback)) (\<lambda>closure.
          vm_bind (on_heap (consume upstream)) (\<lambda>_.
          allocate_sequence i task frame d (PlanFilter upstream closure))))
      | ISequenceToList d s \<Rightarrow> exec_sequence cx i task frame pc d s TermToList None None
      | ISequenceFind d s callback \<Rightarrow> exec_sequence cx i task frame pc d s TermFind (Some callback) None
      | ISequenceAny d s callback \<Rightarrow> exec_sequence cx i task frame pc d s TermAny (Some callback) None
      | ISequenceAll d s callback \<Rightarrow> exec_sequence cx i task frame pc d s TermAll (Some callback) None
      | ISequenceFold d s initial callback \<Rightarrow> exec_sequence cx i task frame pc d s TermFold (Some callback) (Some initial))"

section \<open>One instruction\<close>

definition exec_workspace :: "'w machine_context \<Rightarrow> u64 \<Rightarrow> machine_task \<Rightarrow> machine_frame \<Rightarrow> register \<Rightarrow> ('w run, unit) stateful" where
  "exec_workspace cx i task frame d =
     vm_bind (on_world (env_workspace (cx_environment cx))) (\<lambda>res.
     case res of
       Inr (a, b, c) \<Rightarrow> write_value i task frame d (VWorkspace a b c)
     | Inl e \<Rightarrow>
         if e = CapabilityMissing then write_value i task frame d (VWorkspace 0 0 0) else vm_fail VmProtocolViolation)"

definition exec_instruction ::
  "'w machine_context \<Rightarrow> u64 \<Rightarrow> machine_task \<Rightarrow> machine_frame \<Rightarrow> function_def \<Rightarrow> nat \<Rightarrow> instruction \<Rightarrow> ('w run, unit) stateful" where
  "exec_instruction cx i task frame function pc ins =
     (case ins of
        Scalar s \<Rightarrow> exec_value i task frame (scalar_value cx (mf_registers frame) s)
      | Aggregate a \<Rightarrow> exec_value i task frame (aggregate_value cx function (mf_registers frame) a)
      | Library (IWorkspaceGet d) \<Rightarrow> exec_workspace cx i task frame d
      | Library l \<Rightarrow> exec_value i task frame (library_value cx function (mf_registers frame) l)
      | Control c \<Rightarrow> exec_control cx i task frame c
      | Tasking t \<Rightarrow> exec_tasking cx i task frame t
      | Looping l \<Rightarrow> exec_looping cx i task frame pc l)"

text \<open>\<open>check_interruption\<close> asks the clock only if the execution is not cancelled.\<close>

definition read_interruption :: "'w environment \<Rightarrow> ('w run, bool \<times> nat) stateful" where
  "read_interruption env =
     vm_bind (on_world (env_is_cancelled env)) (\<lambda>cancelled.
     if cancelled then vm_return (True, 0)
     else vm_bind (on_world (env_now env)) (\<lambda>now. vm_return (False, now)))"

definition charge_step :: "'w environment \<Rightarrow> checkpoint \<Rightarrow> ('w run, unit) stateful" where
  "charge_step env cp =
     vm_bind (read_interruption env) (\<lambda>(cancelled, now). on_budget (charge_instruction cp cancelled now))"

text \<open>\<open>TaskMachine::step\<close>. The index fits 32 bits, so the increment of the program counter does not
  overflow.\<close>

definition machine_step :: "'w machine_context \<Rightarrow> u64 \<Rightarrow> ('w run, unit) stateful" where
  "machine_step cx i r =
     (case find_task r i of
        None \<Rightarrow> (Inl (Invariant ''task is missing''), r)
      | Some task \<Rightarrow>
          if mt_frames task = [] then (Inl (Invariant ''task has no frame''), r)
          else
            let frame = last (mt_frames task);
                pc = mf_program_counter frame
            in vm_bind (vm_lift (fetch_function (cx_module cx) (mf_function frame) ''function is missing'')) (\<lambda>function.
               vm_bind (vm_lift (ok_or (nth_value (fn_code function) pc) (Invariant ''function ended without return''))) (\<lambda>ins.
               if 2 ^ 32 \<le> pc then vm_fail (Invariant ''instruction index is out of range'')
               else
                 vm_bind (charge_step (cx_environment cx) \<lparr>cp_function = mf_function frame, cp_instruction = of_nat pc\<rparr>) (\<lambda>_.
                 let frame = frame\<lparr>mf_program_counter := Suc pc\<rparr>
                 in vm_bind (modify (put_frame i task frame)) (\<lambda>_.
                    exec_instruction cx i (task\<lparr>mt_frames := butlast (mt_frames task) @ [frame]\<rparr>) frame function pc ins)))) r)"

end
