(* ===== verification/Vm_Execute.thy ===== *)
theory Vm_Execute
  imports Vm_Step
begin

text \<open>
  The scheduler loop (\<open>execute_task_machine\<close> of \<open>allen-vm/src/lib.rs\<close>). One turn of the loop wakes the
  waiting tasks and then runs one instruction of the next ready task, waits for an effect, or ends the
  execution. The loop is the iteration of turns; it has no bound of its own, so the number of turns is
  an argument.
\<close>

record stack_frame =
  sf_function :: u32
  sf_function_name :: string
  sf_instruction :: u32
  sf_source :: "(string \<times> u32 \<times> u32) option"

record execution_error =
  xe_error :: vm_error
  xe_frames :: "stack_frame list"

datatype execution_outcome =
    OutcomeCompleted vm_value execution_usage
  | OutcomeStopped string execution_usage "string option"

text \<open>\<open>Panic\<close>: the code panics or does not return.\<close>

datatype 'w turn = Next "'w run" | Done "execution_error + execution_outcome" "'w run" | Panic

definition stack_frames :: "'w machine_context \<Rightarrow> active_frame list \<Rightarrow> stack_frame list" where
  "stack_frames cx = map (\<lambda>f.
     \<lparr>sf_function = af_function f,
      sf_function_name = (case nth_value (md_functions (cx_module cx)) (unat (af_function f)) of
          None \<Rightarrow> ''<missing>'' | Some function \<Rightarrow> fn_name function),
      sf_instruction = af_instruction f,
      sf_source = env_source_location (cx_environment cx) (af_function f) (af_instruction f)\<rparr>)"

definition cancel_providers :: "'w environment \<Rightarrow> 'w run \<Rightarrow> 'w run" where
  "cancel_providers env r = cancel_effects env (cancel_pending_effects env r)"

definition cancel_tasks :: "'w run \<Rightarrow> string option \<times> 'w run" where
  "cancel_tasks r = (case cancel_all (r_machine r) of (cleanup, m) \<Rightarrow> (cleanup, r\<lparr>r_machine := m\<rparr>))"

text \<open>The end of an execution with an error, unless the cleanup ran over its own limit.\<close>

definition cleanup_error :: "vm_error \<Rightarrow> string option \<Rightarrow> vm_error" where
  "cleanup_error error cleanup =
     (if cleanup = None then error else ResourceLimit RESOURCE_CLEANUP_INSTRUCTIONS)"

definition abort :: "'w machine_context \<Rightarrow> vm_error \<Rightarrow> 'w run \<Rightarrow> 'w turn" where
  "abort cx error r =
     (case cancel_tasks (cancel_providers (cx_environment cx) r) of (cleanup, r) \<Rightarrow>
        Done (Inl \<lparr>xe_error = cleanup_error error cleanup, xe_frames = []\<rparr>) r)"

text \<open>Cancelling at the end, unless a cleanup failure is already noted.\<close>

definition final_cleanup :: "'w machine_context \<Rightarrow> 'w run \<Rightarrow> string option \<times> 'w run" where
  "final_cleanup cx r =
     (let r = cancel_providers (cx_environment cx) r
      in case tm_terminal_cleanup_failure (r_machine r) of
           Some c \<Rightarrow> (Some c, r)
         | None \<Rightarrow> cancel_tasks r)"

definition waits_for_effect :: "task_machine \<Rightarrow> bool" where
  "waits_for_effect m \<longleftrightarrow> pending_effects m \<noteq> []"

definition no_ready_task :: "'w machine_context \<Rightarrow> 'w run \<Rightarrow> 'w turn" where
  "no_ready_task cx r =
     (case map_option mt_state (find_task r 0) of
        None \<Rightarrow> Panic
      | Some (TaskCompleted (Inr v)) \<Rightarrow>
          if bt_len (tm_tasks (r_machine r)) \<noteq> 1 then abort cx (Invariant ''entry returned with live tasks'') r
          else Done (Inr (OutcomeCompleted v (b_usage (r_budget r)))) r
      | Some (TaskCompleted (Inl failure)) \<Rightarrow>
          (case final_cleanup cx r of (cleanup, r) \<Rightarrow>
             (case tf_error failure of
                Stopped reason \<Rightarrow> Done (Inr (OutcomeStopped reason (b_usage (r_budget r)) cleanup)) r
              | error \<Rightarrow>
                  Done (Inl \<lparr>xe_error = cleanup_error error cleanup, xe_frames = stack_frames cx (tf_stack failure)\<rparr>) r))
      | _ \<Rightarrow>
          if waits_for_effect (r_machine r)
          then (case vm_bind (read_interruption (cx_environment cx)) (\<lambda>(cancelled, now).
                  on_budget (check_interruption cancelled now)) r of
                 (Inl error, r) \<Rightarrow> abort cx error r
               | (Inr _, r) \<Rightarrow> Next r)
          else abort cx (Invariant ''scheduler has no ready task'') r)"

definition note_cleanup :: "string option \<Rightarrow> task_machine \<Rightarrow> task_machine" where
  "note_cleanup cleanup m = m\<lparr>tm_terminal_cleanup_failure := or_else (tm_terminal_cleanup_failure m) cleanup\<rparr>"

fun is_terminal_error :: "vm_error \<Rightarrow> bool" where
  "is_terminal_error (Timeout _) = True"
| "is_terminal_error VmCancelled = True"
| "is_terminal_error (Stopped _) = True"
| "is_terminal_error (ProgramFailed _) = True"
| "is_terminal_error _ = False"

fun is_stopped :: "vm_error \<Rightarrow> bool" where
  "is_stopped (Stopped _) = True"
| "is_stopped _ = False"

definition terminal_event :: "vm_error \<Rightarrow> task_event_kind" where
  "terminal_event error =
     (if is_stopped error then EventStopped else if error = VmCancelled then EventCancelled else EventFailed)"

text \<open>The failure of an instruction: the topmost frame is reported at the instruction that was running.\<close>

definition step_failure :: "machine_task \<Rightarrow> u32 option \<Rightarrow> vm_error \<Rightarrow> task_failure" where
  "step_failure task checkpoint error =
     (let failure = machine_failure task error
      in case (tf_stack failure, checkpoint) of
           (f # fs, Some ins) \<Rightarrow> failure\<lparr>tf_stack := f\<lparr>af_instruction := ins\<rparr> # fs\<rparr>
         | _ \<Rightarrow> failure)"

definition fail_program :: "'w machine_context \<Rightarrow> task_failure \<Rightarrow> 'w run \<Rightarrow> 'w turn" where
  "fail_program cx failure r =
     (case cancel_tasks (cancel_providers (cx_environment cx) r) of (cleanup, r) \<Rightarrow>
        let r = on_machine (note_cleanup cleanup) r;
            failure = (if cleanup \<noteq> None \<and> \<not> is_stopped (tf_error failure)
                       then failure\<lparr>tf_error := ResourceLimit RESOURCE_CLEANUP_INSTRUCTIONS\<rparr> else failure)
        in case find_task r 0 of
             None \<Rightarrow> Panic
           | Some root \<Rightarrow>
               Next (on_machine (\<lambda>m. emit_event 0 0 (terminal_event (tf_error failure))
                 (set_task 0 (root\<lparr>mt_state := TaskCompleted (Inl failure)\<rparr>) m)) r))"

definition fail_scheduled :: "u64 \<Rightarrow> u64 \<Rightarrow> task_failure \<Rightarrow> 'w run \<Rightarrow> 'w turn" where
  "fail_scheduled i owner failure r =
     (case (if i = 0 then Some (None, r_machine r) else cancel_descendants i (r_machine r)) of
        None \<Rightarrow> Panic
      | Some (cleanup, m) \<Rightarrow>
          (case bt_get (tm_tasks m) i of
             None \<Rightarrow> Panic
           | Some task \<Rightarrow>
               Next (r\<lparr>r_machine := emit_event i owner EventFailed
                 (set_task i (task\<lparr>mt_state := TaskCompleted (Inl (cleanup_failure failure cleanup))\<rparr>) m)\<rparr>)))"

definition run_task :: "'w machine_context \<Rightarrow> u64 \<Rightarrow> 'w run \<Rightarrow> 'w turn" where
  "run_task cx i r =
     (let r = on_machine (\<lambda>m. m\<lparr>tm_rotation_cursor := Some i\<rparr>) r;
          checkpoint = Option.bind (find_task r i) (\<lambda>task.
            if mt_frames task = [] then None else Some (u32_saturated (mf_program_counter (last (mt_frames task)))))
      in case machine_step cx i r of
           (Inr _, r) \<Rightarrow> Next r
         | (Inl error, r) \<Rightarrow>
             (case find_task r i of
                None \<Rightarrow> Panic
              | Some task \<Rightarrow>
                  let failure = step_failure task checkpoint error
                  in if is_terminal_error error then fail_program cx failure r
                     else fail_scheduled i (mt_owner task) failure r))"

definition root_failed :: "task_machine \<Rightarrow> bool" where
  "root_failed m =
     (case map_option mt_state (bt_get (tm_tasks m) 0) of Some (TaskCompleted (Inl _)) \<Rightarrow> True | _ \<Rightarrow> False)"

definition machine_turn :: "'w machine_context \<Rightarrow> 'w run \<Rightarrow> 'w turn" where
  "machine_turn cx r =
     (case wake_waiters (cx_environment cx) (cx_module cx) r of
        None \<Rightarrow> Panic
      | Some r \<Rightarrow>
          let r = (if root_failed (r_machine r)
                   then (case cancel_tasks (cancel_providers (cx_environment cx) r) of (cleanup, r) \<Rightarrow>
                           on_machine (note_cleanup cleanup) r)
                   else r)
          in case next_ready (r_machine r) of
               None \<Rightarrow> no_ready_task cx r
             | Some i \<Rightarrow> run_task cx i r)"

fun machine_turns :: "nat \<Rightarrow> 'w machine_context \<Rightarrow> 'w run \<Rightarrow> 'w turn" where
  "machine_turns 0 cx r = Next r"
| "machine_turns (Suc n) cx r =
     (case machine_turn cx r of Next r \<Rightarrow> machine_turns n cx r | other \<Rightarrow> other)"

definition start_machine :: "'w machine_context \<Rightarrow> u32 \<Rightarrow> vm_value list \<Rightarrow> budget \<Rightarrow> 'w \<Rightarrow> execution_error + 'w run" where
  "start_machine cx entry arguments b w =
     (case new_machine_frame (cx_module cx) entry arguments [] None 1 b of
        (Inl error, _) \<Rightarrow> Inl \<lparr>xe_error = error, xe_frames = []\<rparr>
      | (Inr root, b) \<Rightarrow>
          Inr \<lparr>r_machine = emit_event 0 0 EventSpawned (set_task 0
                 \<lparr>mt_owner = 0, mt_scope = None, mt_entry_function = entry, mt_frames = [root], mt_state = TaskReady\<rparr>
                 (machine_new (el_cleanup_instructions (b_limits b)))),
               r_budget = b, r_heap = [], r_world = w\<rparr>)"

end
