(* ===== verification/Vm_Spending.thy ===== *)
theory Vm_Spending
  imports Vm_Execute
begin

text \<open>
  What the machine does to its budget: every operation other than an instruction's own charge spends
  through the operations of the budget alone, and leaves the count of instructions as it is.
\<close>

named_theorems spends \<open>operations that spend\<close>

inductive quiet_step :: "budget \<Rightarrow> budget \<Rightarrow> bool" where
  quiet_enter_frame: "quiet_step b (snd (enter_frame depth b))"
| quiet_check_interruption: "quiet_step b (snd (check_interruption cancelled now b))"
| quiet_charge_allocation: "quiet_step b (snd (charge_allocation bytes b))"
| quiet_start_effect: "quiet_step b (snd (start_effect b))"
| quiet_complete_effect: "quiet_step b (snd (complete_effect b))"
| quiet_charge_decode_input: "quiet_step b (snd (charge_decode_input len b))"
| quiet_account_task: "admit_task others b = (Inr live, b) \<Longrightarrow> quiet_step b (account_task live b)"

lemma quiet_is_step: "quiet_step b b' \<Longrightarrow> budget_step b b'"
  by (induction rule: quiet_step.induct) (auto intro: budget_step.intros)

lemma quiet_reaches: "reaches quiet_step b b' \<Longrightarrow> reaches budget_step b b'"
  by (induction rule: reaches.induct) (auto intro: reaches.intros quiet_is_step)

lemma quiet_step_keeps:
  "quiet_step b b' \<Longrightarrow> eu_instructions (b_usage b') = eu_instructions (b_usage b) \<and> b_limits b' = b_limits b"
  by (induction rule: quiet_step.induct)
    (auto simp: budget_ops Let_def split: option.splits sum.splits prod.splits)

lemma quiet_keeps:
  assumes "reaches quiet_step b b'"
  shows "eu_instructions (b_usage b') = eu_instructions (b_usage b)" "b_limits b' = b_limits b"
proof -
  from assms have "eu_instructions (b_usage b') = eu_instructions (b_usage b) \<and> b_limits b' = b_limits b"
    by (induction rule: reaches.induct) (auto dest: quiet_step_keeps)
  then show "eu_instructions (b_usage b') = eu_instructions (b_usage b)" "b_limits b' = b_limits b" by simp_all
qed

definition spending :: "'a vm \<Rightarrow> bool" where
  "spending c \<longleftrightarrow> (\<forall>b. reaches quiet_step b (snd (c b)))"

lemma spending_step: "(\<And>b. quiet_step b (snd (c b))) \<Longrightarrow> spending c"
  by (auto simp: spending_def intro: reaches.intros)

lemma spending_basic [spends]:
  "spending (vm_return x)" "spending (vm_fail e)" "spending (vm_lift res)"
  "spending (charge_allocation n)" "spending (enter_frame d)" "spending start_effect" "spending complete_effect"
  "spending (charge_decode_input len)" "spending (check_interruption cancelled now)"
  by (auto simp: spending_def vm_return_def vm_fail_def vm_lift_def intro: reaches.intros quiet_step.intros)

lemma spending_bind [spends]: "spending m \<Longrightarrow> (\<And>x. spending (f x)) \<Longrightarrow> spending (vm_bind m f)"
  by (auto simp: spending_def vm_bind_def split: prod.splits sum.splits) (metis reaches_trans snd_conv)+

lemma spending_if [spends]: "(c \<Longrightarrow> spending m) \<Longrightarrow> (\<not> c \<Longrightarrow> spending n) \<Longrightarrow> spending (if c then m else n)"
  by simp

lemma spending_option [spends]:
  "spending m \<Longrightarrow> (\<And>x. spending (f x)) \<Longrightarrow> spending (case y of None \<Rightarrow> m | Some x \<Rightarrow> f x)"
  by (cases y) auto

lemma spending_sum [spends]:
  "(\<And>x. spending (f x)) \<Longrightarrow> (\<And>x. spending (g x)) \<Longrightarrow> spending (case y of Inl x \<Rightarrow> f x | Inr x \<Rightarrow> g x)"
  by (cases y) auto

lemma spending_prod [spends]: "(\<And>x y. spending (f x y)) \<Longrightarrow> spending (case p of (x, y) \<Rightarrow> f x y)"
  by (cases p) auto

lemma spending_list [spends]:
  "spending m \<Longrightarrow> (\<And>x xs. spending (f x xs)) \<Longrightarrow> spending (case ys of [] \<Rightarrow> m | x # xs \<Rightarrow> f x xs)"
  by (cases ys) auto

lemma spending_let [spends]: "(\<And>x. spending (f x)) \<Longrightarrow> spending (let x = y in f x)"
  by simp

lemma spending_charge_size [spends]: "spending (charge_size sz)"
  unfolding charge_size_def by (intro spends)

lemma spending_allocate [spends]:
  "spending (allocate_string s)" "spending (allocated_some_string s)" "spending (standard_result_ok v)"
  "spending (standard_result_error c m)"
  unfolding allocate_string_def allocated_some_string_def standard_result_ok_def standard_result_error_def
  by (intro spends)+

lemma spending_constant [spends]: "spending (materialize_constant k)"
  by (cases k) (auto intro!: spends)

lemma spending_with [spends]:
  "(\<And>x. spending (f x)) \<Longrightarrow> spending (with_string rs r f)" "(\<And>x. spending (g x)) \<Longrightarrow> spending (with_int rs r g)"
  unfolding with_string_def with_int_def by (intro spends; simp)+

lemma spending_parse_errors [spends]:
  "spending f \<Longrightarrow> spending g \<Longrightarrow> spending (case_int_parse_error f g x)"
  "spending f \<Longrightarrow> spending g \<Longrightarrow> spending (case_utc_parse_error f g y)"
  by (cases x; simp) (cases y; simp)

lemma spending_strings [spends]: "spending (string_call rs operation arguments)"
  unfolding string_call_def string_get_def string_slice_def string_find_def string_split_def string_join_def
    string_replace_def concatenate_string_registers_def
  by (cases operation; simp only: string_operation.case; intro spends)

text \<open>A case distinction on values.\<close>

lemma spending_value [spends]:
  "\<lbrakk>\<And>x. spending (f1 x); \<And>x. spending (f2 x); \<And>x. spending (f3 x); \<And>x. spending (f4 x); \<And>x. spending (f5 x);
    \<And>x y z. spending (f6 x y z); \<And>x. spending (f7 x); spending f8; \<And>x. spending (f9 x); \<And>x. spending (f10 x);
    \<And>x. spending (f11 x); \<And>x. spending (f12 x); \<And>x y z u w. spending (f13 x y z u w); \<And>x y. spending (f14 x y);
    \<And>x y. spending (f15 x y); \<And>x. spending (f16 x); \<And>x. spending (f17 x); \<And>x y z. spending (f18 x y z);
    \<And>x y z. spending (f19 x y z); \<And>x. spending (f20 x); \<And>x. spending (f21 x)\<rbrakk> \<Longrightarrow>
   spending (case_vm_value f1 f2 f3 f4 f5 f6 f7 f8 f9 f10 f11 f12 f13 f14 f15 f16 f17 f18 f19 f20 f21 v)"
  by (cases v) simp_all

lemma spending_type [spends]:
  "\<lbrakk>spending f1; spending f2; spending f3; spending f4; spending f5; spending f6; spending f7; spending f8;
    \<And>x. spending (f9 x); \<And>x y. spending (f10 x y); \<And>x. spending (f11 x); \<And>x. spending (f12 x); \<And>x. spending (f13 x);
    \<And>x y. spending (f14 x y); \<And>x. spending (f15 x); \<And>x y. spending (f16 x y); \<And>x. spending (f17 x); \<And>x. spending (f18 x);
    \<And>x. spending (f19 x); spending f20; spending f21; spending f22; \<And>x y z. spending (f23 x y z); spending f24\<rbrakk> \<Longrightarrow>
   spending (case_value_type f1 f2 f3 f4 f5 f6 f7 f8 f9 f10 f11 f12 f13 f14 f15 f16 f17 f18 f19 f20 f21 f22 f23 f24 t)"
  by (cases t) simp_all

lemma spending_collections [spends]:
  "spending (slice_get v x y)" "spending (map_entry_at rs m i)" "spending (list_append rs vs w)" "spending (list_set rs vs i w)"
  unfolding slice_get_def map_entry_at_def list_append_def list_set_def by (intro spends)+

lemma spending_safe_collections [spends]: "spending (safe_collection_call rs operation arguments)"
  unfolding safe_collection_call_def safe_map_insert_def safe_map_remove_def list_try_set_def found_value_def
  by (cases operation; simp only: safe_collection_operation.case; intro spends)

lemma spending_collection_call [spends]: "spending (collection_call add rs operation arguments)"
  unfolding collection_call_def collection_zip_def collection_extremum_def
  by (cases operation; simp only: collection_operation.case; intro spends)

lemma spending_ints [spends]: "spending (checked_int_call rs operation arguments)"
  unfolding checked_int_call_def by (cases operation; simp only: checked_int_operation.case; intro spends)

lemma spending_standard [spends]: "spending (standard_call fl rs operation arguments)"
  unfolding standard_call_def standard_to_int_def standard_float_format_def standard_time_format_utc_def
    standard_time_parse_utc_def standard_time_bucket_def
  by (cases operation; simp only: standard_operation.case; intro spends)

lemma spending_templates [spends]: "spending (render_template fl t rs arguments)"
  unfolding render_template_def by (intro spends)

lemma spending_capabilities [spends]: "spending (capability_inspect rs operation arguments caps)"
  unfolding capability_inspect_def by (cases operation; simp only: capability_operation.case; intro spends)

lemma spending_convert [spends]: "spending (convert fl v conv)"
  unfolding convert_def by (cases conv; simp only: conversion.case; intro spends)

lemma spending_external [spends]: "spending (charge_external_value v d)"
  "spending (charge_parts v d)" "spending (charge_values vs d)" "spending (charge_entries es d)" "spending (charge_fields fs d)"
  by (induction v d and v d and vs d and es d and fs d
      rule: charge_external_value_charge_parts_charge_values_charge_entries_charge_fields.induct)
    (auto intro!: spends)

lemma spending_giving [spends]: "spending (giving d mk res)" "spending c \<Longrightarrow> spending (giving_vm d c)"
  unfolding giving_def giving_vm_def by (intro spends; simp)+

lemma spending_scalar [spends]: "spending (scalar_value cx rs ins)"
  unfolding scalar_value_def by (cases ins; simp only: scalar_instruction.case; intro spends)

lemma spending_aggregate [spends]: "spending (aggregate_value cx function rs ins)"
  unfolding aggregate_value_def Let_def by (cases ins; simp only: aggregate_instruction.case; intro spends)

lemma spending_decode [spends]: "spending (decode_value cx input target)"
  unfolding decode_value_def by (intro spends)

lemma spending_library [spends]: "spending (library_value cx function rs ins)"
  unfolding library_value_def by (cases ins; simp only: library_instruction.case; intro spends)

lemma spending_frames [spends]: "spending (new_machine_frame md f arguments captures continuation depth)"
  unfolding new_machine_frame_def by (intro spends)

lemma spending_snapshot [spends]: "spending (task_snapshot env md i handle m)"
  unfolding task_snapshot_def by (intro spends)

lemma spending_accept [spends]: "spending (accept_external ets t family v)"
  unfolding accept_external_def by (intro spends)

lemma spending_finish [spends]: "spending (finish_list_combinator p)" "spending (finish_sequence q)"
  unfolding finish_list_combinator_def finish_sequence_def
  by (intro spends) (cases "ps_terminal q"; simp only: sequence_terminal.case; intro spends)

lemma sequence_loop_spends: "sequence_loop p b h = (res, p', b', h') \<Longrightarrow> reaches quiet_step b b'"
proof (induction p b h rule: sequence_loop.induct)
  case (1 p b h)
  have charge: "charge_allocation VALUE_SLOT_BYTES b = (x, b1) \<Longrightarrow> reaches quiet_step b b1" for x b1
    using spending_basic(4) [of VALUE_SLOT_BYTES] by (metis snd_conv spending_def)
  from "1.prems" show ?case
    by (subst (asm) sequence_loop.simps)
      (auto split: option.splits prod.splits sum.splits if_splits sequence_adapter.splits bool.splits
        intro: reaches_refl charge dest: "1.IH" reaches_trans [OF _ charge])
qed

end
