(* ===== verification/Vm_Scheduler.thy ===== *)
theory Vm_Scheduler
  imports Vm_Tasks "HOL-Library.Multiset"
begin

text \<open>
  The scheduler's guarantees: round-robin choice of ready tasks, cancellation of exactly the tasks an
  owner has under it, and the wait of an early return.
\<close>

section \<open>The next task\<close>

definition ready :: "task_machine \<Rightarrow> u64 \<Rightarrow> bool" where
  "ready m i \<longleftrightarrow> map_option mt_state (bt_get (tm_tasks m) i) = Some TaskReady"

text \<open>How far behind the cursor an identifier comes, going up and around.\<close>

definition turn_distance :: "u64 \<Rightarrow> u64 \<Rightarrow> nat" where
  "turn_distance after i =
     (if after < i then unat i - unat after - 1 else 2 ^ 64 + unat i - unat after - 1)"

abbreviation cursor :: "task_machine \<Rightarrow> u64" where
  "cursor m \<equiv> (case tm_rotation_cursor m of None \<Rightarrow> - 1 | Some c \<Rightarrow> c)"

lemma turn_distance_inject: "turn_distance c i = turn_distance c j \<Longrightarrow> i = j"
  using u64_less [of c] u64_less [of i] u64_less [of j]
  by (auto simp: turn_distance_def word_less_nat_alt word_unat_eq_iff split: if_splits)

lemma turn_distance_step:
  assumes "turn_distance c i < turn_distance c j"
  shows "turn_distance i j + turn_distance c i + 1 = turn_distance c j"
  using assms u64_less [of c] u64_less [of i] u64_less [of j]
  by (auto simp: turn_distance_def word_less_nat_alt split: if_splits)

lemma find_first:
  assumes "sorted_wrt R xs" "find P xs = Some x" "y \<in> set xs" "P y"
  shows "y = x \<or> R x y"
  using assms by (induction xs) (auto split: if_splits)

lemma bt_wf_sorted: "bt_wf m \<longleftrightarrow> sorted_wrt (\<lambda>x y. fst x < fst y) m"
  by (induction m rule: bt_wf.induct) auto

lemma turn_order:
  assumes "bt_wf m"
  shows "sorted_wrt (\<lambda>x y. turn_distance c (fst x) < turn_distance c (fst y))
    (filter (\<lambda>(i, t). c < i) m @ filter (\<lambda>(i, t). i \<le> c) m)"
proof -
  have up: "turn_distance c i < turn_distance c j" if "i < j" "c < i \<or> j \<le> c" for i j
    using that u64_less [of c] u64_less [of i] u64_less [of j]
    by (auto simp: turn_distance_def word_less_nat_alt word_le_nat_alt)
  have around: "turn_distance c i < turn_distance c j" if "c < i" "j \<le> c" for i j
    using that u64_less [of c] u64_less [of i] u64_less [of j]
    by (auto simp: turn_distance_def word_less_nat_alt word_le_nat_alt)
  have "sorted_wrt (\<lambda>x y. fst x < fst y) (filter (\<lambda>(i, t). c < i) m)"
    "sorted_wrt (\<lambda>x y. fst x < fst y) (filter (\<lambda>(i, t). i \<le> c) m)"
    using assms by (simp_all add: bt_wf_sorted sorted_wrt_filter)
  then show ?thesis
    by (auto simp: sorted_wrt_append around intro: up elim!: sorted_wrt_mono_rel [rotated])
qed

lemma bt_get_member: "bt_wf m \<Longrightarrow> bt_get m i = Some t \<longleftrightarrow> (i, t) \<in> set m"
  by (simp add: bt_get_def bt_wf_distinct)

lemma ready_member:
  "bt_wf (tm_tasks m) \<Longrightarrow> ready m i \<longleftrightarrow> (\<exists>t. (i, t) \<in> set (tm_tasks m) \<and> mt_state t = TaskReady)"
  by (auto simp: ready_def bt_get_member)

lemma next_ready_least:
  assumes "bt_wf (tm_tasks m)" "next_ready m = Some j"
  shows "ready m j" "\<And>k. ready m k \<Longrightarrow> k = j \<or> turn_distance (cursor m) j < turn_distance (cursor m) k"
proof -
  let ?c = "cursor m" and ?P = "\<lambda>(i, task). mt_state task = TaskReady"
  let ?xs = "filter (\<lambda>(i, t). ?c < i) (tm_tasks m) @ filter (\<lambda>(i, t). i \<le> ?c) (tm_tasks m)"
  from assms(2) obtain t where found: "find ?P ?xs = Some (j, t)"
    by (auto simp: next_ready_def Let_def)
  have "find P xs = Some x \<Longrightarrow> x \<in> set xs \<and> P x" for P xs and x :: "u64 \<times> machine_task"
    by (induction xs) (auto split: if_splits)
  from this [OF found] show "ready m j" using assms(1) by (auto simp: ready_member)
  fix k
  assume "ready m k"
  then obtain t' where "(k, t') \<in> set ?xs" "?P (k, t')"
    using assms(1) le_less_linear [of k ?c] by (auto simp: ready_member)
  from find_first [OF turn_order [OF assms(1)] found this]
  show "k = j \<or> turn_distance ?c j < turn_distance ?c k" by auto
qed

lemma next_ready_None: "bt_wf (tm_tasks m) \<Longrightarrow> next_ready m = None \<longleftrightarrow> (\<nexists>i. ready m i)"
  by (fastforce simp: next_ready_def Let_def find_None_iff ready_member not_le)

text \<open>A series of turns: the task chosen in one turn is the cursor of the next. That the machine's own
  turns are such a series is shown with the turns of an execution.\<close>

definition turns :: "(nat \<Rightarrow> task_machine) \<Rightarrow> nat \<Rightarrow> bool" where
  "turns ms n \<longleftrightarrow> (\<forall>k<n. bt_wf (tm_tasks (ms k))) \<and>
     (\<forall>k. Suc k < n \<longrightarrow> tm_rotation_cursor (ms (Suc k)) = next_ready (ms k))"

lemma passed_over:
  assumes "turns ms n" "\<forall>k<n. ready (ms k) i \<and> next_ready (ms k) \<noteq> Some i" "k < n"
  shows "\<exists>j. next_ready (ms k) = Some j \<and> ready (ms k) j \<and>
    turn_distance (cursor (ms k)) j < turn_distance (cursor (ms k)) i"
proof -
  have wf: "bt_wf (tm_tasks (ms k))" and "ready (ms k) i" "next_ready (ms k) \<noteq> Some i"
    using assms by (auto simp: turns_def)
  then obtain j where j: "next_ready (ms k) = Some j" "j \<noteq> i"
    using next_ready_None [OF wf] by (cases "next_ready (ms k)") auto
  with next_ready_least [OF wf j(1)] \<open>ready (ms k) i\<close> show ?thesis by auto
qed

text \<open>While a ready task is passed over, the chosen tasks move towards it.\<close>

lemma turns_approach:
  assumes "turns ms n" "\<forall>k<n. ready (ms k) i \<and> next_ready (ms k) \<noteq> Some i"
  shows "k < n \<Longrightarrow> l < k \<Longrightarrow> turn_distance (the (next_ready (ms k))) i < turn_distance (the (next_ready (ms l))) i"
proof (induction k)
  case (Suc k)
  from passed_over [OF assms Suc.prems(1)] obtain j where j: "next_ready (ms (Suc k)) = Some j"
    "turn_distance (cursor (ms (Suc k))) j < turn_distance (cursor (ms (Suc k))) i" by blast
  have "k < n" using Suc.prems(1) by simp
  from passed_over [OF assms this] obtain c where c: "next_ready (ms k) = Some c" by blast
  then have "cursor (ms (Suc k)) = c" using assms(1) Suc.prems(1) by (simp add: turns_def)
  with j have "turn_distance j i < turn_distance c i" using turn_distance_step by fastforce
  with Suc c j show ?case by (cases "l = k") (auto intro: less_trans)
qed simp

text \<open>So a task that stays ready is chosen within the first \<open>N + 1\<close> turns when no ready task has an
  identifier above \<open>N\<close>.\<close>

lemma turns_reach:
  assumes "turns ms (Suc N)" "\<forall>k\<le>N. ready (ms k) i" "\<forall>k\<le>N. \<forall>j. ready (ms k) j \<longrightarrow> unat j \<le> N"
  shows "\<exists>k\<le>N. next_ready (ms k) = Some i"
proof (rule ccontr)
  assume "\<not> ?thesis"
  then have never: "\<forall>k<Suc N. ready (ms k) i \<and> next_ready (ms k) \<noteq> Some i"
    using assms(2) by auto
  let ?f = "\<lambda>k. unat (the (next_ready (ms k)))"
  have "?f k \<noteq> ?f l" if "k < Suc N" "l < k" for k l
    using turns_approach [OF assms(1) never that] by (auto simp: word_unat_eq_iff [symmetric])
  then have "inj_on ?f {..N}" by (auto simp: inj_on_def less_Suc_eq_le) (metis nat_neq_iff)
  moreover have "?f ` {..N} \<subseteq> {..N} - {unat i}"
    using passed_over [OF assms(1) never] assms(3) never by (fastforce simp: less_Suc_eq_le word_unat_eq_iff [symmetric])
  moreover have "unat i \<le> N" using assms(2,3) by blast
  ultimately have "card {..N} \<le> card ({..N} - {unat i})" using card_inj_on_le by blast
  with \<open>unat i \<le> N\<close> show False by simp
qed

definition sample_task :: "u64 \<Rightarrow> machine_task_state \<Rightarrow> machine_task" where
  "sample_task owner state =
     \<lparr>mt_owner = owner, mt_scope = None, mt_entry_function = 0, mt_frames = [], mt_state = state\<rparr>"

section \<open>Cancelling a task tree\<close>

definition owns :: "(u64, machine_task) btree_map \<Rightarrow> u64 \<Rightarrow> u64 \<Rightarrow> bool" where
  "owns tasks p i \<longleftrightarrow> map_option mt_owner (bt_get tasks i) = Some p"

abbreviation descends :: "(u64, machine_task) btree_map \<Rightarrow> u64 \<Rightarrow> u64 \<Rightarrow> bool" where
  "descends tasks \<equiv> (owns tasks)\<^sup>+\<^sup>+"

lemma owner_unique: "owns tasks p i \<Longrightarrow> owns tasks q i \<Longrightarrow> p = q"
  by (auto simp: owns_def)

lemma owned_by_set: "bt_wf tasks \<Longrightarrow> set (owned_by tasks p) = {i. owns tasks p i}"
  by (force simp: owned_by_def owns_def bt_get_member image_iff)

text \<open>Every task has one owner, so below a task that is not below itself there is no cycle.\<close>

lemma cycle_through_owner: "descends tasks p p \<Longrightarrow> owns tasks q p \<Longrightarrow> (owns tasks)\<^sup>*\<^sup>* p q"
  by (metis owner_unique rtranclp.rtrancl_refl tranclp.cases tranclp_into_rtranclp)

lemma acyclic_below:
  assumes "\<not> descends tasks o' o'"
  shows "descends tasks o' p \<Longrightarrow> \<not> descends tasks p p"
proof (induction rule: tranclp_induct)
  case (base p)
  then show ?case using assms by (meson cycle_through_owner rtranclp_into_tranclp2)
next
  case (step p c)
  then show ?case by (meson cycle_through_owner rtranclp_into_tranclp2)
qed

definition below :: "(u64, machine_task) btree_map \<Rightarrow> u64 \<Rightarrow> (u64 \<times> u64) set" where
  "below tasks o' = {(c, p). owns tasks p c \<and> (owns tasks)\<^sup>*\<^sup>* o' p}"

lemma wf_below:
  assumes "\<not> descends tasks o' o'"
  shows "wf (below tasks o')"
proof (rule finite_acyclic_wf)
  have "below tasks o' \<subseteq> UNIV" by simp
  then show "finite (below tasks o')" by (rule finite_subset) simp
  have "(c, p) \<in> (below tasks o')\<^sup>+ \<Longrightarrow> descends tasks p c \<and> (owns tasks)\<^sup>*\<^sup>* o' p" for c p
  proof (induction rule: trancl_induct)
    case (step p q)
    then show ?case by (auto simp: below_def intro: tranclp_into_tranclp2)
  qed (auto simp: below_def)
  then show "acyclic (below tasks o')"
    using assms acyclic_below [OF assms] by (metis acyclicI rtranclpD)
qed

lemma collect_descendants_all:
  assumes "bt_wf tasks" "wf (below tasks o')"
  shows "\<forall>p\<in>set frontier. (owns tasks)\<^sup>*\<^sup>* o' p \<Longrightarrow>
    \<exists>out. collect_descendants tasks frontier removed = Some out \<and>
      set out = set removed \<union> {i. \<exists>p\<in>set frontier. descends tasks p i}"
proof (induction "mset frontier" arbitrary: frontier removed rule: wf_induct_rule [OF wf_mult [OF assms(2)]])
  case 1
  show ?case
  proof (cases frontier)
    case Nil
    then show ?thesis by (simp add: collect_descendants.simps)
  next
    case (Cons p rest)
    let ?cs = "owned_by tasks p"
    have cs: "set ?cs = {i. owns tasks p i}" by (rule owned_by_set [OF assms(1)])
    have "(mset (rev ?cs @ rest), mset frontier) \<in> mult (below tasks o')"
      using one_step_implies_mult [of "{#p#}" "mset ?cs" "below tasks o'" "mset rest"] Cons "1.prems" cs
      by (auto simp: below_def add.commute)
    moreover have "\<forall>q\<in>set (rev ?cs @ rest). (owns tasks)\<^sup>*\<^sup>* o' q"
      using "1.prems" Cons cs by (auto intro: rtranclp.rtrancl_into_rtrancl)
    ultimately obtain out where "collect_descendants tasks (rev ?cs @ rest) (removed @ ?cs) = Some out"
      "set out = set (removed @ ?cs) \<union> {i. \<exists>q\<in>set (rev ?cs @ rest). descends tasks q i}"
      using "1.hyps" by blast
    moreover have "{i. owns tasks p i} \<union> {i. \<exists>q. owns tasks p q \<and> descends tasks q i} = {i. descends tasks p i}"
      by (auto intro: tranclp_into_tranclp2 dest: tranclpD simp: rtranclp_into_tranclp2) (metis rtranclpD tranclpD)
    ultimately show ?thesis
      using Cons cs by (subst collect_descendants.simps) (auto simp: Let_def)
  qed
qed

lemma charge_cleanup_keeps:
  "tm_tasks (snd (charge_cleanup n m)) = tm_tasks m" "tm_events (snd (charge_cleanup n m)) = tm_events m"
  by (simp_all add: charge_cleanup_def Let_def)

lemma emit_event_tasks [simp]: "tm_tasks (emit_event i o' k m) = tm_tasks m"
  by (simp add: emit_event_def Let_def)

lemma remove_tasks_get:
  assumes "bt_wf (tm_tasks m)"
  shows "bt_wf (tm_tasks (remove_tasks is m)) \<and>
    bt_get (tm_tasks (remove_tasks is m)) j = (if j \<in> set is then None else bt_get (tm_tasks m) j)"
  using assms
proof (induction "is" m rule: remove_tasks.induct)
  case (2 i "is" m)
  then show ?case by (cases "bt_get (tm_tasks m) i") (auto simp: Let_def bt_get_remove bt_wf_remove)
qed simp

definition live :: "task_machine \<Rightarrow> u64 \<Rightarrow> bool" where
  "live m i \<longleftrightarrow> (case bt_get (tm_tasks m) i of None \<Rightarrow> False | Some t \<Rightarrow> \<not> is_completed (mt_state t))"

lemma remove_tasks_events:
  assumes "bt_wf (tm_tasks m)" "distinct is"
  shows "\<exists>evs. tm_events (remove_tasks is m) = tm_events m @ evs \<and>
    map te_task_id evs = filter (live m) is \<and> (\<forall>e\<in>set evs. te_kind e = EventCancelled)"
  using assms
proof (induction "is" m rule: remove_tasks.induct)
  case (2 i "is" m)
  show ?case
  proof (cases "bt_get (tm_tasks m) i")
    case None
    with 2 show ?thesis by (auto simp: live_def)
  next
    case (Some task)
    let ?m = "m\<lparr>tm_tasks := bt_remove i (tm_tasks m)\<rparr>"
    let ?m' = "if is_completed (mt_state task) then ?m else emit_event i (mt_owner task) EventCancelled ?m"
    have wf: "bt_wf (tm_tasks ?m')" using 2(3) by (simp add: bt_wf_remove)
    have "live ?m' j = live m j" if "j \<in> set is" for j
      using that 2(3,4) by (auto simp: live_def btree_simps)
    then have "filter (live ?m') is = filter (live m) is" by (simp cong: filter_cong)
    with 2(2) [OF Some refl wf] 2(4) obtain evs where
      "tm_events (remove_tasks is ?m') = tm_events ?m' @ evs"
      "map te_task_id evs = filter (live m) is" "\<forall>e\<in>set evs. te_kind e = EventCancelled"
      by auto
    moreover have "live m i = (\<not> is_completed (mt_state task))" using Some by (simp add: live_def)
    moreover let ?e = "\<lparr>te_sequence = saturating_inc (tm_next_event m), te_task_id = i,
      te_owner_id = mt_owner task, te_kind = EventCancelled\<rparr>"
    have "tm_events ?m' = tm_events m @ (if is_completed (mt_state task) then [] else [?e])"
      by (simp add: emit_event_def Let_def)
    ultimately show ?thesis using Some
      by (intro exI [of _ "(if is_completed (mt_state task) then [] else [?e]) @ evs"])
        (cases "is_completed (mt_state task)", simp_all add: Let_def)
  qed
qed simp

text \<open>(C37) Cancelling the descendants of a task ends, whatever the tasks own, unless the task is below
  itself; it removes exactly the tasks below it and keeps all others, and reports each of those that were
  still running as cancelled, once and in ascending order.\<close>

theorem cancel_removes_descendants:
  assumes "bt_wf (tm_tasks m)" "\<not> descends (tm_tasks m) i i"
  shows "\<exists>cleanup m' evs. cancel_descendants i m = Some (cleanup, m') \<and>
    (\<forall>j. bt_get (tm_tasks m') j = (if descends (tm_tasks m) i j then None else bt_get (tm_tasks m) j)) \<and>
    tm_events m' = tm_events m @ evs \<and>
    map te_task_id evs = sorted_list_of_set {j. descends (tm_tasks m) i j \<and> live m j} \<and>
    (\<forall>e\<in>set evs. te_kind e = EventCancelled)"
proof -
  obtain out where out: "collect_descendants (tm_tasks m) [i] [] = Some out"
    "set out = {j. descends (tm_tasks m) i j}"
    using collect_descendants_all [OF assms(1) wf_below [OF assms(2)], of "[i]" "[]"] by auto
  let ?is = "sort (remdups out)"
  from remove_tasks_events [OF assms(1), of ?is] obtain evs where evs:
    "tm_events (remove_tasks ?is m) = tm_events m @ evs" "map te_task_id evs = filter (live m) ?is"
    "\<forall>e\<in>set evs. te_kind e = EventCancelled" by auto
  have "filter (live m) ?is = sorted_list_of_set (set (filter (live m) ?is))"
    by (rule sorted_list_of_set.idem_if_sorted_distinct [symmetric]) (simp_all add: sorted_wrt_filter)
  moreover have "set (filter (live m) ?is) = {j. descends (tm_tasks m) i j \<and> live m j}" using out by auto
  ultimately have "map te_task_id evs = sorted_list_of_set {j. descends (tm_tasks m) i j \<and> live m j}"
    using evs(2) by simp
  moreover obtain cleanup m' where c: "charge_cleanup (of_nat (length ?is)) (remove_tasks ?is m) = (cleanup, m')"
    by (cases "charge_cleanup (of_nat (length ?is)) (remove_tasks ?is m)")
  moreover have "cancel_descendants i m = Some (cleanup, m')"
    using out c by (simp add: cancel_descendants_def Let_def)
  moreover have "tm_tasks m' = tm_tasks (remove_tasks ?is m)" "tm_events m' = tm_events (remove_tasks ?is m)"
    using c charge_cleanup_keeps [of "of_nat (length ?is)" "remove_tasks ?is m"] by simp_all
  ultimately show ?thesis
    using evs remove_tasks_get [OF assms(1), of ?is] out by auto
qed

definition sample_tree :: task_machine where
  "sample_tree =
     (machine_new 100)\<lparr>tm_tasks := [(0, sample_task 0 TaskReady), (1, sample_task 0 TaskReady),
        (2, sample_task 1 TaskReady), (3, sample_task 2 (TaskCompleted (Inr VUnit)))]\<rparr>"

theorem cancel_removes_descendants_witness:
  "\<exists>cleanup m' evs. cancel_descendants 1 sample_tree = Some (cleanup, m') \<and>
    (\<forall>j. bt_get (tm_tasks m') j =
      (if descends (tm_tasks sample_tree) 1 j then None else bt_get (tm_tasks sample_tree) j)) \<and>
    tm_events m' = tm_events sample_tree @ evs \<and>
    map te_task_id evs = sorted_list_of_set {j. descends (tm_tasks sample_tree) 1 j \<and> live sample_tree j} \<and>
    (\<forall>e\<in>set evs. te_kind e = EventCancelled)"
proof (rule cancel_removes_descendants)
  show "bt_wf (tm_tasks sample_tree)" by (simp add: sample_tree_def)
  have "descends (tm_tasks sample_tree) 1 j \<Longrightarrow> j = 2 \<or> j = 3" for j
    by (induction rule: tranclp_induct)
      (auto simp: owns_def sample_tree_def bt_get_def sample_task_def split: if_splits)
  from this [of 1] show "\<not> descends (tm_tasks sample_tree) 1 1" by auto
qed

section \<open>Early return\<close>

lemma bt_insert_same: "bt_wf m \<Longrightarrow> bt_get m k = Some v \<Longrightarrow> bt_insert k v m = m"
proof (induction k v m rule: bt_insert.induct)
  case (2 k v k' v' m)
  then show ?case by (force simp: bt_get_def dest: map_of_SomeD split: if_splits)
qed (simp add: bt_get_def)

lemma wake_return_waits:
  assumes "find_task r i = Some task" "current_scope task = Some outer" "scope_children (r_machine r) i scope = []"
  shows "wake_return i scope v r =
    Some (on_machine (set_task i (task\<lparr>mt_state := TaskWaiting (WaitReturn outer v)\<rparr>)) r)"
  using assms by (simp add: wake_return_def find_task_def on_machine_def)

text \<open>(C38) An early return out of two nested task scopes never happens. The first wait ends when the inner
  scope has no children left, but the wait for the outer scope repeats itself: the scope stays the
  innermost one of the frame, so waking the task leaves the whole run as it is, for ever.\<close>

theorem nested_early_return_hangs:
  assumes "bt_wf (tm_tasks (r_machine r))" "find_task r i = Some task"
    and "mt_state task = TaskWaiting (WaitReturn inner v)" "current_scope task = Some outer"
    and "scope_children (r_machine r) i inner = []" "scope_children (r_machine r) i outer = []"
  shows "\<exists>r'. wake_one env md i r = Some r' \<and> wake_one env md i r' = Some r' \<and>
    find_task r' i = Some (task\<lparr>mt_state := TaskWaiting (WaitReturn outer v)\<rparr>)"
proof -
  let ?t = "task\<lparr>mt_state := TaskWaiting (WaitReturn outer v)\<rparr>"
  let ?r = "on_machine (set_task i ?t) r"
  have get: "find_task ?r i = Some ?t"
    by (simp add: find_task_def on_machine_def set_task_def bt_get_insert)
  have scope: "current_scope ?t = Some outer" using assms(4) by (simp add: current_scope_def split: if_splits)
  have none: "bt_get (tm_tasks (r_machine r)) j = Some u \<Longrightarrow> \<not> (mt_owner u = i \<and> mt_scope u = Some outer)" for j u
    using assms(1,6) by (force simp: scope_children_def filter_empty_conv bt_get_member)
  have "filter (\<lambda>(j, u). mt_owner u = i \<and> mt_scope u = Some outer) (bt_insert i ?t (tm_tasks (r_machine r))) = []"
    using assms(1,2) none
    by (auto simp: filter_empty_conv find_task_def bt_get_member [symmetric] bt_wf_insert bt_get_insert
        split: if_splits)
  then have "scope_children (r_machine ?r) i outer = []"
    by (simp add: scope_children_def on_machine_def set_task_def)
  from wake_return_waits [OF get scope this]
  have "wake_return i outer v ?r = Some (on_machine (set_task i ?t) ?r)" by simp
  also have "on_machine (set_task i ?t) ?r = ?r"
    using get assms(1) by (simp add: on_machine_def set_task_def find_task_def bt_insert_same bt_wf_insert)
  finally have "wake_one env md i ?r = Some ?r" using get by (simp add: wake_one_def)
  moreover have "wake_one env md i r = Some ?r"
    using wake_return_waits [OF assms(2,4,5)] assms(2,3) by (simp add: wake_one_def)
  ultimately show ?thesis using get by blast
qed

definition sample_frame :: machine_frame where
  "sample_frame =
     \<lparr>mf_function = 0, mf_registers = [], mf_program_counter = 3, mf_activation = 1, mf_active_scopes = [1],
      mf_continuation = None, mf_fold = None, mf_combinator = None, mf_sequence = None\<rparr>"

definition sample_scope :: "u32 \<Rightarrow> scope_key" where
  "sample_scope lexical = \<lparr>sk_activation = 1, sk_lexical = lexical\<rparr>"

definition sample_return :: machine_task where
  "sample_return =
     (sample_task 0 (TaskWaiting (WaitReturn (sample_scope 2) VUnit)))\<lparr>mt_frames := [sample_frame]\<rparr>"

definition sample_run :: "unit run" where
  "sample_run =
     \<lparr>r_machine = (machine_new 100)\<lparr>tm_tasks := [(0, sample_return)]\<rparr>, r_budget = budget_new default_limits 0,
      r_heap = [], r_world = ()\<rparr>"

theorem nested_early_return_hangs_witness:
  "\<forall>env md. \<exists>r'. wake_one env md 0 sample_run = Some r' \<and> wake_one env md 0 r' = Some r' \<and>
    find_task r' 0 = Some (sample_return\<lparr>mt_state := TaskWaiting (WaitReturn (sample_scope 1) VUnit)\<rparr>)"
  by (intro allI, rule nested_early_return_hangs [where inner = "sample_scope 2"])
    (simp_all add: sample_run_def find_task_def sample_return_def sample_task_def sample_frame_def sample_scope_def
      current_scope_def innermost_scope_def scope_children_def bt_get_def)

end
