(* ===== verification/Vm_Progress.thy ===== *)
theory Vm_Progress
  imports Vm_Spending Vm_Scheduler
begin

text \<open>
  Progress of an execution: every instruction is charged, a failed task is done with, and nothing else
  makes unfinished tasks, so that a limit on instructions bounds the turns that run a task; and the budget
  of a running machine stays within its limits.
\<close>

named_theorems calmly \<open>operations of a running task\<close>

section \<open>Unfinished tasks\<close>

definition unfinished :: "task_machine \<Rightarrow> nat" where
  "unfinished m = length (filter (\<lambda>(i, t). \<not> is_completed (mt_state t)) (tm_tasks m))"

lemma unfinished_insert:
  "bt_wf ts \<Longrightarrow> length (filter (\<lambda>(i, t). P t) (bt_insert i t ts)) +
     (case bt_get ts i of Some u \<Rightarrow> if P u then 1 else 0 | None \<Rightarrow> 0) =
   length (filter (\<lambda>(i, t). P t) ts) + (if P t then 1 else 0)"
proof (induction i t ts rule: bt_insert.induct)
  case (2 k v k' v' m)
  have "k < k' \<Longrightarrow> map_of m k = None" using "2.prems" by (force simp: map_of_eq_None_iff)
  with 2 show ?case by (auto simp: bt_get_def)
qed (simp add: bt_get_def)

lemma unfinished_set_task:
  assumes "bt_wf (tm_tasks m)"
  shows "unfinished (set_task i t m) + (case bt_get (tm_tasks m) i of Some u \<Rightarrow> if is_completed (mt_state u) then 0 else 1 | None \<Rightarrow> 0)
    = unfinished m + (if is_completed (mt_state t) then 0 else 1)"
  using unfinished_insert [OF assms, of "\<lambda>t. \<not> is_completed (mt_state t)" i t]
  by (simp add: unfinished_def set_task_def cong: if_cong split: option.splits) (auto split: option.splits if_splits)

lemma length_filter_remove: "length (filter P (bt_remove i ts)) \<le> length (filter P ts)"
  by (induction i ts rule: bt_remove.induct) auto

lemma unfinished_machine [simp]:
  "unfinished (emit_event i o' k m) = unfinished m" "unfinished (m\<lparr>tm_next_effect := e\<rparr>) = unfinished m"
  "unfinished (m\<lparr>tm_next_task := e\<rparr>) = unfinished m" "unfinished (m\<lparr>tm_rotation_cursor := c\<rparr>) = unfinished m"
  "unfinished (m\<lparr>tm_terminal_cleanup_failure := f\<rparr>) = unfinished m" "unfinished (m\<lparr>tm_providers_cancelled := x\<rparr>) = unfinished m"
  by (simp_all add: unfinished_def emit_event_def Let_def)

lemma cursor_machine [simp]:
  "tm_rotation_cursor (emit_event i o' k m) = tm_rotation_cursor m"
  "tm_rotation_cursor (set_task i t m) = tm_rotation_cursor m"
  "tm_rotation_cursor (drop_task i m) = tm_rotation_cursor m"
  "tm_rotation_cursor (note_cleanup c m) = tm_rotation_cursor m"
  by (simp_all add: emit_event_def set_task_def drop_task_def note_cleanup_def Let_def)

section \<open>Operations of the running task\<close>

definition running :: "u64 \<Rightarrow> 'w run \<Rightarrow> bool" where
  "running i r \<longleftrightarrow>
     bt_wf (tm_tasks (r_machine r)) \<and> (\<exists>t. find_task r i = Some t \<and> \<not> is_completed (mt_state t))"

definition calm :: "nat \<Rightarrow> 'w run \<Rightarrow> 'w run \<Rightarrow> bool" where
  "calm n r r' \<longleftrightarrow>
     reaches quiet_step (r_budget r) (r_budget r') \<and> bt_wf (tm_tasks (r_machine r')) \<and>
     unfinished (r_machine r') \<le> unfinished (r_machine r) + n \<and>
     tm_rotation_cursor (r_machine r') = tm_rotation_cursor (r_machine r)"

text \<open>The task goes on running, or the operation was its last for the instruction. At most \<open>n\<close> tasks are made.\<close>

definition keeps_running :: "u64 \<Rightarrow> ('w run, 'a) stateful \<Rightarrow> bool" where
  "keeps_running i c \<longleftrightarrow> (\<forall>r. running i r \<longrightarrow> calm 0 r (snd (c r)) \<and> running i (snd (c r)))"

definition ends_calmly :: "u64 \<Rightarrow> nat \<Rightarrow> ('w run, 'a) stateful \<Rightarrow> bool" where
  "ends_calmly i n c \<longleftrightarrow> (\<forall>r. running i r \<longrightarrow> calm n r (snd (c r)))"

lemma ends_calmlyD: "ends_calmly i n c \<Longrightarrow> running i r \<Longrightarrow> calm n r (snd (c r))"
  by (simp add: ends_calmly_def)

lemma calm_trans: "calm m r s \<Longrightarrow> calm n s t \<Longrightarrow> calm (m + n) r t"
  by (auto simp: calm_def intro: reaches_trans)

lemma calm_mono: "calm m r s \<Longrightarrow> m \<le> n \<Longrightarrow> calm n r s"
  by (auto simp: calm_def)

lemma calm_0: "calm 0 r s \<Longrightarrow> calm n r s" "calm 0 r s \<Longrightarrow> calm n s t \<Longrightarrow> calm n r t"
  using calm_trans [of 0 r s n t] by (simp_all add: calm_mono [of 0])

lemma keeps_bind [calmly]:
  "keeps_running i c \<Longrightarrow> (\<And>x. keeps_running i (f x)) \<Longrightarrow> keeps_running i (vm_bind c f)"
  unfolding keeps_running_def vm_bind_def
  by (auto split: prod.splits sum.splits) (metis add_0 calm_trans snd_conv)+

lemma ends_bind [calmly]:
  "keeps_running i c \<Longrightarrow> (\<And>x. ends_calmly i n (f x)) \<Longrightarrow> ends_calmly i n (vm_bind c f)"
  unfolding keeps_running_def ends_calmly_def vm_bind_def
  by (auto split: prod.splits sum.splits) (metis calm_0 snd_conv)+

lemma ends_weaken: "ends_calmly i 0 c \<Longrightarrow> ends_calmly i n c"
  by (auto simp: ends_calmly_def calm_def)

lemma calm_refl: "running i r \<Longrightarrow> calm n r r"
  by (simp add: calm_def running_def reaches_refl)

lemma keeps_basic [calmly]:
  "keeps_running i (vm_return x)" "keeps_running i (vm_fail e)" "keeps_running i (vm_lift res)"
  by (simp_all add: keeps_running_def vm_return_def vm_fail_def vm_lift_def calm_refl)

lemma ends_basic [calmly]: "ends_calmly i n (vm_return x)" "ends_calmly i n (vm_fail e)" "ends_calmly i n (vm_lift res)"
  by (simp_all add: ends_calmly_def vm_return_def vm_fail_def vm_lift_def calm_refl)

lemma keeps_budget [calmly]: "spending c \<Longrightarrow> keeps_running i (on_budget c)"
  by (auto simp: keeps_running_def on_budget_def spending_def calm_def running_def find_task_def split: prod.splits)
    (metis snd_conv)

lemma keeps_world [calmly]: "keeps_running i (on_world f)" "keeps_running i (on_heap g)"
  by (auto simp: keeps_running_def on_world_def on_heap_def calm_def running_def find_task_def reaches_refl
      split: prod.splits sum.splits)

lemma keeps_effect [calmly]: "keeps_running i next_pending_effect"
  by (auto simp: keeps_running_def next_pending_effect_def calm_def running_def find_task_def on_machine_def reaches_refl
      split: option.splits)

lemma ends_cases [calmly]:
  "(c \<Longrightarrow> ends_calmly i n x) \<Longrightarrow> (\<not> c \<Longrightarrow> ends_calmly i n y) \<Longrightarrow> ends_calmly i n (if c then x else y)"
  "ends_calmly i n x \<Longrightarrow> (\<And>a. ends_calmly i n (f a)) \<Longrightarrow> ends_calmly i n (case z of None \<Rightarrow> x | Some a \<Rightarrow> f a)"
  "ends_calmly i n x \<Longrightarrow> (\<And>a as. ends_calmly i n (g a as)) \<Longrightarrow> ends_calmly i n (case zs of [] \<Rightarrow> x | a # as \<Rightarrow> g a as)"
  "(\<And>a b. ends_calmly i n (h a b)) \<Longrightarrow> ends_calmly i n (case p of (a, b) \<Rightarrow> h a b)"
  "(\<And>a. ends_calmly i n (k1 a)) \<Longrightarrow> (\<And>b. ends_calmly i n (k2 b)) \<Longrightarrow> ends_calmly i n (case u of Inl a \<Rightarrow> k1 a | Inr b \<Rightarrow> k2 b)"
  by (cases z; cases zs; cases p; cases u; simp)+

lemma keeps_cases [calmly]:
  "(c \<Longrightarrow> keeps_running i x) \<Longrightarrow> (\<not> c \<Longrightarrow> keeps_running i y) \<Longrightarrow> keeps_running i (if c then x else y)"
  "(\<And>a b. keeps_running i (h a b)) \<Longrightarrow> keeps_running i (case p of (a, b) \<Rightarrow> h a b)"
  "(\<And>a. keeps_running i (k1 a)) \<Longrightarrow> (\<And>b. keeps_running i (k2 b)) \<Longrightarrow> keeps_running i (case u of Inl a \<Rightarrow> k1 a | Inr b \<Rightarrow> k2 b)"
  by (cases p; cases u; simp)+

lemma ends_value [calmly]:
  "\<lbrakk>\<And>x. ends_calmly i n (f1 x); \<And>x. ends_calmly i n (f2 x); \<And>x. ends_calmly i n (f3 x); \<And>x. ends_calmly i n (f4 x);
    \<And>x. ends_calmly i n (f5 x); \<And>x y z. ends_calmly i n (f6 x y z); \<And>x. ends_calmly i n (f7 x); ends_calmly i n f8;
    \<And>x. ends_calmly i n (f9 x); \<And>x. ends_calmly i n (f10 x); \<And>x. ends_calmly i n (f11 x); \<And>x. ends_calmly i n (f12 x);
    \<And>x y z u w. ends_calmly i n (f13 x y z u w); \<And>x y. ends_calmly i n (f14 x y); \<And>x y. ends_calmly i n (f15 x y);
    \<And>x. ends_calmly i n (f16 x); \<And>x. ends_calmly i n (f17 x); \<And>x y z. ends_calmly i n (f18 x y z);
    \<And>x y z. ends_calmly i n (f19 x y z); \<And>x. ends_calmly i n (f20 x); \<And>x. ends_calmly i n (f21 x)\<rbrakk> \<Longrightarrow>
   ends_calmly i n (case_vm_value f1 f2 f3 f4 f5 f6 f7 f8 f9 f10 f11 f12 f13 f14 f15 f16 f17 f18 f19 f20 f21 v)"
  by (cases v) simp_all

lemma ends_payload [calmly]:
  "ends_calmly i n x \<Longrightarrow> (\<And>a. ends_calmly i n (f a)) \<Longrightarrow> (\<And>a. ends_calmly i n (g a)) \<Longrightarrow> ends_calmly i n (case_enum_payload x f g p)"
  by (cases p) simp_all

lemma ends_future [calmly]:
  "(\<And>a b. ends_calmly i n (f1 a b)) \<Longrightarrow> (\<And>a b. ends_calmly i n (f2 a b)) \<Longrightarrow> (\<And>a b c. ends_calmly i n (f3 a b c)) \<Longrightarrow>
   (\<And>a b c. ends_calmly i n (f4 a b c)) \<Longrightarrow> ends_calmly i n (case_future_value f1 f2 f3 f4 u)"
  by (cases u) simp_all

section \<open>Changes of a task\<close>

lemma calm_set_task:
  assumes "running i r"
  shows "calm 0 r (on_machine (set_task i t) r)"
  using assms unfinished_set_task [of "r_machine r" i t]
  by (auto simp: calm_def running_def find_task_def on_machine_def set_task_def bt_wf_insert reaches_refl split: if_splits)

lemma ends_modify [calmly]:
  "ends_calmly i n (modify (on_machine (set_task i t)))" "ends_calmly i n (modify (put_frame i t f))"
  "ends_calmly i n (modify (move_task i t state kind))"
proof -
  have *: "calm n r (on_machine (set_task i u) r)" if "running i r" for r u and n
    using calm_set_task [OF that, of u] by (simp add: calm_def)
  then show "ends_calmly i n (modify (on_machine (set_task i t)))" "ends_calmly i n (modify (put_frame i t f))"
    by (auto simp: ends_calmly_def modify_def put_frame_def)
  show "ends_calmly i n (modify (move_task i t state kind))"
    using * by (fastforce simp: ends_calmly_def modify_def move_task_def calm_def on_machine_def)
qed

lemma ends_write [calmly]: "ends_calmly i n (write_value i task frame d v)"
  unfolding write_value_def by (intro calmly)

lemma ends_exec_value [calmly]: "spending c \<Longrightarrow> ends_calmly i n (exec_value i task frame c)"
  unfolding exec_value_def by (intro calmly)

lemma ends_jump [calmly]: "ends_calmly i n (jump i task frame target)" "ends_calmly i n (park i task frame w)"
  unfolding jump_def park_def by (intro calmly)+

lemma ends_push_call [calmly]: "ends_calmly i n (push_call cx i task frame f arguments captures result)"
  unfolding push_call_def Let_def by (intro calmly spends)

text \<open>A task whose state does not change.\<close>

lemma set_task_same_state:
  assumes "bt_wf (tm_tasks (r_machine r))" "find_task r j = Some u" "mt_state t = mt_state u"
  shows "calm 0 r (on_machine (set_task j t) r)" "running i r \<Longrightarrow> running i (on_machine (set_task j t) r)"
  using assms unfinished_set_task [of "r_machine r" j t]
  by (auto simp: calm_def running_def find_task_def on_machine_def set_task_def bt_wf_insert bt_get_insert reaches_refl split: if_splits)

lemma ends_lookup [calmly]:
  "(\<And>t. ends_calmly i n (f t)) \<Longrightarrow> ends_calmly i n (\<lambda>r. case find_task r j of None \<Rightarrow> (Inl e, r) | Some t \<Rightarrow> f t r)"
  by (auto simp: ends_calmly_def calm_refl split: option.splits)

lemma ends_state [calmly]:
  "ends_calmly i n f \<Longrightarrow> ends_calmly i n g \<Longrightarrow> ends_calmly i n (\<lambda>r. if c then f r else g r)"
  "ends_calmly i n (\<lambda>r. (Inl e, r))"
  "(\<And>e. ends_calmly i n (k1 e)) \<Longrightarrow> (\<And>x. ends_calmly i n (k2 x)) \<Longrightarrow>
   ends_calmly i n (\<lambda>r. case res of Inl e \<Rightarrow> k1 e r | Inr x \<Rightarrow> k2 x r)"
  "ends_calmly i n (\<lambda>r. (Inr (), on_machine (set_task i t) r))"
  by (auto simp: ends_calmly_def calm_refl split: sum.splits) (metis calm_0(1) calm_set_task)

lemma keeps_mark_returned [calmly]: "keeps_running i (mark_returned i scope v)"
proof (cases v)
  case (VTask h)
  have "calm 0 r (on_machine (set_task h (u\<lparr>mt_scope := scope\<rparr>)) r) \<and> running i (on_machine (set_task h (u\<lparr>mt_scope := scope\<rparr>)) r)"
    if "running i r" "find_task r h = Some u" for r :: "'a run" and u
    using set_task_same_state [OF _ that(2), of "u\<lparr>mt_scope := scope\<rparr>"] that(1)
    by (metis machine_task.select_convs(5) machine_task.surjective machine_task.update_convs(2) running_def)
  with VTask show ?thesis
    by (auto simp: mark_returned_def keeps_running_def calm_refl split: option.splits)
qed (simp_all add: mark_returned_def calmly)

lemma ends_resume [calmly]: "ends_calmly i n (resume_caller i d v)"
  unfolding resume_caller_def Let_def by (intro calmly)

lemma ends_return [calmly]: "ends_calmly i n (return_value i v)"
proof (unfold ends_calmly_def, intro allI impI)
  fix r :: "'a run"
  assume "running i r"
  then obtain task where task: "find_task r i = Some task" "bt_wf (tm_tasks (r_machine r))" by (auto simp: running_def)
  let ?task = "task\<lparr>mt_frames := butlast (mt_frames task)\<rparr>"
  let ?r = "on_machine (set_task i ?task) r"
  have calm: "calm 0 r ?r" and run: "running i ?r"
    using set_task_same_state [OF task(2,1), of ?task] \<open>running i r\<close> by simp_all
  have "calm n ?r (snd (vm_bind (mark_returned i scope v) (\<lambda>_. resume_caller i d v) ?r))" for scope d
    by (rule ends_calmlyD [OF _ run]) (intro calmly)
  moreover have "calm n ?r (move_task i ?task (TaskCompleted (Inr v)) EventCompleted ?r)"
    using ends_calmlyD [OF ends_modify(3) run] by (simp add: modify_def)
  moreover have "calm n r r" using \<open>running i r\<close> by (rule calm_refl)
  ultimately show "calm n r (snd (return_value i v r))"
    using calm_trans [OF calm] task
    by (cases "mt_frames task = []"; cases "mf_continuation (last (mt_frames task))")
      (simp_all add: return_value_def Let_def split del: if_split)
qed

section \<open>Effects and spawning\<close>

lemma on_budget_snd: "snd (on_budget c r) = r\<lparr>r_budget := snd (c (r_budget r))\<rparr>"
  by (simp add: on_budget_def split_def)

lemma keeps_completed: "keeps_running i (\<lambda>r. (x, r\<lparr>r_budget := snd (complete_effect (r_budget r))\<rparr>))"
  using keeps_budget [OF spending_basic(7), of i]
  by (simp add: keeps_running_def on_budget_snd)

lemma keeps_start_effect [calmly]: "keeps_running i (start_effect_future env future)"
proof -
  have last: "keeps_running i (\<lambda>r. case res of Inl e \<Rightarrow> (Inl e, r\<lparr>r_budget := snd (complete_effect (r_budget r))\<rparr>) | Inr p \<Rightarrow> (Inr (f p), r))"
    for res :: "vm_error + effect_poll" and f :: "effect_poll \<Rightarrow> 'b"
    using keeps_completed [of i] by (cases res) (auto simp: keeps_running_def calm_refl)
  show ?thesis
    unfolding start_effect_future_def
    by (intro calmly spends last; cases future; simp add: calmly)
qed

lemma keeps_new_task [calmly]: "keeps_running i (new_task env md owner origin scope future)"
proof -
  have effect: "keeps_running i (vm_bind (start_effect_future env external) (\<lambda>(pending, poll, result_type, family).
      vm_bind (case poll of
          PollReady v \<Rightarrow>
            vm_bind (on_budget (accept_external (md_enum_types md) result_type family v)) (\<lambda>v.
            vm_return (TaskCompleted (Inr v)))
        | PollPending \<Rightarrow> vm_return (TaskWaiting (WaitEffect pending None result_type family))) (\<lambda>state.
      vm_return \<lparr>mt_owner = owner, mt_scope = scope, mt_entry_function = origin, mt_frames = [], mt_state = state\<rparr>)))"
    for external
    by (intro calmly) (auto split: effect_poll.splits intro!: calmly spends)
  show ?thesis
    unfolding new_task_def by (cases future; simp add: effect; intro calmly spends)
qed

text \<open>Operations that change no task's state and make none.\<close>

definition steady :: "('w run, 'a) stateful \<Rightarrow> bool" where
  "steady c \<longleftrightarrow> (\<forall>r. bt_wf (tm_tasks (r_machine r)) \<longrightarrow> calm 0 r (snd (c r)))"

lemma ends_then_steady:
  "ends_calmly i n c \<Longrightarrow> (\<And>x. steady (f x)) \<Longrightarrow> ends_calmly i n (vm_bind c f)"
  unfolding ends_calmly_def steady_def vm_bind_def
  by (auto split: prod.splits sum.splits) (metis add_0_right calm_def calm_trans snd_conv)+

lemma steady_write_task_value: "steady (write_task_value i d v)"
proof (unfold steady_def, intro allI impI)
  fix r :: "'a run"
  assume wf: "bt_wf (tm_tasks (r_machine r))"
  then have "calm 0 r r" by (simp add: calm_def reaches_refl)
  moreover have "calm 0 r (snd (write_value i task (last (mt_frames task)) d v r))" if "find_task r i = Some task" for task
    using \<open>calm 0 r r\<close> set_task_same_state(1) [OF wf that]
    by (auto simp: write_value_def vm_bind_def vm_lift_def modify_def put_frame_def split: sum.splits)
  ultimately show "calm 0 r (snd (write_task_value i d v r))"
    by (auto simp: write_task_value_def split: option.splits)
qed

lemma adopt_same:
  "bt_wf (tm_tasks m) \<Longrightarrow> adopt o' direct scope hs m = Some m' \<Longrightarrow>
     bt_wf (tm_tasks m') \<and> unfinished m' = unfinished m"
proof (induction o' direct scope hs m rule: adopt.induct)
  case (2 o' direct scope h hs m)
  then obtain task where task: "bt_get (tm_tasks m) h = Some task" by (cases "bt_get (tm_tasks m) h") auto
  let ?t = "if direct = Some h then task\<lparr>mt_owner := o', mt_scope := scope\<rparr> else task\<lparr>mt_owner := o'\<rparr>"
  have "unfinished (set_task h ?t m) = unfinished m"
    using unfinished_set_task [OF "2.prems"(1), of h ?t] task by (auto split: if_splits)
  moreover have "bt_wf (tm_tasks (set_task h ?t m))" using "2.prems"(1) by (simp add: set_task_def bt_wf_insert)
  ultimately show ?case using 2 task by (auto simp: Let_def split: if_splits)
qed simp

lemma add_task_one:
  assumes "bt_wf (tm_tasks m)"
  shows "bt_wf (tm_tasks (add_task i task captured m)) \<and> unfinished (add_task i task captured m) \<le> Suc (unfinished m)"
proof -
  let ?m = "set_task i task m"
  have set: "bt_wf (tm_tasks ?m)" "unfinished ?m \<le> Suc (unfinished m)"
    using assms unfinished_set_task [OF assms, of i task] by (auto simp: set_task_def bt_wf_insert split: option.splits if_splits)
  define m' where "m' = (case adopt i None None captured ?m of Some m \<Rightarrow> m | None \<Rightarrow> m)"
  have "bt_wf (tm_tasks m') \<and> unfinished m' \<le> Suc (unfinished m)"
    using assms set adopt_same [OF set(1)] by (auto simp: m'_def split: option.splits)
  then show ?thesis by (simp add: add_task_def Let_def m'_def)
qed

lemma keeps_next_task [calmly]: "keeps_running i (modify (on_machine (\<lambda>m. m\<lparr>tm_next_task := j\<rparr>)))"
  by (auto simp: keeps_running_def modify_def calm_def running_def find_task_def on_machine_def reaches_refl)

definition prepare_task ::
  "'w environment \<Rightarrow> module_def \<Rightarrow> u64 \<Rightarrow> u32 \<Rightarrow> scope_key option \<Rightarrow> future_value \<Rightarrow> u64 option \<Rightarrow> bool \<Rightarrow>
    ('w run, u64 \<times> machine_task) stateful" where
  "prepare_task env md owner origin scope future fresh allowed =
     vm_bind (on_budget (charge_allocation SCHEDULER_TASK_BYTES)) (\<lambda>_.
     vm_bind (on_budget (charge_allocation TASK_HANDLE_BYTES)) (\<lambda>_.
     vm_bind (vm_lift (ok_or fresh (ResourceLimit RESOURCE_TASKS))) (\<lambda>i.
     if \<not> allowed then vm_fail (Invariant ''captured task cannot transfer ownership'')
     else
       vm_bind (modify (on_machine (\<lambda>m. m\<lparr>tm_next_task := i\<rparr>))) (\<lambda>_.
       vm_bind (new_task env md owner origin scope future) (\<lambda>task. vm_return (i, task))))))"

lemma keeps_prepare: "keeps_running i (prepare_task env md owner origin scope future fresh allowed)"
  unfolding prepare_task_def by (intro calmly spends)

definition enter_task :: "u32 \<Rightarrow> u64 list \<Rightarrow> u64 \<times> machine_task \<Rightarrow> ('w run, u64) stateful" where
  "enter_task alive captured x r =
     (case x of (i, task) \<Rightarrow>
        (Inr i, on_machine (add_task i task captured) (r\<lparr>r_budget := account_task alive (r_budget r)\<rparr>)))"

lemma spawn_machine_parts:
  "spawn_machine env md owner origin scope future r =
     vm_bind (on_budget (admit_task (bt_len (tm_tasks (r_machine r)) - 1))) (\<lambda>alive.
     let captured = sort (concat (map task_handles (future_arguments future)))
     in vm_bind (prepare_task env md owner origin scope future (checked_add_u64 (tm_next_task (r_machine r)) 1)
            (may_transfer (r_machine r) owner captured)) (enter_task alive captured)) r"
  unfolding spawn_machine_def prepare_task_def enter_task_def Let_def
  by (auto simp: vm_bind_def vm_lift_def vm_fail_def vm_return_def modify_def split: prod.splits sum.splits)

lemma admit_task_snd: "snd (admit_task n b) = b" "admit_task n b = (Inr alive, b') \<Longrightarrow> b_limits c = b_limits b \<Longrightarrow> admit_task n c = (Inr alive, c)"
  by (auto simp: admit_task_def split: if_splits)

lemma cursor_adopt: "adopt o' direct scope hs m = Some m' \<Longrightarrow> tm_rotation_cursor m' = tm_rotation_cursor m"
  by (induction o' direct scope hs m rule: adopt.induct) (auto simp: bind_eq_Some_conv Let_def)

lemma cursor_add_task [simp]: "tm_rotation_cursor (add_task i task captured m) = tm_rotation_cursor m"
  using cursor_adopt by (auto simp: add_task_def Let_def split: option.splits)

lemma ends_spawn: "ends_calmly i 1 (spawn_machine env md owner origin scope future)"
proof (unfold ends_calmly_def, intro allI impI)
  fix r :: "'a run"
  assume run: "running i r"
  let ?n = "bt_len (tm_tasks (r_machine r)) - 1"
  obtain res b where admit: "admit_task ?n (r_budget r) = (res, b)" by force
  then have b: "b = r_budget r" using admit_task_snd(1) [of ?n "r_budget r"] by simp
  show "calm 1 r (snd (spawn_machine env md owner origin scope future r))"
  proof (cases res)
    case (Inl e)
    then show ?thesis using admit b run by (simp add: spawn_machine_parts vm_bind_def on_budget_def calm_refl)
  next
    case (Inr alive)
    let ?cap = "sort (concat (map task_handles (future_arguments future)))"
    let ?p = "prepare_task env md owner origin scope future (checked_add_u64 (tm_next_task (r_machine r)) 1)
      (may_transfer (r_machine r) owner ?cap)"
    obtain x r1 where p: "?p r = (x, r1)" by force
    then have r1: "calm 0 r r1" using keeps_prepare [of i] run unfolding keeps_running_def by (metis snd_conv)
    then have "b_limits (r_budget r1) = b_limits (r_budget r)" by (simp add: calm_def quiet_keeps)
    with admit Inr b have "admit_task ?n (r_budget r1) = (Inr alive, r_budget r1)" using admit_task_snd(2) by blast
    then have "reaches quiet_step (r_budget r1) (account_task alive (r_budget r1))"
      by (blast intro: reaches.intros quiet_account_task)
    then have "calm 1 r1 (snd (enter_task alive ?cap y r1))" for y
      using add_task_one [of "r_machine r1"] r1 by (auto simp: calm_def enter_task_def on_machine_def split: prod.splits)
    with calm_trans [OF r1] have "calm 1 r (snd (enter_task alive ?cap y r1))" for y by fastforce
    moreover have "calm 1 r r1" using r1 by (simp add: calm_def)
    moreover have "on_budget (admit_task ?n) r = (Inr alive, r)" using admit Inr b by (simp add: on_budget_def)
    ultimately show ?thesis using p
      by (simp add: spawn_machine_parts vm_bind_def [of "on_budget _"] vm_bind_def [of ?p] Let_def split: sum.splits)
  qed
qed

section \<open>Instructions\<close>

lemma ends_poll [calmly]:
  "(\<And>v. ends_calmly i n (f v)) \<Longrightarrow> ends_calmly i n g \<Longrightarrow> ends_calmly i n (case poll of PollReady v \<Rightarrow> f v | PollPending \<Rightarrow> g)"
  by (cases poll) simp_all

lemma ends_early_return [calmly]: "ends_calmly i n (early_return i task frame v)"
  unfolding early_return_def by (intro calmly)

lemma ends_try [calmly]: "ends_calmly i n (exec_try identity name i task frame d s)"
  unfolding exec_try_def by (intro calmly)

lemma ends_control [calmly]: "ends_calmly i n (exec_control cx i task frame ins)"
  unfolding exec_control_def Let_def by (cases ins; simp only: control_instruction.case; intro calmly)

lemma ends_await [calmly]: "ends_calmly i n (exec_await cx i task frame d v)"
  unfolding exec_await_def exec_await_effect_def by (intro calmly spends)

lemma ends_snapshot [calmly]:
  "ends_calmly i n (\<lambda>r. vm_bind (on_budget (task_snapshot env md i handle (r_machine r))) (\<lambda>w. write_value i task frame d w) r)"
proof (unfold ends_calmly_def, intro allI impI)
  fix r :: "'a run"
  assume "running i r"
  moreover have "ends_calmly i n (vm_bind (on_budget (task_snapshot env md i handle m)) (\<lambda>w. write_value i task frame d w))" for m
    by (intro calmly spends)
  ultimately show "calm n r (snd (vm_bind (on_budget (task_snapshot env md i handle (r_machine r))) (\<lambda>w. write_value i task frame d w) r))"
    using ends_calmlyD by blast
qed

lemma ends_tasking: "ends_calmly i 1 (exec_tasking cx i task frame ins)"
  unfolding exec_tasking_def Let_def
  by (cases ins; simp only: task_instruction.case) (intro calmly ends_then_steady ends_spawn steady_write_task_value)+

lemma ends_fold [calmly]: "ends_calmly i n (exec_fold cx i task frame pc d vs initial callback)"
  unfolding exec_fold_def by (intro calmly)

lemma ends_combinator [calmly]:
  "ends_calmly i n (exec_combinator cx i task frame pc d operation vs initial callback callback_result)"
  unfolding exec_combinator_def Let_def by (intro calmly spends)

lemma heap_irrelevant [simp]:
  "running i (r\<lparr>r_heap := h\<rparr>) = running i r" "calm n (r\<lparr>r_heap := h\<rparr>) r' = calm n r r'"
  by (simp_all add: running_def calm_def find_task_def)

lemma ends_allocate_sequence [calmly]: "ends_calmly i n (allocate_sequence i task frame d plan)"
proof -
  have "ends_calmly i n (\<lambda>r :: 'a run. case new_sequence plan (r_heap r) of (s, h) \<Rightarrow>
      write_value i task frame d (VSequence s) (r\<lparr>r_heap := h\<rparr>))"
  proof (unfold ends_calmly_def, intro allI impI)
    fix r :: "'a run"
    assume "running i r"
    then have "running i (r\<lparr>r_heap := h\<rparr>)" for h by simp
    from ends_calmlyD [OF ends_write this]
    show "calm n r (snd (case new_sequence plan (r_heap r) of (s, h) \<Rightarrow>
        write_value i task frame d (VSequence s) (r\<lparr>r_heap := h\<rparr>)))"
      by (simp add: new_sequence_def)
  qed
  then show ?thesis unfolding allocate_sequence_def by (intro calmly spends)
qed

lemma keeps_start_sequence [calmly]: "keeps_running i (start_sequence frame pc d sequence terminal callback initial)"
  unfolding start_sequence_def by (intro calmly)

lemma keeps_sequence_loop [calmly]:
  "keeps_running i (\<lambda>r. case sequence_loop p (r_budget r) (r_heap r) of (res, p, b, h) \<Rightarrow>
     (map_sum id (\<lambda>outcome. (outcome, p)) res, r\<lparr>r_budget := b, r_heap := h\<rparr>))"
  by (auto simp: keeps_running_def calm_def running_def find_task_def dest: sequence_loop_spends split: prod.splits)

lemma ends_sequence [calmly]:
  "ends_calmly i n (exec_sequence cx i task frame pc d sequence terminal callback initial)"
proof -
  have outcome: "ends_calmly i n (case outcome of SequenceComplete \<Rightarrow> f | SequenceCall c a \<Rightarrow> g c a)"
    if "ends_calmly i n f" "\<And>c a. ends_calmly i n (g c a)" for outcome and f :: "('a run, unit) stateful" and g
    using that by (cases outcome) auto
  show ?thesis unfolding exec_sequence_def by (intro calmly spends outcome)
qed

lemma ends_looping [calmly]: "ends_calmly i n (exec_looping cx i task frame pc ins)"
  unfolding exec_looping_def Let_def by (cases ins; simp only: loop_instruction.case; intro calmly)

lemma ends_workspace [calmly]: "ends_calmly i n (exec_workspace cx i task frame d)"
  unfolding exec_workspace_def by (intro calmly)

lemma ends_instruction: "ends_calmly i 1 (exec_instruction cx i task frame function pc ins)"
proof (cases ins)
  case (Library l)
  then show ?thesis unfolding exec_instruction_def
    by (cases l; simp only: instruction.case library_instruction.case; intro calmly spends)
qed (simp_all only: exec_instruction_def instruction.case, (intro calmly spends ends_tasking)+)

end
