(* ===== verification/Vm_Turns.thy ===== *)
theory Vm_Turns
  imports Vm_Progress
begin

text \<open>
  Turns of the scheduler: a turn that runs a task spends an instruction or finishes a task, so that a
  limit on instructions bounds the turns that run a task; and the budget of a running machine stays
  within its limits.
\<close>

section \<open>Waking and cancelling\<close>

text \<open>Changes that only remove tasks.\<close>

definition shrinks :: "task_machine \<Rightarrow> task_machine \<Rightarrow> bool" where
  "shrinks m m' \<longleftrightarrow>
     (bt_wf (tm_tasks m) \<longrightarrow> bt_wf (tm_tasks m')) \<and> unfinished m' \<le> unfinished m \<and>
     tm_rotation_cursor m' = tm_rotation_cursor m \<and>
     (\<forall>j t. bt_wf (tm_tasks m) \<longrightarrow> bt_get (tm_tasks m') j = Some t \<longrightarrow> bt_get (tm_tasks m) j = Some t)"

lemma shrinks_refl: "shrinks m m" by (simp add: shrinks_def)

lemma shrinks_trans: "shrinks m m1 \<Longrightarrow> shrinks m1 m2 \<Longrightarrow> shrinks m m2"
  by (auto simp: shrinks_def)

lemma shrinks_same_tasks:
  "tm_tasks m' = tm_tasks m1 \<Longrightarrow> tm_rotation_cursor m' = tm_rotation_cursor m1 \<Longrightarrow> shrinks m m1 \<Longrightarrow> shrinks m m'"
  by (simp add: shrinks_def unfinished_def)

lemma shrinks_drop: "shrinks m (drop_task i m)"
  by (auto simp: shrinks_def drop_task_def unfinished_def length_filter_remove bt_wf_remove bt_get_remove split: if_splits)

lemma shrinks_drops: "shrinks m (drop_tasks cs m)"
  by (induction cs arbitrary: m) (auto intro: shrinks_refl shrinks_trans [OF shrinks_drop])

lemma shrinks_remove: "shrinks m (remove_tasks is m)"
proof (induction "is" m rule: remove_tasks.induct)
  case (2 i "is" m)
  show ?case
  proof (cases "bt_get (tm_tasks m) i")
    case None
    with 2 show ?thesis by simp
  next
    case (Some task)
    let ?m = "m\<lparr>tm_tasks := bt_remove i (tm_tasks m)\<rparr>"
    have "shrinks m (if c then ?m else emit_event i o' k ?m)" for c o' k
      by (rule shrinks_same_tasks [OF _ _ shrinks_drop [of m i]]) (simp_all add: drop_task_def)
    from shrinks_trans [OF this "2.IH"(2) [OF Some refl]] Some show ?thesis by (simp add: Let_def)
  qed
qed (simp add: shrinks_refl)

lemma cursor_charge [simp]: "tm_rotation_cursor (snd (charge_cleanup n m)) = tm_rotation_cursor m"
  by (simp add: charge_cleanup_def Let_def split: option.splits)

lemma shrinks_charge: "shrinks m (snd (charge_cleanup n m))"
  by (rule shrinks_same_tasks [OF charge_cleanup_keeps(1) cursor_charge shrinks_refl])

lemma shrinks_charge_remove: "charge_cleanup n (remove_tasks is m) = (c, m') \<Longrightarrow> shrinks m m'"
  by (metis shrinks_charge shrinks_remove shrinks_trans snd_conv)

lemma shrinks_cancel_descendants: "cancel_descendants i m = Some (c, m') \<Longrightarrow> shrinks m m'"
  by (auto simp: cancel_descendants_def Let_def intro: shrinks_charge_remove)

lemma shrinks_cancel_task_tree:
  assumes "cancel_task_tree i m = Some (c, m')"
  shows "shrinks m m'"
proof -
  from assms obtain d m1 where 1: "cancel_descendants i m = Some (d, m1)"
    by (auto simp: cancel_task_tree_def bind_eq_Some_conv)
  moreover obtain e m2 where 2: "charge_cleanup (if bt_get (tm_tasks m1) i = None then 0 else 1) (remove_tasks [i] m1) = (e, m2)"
    by force
  ultimately have "m' = m2" using assms by (simp add: cancel_task_tree_def Let_def del: remove_tasks.simps)
  with shrinks_trans [OF shrinks_cancel_descendants [OF 1] shrinks_charge_remove [OF 2]] show ?thesis by simp
qed

lemma shrinks_cancel_siblings: "cancel_siblings ss c m = Some (c', m') \<Longrightarrow> shrinks m m'"
proof (induction ss c m rule: cancel_siblings.induct)
  case (2 s ss c m)
  then obtain d m1 where "cancel_task_tree s m = Some (d, m1)" by (auto simp: bind_eq_Some_conv)
  with 2 show ?case using shrinks_trans [OF shrinks_cancel_task_tree] by simp
qed (simp add: shrinks_refl)

lemma shrinks_join: "join_children cs f m = Some (w, f', m') \<Longrightarrow> shrinks m m'"
proof (induction cs f m rule: join_children.induct)
  case (2 c cs f m)
  then show ?case
    using shrinks_trans [OF shrinks_drop [of m c]]
    by (auto simp: shrinks_refl split: option.splits machine_task_state.splits sum.splits dest: shrinks_cancel_siblings)
qed (simp add: shrinks_refl)

lemma shrinks_filter: "shrinks m (m\<lparr>tm_tasks := filter (\<lambda>(i, task). P i) (tm_tasks m)\<rparr>)"
proof -
  have "bt_wf ts \<Longrightarrow> bt_wf (filter (\<lambda>(i, task). P i) ts)" for ts :: "(u64, machine_task) btree_map"
    by (induction ts rule: bt_wf.induct) auto
  moreover have "map_of (filter (\<lambda>(i, task). P i) ts) j = (if P j then map_of ts j else None)" for ts :: "(u64, machine_task) btree_map" and j
    by (induction ts) auto
  moreover have "length (filter (\<lambda>x. A x \<and> B x) xs) \<le> length (filter B xs)" for A B and xs :: "'b list"
    by (induction xs) auto
  ultimately show ?thesis
    by (auto simp: shrinks_def unfinished_def bt_get_def split: if_splits)
qed

lemma shrinks_cancel_all: "shrinks m (snd (cancel_all m))"
proof -
  have "tm_tasks (emit_cancelled xs m) = tm_tasks m" "tm_rotation_cursor (emit_cancelled xs m) = tm_rotation_cursor m" for xs m
    by (induction xs m rule: emit_cancelled.induct) auto
  with shrinks_filter show ?thesis
    unfolding cancel_all_def Let_def by (meson shrinks_charge shrinks_same_tasks shrinks_trans)
qed

lemma shrinks_calm: "shrinks (r_machine r) m \<Longrightarrow> bt_wf (tm_tasks (r_machine r)) \<Longrightarrow> calm 0 r (r\<lparr>r_machine := m\<rparr>)"
  by (simp add: shrinks_def calm_def reaches_refl)

lemma calm_trans0: "calm 0 r s \<Longrightarrow> calm 0 s t \<Longrightarrow> calm 0 r t"
  using calm_trans [of 0 r s 0 t] by simp

lemma calm_move:
  assumes "bt_wf (tm_tasks (r_machine r))" "is_completed state \<or> running i r"
  shows "calm 0 r (move_task i t state kind r)"
  using assms unfinished_set_task [of "r_machine r" i "t\<lparr>mt_state := state\<rparr>"]
  by (auto simp: calm_def running_def move_task_def on_machine_def find_task_def set_task_def bt_wf_insert reaches_refl
      split: if_splits option.splits)

lemma calm_fail [simp]:
  assumes "bt_wf (tm_tasks (r_machine r))"
  shows "calm 0 r (fail_task i t e r)" "calm 0 r (propagate_failure i t f r)"
  unfolding fail_task_def propagate_failure_def by (rule calm_move; use assms in simp)+

lemma calm_deliver: "running i r \<Longrightarrow> calm 0 r (deliver i t d v r)"
  by (auto simp: deliver_def running_def intro!: calm_move split: sum.splits)

lemma running_calm_wf: "running i r \<Longrightarrow> bt_wf (tm_tasks (r_machine r))"
  by (simp add: running_def)

lemma shrinks_runs:
  assumes "running i r" "shrinks (r_machine r) m" "bt_get (tm_tasks m) i \<noteq> None"
  shows "running i (r\<lparr>r_machine := m\<rparr>)"
  using assms by (fastforce simp: running_def shrinks_def find_task_def)

lemma calm_finish_effect:
  assumes "running i r"
  shows "calm 0 r (finish_effect i task d (x, r))"
  using assms calm_deliver [OF assms] by (auto simp: finish_effect_def running_def intro!: calm_move split: sum.splits option.splits)

lemma world_irrelevant [simp]:
  "running i (r\<lparr>r_world := w\<rparr>) = running i r" "calm n (r\<lparr>r_world := w\<rparr>) r' = calm n r r'"
  "calm n r (r'\<lparr>r_world := w\<rparr>) = calm n r r'"
  by (simp_all add: running_def calm_def find_task_def)

lemma calm_wake_effect:
  assumes "running i r"
  shows "calm 0 r (wake_effect env md i task pending d result_type family r)"
proof -
  obtain poll w where poll: "env_poll_effect env pending (r_world r) = (poll, w)" by force
  have spend: "calm 0 r (finish_effect i task d (on_budget c (r\<lparr>r_world := w\<rparr>)))" if "spending c" for c
  proof -
    have *: "running i (r\<lparr>r_world := w\<rparr>)" using assms by simp
    obtain x r1 where x: "on_budget c (r\<lparr>r_world := w\<rparr>) = (x, r1)" by force
    then have "calm 0 (r\<lparr>r_world := w\<rparr>) r1 \<and> running i r1"
      using keeps_budget [OF that, of i] * unfolding keeps_running_def by (metis snd_conv)
    with x show ?thesis using calm_trans0 calm_finish_effect by fastforce
  qed
  have "spending (\<lambda>b. (close_provider_error family result_type e, snd (complete_effect b)))" for e
    using spending_basic(7) by (simp add: spending_def)
  note error = spend [OF this]
  have ready: "calm 0 r (finish_effect i task d (on_budget (accept_external (md_enum_types md) result_type family v) (r\<lparr>r_world := w\<rparr>)))" for v
    by (rule spend) (intro spends)
  have "calm 0 r r" using assms by (rule calm_refl)
  with error ready poll show ?thesis
    by (cases poll; cases "projr poll") (simp_all add: wake_effect_def)
qed

lemma adopt_states:
  "adopt o' direct scope hs m = Some m' \<Longrightarrow>
     map_option mt_state (bt_get (tm_tasks m') j) = map_option mt_state (bt_get (tm_tasks m) j)"
proof (induction o' direct scope hs m rule: adopt.induct)
  case (2 o' direct scope h hs m)
  then show ?case by (auto simp: bind_eq_Some_conv Let_def set_task_def bt_get_insert split: if_splits)
qed simp

lemma calm_wake_join:
  assumes "running i r" "wake_join i task handle d r = Some r'"
  shows "calm 0 r r'"
proof (cases "map_option mt_state (find_task r handle)")
  case None
  with assms show ?thesis by (simp add: wake_join_def calm_refl)
next
  case (Some state)
  note found = Some
  show ?thesis
  proof (cases state)
    case (TaskCompleted result)
    let ?r = "on_machine (drop_task handle) r"
    have wf: "bt_wf (tm_tasks (r_machine r))" using assms(1) by (rule running_calm_wf)
    have drop: "calm 0 r ?r" using shrinks_calm [OF shrinks_drop wf] by (simp add: on_machine_def)
    then have wf': "bt_wf (tm_tasks (r_machine ?r))" by (simp add: calm_def)
    have ne: "i \<noteq> handle" using assms(1) found TaskCompleted by (auto simp: running_def)
    have run: "running i ?r"
      using assms(1) ne wf' by (auto simp: running_def find_task_def on_machine_def drop_task_def bt_get_remove)
    have adopted: "calm 0 ?r (deliver i t d v (?r\<lparr>r_machine := m\<rparr>))"
      if "adopt i direct scope hs (r_machine ?r) = Some m" "bt_get (tm_tasks m) i = Some t" for direct scope hs m t v
    proof -
      have "calm 0 ?r (?r\<lparr>r_machine := m\<rparr>)"
        using adopt_same [OF wf' that(1)] cursor_adopt [OF that(1)] by (simp add: calm_def reaches_refl)
      moreover have "running i (?r\<lparr>r_machine := m\<rparr>)"
        using adopt_same [OF wf' that(1)] adopt_states [OF that(1), of i] run that(2) by (auto simp: running_def find_task_def)
      ultimately show ?thesis using calm_deliver calm_trans0 by blast
    qed
    have failed: "calm 0 r (fail_task i task e ?r)" "calm 0 r (propagate_failure i task f ?r)" for e f
      using calm_trans0 [OF drop calm_fail(1) [OF wf']] calm_trans0 [OF drop calm_fail(2) [OF wf']] by blast+
    show ?thesis
      using assms(2) found TaskCompleted calm_trans0 [OF drop adopted] failed
      by (auto simp: wake_join_def Let_def bind_eq_Some_conv split: sum.splits if_splits)
  qed (use assms found in \<open>simp_all add: wake_join_def calm_refl\<close>)
qed

lemma calm_wake_scope:
  assumes "running i r" "wake_scope i scope r = Some r'"
  shows "calm 0 r r'"
proof -
  from assms(2) obtain w f m where join: "join_children (scope_children (r_machine r) i scope) None (r_machine r) = Some (w, f, m)"
    by (auto simp: wake_scope_def bind_eq_Some_conv)
  let ?r = "r\<lparr>r_machine := m\<rparr>"
  have calm: "calm 0 r ?r" using shrinks_calm [OF shrinks_join [OF join]] assms(1) by (simp add: running_def)
  then have wf: "bt_wf (tm_tasks (r_machine ?r))" by (simp add: calm_def)
  have "running i ?r" if "find_task ?r i = Some t" for t
    using shrinks_runs [OF assms(1) shrinks_join [OF join]] that by (simp add: find_task_def)
  then have ready: "calm 0 r (move_task i t TaskReady EventReady ?r)" if "find_task ?r i = Some t" for t
    using calm_trans0 [OF calm calm_move [OF wf]] that by blast
  have failed: "calm 0 r (propagate_failure i t g ?r)" for t g by (rule calm_trans0 [OF calm calm_fail(2) [OF wf]])
  show ?thesis
    using assms(2) join calm ready failed
    by (auto simp: wake_scope_def Let_def bind_eq_Some_conv split: if_splits option.splits)
qed

lemma calm_wake_return:
  assumes "running i r" "wake_return i scope v r = Some r'"
  shows "calm 0 r r'"
proof -
  let ?cs = "scope_children (r_machine r) i scope"
  let ?r = "on_machine (drop_tasks ?cs) r"
  have r: "?r = r\<lparr>r_machine := drop_tasks ?cs (r_machine r)\<rparr>" by (simp add: on_machine_def)
  have calm: "calm 0 r ?r" unfolding r by (rule shrinks_calm [OF shrinks_drops running_calm_wf [OF assms(1)]])
  then have wf: "bt_wf (tm_tasks (r_machine ?r))" by (simp add: calm_def)
  have run: "running i ?r" if "find_task ?r i = Some t" for t
    using shrinks_runs [OF assms(1) shrinks_drops, of ?cs] that by (simp add: find_task_def r)
  have failed: "calm 0 r (propagate_failure i t g ?r)" for t g by (rule calm_trans0 [OF calm calm_fail(2) [OF wf]])
  have outer: "calm 0 r (on_machine (set_task i u) ?r)" if "find_task ?r i = Some t" for t u
    using calm_trans0 [OF calm calm_set_task [OF run [OF that]]] .
  have returned: "calm 0 r r1" if "return_value i v ?r = (x, r1)" "find_task ?r i = Some t" for x r1 t
    using calm_trans0 [OF calm ends_calmlyD [OF ends_return [of i 0 v] run [OF that(2)]]] that(1) by simp
  have ended: "calm 0 r (fail_task i u e r1)" "\<not> is_completed (mt_state u) \<Longrightarrow> calm 0 r (move_task i u TaskReady EventReady r1)"
    if "return_value i v ?r = (x, r1)" "find_task ?r i = Some t" "find_task r1 i = Some u" for x r1 t u e
  proof -
    have 1: "calm 0 r r1" using returned that by blast
    then have wf1: "bt_wf (tm_tasks (r_machine r1))" by (simp add: calm_def)
    show "calm 0 r (fail_task i u e r1)" using calm_trans0 [OF 1 calm_fail(1) [OF wf1]] .
    assume "\<not> is_completed (mt_state u)"
    with that(3) wf1 have "running i r1" by (simp add: running_def)
    then show "calm 0 r (move_task i u TaskReady EventReady r1)" using calm_trans0 [OF 1 calm_move [OF wf1]] by blast
  qed
  have same: "calm 0 r r" using assms(1) by (rule calm_refl)
  show ?thesis
  proof (cases "\<exists>c\<in>set ?cs. \<not> completed_task r c")
    case True
    with assms(2) same show ?thesis by (simp add: wake_return_def)
  next
    case False
    with assms(2) obtain t where t: "find_task ?r i = Some t"
      by (auto simp: wake_return_def Let_def bind_eq_Some_conv split: if_splits)
    obtain x r1 where x: "return_value i v ?r = (x, r1)" by force
    show ?thesis
      using assms(2) False t failed outer [OF t] returned [OF x t] ended [OF x t] x
      by (cases "first_failure ?cs (r_machine r)"; cases "current_scope t"; cases x)
        (auto simp: wake_return_def Let_def bind_eq_Some_conv)
  qed
qed

lemma calm_wake_one:
  assumes "bt_wf (tm_tasks (r_machine r))" "wake_one env md i r = Some r'"
  shows "calm 0 r r'"
proof (cases "find_task r i")
  case None
  with assms show ?thesis by (simp add: wake_one_def calm_def reaches_refl)
next
  case (Some task)
  show ?thesis
  proof (cases "mt_state task")
    case (TaskWaiting w)
    with Some assms(1) have run: "running i r" by (simp add: running_def)
    show ?thesis
      using assms(2) Some TaskWaiting calm_wake_effect [OF run] calm_wake_join [OF run] calm_wake_scope [OF run] calm_wake_return [OF run]
      by (cases w) (auto simp: wake_one_def)
  qed (use assms Some in \<open>simp_all add: wake_one_def calm_def reaches_refl\<close>)
qed

lemma calm_wake_each:
  "bt_wf (tm_tasks (r_machine r)) \<Longrightarrow> wake_each env md is r = Some r' \<Longrightarrow> calm 0 r r'"
proof (induction env md "is" r rule: wake_each.induct)
  case (2 env md i "is" r)
  then obtain r1 where r1: "wake_one env md i r = Some r1" "wake_each env md is r1 = Some r'"
    by (auto simp: bind_eq_Some_conv)
  have "calm 0 r r1" using calm_wake_one [OF "2.prems"(1) r1(1)] .
  moreover from this have "calm 0 r1 r'" using "2.IH" r1 by (simp add: calm_def [of 0 r r1])
  ultimately show ?case by (rule calm_trans0)
qed (simp add: calm_def reaches_refl)

lemma calm_cancel_each:
  "bt_wf (tm_tasks (r_machine r)) \<Longrightarrow> calm 0 r (cancel_each env ps r)"
proof (induction env ps r rule: cancel_each.induct)
  case (2 env p ps r)
  let ?r = "r\<lparr>r_world := env_cancel_effect env p (r_world r), r_budget := snd (complete_effect (r_budget r))\<rparr>"
  have "calm 0 r ?r" using "2.prems" by (auto simp: calm_def intro: reaches.intros quiet_complete_effect)
  with 2 show ?case using calm_trans0 by auto
qed (simp add: calm_def reaches_refl)

lemma calm_cancel_providers:
  assumes "bt_wf (tm_tasks (r_machine r))"
  shows "calm 0 r (cancel_providers env r)"
proof -
  have "calm 0 r (cancel_pending_effects env r)" unfolding cancel_pending_effects_def using assms by (rule calm_cancel_each)
  then show ?thesis by (simp add: cancel_providers_def cancel_effects_def calm_def)
qed

lemma calm_cancel_tasks:
  assumes "bt_wf (tm_tasks (r_machine r))"
  shows "calm 0 r (snd (cancel_tasks (cancel_providers env r)))"
proof -
  let ?r = "cancel_providers env r"
  have 1: "calm 0 r ?r" by (rule calm_cancel_providers [OF assms])
  then have "calm 0 ?r (?r\<lparr>r_machine := snd (cancel_all (r_machine ?r))\<rparr>)"
    by (intro shrinks_calm [OF shrinks_cancel_all]) (simp add: calm_def)
  from calm_trans0 [OF 1 this] show ?thesis by (simp add: cancel_tasks_def split_def)
qed

section \<open>Steps\<close>

text \<open>What is left of the limit on instructions counts twice: an instruction makes at most one task.\<close>

definition used :: "'w run \<Rightarrow> nat" where
  "used r = unat (eu_instructions (b_usage (r_budget r)))"

definition allowed :: "'w run \<Rightarrow> nat" where
  "allowed r = unat (el_instructions (b_limits (r_budget r)))"

definition credit :: "'w run \<Rightarrow> nat" where
  "credit r = 2 * (allowed r - used r) + unfinished (r_machine r)"

lemma calm_keeps:
  assumes "calm n r r'"
  shows "used r' = used r" "allowed r' = allowed r" "bt_wf (tm_tasks (r_machine r'))"
    "unfinished (r_machine r') \<le> unfinished (r_machine r) + n" "reaches budget_step (r_budget r) (r_budget r')"
    "tm_rotation_cursor (r_machine r') = tm_rotation_cursor (r_machine r)"
  using assms quiet_keeps [of "r_budget r" "r_budget r'"]
  by (simp_all add: calm_def used_def allowed_def quiet_reaches)

lemma calm_credit: "calm 0 r r' \<Longrightarrow> credit r' \<le> credit r"
  using calm_keeps [of 0 r r'] by (simp add: credit_def)

lemma check_interruption_instructions:
  "eu_instructions (b_usage (snd (check_interruption c n b))) = eu_instructions (b_usage b)"
  "b_limits (snd (check_interruption c n b)) = b_limits b"
  by (simp_all add: check_interruption_def Let_def)

lemma count_instruction_counts:
  "case count_instruction b of (x, b') \<Rightarrow>
     b_limits b' = b_limits b \<and>
     (case x of
        Inl _ \<Rightarrow> eu_instructions (b_usage b') = eu_instructions (b_usage b)
      | Inr _ \<Rightarrow>
          unat (eu_instructions (b_usage b')) = Suc (unat (eu_instructions (b_usage b))) \<and>
          eu_instructions (b_usage b') \<le> el_instructions (b_limits b))"
proof (cases "checked_add_u64 (eu_instructions (b_usage b)) 1")
  case (Some n)
  then have "unat n = Suc (unat (eu_instructions (b_usage b)))"
    by (auto simp: checked_add_u64_def unat_word_ariths split: if_splits)
  with Some show ?thesis by (auto simp: count_instruction_def)
qed (simp add: count_instruction_def)

lemma charge_instruction_counts:
  "case charge_instruction cp c n b of (x, b') \<Rightarrow>
     b_limits b' = b_limits b \<and>
     (case x of
        Inl _ \<Rightarrow> eu_instructions (b_usage b') = eu_instructions (b_usage b)
      | Inr _ \<Rightarrow>
          unat (eu_instructions (b_usage b')) = Suc (unat (eu_instructions (b_usage b))) \<and>
          eu_instructions (b_usage b') \<le> el_instructions (b_limits b))"
proof -
  obtain x b1 where x: "check_interruption c n (b\<lparr>b_checkpoints := b_checkpoints b @ [cp]\<rparr>) = (x, b1)" by force
  obtain z b2 where z: "count_instruction b1 = (z, b2)" by force
  show ?thesis
    using x z check_interruption_instructions [of c n "b\<lparr>b_checkpoints := b_checkpoints b @ [cp]\<rparr>"] count_instruction_counts [of b1]
    by (cases x; cases z) (simp_all add: charge_instruction_def vm_bind_def)
qed

lemma read_interruption_world: "\<exists>w. snd (read_interruption env r) = r\<lparr>r_world := w\<rparr>"
  by (auto simp: read_interruption_def vm_bind_def on_world_def vm_return_def split: prod.splits sum.splits)

lemma charge_step_spends:
  assumes "charge_step env cp r = (x, r')"
  shows "r_machine r' = r_machine r \<and> r_heap r' = r_heap r \<and> reaches budget_step (r_budget r) (r_budget r') \<and>
    allowed r' = allowed r \<and> (case x of Inl _ \<Rightarrow> used r' = used r | Inr _ \<Rightarrow> used r' = Suc (used r) \<and> used r' \<le> allowed r)"
proof -
  obtain y r1 where y: "read_interruption env r = (y, r1)" by force
  with read_interruption_world [of env r] obtain w where r1: "r1 = r\<lparr>r_world := w\<rparr>" by auto
  show ?thesis
  proof (cases y)
    case (Inl e)
    with y r1 assms show ?thesis by (auto simp: charge_step_def vm_bind_def reaches_refl used_def allowed_def)
  next
    case (Inr cn)
    obtain z b where z: "charge_instruction cp (fst cn) (snd cn) (r_budget r) = (z, b)" by force
    then have "budget_step (r_budget r) b" using step_charge_instruction by (metis snd_conv)
    then have "reaches budget_step (r_budget r) b" by (blast intro: reaches.intros)
    with y Inr r1 z assms charge_instruction_counts [where cp = cp and c = "fst cn" and n = "snd cn" and b = "r_budget r"] show ?thesis
      by (auto simp: charge_step_def vm_bind_def on_budget_def used_def allowed_def word_le_nat_alt split: sum.splits prod.splits)
  qed
qed

lemma running_unfinished: "running i r \<Longrightarrow> 0 < unfinished (r_machine r)"
proof -
  assume "running i r"
  then obtain t where t: "bt_wf (tm_tasks (r_machine r))" "bt_get (tm_tasks (r_machine r)) i = Some t" "\<not> is_completed (mt_state t)"
    by (auto simp: running_def find_task_def)
  from unfinished_set_task [OF t(1), of i "t\<lparr>mt_state := TaskCompleted (Inr VUnit)\<rparr>"] t(2,3)
  show ?thesis by simp
qed

text \<open>A step of a task spends an instruction, or fails and changes nothing but the account.\<close>

lemma machine_step_credit:
  assumes "running i r" "machine_step cx i r = (x, r')"
  shows "reaches budget_step (r_budget r) (r_budget r') \<and> bt_wf (tm_tasks (r_machine r')) \<and> allowed r' = allowed r \<and>
    tm_rotation_cursor (r_machine r') = tm_rotation_cursor (r_machine r) \<and>
    (Suc (credit r') \<le> credit r \<or> isl x \<and> r_machine r' = r_machine r \<and> used r' = used r)"
proof -
  from assms(1) obtain task where task: "find_task r i = Some task" "bt_wf (tm_tasks (r_machine r))"
    by (auto simp: running_def)
  have same: ?thesis if "isl x" "r' = r"
    using that task(2) by (simp add: reaches_refl)
  show ?thesis
  proof (cases "mt_frames task = []")
    case True
    with assms(2) task(1) show ?thesis by (intro same) (auto simp: machine_step_def)
  next
    case False
    let ?frame = "last (mt_frames task)"
    let ?pc = "mf_program_counter ?frame"
    show ?thesis
    proof (cases "fetch_function (cx_module cx) (mf_function ?frame) ''function is missing''")
      case (Inl e)
      with False assms(2) task(1) show ?thesis
        by (intro same) (auto simp: machine_step_def Let_def vm_bind_def vm_lift_def)
    next
      case (Inr fn)
      note fetched = Inr
      show ?thesis
      proof (cases "nth_value (fn_code fn) ?pc = None \<or> 2 ^ 32 \<le> ?pc")
        case True
        with fetched False assms(2) task(1) show ?thesis
          by (intro same) (auto simp: machine_step_def Let_def vm_bind_def vm_lift_def vm_fail_def ok_or_def split: option.splits)
      next
        case small: False
        then obtain ins where ins: "nth_value (fn_code fn) ?pc = Some ins" by auto
        let ?cp = "\<lparr>cp_function = mf_function ?frame, cp_instruction = of_nat ?pc\<rparr>"
        let ?frame1 = "?frame\<lparr>mf_program_counter := Suc ?pc\<rparr>"
        let ?task = "task\<lparr>mt_frames := butlast (mt_frames task) @ [?frame1]\<rparr>"
        obtain c r1 where c: "charge_step (cx_environment cx) ?cp r = (c, r1)" by force
        note spent = charge_step_spends [OF c]
        have step: "machine_step cx i r = (case c of Inl e \<Rightarrow> (Inl e, r1) | Inr _ \<Rightarrow>
            exec_instruction cx i ?task ?frame1 fn ?pc ins (put_frame i task ?frame1 r1))"
          using fetched False ins small task(1) c
          by (simp add: machine_step_def Let_def vm_bind_def vm_lift_def ok_or_def modify_def split: sum.splits)
        show ?thesis
        proof (cases c)
          case (Inl e)
          with step assms(2) spent task(2) show ?thesis by auto
        next
          case (Inr unit)
          let ?r = "put_frame i task ?frame1 r1"
          have "running i r1" using assms(1) spent by (simp add: running_def find_task_def)
          have put: "calm 0 r1 ?r" "running i ?r"
            using set_task_same_state [of r1 i task ?task] task spent \<open>running i r1\<close>
            by (simp_all add: put_frame_def find_task_def)
          have "calm 1 ?r r'" using ends_calmlyD [OF ends_instruction put(2)] step Inr assms(2) by (metis snd_conv sum.case(2))
          with calm_trans [OF put(1)] have calm: "calm 1 r1 r'" by fastforce
          note keeps = calm_keeps [OF calm]
          have "Suc (credit r') \<le> credit r" using keeps spent Inr by (auto simp: credit_def)
          then show ?thesis using keeps spent by (auto intro: reaches_trans)
        qed
      qed
    qed
  qed
qed

section \<open>Turns\<close>

lemma calm_fail_scheduled:
  assumes "bt_wf (tm_tasks (r_machine r))" "fail_scheduled i owner failure r = Next r'"
  shows "calm 0 r r' \<and> (running i r \<longrightarrow> unfinished (r_machine r') < unfinished (r_machine r))"
proof -
  from assms(2) obtain c m task where m: "(if i = 0 then Some (None, r_machine r) else cancel_descendants i (r_machine r)) = Some (c, m)"
    and task: "bt_get (tm_tasks m) i = Some task"
    by (auto simp: fail_scheduled_def split: option.splits if_splits)
  have shrinks: "shrinks (r_machine r) m"
    using m by (auto simp: shrinks_refl dest: shrinks_cancel_descendants split: if_splits)
  then have wf: "bt_wf (tm_tasks m)" and "bt_get (tm_tasks (r_machine r)) i = Some task" "unfinished m \<le> unfinished (r_machine r)"
    "tm_rotation_cursor m = tm_rotation_cursor (r_machine r)"
    using assms(1) task by (auto simp: shrinks_def)
  then show ?thesis
    using assms(2) m task unfinished_set_task [OF wf, of i "task\<lparr>mt_state := TaskCompleted (Inl (cleanup_failure failure c))\<rparr>"]
    by (auto simp: fail_scheduled_def calm_def running_def find_task_def reaches_refl set_task_def bt_wf_insert split: if_splits)
qed

lemma only_root:
  "bt_wf ts \<Longrightarrow> \<forall>x\<in>set ts. fst x = i \<Longrightarrow> filter (\<lambda>(i, t). P t) (bt_insert i t ts) = (if P t then [(i, t)] else [])"
  by (cases ts rule: bt_wf.cases) (auto simp: filter_empty_conv)

lemma cancel_all_root: "\<forall>x\<in>set (tm_tasks (snd (cancel_all m))). fst x = 0"
proof -
  have "tm_tasks (emit_cancelled xs m) = tm_tasks m" for xs m
    by (induction xs m rule: emit_cancelled.induct) auto
  then show ?thesis by (auto simp: cancel_all_def Let_def charge_cleanup_keeps)
qed

lemma calm_fail_program:
  assumes "bt_wf (tm_tasks (r_machine r))" "fail_program cx failure r = Next r'"
  shows "calm 0 r r' \<and> unfinished (r_machine r') = 0"
proof -
  obtain c r1 where c: "cancel_tasks (cancel_providers (cx_environment cx) r) = (c, r1)" by force
  have calm: "calm 0 r r1" using calm_cancel_tasks [OF assms(1), of "cx_environment cx"] c by simp
  have root: "\<forall>x\<in>set (tm_tasks (r_machine r1)). fst x = 0"
    using c cancel_all_root [of "r_machine (cancel_providers (cx_environment cx) r)"] by (auto simp: cancel_tasks_def split: prod.splits)
  from assms(2) c obtain root failure' where
    r': "r' = on_machine (\<lambda>m. emit_event 0 0 (terminal_event (tf_error failure'))
      (set_task 0 (root\<lparr>mt_state := TaskCompleted (Inl failure')\<rparr>) m)) (on_machine (note_cleanup c) r1)"
    by (auto simp: fail_program_def Let_def split: option.splits)
  show ?thesis
    using calm only_root [OF calm_keeps(3) [OF calm] root, of "\<lambda>t. \<not> is_completed (mt_state t)"] calm_keeps(3) [OF calm]
    unfolding r' by (simp add: calm_def on_machine_def set_task_def note_cleanup_def unfinished_def bt_wf_insert)
qed

lemma run_task_credit:
  assumes "running i r" "run_task cx i r = Next r'"
  shows "reaches budget_step (r_budget r) (r_budget r') \<and> bt_wf (tm_tasks (r_machine r')) \<and> allowed r' = allowed r \<and>
    tm_rotation_cursor (r_machine r') = Some i \<and> Suc (credit r') \<le> credit r"
proof -
  let ?r = "on_machine (\<lambda>m. m\<lparr>tm_rotation_cursor := Some i\<rparr>) r"
  have run: "running i ?r" using assms(1) by (simp add: running_def find_task_def on_machine_def)
  have same [simp]: "credit ?r = credit r" "r_budget ?r = r_budget r" "allowed ?r = allowed r"
      "tm_rotation_cursor (r_machine ?r) = Some i"
    by (simp_all add: credit_def used_def allowed_def on_machine_def)
  obtain x r1 where x: "machine_step cx i ?r = (x, r1)" by force
  note step = machine_step_credit [OF run x]
  show ?thesis
  proof (cases x)
    case (Inr u)
    with assms(2) x have "r' = r1" by (simp add: run_task_def Let_def)
    with step Inr show ?thesis by simp
  next
    case (Inl e)
    have wf: "bt_wf (tm_tasks (r_machine r1))" using step by simp
    from assms(2) x Inl obtain failure owner where
      "fail_program cx failure r1 = Next r' \<or> fail_scheduled i owner failure r1 = Next r'"
      by (auto simp: run_task_def Let_def split: option.splits if_splits)
    then have calm: "calm 0 r1 r'" and ends: "running i r1 \<Longrightarrow> unfinished (r_machine r') < unfinished (r_machine r1)"
      using calm_fail_program [OF wf] calm_fail_scheduled [OF wf] running_unfinished by metis+
    have "Suc (credit r') \<le> credit r"
    proof (cases "Suc (credit r1) \<le> credit ?r")
      case True
      then show ?thesis using calm_credit [OF calm] by simp
    next
      case False
      with step have m: "r_machine r1 = r_machine ?r" "used r1 = used ?r" "allowed r1 = allowed ?r" by auto
      then have "running i r1" using run by (simp add: running_def find_task_def)
      from ends [OF this] m calm_keeps [OF calm] have "Suc (credit r') \<le> credit ?r" by (simp add: credit_def)
      then show ?thesis by simp
    qed
    with step calm_keeps [OF calm] show ?thesis by (auto intro: reaches_trans)
  qed
qed

text \<open>What a turn does before it looks for a ready task.\<close>

definition turn_start :: "'w machine_context \<Rightarrow> 'w run \<Rightarrow> 'w run option" where
  "turn_start cx r =
     map_option (\<lambda>r.
       if root_failed (r_machine r)
       then (case cancel_tasks (cancel_providers (cx_environment cx) r) of (cleanup, r) \<Rightarrow>
               on_machine (note_cleanup cleanup) r)
       else r) (wake_waiters (cx_environment cx) (cx_module cx) r)"

lemma machine_turn_parts:
  "machine_turn cx r =
     (case turn_start cx r of
        None \<Rightarrow> Panic
      | Some r \<Rightarrow> (case next_ready (r_machine r) of None \<Rightarrow> no_ready_task cx r | Some i \<Rightarrow> run_task cx i r))"
  by (simp add: machine_turn_def turn_start_def Let_def split: option.splits)

lemma calm_turn_start:
  assumes "bt_wf (tm_tasks (r_machine r))" "turn_start cx r = Some r'"
  shows "calm 0 r r'"
proof -
  from assms(2) obtain r1 where w: "wake_waiters (cx_environment cx) (cx_module cx) r = Some r1"
    by (auto simp: turn_start_def)
  then have calm: "calm 0 r r1" unfolding wake_waiters_def by (rule calm_wake_each [OF assms(1)])
  have "calm 0 r1 (on_machine (note_cleanup c) r2)"
    if "cancel_tasks (cancel_providers (cx_environment cx) r1) = (c, r2)" for c r2
    using calm_cancel_tasks [OF calm_keeps(3) [OF calm], of "cx_environment cx"] that
    by (simp add: calm_def on_machine_def note_cleanup_def)
  then have "calm 0 r (on_machine (note_cleanup c) r2)"
    if "cancel_tasks (cancel_providers (cx_environment cx) r1) = (c, r2)" for c r2
    using calm_trans0 [OF calm] that by blast
  with calm w assms(2) show ?thesis by (auto simp: turn_start_def split: if_splits prod.splits)
qed

lemma next_ready_runs:
  assumes "bt_wf (tm_tasks (r_machine r))" "next_ready (r_machine r) = Some i"
  shows "running i r"
proof -
  have "ready (r_machine r) i" using next_ready_least [OF assms] by simp
  with assms(1) show ?thesis by (auto simp: ready_def running_def find_task_def)
qed

text \<open>A turn of a machine with an ordered task table keeps it ordered and spends the budget by its operations
  only; if it runs a task it takes a credit, and otherwise the machine waits for an effect.\<close>

definition waiting_turn :: "'w machine_context \<Rightarrow> 'w run \<Rightarrow> bool" where
  "waiting_turn cx r =
     (case turn_start cx r of
        None \<Rightarrow> False
      | Some r \<Rightarrow> next_ready (r_machine r) = None \<and> waits_for_effect (r_machine r))"

lemma interruption_calm:
  assumes "bt_wf (tm_tasks (r_machine r))"
  shows "calm 0 r (snd (vm_bind (read_interruption env) (\<lambda>(cancelled, now). on_budget (check_interruption cancelled now)) r))"
proof -
  obtain y r1 where y: "read_interruption env r = (y, r1)" by force
  with read_interruption_world [of env r] obtain w where r1: "r1 = r\<lparr>r_world := w\<rparr>" by auto
  have "reaches quiet_step b (snd (check_interruption c n b))" for b c n
    by (blast intro: reaches.intros quiet_check_interruption)
  then show ?thesis
    using y r1 assms by (cases y) (auto simp: vm_bind_def calm_def reaches_refl on_budget_snd split: prod.splits)
qed

lemma no_ready_next:
  assumes "bt_wf (tm_tasks (r_machine r))" "no_ready_task cx r = Next r'"
  shows "calm 0 r r' \<and> waits_for_effect (r_machine r)"
  using assms interruption_calm [OF assms(1), of "cx_environment cx"]
  by (auto simp: no_ready_task_def abort_def final_cleanup_def split: option.splits machine_task_state.splits sum.splits
      vm_error.splits if_splits prod.splits)

lemma turn_credit:
  assumes "bt_wf (tm_tasks (r_machine r))" "machine_turn cx r = Next r'"
  shows "reaches budget_step (r_budget r) (r_budget r') \<and> bt_wf (tm_tasks (r_machine r')) \<and> allowed r' = allowed r \<and>
    credit r' + (if waiting_turn cx r then 0 else 1) \<le> credit r"
proof -
  from assms(2) obtain r1 where r1: "turn_start cx r = Some r1"
    by (auto simp: machine_turn_parts split: option.splits)
  note calm = calm_turn_start [OF assms(1) r1]
  note keeps = calm_keeps [OF calm]
  show ?thesis
  proof (cases "next_ready (r_machine r1)")
    case None
    with r1 assms(2) have "no_ready_task cx r1 = Next r'" by (simp add: machine_turn_parts)
    from no_ready_next [OF keeps(3) this] have last: "calm 0 r1 r'" "waiting_turn cx r"
      using None r1 by (simp_all add: waiting_turn_def)
    from calm_trans0 [OF calm last(1)] last(2) show ?thesis
      using calm_keeps [of 0 r r'] calm_credit by simp
  next
    case (Some i)
    with r1 assms(2) have "run_task cx i r1 = Next r'" by (simp add: machine_turn_parts)
    from run_task_credit [OF next_ready_runs [OF keeps(3) Some] this] keeps calm_credit [OF calm] Some r1
    show ?thesis by (auto simp: waiting_turn_def intro: reaches_trans)
  qed
qed

fun waiting_turns :: "nat \<Rightarrow> 'w machine_context \<Rightarrow> 'w run \<Rightarrow> nat" where
  "waiting_turns 0 cx r = 0"
| "waiting_turns (Suc n) cx r =
     (if waiting_turn cx r then 1 else 0) + (case machine_turn cx r of Next r \<Rightarrow> waiting_turns n cx r | _ \<Rightarrow> 0)"

lemma turns_credit:
  "bt_wf (tm_tasks (r_machine r)) \<Longrightarrow> machine_turns n cx r = Next r' \<Longrightarrow>
   reaches budget_step (r_budget r) (r_budget r') \<and> bt_wf (tm_tasks (r_machine r')) \<and> n + credit r' \<le> credit r + waiting_turns n cx r"
proof (induction n cx r rule: machine_turns.induct)
  case (2 n cx r)
  then obtain r1 where r1: "machine_turn cx r = Next r1" by (auto split: turn.splits)
  from turn_credit [OF "2.prems"(1) r1] 2 r1 show ?case by (auto intro: reaches_trans)
qed (auto simp: reaches_refl)



lemma calm_end:
  assumes "bt_wf (tm_tasks (r_machine r))"
  shows "calm 0 r r" "abort cx e r = Done x r' \<Longrightarrow> calm 0 r r'" "final_cleanup cx r = (c, r') \<Longrightarrow> calm 0 r r'"
proof -
  show "calm 0 r r" using assms by (simp add: calm_def reaches_refl)
  show "abort cx e r = Done x r' \<Longrightarrow> calm 0 r r'"
    using calm_cancel_tasks [OF assms, of "cx_environment cx"] by (auto simp: abort_def split: prod.splits)
  show "final_cleanup cx r = (c, r') \<Longrightarrow> calm 0 r r'"
    using calm_cancel_tasks [OF assms, of "cx_environment cx"] calm_cancel_providers [OF assms, of "cx_environment cx"]
    by (auto simp: final_cleanup_def Let_def split: option.splits)
qed

lemma no_ready_done:
  assumes "bt_wf (tm_tasks (r_machine r))" "no_ready_task cx r = Done x r'"
  shows "calm 0 r r'"
proof -
  let ?i = "vm_bind (read_interruption (cx_environment cx)) (\<lambda>(cancelled, now). on_budget (check_interruption cancelled now)) r"
  have calm: "calm 0 r (snd ?i)" by (rule interruption_calm [OF assms(1)])
  have stopped: "calm 0 r r'" if "abort cx e (snd ?i) = Done x r'" for e
    using calm_trans0 [OF calm calm_end(2) [OF calm_keeps(3) [OF calm] that]] .
  obtain c r1 where f: "final_cleanup cx r = (c, r1)" by force
  have interrupted: "calm 0 r r'" if "(case ?i of (Inl error, r) \<Rightarrow> abort cx error r | (Inr _, r) \<Rightarrow> Next r) = Done x r'"
    using that stopped by (cases ?i; cases "fst ?i") auto
  show ?thesis
    using assms(2) calm_end(1) [OF assms(1)] calm_end(2) [OF assms(1), of cx _ x r'] calm_end(3) [OF assms(1) f] f interrupted
    unfolding no_ready_task_def
    by (simp split: option.splits machine_task_state.splits sum.splits vm_error.splits if_splits)
qed

lemma turn_done:
  assumes "bt_wf (tm_tasks (r_machine r))" "machine_turn cx r = Done x r'"
  shows "reaches budget_step (r_budget r) (r_budget r')"
proof -
  from assms(2) obtain r1 where r1: "turn_start cx r = Some r1"
    by (auto simp: machine_turn_parts split: option.splits)
  note calm = calm_turn_start [OF assms(1) r1]
  have "run_task cx i r1 \<noteq> Done x r'" for i
    by (auto simp: run_task_def fail_program_def fail_scheduled_def Let_def split: prod.splits sum.splits option.splits)
  with r1 assms(2) have "no_ready_task cx r1 = Done x r'" by (auto simp: machine_turn_parts split: option.splits)
  from calm_trans0 [OF calm no_ready_done [OF calm_keeps(3) [OF calm] this]] show ?thesis by (rule calm_keeps(5))
qed

lemma turns_done:
  "bt_wf (tm_tasks (r_machine r)) \<Longrightarrow> machine_turns n cx r = Done x r' \<Longrightarrow> reaches budget_step (r_budget r) (r_budget r')"
proof (induction n cx r rule: machine_turns.induct)
  case (2 n cx r)
  show ?case
  proof (cases "machine_turn cx r")
    case (Next r1)
    with 2 turn_credit [OF "2.prems"(1) Next] show ?thesis by (auto intro: reaches_trans)
  next
    case (Done y r1)
    with 2 turn_done [OF "2.prems"(1) Done] show ?thesis by simp
  qed (use 2 in simp)
qed simp

lemma started:
  assumes "start_machine cx entry arguments b w = Inr r"
  shows "bt_wf (tm_tasks (r_machine r))" "reaches quiet_step b (r_budget r)" "unfinished (r_machine r) = 1"
proof -
  from assms obtain root b1 where f: "new_machine_frame (cx_module cx) entry arguments [] None 1 b = (Inr root, b1)"
    by (auto simp: start_machine_def split: prod.splits sum.splits)
  have "spending (new_machine_frame (cx_module cx) entry arguments [] None 1)" by (intro spends)
  then have "reaches quiet_step b b1" using f unfolding spending_def by (metis snd_conv)
  with assms f show "bt_wf (tm_tasks (r_machine r))" "reaches quiet_step b (r_budget r)" "unfinished (r_machine r) = 1"
    by (auto simp: start_machine_def unfinished_def set_task_def machine_new_def bt_empty_def)
qed

text \<open>The machine of the \<open>n\<close>-th turn when it looks for a ready task. The task it chooses is the rotation
  cursor of the turn after it.\<close>

definition turn_state :: "nat \<Rightarrow> 'w machine_context \<Rightarrow> 'w run \<Rightarrow> 'w run option" where
  "turn_state n cx r = (case machine_turns n cx r of Next r \<Rightarrow> turn_start cx r | _ \<Rightarrow> None)"

lemma machine_turns_Suc:
  "machine_turns (Suc n) cx r = (case machine_turns n cx r of Next r \<Rightarrow> machine_turn cx r | other \<Rightarrow> other)"
proof (induction n cx r rule: machine_turns.induct)
  case (2 n cx r)
  then show ?case by (cases "machine_turn cx r") simp_all
qed (simp split: turn.split)

lemma turn_state_wf:
  assumes "bt_wf (tm_tasks (r_machine r))" "turn_state n cx r = Some t"
  shows "bt_wf (tm_tasks (r_machine t))"
  using assms turns_credit [OF assms(1), of n cx] calm_keeps(3) [OF calm_turn_start]
  by (auto simp: turn_state_def split: turn.splits)

lemma turn_state_runs:
  assumes "turn_state n cx r = Some t" "next_ready (r_machine t) = Some i"
  shows "machine_turns (Suc n) cx r = run_task cx i t"
  using assms by (auto simp: machine_turns_Suc turn_state_def machine_turn_parts simp del: machine_turns.simps split: turn.splits)

lemma turn_state_cursor:
  assumes "bt_wf (tm_tasks (r_machine r))" "turn_state n cx r = Some t" "turn_state (Suc n) cx r = Some u"
    "next_ready (r_machine t) = Some i"
  shows "tm_rotation_cursor (r_machine u) = Some i"
proof -
  from assms(3) obtain r1 where r1: "machine_turns (Suc n) cx r = Next r1" "turn_start cx r1 = Some u"
    by (auto simp: turn_state_def simp del: machine_turns.simps split: turn.splits)
  have wf: "bt_wf (tm_tasks (r_machine t))" by (rule turn_state_wf [OF assms(1,2)])
  have "run_task cx i t = Next r1" using turn_state_runs [OF assms(2,4)] r1(1) by simp
  from run_task_credit [OF next_ready_runs [OF wf assms(4)] this] calm_keeps(6) [OF calm_turn_start [OF _ r1(2)]]
  show ?thesis by simp
qed

text \<open>A program that jumps to itself, and an environment without effects.\<close>

definition looping_module :: module_def where
  "looping_module =
     \<lparr>md_constants = [], md_enum_types = [],
      md_functions = [\<lparr>fn_name = ''main'', fn_parameters = [], fn_captures = [], fn_registers = [], fn_code = [Control (IJump 0)]\<rparr>],
      md_async_functions = []\<rparr>"

definition idle_environment :: "unit environment" where
  "idle_environment =
     \<lparr>env_start_call = (\<lambda>p op vs w. (Inl CapabilityMissing, w)), env_start_tool = (\<lambda>p t v ty w. (Inl CapabilityMissing, w)),
      env_start_agent = (\<lambda>p op vs ty w. (Inl CapabilityMissing, w)), env_poll_effect = (\<lambda>p w. (Inr PollPending, w)),
      env_cancel_effect = (\<lambda>p w. w), env_cancel_pending = (\<lambda>w. w), env_workspace = (\<lambda>w. (Inl CapabilityMissing, w)),
      env_is_cancelled = (\<lambda>w. (False, w)), env_now = (\<lambda>w. (0, w)), env_source_location = (\<lambda>f i. None)\<rparr>"

definition looping_context :: "unit machine_context" where
  "looping_context =
     \<lparr>cx_module = looping_module, cx_templates = [], cx_environment = idle_environment, cx_capabilities = [],
      cx_floats = \<lparr>fl_binary = (\<lambda>op a b. 0), fl_of_int = (\<lambda>i. 0), fl_debug = (\<lambda>b. []), fl_fixed = (\<lambda>b n. [])\<rparr>,
      cx_base64_decode = (\<lambda>s. None), cx_base64_encode = (\<lambda>b. []), cx_json_syntax = (\<lambda>s. (DeUnit, True))\<rparr>"

definition two_instructions :: execution_limits where
  "two_instructions = default_limits\<lparr>el_instructions := 2\<rparr>"

lemmas looping_defs = looping_context_def looping_module_def idle_environment_def two_instructions_def default_limits_def

lemmas looping_eval = start_machine_def new_machine_frame_def vm_bind_def vm_lift_def vm_return_def fetch_function_def
    nth_value_def looping_defs enter_frame_def budget_new_def charge_size_def frame_size_def charge_allocation_def
    checked_add_u64_def warn_once_def Let_def result_simps logical_size_def checked_mul_u64_def
    machine_turn_def wake_waiters_def set_task_def emit_event_def machine_new_def bt_empty_def root_failed_def bt_get_def next_ready_def
    run_task_def find_task_def on_machine_def machine_step_def charge_step_def read_interruption_def on_world_def on_budget_def
    charge_instruction_def check_interruption_def count_instruction_def ok_or_def modify_def put_frame_def exec_instruction_def exec_control_def jump_def
    FRAME_BASE_BYTES_def REGISTER_BYTES_def DURATION_MAX_def

lemma looping_starts:
  "\<exists>r. start_machine looping_context 0 [] (budget_new two_instructions 0) () = Inr r \<and>
    (\<exists>r'. machine_turns 1 looping_context r = Next r')"
  by (simp add: looping_eval)

lemma looping_turns:
  "\<exists>r t u. start_machine looping_context 0 [] (budget_new two_instructions 0) () = Inr r \<and>
     turn_state 0 looping_context r = Some t \<and> turn_state 1 looping_context r = Some u \<and>
     ready (r_machine t) = (\<lambda>j. j = 0) \<and> ready (r_machine u) = (\<lambda>j. j = 0)"
  by (simp add: looping_eval turn_state_def turn_start_def ready_def fun_eq_iff)



text \<open>(C5) However far an execution has come, whether it goes on or has ended, its instructions, allocated
  bytes, call depth, live tasks and effects in flight are within the limits it was started with.\<close>

theorem execution_within_limits:
  assumes "start_machine cx entry arguments (budget_new limits now) w = Inr r"
    and "machine_turns n cx r = Next r' \<or> machine_turns n cx r = Done outcome r'"
  shows "eu_instructions (b_usage (r_budget r')) \<le> el_instructions limits \<and>
    eu_allocation_bytes (b_usage (r_budget r')) \<le> el_allocation_bytes limits \<and>
    eu_maximum_call_depth (b_usage (r_budget r')) \<le> el_call_depth limits \<and>
    eu_maximum_live_tasks (b_usage (r_budget r')) \<le> el_tasks limits \<and>
    ec_active (b_effects (r_budget r')) \<le> eu_maximum_concurrent_effects (b_usage (r_budget r')) \<and>
    eu_maximum_concurrent_effects (b_usage (r_budget r')) \<le> el_concurrent_effects limits"
proof -
  note start = started [OF assms(1)]
  have "reaches budget_step (r_budget r) (r_budget r')" using turns_credit [OF start(1)] turns_done [OF start(1)] assms(2) by blast
  from reaches_trans [OF this quiet_reaches [OF start(2)]]
  have reached: "reaches budget_step (budget_new limits now) (r_budget r')" .
  then have "within_limits (r_budget r')" "b_limits (r_budget r') = limits"
    using budget.reaches_inv [OF reached budget_new_ok] reaches_limits [OF reached] by (simp_all add: budget_ok_def budget_new_def)
  then show ?thesis by (auto simp: within_limits_def)
qed

theorem execution_within_limits_witness:
  "\<exists>r r'. start_machine looping_context 0 [] (budget_new two_instructions 0) () = Inr r \<and>
     machine_turns 1 looping_context r = Next r' \<and> eu_instructions (b_usage (r_budget r')) \<le> 2"
proof -
  obtain r r' where r: "start_machine looping_context 0 [] (budget_new two_instructions 0) () = Inr r"
    "machine_turns 1 looping_context r = Next r'"
    using looping_starts by blast
  with execution_within_limits [OF r(1) disjI1 [OF r(2)]] show ?thesis by (auto simp: two_instructions_def)
qed

text \<open>(C36) A ready task is not starved: if at \<open>N + 1\<close> successive turns of an execution it is ready when
  the turn looks for one, and no ready task has an identifier above \<open>N\<close>, then one of these turns
  chooses it and runs it.\<close>

theorem ready_task_is_scheduled:
  assumes "start_machine cx entry arguments b w = Inr r"
    and "\<forall>k\<le>N. turn_state (m + k) cx r = Some (ts k)"
    and "\<forall>k\<le>N. ready (r_machine (ts k)) i"
    and "\<forall>k\<le>N. \<forall>j. ready (r_machine (ts k)) j \<longrightarrow> unat j \<le> N"
  shows "\<exists>k\<le>N. next_ready (r_machine (ts k)) = Some i \<and> machine_turns (Suc (m + k)) cx r = run_task cx i (ts k)"
proof -
  have wf: "bt_wf (tm_tasks (r_machine (ts k)))" if "k \<le> N" for k
    using turn_state_wf [OF started(1) [OF assms(1)]] assms(2) that by blast
  have "tm_rotation_cursor (r_machine (ts (Suc k))) = next_ready (r_machine (ts k))" if "Suc k \<le> N" for k
  proof -
    have k: "k \<le> N" and "ready (r_machine (ts k)) i" using assms(3) that by simp_all
    then obtain c where c: "next_ready (r_machine (ts k)) = Some c"
      using next_ready_None [OF wf [OF k]] by (cases "next_ready (r_machine (ts k))") auto
    with turn_state_cursor [OF started(1) [OF assms(1)] _ _ c, of "m + k" cx "ts (Suc k)"] assms(2) that
    show ?thesis by (fastforce dest: spec [of _ "Suc k"])
  qed
  with wf have "turns (r_machine \<circ> ts) (Suc N)" by (simp add: turns_def)
  with turns_reach [of "r_machine \<circ> ts" N i] assms(3,4) obtain k where
    k: "k \<le> N" "next_ready (r_machine (ts k)) = Some i" by auto
  with turn_state_runs [of "m + k" cx r "ts k" i] assms(2) show ?thesis by blast
qed

theorem ready_task_is_scheduled_witness:
  "\<exists>r t k. start_machine looping_context 0 [] (budget_new two_instructions 0) () = Inr r \<and>
     turn_state k looping_context r = Some t \<and> machine_turns (Suc k) looping_context r = run_task looping_context 0 t"
proof -
  obtain r t u where r: "start_machine looping_context 0 [] (budget_new two_instructions 0) () = Inr r"
    and t: "turn_state 0 looping_context r = Some t" "turn_state 1 looping_context r = Some u"
      "ready (r_machine t) = (\<lambda>j. j = 0)" "ready (r_machine u) = (\<lambda>j. j = 0)"
    using looping_turns by blast
  let ?ts = "\<lambda>k::nat. if k = 0 then t else u"
  have "\<exists>k\<le>1. next_ready (r_machine (?ts k)) = Some 0 \<and>
      machine_turns (Suc (0 + k)) looping_context r = run_task looping_context 0 (?ts k)"
    by (rule ready_task_is_scheduled [OF r]) (use t in \<open>auto simp: le_Suc_eq\<close>)
  then obtain k where k: "k \<le> 1" "machine_turns (Suc k) looping_context r = run_task looping_context 0 (?ts k)" by auto
  moreover from k(1) t have "turn_state k looping_context r = Some (?ts k)" by (auto simp: le_Suc_eq)
  ultimately show ?thesis using r by blast
qed

end
