(* ===== verification/Exec_Authority.thy ===== *)
theory Exec_Authority
  imports Payload_Text Vm_Value
begin

text \<open>
  Subprocesses: the command patterns of \<open>allen-exec/src/lib.rs\<close> and the authority over subprocesses of
  \<open>allen-runtime/src/lib.rs\<close>. The host grants commands and environment variables, the manifest of a program
  requests them, and the program calls \<open>exec.run\<close>. The search of an executable and the running of a
  process are the operating system's and arguments of the model.
\<close>

type_synonym i32 = "32 word"

section \<open>Command patterns\<close>

record command_pattern =
  cp_canonical :: string
  cp_prefix :: "string list"
  cp_remaining_wildcard :: bool

definition command_pattern_parse :: "string \<Rightarrow> command_pattern option" where
  "command_pattern_parse pattern =
     (if pattern = [] \<or> starts_with (CHR '' '') pattern \<or> ends_with (CHR '' '') pattern
         \<or> contains2 (CHR '' '') (CHR '' '') pattern
      then None
      else
        (case split_on (CHR '' '') pattern of
           [] \<Rightarrow> None
         | binary # rest \<Rightarrow>
             let tokens = binary # rest
             in if CHR ''/'' \<in> set binary \<or> binary = ''*'' then None
                else if bad_token tokens then None
                else
                  let remaining_wildcard = (last tokens = ''*'')
                  in Some \<lparr>cp_canonical = pattern,
                       cp_prefix = (if remaining_wildcard then butlast tokens else tokens),
                       cp_remaining_wildcard = remaining_wildcard\<rparr>))"


definition pattern_matches :: "command_pattern \<Rightarrow> string list \<Rightarrow> bool" where
  "pattern_matches p argv =
     (if (cp_remaining_wildcard p \<and> length argv < length (cp_prefix p))
         \<or> (\<not> cp_remaining_wildcard p \<and> length argv \<noteq> length (cp_prefix p))
      then False
      else list_all (\<lambda>(expected, actual). expected = actual) (zip (cp_prefix p) argv))"

definition pattern_covers :: "command_pattern \<Rightarrow> command_pattern \<Rightarrow> bool" where
  "pattern_covers p grant =
     (if cp_remaining_wildcard p then take (length (cp_prefix p)) (cp_prefix grant) = cp_prefix p
      else \<not> cp_remaining_wildcard grant \<and> cp_prefix grant = cp_prefix p)"

section \<open>Authority\<close>

text \<open>\<open>EnvironmentSnapshot\<close>: variables in the order of their names.\<close>

type_synonym environment_snapshot = "(string, string) btree_map"




record 'i exec_authority =
  xa_environment :: environment_snapshot
  xa_patterns :: "command_pattern list"
  xa_executables :: "(string, 'i) btree_map"
  xa_calls :: nat

datatype exec_error_kind =
    UnsupportedPlatform | ExecutableNotFound | ExecutablePreparationFailed | InvalidDeadline
  | InputLimitExceeded | StdoutLimitExceeded | StderrLimitExceeded | TimedOut | SpawnFailed
  | OutputReadFailed | TerminationFailed

record execution_request =
  rq_arguments :: "string list"
  rq_stdin :: bytes
  rq_stdin_limit :: nat
  rq_stdout_limit :: nat
  rq_stderr_limit :: nat
  rq_deadline :: nat

record execution_output =
  xo_code :: "i32 option"
  xo_signal :: "i32 option"
  xo_stdout :: bytes
  xo_stderr :: bytes

text \<open>The operating system: the search of a bare name along a search path, the digest of the image found,
  the deadline a budget gives, and the run of a process with an environment.\<close>

record 'i process_host =
  ph_resolve :: "string option \<Rightarrow> string \<Rightarrow> 'i option"
  ph_digest :: "'i \<Rightarrow> bytes"
  ph_sha256 :: "bytes \<Rightarrow> bytes"
  ph_deadline :: "nat \<Rightarrow> nat option"
  ph_run :: "environment_snapshot \<Rightarrow> 'i \<Rightarrow> execution_request \<Rightarrow> exec_error_kind + execution_output"










section \<open>Calls\<close>

definition result_value :: "u32 \<Rightarrow> vm_value \<Rightarrow> vm_value" where
  "result_value variant v =
     VEnum ResultEnum ''Result'' variant (if variant = 0 then ''Ok'' else ''Err'') (PTuple [v])"

definition exec_error_result :: "string \<Rightarrow> string \<Rightarrow> vm_value" where
  "exec_error_result code message =
     result_value 1 (VRecord [(''code'', VString code), (''message'', VString message)])"

fun argv_strings :: "vm_value list \<Rightarrow> string list option" where
  "argv_strings [] = Some []"
| "argv_strings (VString s # vs) = map_option ((#) s) (argv_strings vs)"
| "argv_strings _ = None"

text \<open>The sum of lengths is bounded by the address space and does not saturate.\<close>

definition argv_invalid :: "string list \<Rightarrow> bool" where
  "argv_invalid argv \<longleftrightarrow>
     argv = [] \<or> length argv > 256 \<or> sum_list (map length argv) > 1024 * 1024
     \<or> (\<exists>a\<in>set argv. length a > 64 * 1024 \<or> char_of (0::nat) \<in> set a) \<or> CHR ''/'' \<in> set (hd argv)"

fun stdin_bytes :: "vm_value \<Rightarrow> vm_error + bytes" where
  "stdin_bytes (VEnum identity _ variant _ payload) =
     (if identity = OptionEnum
      then (case (variant, payload) of
              (_, PUnit) \<Rightarrow> if variant = 0 then Inr [] else Inl (Invariant ''exec.run stdin option payload'')
            | (_, PTuple [VBytes b]) \<Rightarrow> if variant = 1 then Inr b else Inl (Invariant ''exec.run stdin option payload'')
            | (_, PTuple [_]) \<Rightarrow> if variant = 1 then Inl (Invariant ''exec.run stdin bytes type'')
                else Inl (Invariant ''exec.run stdin option payload'')
            | _ \<Rightarrow> Inl (Invariant ''exec.run stdin option payload''))
      else Inl (Invariant ''exec.run stdin option type''))"
| "stdin_bytes _ = Inl (Invariant ''exec.run argument type'')"

text \<open>A call up to the point where the process is started: it ends with an error of the machine, with a result
  for the program, or with the executable and the request for the broker.\<close>

datatype 'i admission = Answer vm_value | Launch 'i execution_request

definition MIB :: nat where "MIB = 1024 * 1024"

definition FIVE_SECONDS :: nat where "FIVE_SECONDS = 5 * 10 ^ 9"

definition admit_stdin ::
  "'i process_host \<Rightarrow> 'i exec_authority \<Rightarrow> string list \<Rightarrow> vm_value \<Rightarrow> nat option \<Rightarrow> vm_error + 'i admission" where
  "admit_stdin h exec argv stdin time_left =
     (case stdin_bytes stdin of
        Inl e \<Rightarrow> Inl e
      | Inr bytes \<Rightarrow>
          if length bytes > MIB
          then Inr (Answer (exec_error_result ''exec.stdin_limit'' ''the subprocess stdin exceeds 1 MiB''))
          else
            (case bt_get (xa_executables exec) (hd argv) of
               None \<Rightarrow> Inr (Answer (exec_error_result ''exec.unavailable'' ''the subprocess executable is unavailable''))
             | Some executable \<Rightarrow>
                 let remaining = (case time_left of None \<Rightarrow> FIVE_SECONDS | Some t \<Rightarrow> min t FIVE_SECONDS)
                 in if remaining = 0 then Inr (Answer (exec_error_result ''exec.timeout'' ''the subprocess timed out''))
                    else
                      (case ph_deadline h remaining of
                         None \<Rightarrow> Inr (Answer (exec_error_result ''exec.timeout'' ''the subprocess timed out''))
                       | Some deadline \<Rightarrow>
                           Inr (Launch executable
                             \<lparr>rq_arguments = tl argv, rq_stdin = bytes, rq_stdin_limit = MIB, rq_stdout_limit = MIB,
                              rq_stderr_limit = MIB, rq_deadline = deadline\<rparr>))))"

definition admit_exec ::
  "'i process_host \<Rightarrow> bool \<Rightarrow> nat option \<Rightarrow> 'i exec_authority option \<Rightarrow> vm_value list \<Rightarrow>
    (vm_error + 'i admission) \<times> 'i exec_authority option" where
  "admit_exec h exec_run time_left authority arguments =
     (case authority of
        None \<Rightarrow> (Inr (Answer (exec_error_result ''exec.denied'' ''the subprocess capability was not granted'')), None)
      | Some exec \<Rightarrow>
          if \<not> exec_run
          then (Inr (Answer (exec_error_result ''exec.denied'' ''the subprocess capability was not granted'')), Some exec)
          else if xa_calls exec \<ge> 16
          then (Inr (Answer (exec_error_result ''exec.limit'' ''the subprocess call limit was reached'')), Some exec)
          else
            let exec = exec\<lparr>xa_calls := Suc (xa_calls exec)\<rparr>
            in (case arguments of
                  [VList vs, VEnum i t n v p] \<Rightarrow>
                    (case argv_strings vs of
                       None \<Rightarrow> Inl (Invariant ''exec.run argv type'')
                     | Some argv \<Rightarrow>
                         if argv_invalid argv
                         then Inr (Answer (exec_error_result ''exec.invalid_argv'' ''the subprocess argv is invalid''))
                         else if \<not> (\<exists>pattern\<in>set (xa_patterns exec). pattern_matches pattern argv)
                         then Inr (Answer (exec_error_result ''exec.denied'' ''the subprocess argv is not granted''))
                         else admit_stdin h exec argv (VEnum i t n v p) time_left)
                | _ \<Rightarrow> Inl (Invariant ''exec.run argument type''), Some exec))"

fun exec_error_text :: "exec_error_kind \<Rightarrow> string \<times> string" where
  "exec_error_text InputLimitExceeded = (''exec.stdin_limit'', ''the subprocess stdin exceeds 1 MiB'')"
| "exec_error_text StdoutLimitExceeded = (''exec.stdout_limit'', ''the subprocess stdout exceeds 1 MiB'')"
| "exec_error_text StderrLimitExceeded = (''exec.stderr_limit'', ''the subprocess stderr exceeds 1 MiB'')"
| "exec_error_text TimedOut = (''exec.timeout'', ''the subprocess timed out'')"
| "exec_error_text InvalidDeadline = (''exec.timeout'', ''the subprocess timed out'')"
| "exec_error_text _ = (''exec.unavailable'', ''the subprocess provider is unavailable'')"

definition saturating_add_i32 :: "i32 \<Rightarrow> i32 \<Rightarrow> i32" where
  "saturating_add_i32 a b = word_of_int (max (- (2 ^ 31)) (min (2 ^ 31 - 1) (sint a + sint b)))"

definition exec_output_value :: "exec_error_kind + execution_output \<Rightarrow> vm_value" where
  "exec_output_value outcome =
     (case outcome of
        Inl kind \<Rightarrow> (case exec_error_text kind of (code, message) \<Rightarrow> exec_error_result code message)
      | Inr output \<Rightarrow>
          let status = (case xo_code output of
                Some c \<Rightarrow> c
              | None \<Rightarrow> (case xo_signal output of Some s \<Rightarrow> saturating_add_i32 128 s | None \<Rightarrow> 255))
          in result_value 0 (VRecord [(''status'', VInt (word_of_int (sint status))), (''stderr'', VBytes (xo_stderr output)),
               (''stdout'', VBytes (xo_stdout output))]))"

definition exec_call ::
  "'i process_host \<Rightarrow> bool \<Rightarrow> nat option \<Rightarrow> 'i exec_authority option \<Rightarrow> vm_value list \<Rightarrow>
    (vm_error + vm_value) \<times> 'i exec_authority option" where
  "exec_call h exec_run time_left authority arguments =
     (case admit_exec h exec_run time_left authority arguments of
        (Inl e, a) \<Rightarrow> (Inl e, a)
      | (Inr (Answer v), a) \<Rightarrow> (Inr v, a)
      | (Inr (Launch executable request), a) \<Rightarrow>
          (Inr (exec_output_value (ph_run h (case a of None \<Rightarrow> bt_empty | Some exec \<Rightarrow> xa_environment exec) executable request)), a))"

text \<open>The bounded reader of a pipe, on the chunks the pipe gives; \<open>None\<close> is an error of the pipe.\<close>

fun read_bounded :: "bytes option list \<Rightarrow> nat \<Rightarrow> bytes \<Rightarrow> (bytes \<times> bool) option" where
  "read_bounded [] maximum acc = Some (acc, False)"
| "read_bounded (None # _) maximum acc = None"
| "read_bounded (Some chunk # chunks) maximum acc =
     (if chunk = [] then Some (acc, False)
      else
        let remaining = maximum - length acc;
            acc = acc @ take (min (length chunk) remaining) chunk
        in if length chunk > remaining then Some (acc, True) else read_bounded chunks maximum acc)"

text \<open>\<open>allen-package/src/manifest.rs\<close> on the texts of patterns.\<close>

definition command_pattern_matches :: "string \<Rightarrow> string list \<Rightarrow> bool" where
  "command_pattern_matches pattern argv =
     (case command_pattern_parse pattern of None \<Rightarrow> False | Some p \<Rightarrow> pattern_matches p argv)"

definition command_pattern_covers :: "string \<Rightarrow> string \<Rightarrow> bool" where
  "command_pattern_covers request grant =
     (case command_pattern_parse request of
        None \<Rightarrow> False
      | Some r \<Rightarrow> (case command_pattern_parse grant of None \<Rightarrow> False | Some g \<Rightarrow> pattern_covers r g))"

section \<open>What patterns accept\<close>

lemma zip_equal: "length xs \<le> length ys \<Longrightarrow> list_all (\<lambda>(a, b). a = b) (zip xs ys) \<longleftrightarrow> take (length xs) ys = xs"
proof (induction xs arbitrary: ys)
  case (Cons x xs)
  then show ?case by (cases ys) auto
qed simp

lemma pattern_matches_iff:
  "pattern_matches p argv \<longleftrightarrow>
     (if cp_remaining_wildcard p then \<exists>rest. argv = cp_prefix p @ rest else argv = cp_prefix p)"
proof (cases "length (cp_prefix p) \<le> length argv")
  case True
  then have "take (length (cp_prefix p)) argv = cp_prefix p \<longleftrightarrow> (\<exists>rest. argv = cp_prefix p @ rest)"
    by (metis append_eq_conv_conj)
  with True show ?thesis by (auto simp: pattern_matches_def zip_equal)
next
  case False
  then show ?thesis by (auto simp: pattern_matches_def)
qed

lemma covers_iff: "pattern_covers p g \<longleftrightarrow> (\<forall>argv. pattern_matches g argv \<longrightarrow> pattern_matches p argv)"
proof (cases "cp_remaining_wildcard p")
  case True
  have "take (length (cp_prefix p)) (cp_prefix g) = cp_prefix p \<longleftrightarrow> (\<exists>rest. cp_prefix g = cp_prefix p @ rest)"
    by (metis append_eq_conv_conj)
  moreover have "pattern_matches g (cp_prefix g)" by (simp add: pattern_matches_iff)
  ultimately show ?thesis
    using True by (auto simp: pattern_covers_def pattern_matches_iff)
next
  case False
  have "\<exists>argv. (\<exists>rest. argv = cp_prefix g @ rest) \<and> argv \<noteq> cp_prefix p"
    by (metis append_Nil2 append_self_conv not_Cons_self2)
  with False show ?thesis
    by (auto simp: pattern_covers_def pattern_matches_iff split: if_splits)
qed

lemma parse_accepts: "command_pattern_parse t \<noteq> None \<longleftrightarrow> validate_exec_pattern t = Inr ()"
  by (auto simp: command_pattern_parse_def validate_exec_pattern_def Let_def simp del: bad_token.simps split: list.splits)

lemma parse_fields:
  assumes "command_pattern_parse t = Some p"
  shows "cp_canonical p = t" "cp_prefix p \<noteq> []"
  using assms
  by (auto simp: command_pattern_parse_def Let_def simp del: bad_token.simps split: if_splits list.splits)

section \<open>Preparation\<close>







section \<open>Launches\<close>








lemma sample_parse:
  "command_pattern_parse ''git *'' = Some \<lparr>cp_canonical = ''git *'', cp_prefix = [''git''], cp_remaining_wildcard = True\<rparr>"
  "command_pattern_parse ''git log *'' = Some \<lparr>cp_canonical = ''git log *'', cp_prefix = [''git'', ''log''], cp_remaining_wildcard = True\<rparr>"
  by (simp_all add: command_pattern_parse_def starts_with_def ends_with_def contains2_def Let_def is_ascii_graphic_def quote_byte_def less_eq_char_def)

text \<open>(C39) A pattern covers another exactly when it accepts every argument vector the other accepts.\<close>

theorem covers_is_inclusion:
  "command_pattern_parse request = Some r \<Longrightarrow> command_pattern_parse grant = Some g \<Longrightarrow>
   command_pattern_covers request grant \<longleftrightarrow>
     (\<forall>argv. command_pattern_matches grant argv \<longrightarrow> command_pattern_matches request argv)"
  by (simp add: command_pattern_covers_def command_pattern_matches_def covers_iff)

theorem covers_is_inclusion_witness:
  "command_pattern_covers ''git *'' ''git log *'' \<and> command_pattern_matches ''git log *'' [''git'', ''log'', ''-p''] \<and>
   command_pattern_matches ''git *'' [''git'', ''log'', ''-p'']"
proof -
  have c: "command_pattern_covers ''git *'' ''git log *''" using sample_parse by (simp add: command_pattern_covers_def pattern_covers_def)
  have m: "command_pattern_matches ''git log *'' [''git'', ''log'', ''-p'']"
    using sample_parse by (simp add: command_pattern_matches_def pattern_matches_def)
  with c covers_is_inclusion [OF sample_parse] show ?thesis by blast
qed








end
