(* ===== verification/Lexer.thy ===== *)
theory Lexer
  imports Json_Value
begin

text \<open>
  The lexer of the source language (\<open>allen-syntax/src/lexer.rs\<close>). A source text is a UTF-8 string, positions
  are byte offsets, and the lexer is a state that every function changes: the offset, the tokens and diagnostics so far,
  the stack of modes for templates, and whether a limit ended it. The kinds of operators and keywords are
  named by their spelling.
\<close>

section \<open>Data\<close>

record syntax_limits =
  sl_source_bytes :: nat
  sl_tokens :: nat
  sl_lexer_mode_depth :: nat
  sl_interpolation_brace_depth :: nat
  sl_diagnostics :: nat

datatype syntax_kind =
    Whitespace | Newline | LineComment | BlockComment | StringLiteral | BytesLiteral | IntLiteral | FloatLiteral
  | Ident | Keyword string | Operator string | Backtick | MultilineStringDelimiter | TemplateExprStart | TemplateEscape
  | TemplateTextScalar | ErrorToken | Eof

type_synonym lex_token = "syntax_kind \<times> nat \<times> nat"

type_synonym syntax_diagnostic = "string \<times> string \<times> nat \<times> nat"

datatype template_delimiter = DelimBacktick | DelimMultiline

datatype mode = ModeNormal | ModeTemplate nat template_delimiter | ModeInterpolation nat nat

record lexer =
  lx_offset :: nat
  lx_tokens :: "lex_token list"
  lx_diagnostics :: "syntax_diagnostic list"
  lx_modes :: "mode list"
  lx_terminated :: bool

definition lexer_new :: lexer where
  "lexer_new = \<lparr>lx_offset = 0, lx_tokens = [], lx_diagnostics = [], lx_modes = [ModeNormal], lx_terminated = False\<rparr>"

section \<open>Characters\<close>

text \<open>\<open>chars().next()\<close> at a boundary of a UTF-8 text: the length of the first character, and whether it is
  a control character (C0, DEL or C1).\<close>

definition scalar_len :: "string \<Rightarrow> nat" where
  "scalar_len s =
     (case s of
        [] \<Rightarrow> 1
      | b # _ \<Rightarrow> if in_range 0 127 b then 1 else if in_range 194 223 b then 2 else if in_range 224 239 b then 3 else 4)"

definition is_control :: "string \<Rightarrow> bool" where
  "is_control s =
     (case s of
        [] \<Rightarrow> False
      | b # r \<Rightarrow> in_range 0 31 b \<or> of_char b = (127::nat) \<or>
          of_char b = (194::nat) \<and> (case r of [] \<Rightarrow> False | c # _ \<Rightarrow> in_range 128 159 c))"

definition text_starts :: "string \<Rightarrow> string \<Rightarrow> bool" where
  "text_starts p s \<longleftrightarrow> take (length p) s = p"

definition byte_at :: "string \<Rightarrow> nat \<Rightarrow> byte option" where
  "byte_at t i = (if i < length t then Some (t ! i) else None)"

definition LF :: byte where "LF = char_of (10::nat)"
definition CR :: byte where "CR = char_of (13::nat)"
definition TAB :: byte where "TAB = char_of (9::nat)"
definition QUOTE :: byte where "QUOTE = char_of (34::nat)"
definition BACKSLASH :: byte where "BACKSLASH = char_of (92::nat)"
definition BACKTICK :: byte where "BACKTICK = char_of (96::nat)"

section \<open>Tokens, diagnostics and limits\<close>

definition source_token_capacity :: "syntax_limits \<Rightarrow> nat" where
  "source_token_capacity lim = max (sl_tokens lim) 2 - 1"

definition token_would_exceed :: "syntax_limits \<Rightarrow> string \<Rightarrow> lexer \<Rightarrow> nat \<Rightarrow> bool" where
  "token_would_exceed lim t l end =
     (let capacity = source_token_capacity lim;
          used = length (lx_tokens l)
      in used \<ge> capacity \<or> (end < length t \<and> used \<ge> capacity - 1))"

definition limit_at :: "syntax_limits \<Rightarrow> string \<Rightarrow> nat \<Rightarrow> lexer \<Rightarrow> lexer" where
  "limit_at lim t start l =
     (if lx_terminated l then l
      else
        let l = (if start < length t
                 then l\<lparr>lx_diagnostics :=
                          (if length (lx_diagnostics l) < sl_diagnostics lim
                           then lx_diagnostics l @ [(''S0007'', ''syntax lexer limit exceeded'', start, length t)]
                           else lx_diagnostics l),
                        lx_tokens := lx_tokens l @ [(ErrorToken, start, length t)]\<rparr>
                 else l)
        in l\<lparr>lx_offset := length t, lx_terminated := True\<rparr>)"

definition push_token :: "syntax_limits \<Rightarrow> string \<Rightarrow> syntax_kind \<Rightarrow> nat \<Rightarrow> nat \<Rightarrow> lexer \<Rightarrow> lexer" where
  "push_token lim t kind start end l =
     (if lx_terminated l then l
      else if token_would_exceed lim t l end then limit_at lim t start l
      else l\<lparr>lx_tokens := lx_tokens l @ [(kind, start, end)]\<rparr>)"

definition push_diagnostic :: "syntax_limits \<Rightarrow> string \<Rightarrow> string \<Rightarrow> nat \<Rightarrow> nat \<Rightarrow> lexer \<Rightarrow> bool \<times> lexer" where
  "push_diagnostic lim code message start end l =
     (if length (lx_diagnostics l) \<ge> sl_diagnostics lim then (False, l)
      else (True, l\<lparr>lx_diagnostics := lx_diagnostics l @ [(code, message, start, end)]\<rparr>))"

definition lex_error :: "syntax_limits \<Rightarrow> string \<Rightarrow> string \<Rightarrow> string \<Rightarrow> nat \<Rightarrow> nat \<Rightarrow> lexer \<Rightarrow> lexer" where
  "lex_error lim t code message start end l =
     (case push_diagnostic lim code message start end l of
        (False, l) \<Rightarrow> limit_at lim t start l
      | (True, l) \<Rightarrow> push_token lim t ErrorToken start end l)"

definition push_mode :: "syntax_limits \<Rightarrow> string \<Rightarrow> mode \<Rightarrow> nat \<Rightarrow> lexer \<Rightarrow> bool \<times> lexer" where
  "push_mode lim t m start l =
     (if length (lx_modes l) \<ge> sl_lexer_mode_depth lim then (False, limit_at lim t start l)
      else (True, l\<lparr>lx_modes := lx_modes l @ [m]\<rparr>))"

definition last_mode :: "lexer \<Rightarrow> mode" where
  "last_mode l = (if lx_modes l = [] then ModeNormal else last (lx_modes l))"

definition in_interpolation :: "lexer \<Rightarrow> bool" where
  "in_interpolation l = (case last_mode l of ModeInterpolation _ _ \<Rightarrow> True | _ \<Rightarrow> False)"

definition increment_interpolation_brace :: "syntax_limits \<Rightarrow> string \<Rightarrow> nat \<Rightarrow> lexer \<Rightarrow> bool \<times> lexer" where
  "increment_interpolation_brace lim t start l =
     (case last_mode l of
        ModeInterpolation opener depth \<Rightarrow>
          if depth \<ge> sl_interpolation_brace_depth lim then (False, limit_at lim t start l)
          else (True, l\<lparr>lx_modes := butlast (lx_modes l) @ [ModeInterpolation opener (Suc depth)]\<rparr>)
      | _ \<Rightarrow> (True, l))"

definition close_interpolation_or_brace :: "syntax_limits \<Rightarrow> string \<Rightarrow> nat \<Rightarrow> lexer \<Rightarrow> lexer" where
  "close_interpolation_or_brace lim t start l =
     (case last_mode l of
        ModeInterpolation opener depth \<Rightarrow>
          push_token lim t (Operator ''}'') start (lx_offset l)
            (l\<lparr>lx_modes := (if depth = 0 then butlast (lx_modes l) else butlast (lx_modes l) @ [ModeInterpolation opener (depth - 1)])\<rparr>)
      | _ \<Rightarrow> push_token lim t (Operator ''}'') start (lx_offset l) l)"

section \<open>Scanning\<close>

lemma scalar_len_pos [simp]: "0 < scalar_len s"
  by (simp add: scalar_len_def split: list.split)

function line_comment_end :: "string \<Rightarrow> nat \<Rightarrow> nat" where
  "line_comment_end t i =
     (if i < length t
      then if t ! i = CR \<or> t ! i = LF then i else line_comment_end t (i + scalar_len (drop i t))
      else i)"
  by pat_completeness auto
termination by (relation "measure (\<lambda>(t, i). length t - i)") (auto intro: diff_less_mono2)

text \<open>The end of a block comment, with the depth, the openers and the opener that is nested too deep.\<close>

function block_comment_loop ::
  "string \<Rightarrow> nat \<Rightarrow> nat \<Rightarrow> nat list \<Rightarrow> nat option \<Rightarrow> nat \<times> nat \<times> nat list \<times> nat option" where
  "block_comment_loop t i depth openers overflow =
     (if i < length t
      then
        if text_starts ''/*'' (drop i t)
        then let depth = Suc depth
             in block_comment_loop t (i + 2) depth
                  (if depth \<le> 128 then openers @ [i] else openers)
                  (if depth \<le> 128 then overflow else case overflow of None \<Rightarrow> Some i | Some j \<Rightarrow> Some j)
        else if text_starts ''*/'' (drop i t)
        then let depth = depth - 1;
                 openers = (if depth < 128 then butlast openers else openers)
             in if depth = 0 then (i + 2, depth, openers, overflow)
                else block_comment_loop t (i + 2) depth openers overflow
        else block_comment_loop t (i + scalar_len (drop i t)) depth openers overflow
      else (i, depth, openers, overflow))"
  by pat_completeness auto
termination by (relation "measure (\<lambda>(t, i, _). length t - i)") (auto intro: diff_less_mono2)

function raw_string_close :: "string \<Rightarrow> nat \<Rightarrow> nat \<Rightarrow> nat option \<times> nat" where
  "raw_string_close t hashes i =
     (if i < length t
      then
        if text_starts [QUOTE] (drop i t) \<and> i + 1 + hashes \<le> length t \<and> list_all ((=) (CHR ''#'')) (take hashes (drop (i + 1) t))
        then (Some (i + 1 + hashes), i + 1 + hashes)
        else raw_string_close t hashes (i + scalar_len (drop i t))
      else (None, i))"
  by pat_completeness auto
termination by (relation "measure (\<lambda>(t, h, i). length t - i)") (auto intro: diff_less_mono2)

definition ordinary_escape_len :: "string \<Rightarrow> nat option" where
  "ordinary_escape_len s =
     (case byte_at s 1 of
        None \<Rightarrow> None
      | Some c \<Rightarrow> if c = QUOTE \<or> c = BACKSLASH \<or> c \<in> set ''nrt0bf'' then Some 2 else None)"

definition is_ascii_hexdigit :: "byte \<Rightarrow> bool" where
  "is_ascii_hexdigit c \<longleftrightarrow> is_ascii_digit c \<or> CHR ''a'' \<le> c \<and> c \<le> CHR ''f'' \<or> CHR ''A'' \<le> c \<and> c \<le> CHR ''F''"

definition byte_is :: "(byte \<Rightarrow> bool) \<Rightarrow> byte option \<Rightarrow> bool" where
  "byte_is P b = (case b of None \<Rightarrow> False | Some c \<Rightarrow> P c)"

definition bytes_escape_len :: "string \<Rightarrow> nat option" where
  "bytes_escape_len s =
     (case ordinary_escape_len s of
        Some n \<Rightarrow> Some n
      | None \<Rightarrow>
          if byte_at s 1 = Some (CHR ''x'') \<and> byte_is is_ascii_hexdigit (byte_at s 2) \<and> byte_is is_ascii_hexdigit (byte_at s 3)
          then Some 4 else None)"

definition template_escape_len :: "string \<Rightarrow> nat option" where
  "template_escape_len s =
     (case ordinary_escape_len s of
        Some n \<Rightarrow> Some n
      | None \<Rightarrow>
          if text_starts [BACKSLASH, BACKTICK] s then Some 2
          else if text_starts (BACKSLASH # ''${'') s then Some 3 else None)"

definition invalid_escape_len :: "string \<Rightarrow> nat" where
  "invalid_escape_len s = (if length s \<le> 1 then 1 else 1 + scalar_len (drop 1 s))"

text \<open>The body of a quoted literal: the offset, whether it is valid and whether it is closed.\<close>

function quoted_loop :: "string \<Rightarrow> bool \<Rightarrow> nat \<Rightarrow> bool \<Rightarrow> nat \<times> bool \<times> bool" where
  "quoted_loop t bytes i valid =
     (if i < length t
      then
        let rest = drop i t
        in if text_starts [QUOTE] rest then (i + 1, valid, True)
           else if is_control rest then (i, False, False)
           else if text_starts [BACKSLASH] rest
           then (case (if bytes then bytes_escape_len rest else ordinary_escape_len rest) of
                   Some n \<Rightarrow> quoted_loop t bytes (i + n) valid
                 | None \<Rightarrow> quoted_loop t bytes (i + invalid_escape_len rest) False)
           else quoted_loop t bytes (i + scalar_len rest) (valid \<and> \<not> (bytes \<and> \<not> in_range 0 127 (t ! i)))
      else (i, valid, False))"
  by pat_completeness auto
termination
  by (relation "measure (\<lambda>(t, b, i, v). length t - i)")
    (auto simp: invalid_escape_len_def ordinary_escape_len_def bytes_escape_len_def split: option.splits if_splits intro: diff_less_mono2)

function consume_digits :: "string \<Rightarrow> nat \<Rightarrow> bool \<Rightarrow> bool \<Rightarrow> bool \<Rightarrow> nat \<times> bool \<times> bool" where
  "consume_digits t i has_digits previous valid =
     (case byte_at t i of
        None \<Rightarrow> (i, has_digits, valid)
      | Some b \<Rightarrow>
          if is_ascii_digit b then consume_digits t (Suc i) True True valid
          else if b = CHR ''_''
          then consume_digits t (Suc i) has_digits False (valid \<and> previous \<and> byte_is is_ascii_digit (byte_at t (Suc i)))
          else (i, has_digits, valid))"
  by pat_completeness auto
termination
  by (relation "measure (\<lambda>(t, i, _). length t - i)") (auto simp: byte_at_def split: if_splits)

definition multiline_delimiter_starts_line :: "string \<Rightarrow> nat \<Rightarrow> bool" where
  "multiline_delimiter_starts_line t offset =
     list_all (\<lambda>b. b = CHR '' '' \<or> b = TAB) (takeWhile (\<lambda>b. b \<noteq> LF \<and> b \<noteq> CR) (rev (take offset t)))"

definition template_closes :: "string \<Rightarrow> template_delimiter \<Rightarrow> nat \<Rightarrow> bool" where
  "template_closes t delimiter i =
     (case delimiter of
        DelimBacktick \<Rightarrow> text_starts [BACKTICK] (drop i t)
      | DelimMultiline \<Rightarrow> text_starts [QUOTE, QUOTE, QUOTE] (drop i t) \<and> multiline_delimiter_starts_line t i)"

definition delimiter_len :: "template_delimiter \<Rightarrow> nat" where
  "delimiter_len d = (case d of DelimBacktick \<Rightarrow> 1 | DelimMultiline \<Rightarrow> 3)"

function template_text_end :: "string \<Rightarrow> template_delimiter \<Rightarrow> nat \<Rightarrow> nat" where
  "template_text_end t delimiter i =
     (if i < length t
      then
        if template_closes t delimiter i \<or> text_starts ''${'' (drop i t) \<or> text_starts [BACKSLASH] (drop i t) then i
        else if delimiter = DelimBacktick \<and> is_control (drop i t) then i
        else template_text_end t delimiter (i + scalar_len (drop i t))
      else i)"
  by pat_completeness auto
termination by (relation "measure (\<lambda>(t, d, i). length t - i)") (auto intro: diff_less_mono2)

declare line_comment_end.simps [simp del] block_comment_loop.simps [simp del] raw_string_close.simps [simp del]
  quoted_loop.simps [simp del] consume_digits.simps [simp del] template_text_end.simps [simp del]

section \<open>Lexing\<close>

definition OPERATORS :: "string list" where
  "OPERATORS =
     [''+='', ''-='', ''*='', ''/='', ''%='', ''..='', ''..'', ''?.'', ''|>'', ''??'', ''||'', ''|'', ''&&'', ''=='', ''!='',
      ''<='', ''>='', ''=>'', ''@'', ''{'', ''}'', ''['', '']'', ''('', '')'', '','', '':'', '';'', ''<'', ''>'', ''='', ''+'',
      ''-'', ''*'', ''/'', ''%'', ''!'', ''.'', ''?'']"

definition keyword_kind :: "string \<Rightarrow> syntax_kind option" where
  "keyword_kind s =
     (if s \<in> set [''manifest'', ''import'', ''from'', ''as'', ''export'', ''record'', ''enum'', ''type'', ''newtype'', ''const'',
        ''where'', ''async'', ''fn'', ''test'', ''returns'', ''effects'', ''let'', ''mut'', ''return'', ''break'', ''continue'',
        ''while'', ''loop'', ''for'', ''in'', ''await'', ''spawn'', ''true'', ''false'', ''map'', ''match'', ''if'', ''else'', ''prompt'']
      then Some (Keyword s) else None)"

definition is_ident_start :: "byte \<Rightarrow> bool" where
  "is_ident_start b \<longleftrightarrow> is_ascii_alphabetic b \<or> b = CHR ''_''"

definition at_offset :: "nat \<Rightarrow> lexer \<Rightarrow> lexer" where
  "at_offset i l = l\<lparr>lx_offset := i\<rparr>"

definition lex_line_comment :: "syntax_limits \<Rightarrow> string \<Rightarrow> lexer \<Rightarrow> lexer" where
  "lex_line_comment lim t l =
     (let start = lx_offset l;
          end = line_comment_end t (start + 2)
      in push_token lim t LineComment start end (at_offset end l))"

definition lex_block_comment :: "syntax_limits \<Rightarrow> string \<Rightarrow> lexer \<Rightarrow> lexer" where
  "lex_block_comment lim t l =
     (let start = lx_offset l
      in case block_comment_loop t (start + 2) 1 [start] None of (end, depth, openers, overflow) \<Rightarrow>
           let l = at_offset end l
           in case overflow of
                Some opener \<Rightarrow>
                  (case push_diagnostic lim ''S0005'' ''block comment nesting exceeds 128'' opener (opener + 2) l of
                     (False, l) \<Rightarrow> limit_at lim t start l
                   | (True, l) \<Rightarrow> push_token lim t ErrorToken start end l)
              | None \<Rightarrow>
                  if depth \<noteq> 0
                  then let opener = (if openers = [] then start else last openers)
                       in (case push_diagnostic lim ''S0006'' ''unterminated block comment'' opener (opener + 2) l of
                             (False, l) \<Rightarrow> limit_at lim t start l
                           | (True, l) \<Rightarrow> push_token lim t ErrorToken start end l)
                  else push_token lim t BlockComment start end l)"

text \<open>\<open>None\<close>: the text at the offset is not a raw string.\<close>

definition raw_hashes :: "string \<Rightarrow> nat" where
  "raw_hashes rest = length (takeWhile ((=) (CHR ''#'')) (drop 1 rest))"

definition lex_raw_string :: "syntax_limits \<Rightarrow> string \<Rightarrow> lexer \<Rightarrow> lexer option" where
  "lex_raw_string lim t l =
     (let start = lx_offset l;
          rest = drop start t;
          quote = 1 + raw_hashes rest;
          hashes = quote - 1
      in if \<not> text_starts ''r'' rest \<or> byte_at rest quote \<noteq> Some QUOTE then None
         else Some (
           let l = at_offset (start + quote + 1) l
           in if hashes > 16
              then lex_error lim t ''S0002'' ''raw string delimiter supports at most 16 hashes'' start (lx_offset l) l
              else
                (case raw_string_close t hashes (lx_offset l) of
                   (Some end, _) \<Rightarrow> push_token lim t StringLiteral start end (at_offset end l)
                 | (None, end) \<Rightarrow>
                     push_token lim t ErrorToken start end
                       (snd (push_diagnostic lim ''S0004''
                          (''unterminated raw string literal; expected closing '' @ [QUOTE] @ replicate hashes (CHR ''#''))
                          start (start + quote + 1) (at_offset end l))))))"

definition lex_quoted :: "syntax_limits \<Rightarrow> string \<Rightarrow> nat \<Rightarrow> bool \<Rightarrow> lexer \<Rightarrow> lexer" where
  "lex_quoted lim t start bytes l =
     (case quoted_loop t bytes (lx_offset l + (if bytes then 2 else 1)) True of (end, valid, closed) \<Rightarrow>
        let l = at_offset end l
        in if valid \<and> closed then push_token lim t (if bytes then BytesLiteral else StringLiteral) start end l
           else lex_error lim t ''S0002'' ''malformed literal'' start end l)"

definition lex_multiline_start :: "syntax_limits \<Rightarrow> string \<Rightarrow> nat \<Rightarrow> lexer \<Rightarrow> lexer" where
  "lex_multiline_start lim t start l =
     (let l = at_offset (lx_offset l + 3) l
      in if \<not> byte_is (\<lambda>b. b = LF \<or> b = CR) (byte_at t (lx_offset l))
         then lex_error lim t ''S0002'' ''multiline string opening delimiter must be followed by a line break'' start (lx_offset l) l
         else
           (case push_mode lim t (ModeTemplate start DelimMultiline) start l of
              (False, l) \<Rightarrow> l
            | (True, l) \<Rightarrow> push_token lim t MultilineStringDelimiter start (lx_offset l) l))"

definition lex_number :: "syntax_limits \<Rightarrow> string \<Rightarrow> lexer \<Rightarrow> lexer" where
  "lex_number lim t l =
     (let start = lx_offset l
      in case consume_digits t start False False True of (i, _, integer_valid) \<Rightarrow>
         let (i, float, malformed) =
           (if text_starts ''.'' (drop i t) \<and> byte_at t (i + 1) \<noteq> Some (CHR ''.'')
            then
              case consume_digits t (i + 1) False False True of (i, has_fraction, fraction_valid) \<Rightarrow>
              let malformed = (\<not> integer_valid \<or> \<not> has_fraction \<or> \<not> fraction_valid)
              in if byte_is (\<lambda>b. b = CHR ''e'' \<or> b = CHR ''E'') (byte_at t i)
                 then
                   let i = i + 1;
                       i = (if byte_is (\<lambda>b. b = CHR ''+'' \<or> b = CHR ''-'') (byte_at t i) then i + 1 else i)
                   in case consume_digits t i False False True of (i, has_exponent, exponent_valid) \<Rightarrow>
                      (i, True, malformed \<or> \<not> has_exponent \<or> \<not> exponent_valid)
                 else (i, True, malformed)
            else (i, False, \<not> integer_valid))
         in if malformed then lex_error lim t ''S0003'' ''malformed number'' start i (at_offset i l)
            else push_token lim t (if float then FloatLiteral else IntLiteral) start i (at_offset i l))"

definition lex_identifier :: "syntax_limits \<Rightarrow> string \<Rightarrow> lexer \<Rightarrow> lexer" where
  "lex_identifier lim t l =
     (let start = lx_offset l;
          len = Suc (length (takeWhile (\<lambda>b. is_ascii_alphanumeric b \<or> b = CHR ''_'') (drop (Suc start) t)));
          kind = (case keyword_kind (take len (drop start t)) of None \<Rightarrow> Ident | Some k \<Rightarrow> k)
      in push_token lim t kind start (start + len) (at_offset (start + len) l))"

definition lex_operator :: "syntax_limits \<Rightarrow> string \<Rightarrow> lexer \<Rightarrow> lexer" where
  "lex_operator lim t l =
     (let start = lx_offset l;
          rest = drop start t
      in case find (\<lambda>spelling. text_starts spelling rest) OPERATORS of
           Some spelling \<Rightarrow>
             let end = start + length spelling
             in push_token lim t (Operator spelling) start end (at_offset end l)
         | None \<Rightarrow>
             let end = start + scalar_len rest
             in lex_error lim t ''S0001'' ''unexpected character'' start end (at_offset end l))"

definition lex_normal :: "syntax_limits \<Rightarrow> string \<Rightarrow> lexer \<Rightarrow> lexer" where
  "lex_normal lim t l =
     (let start = lx_offset l;
          rest = drop start t
      in if text_starts '' '' rest \<or> text_starts [TAB] rest
         then let end = start + length (takeWhile (\<lambda>b. b = CHR '' '' \<or> b = TAB) rest)
              in push_token lim t Whitespace start end (at_offset end l)
         else if text_starts [CR, LF] rest then push_token lim t Newline start (start + 2) (at_offset (start + 2) l)
         else if text_starts [CR] rest \<or> text_starts [LF] rest then push_token lim t Newline start (start + 1) (at_offset (start + 1) l)
         else if text_starts ''//'' rest then lex_line_comment lim t l
         else if text_starts ''/*'' rest then lex_block_comment lim t l
         else
           case lex_raw_string lim t l of
             Some l \<Rightarrow> l
           | None \<Rightarrow>
               if text_starts [CHR ''b'', QUOTE] rest then lex_quoted lim t start True l
               else if text_starts [QUOTE, QUOTE, QUOTE] rest then lex_multiline_start lim t start l
               else if text_starts [QUOTE] rest then lex_quoted lim t start False l
               else if in_interpolation l \<and> text_starts ''}'' rest
               then close_interpolation_or_brace lim t start (at_offset (start + 1) l)
               else if text_starts ''{'' rest
               then (case increment_interpolation_brace lim t start (at_offset (start + 1) l) of
                       (False, l) \<Rightarrow> l
                     | (True, l) \<Rightarrow> push_token lim t (Operator ''{'') start (lx_offset l) l)
               else if text_starts [BACKTICK] rest
               then (case push_mode lim t (ModeTemplate start DelimBacktick) start (at_offset (start + 1) l) of
                       (False, l) \<Rightarrow> l
                     | (True, l) \<Rightarrow> push_token lim t Backtick start (lx_offset l) l)
               else if byte_is is_ascii_digit (byte_at rest 0) \<or>
                  text_starts ''_'' rest \<and> byte_is is_ascii_digit (byte_at rest 1)
               then lex_number lim t l
               else if byte_is is_ident_start (byte_at rest 0) then lex_identifier lim t l
               else lex_operator lim t l)"

definition lex_template_segment :: "syntax_limits \<Rightarrow> string \<Rightarrow> template_delimiter \<Rightarrow> lexer \<Rightarrow> lexer" where
  "lex_template_segment lim t delimiter l =
     (let start = lx_offset l;
          rest = drop start t
      in if template_closes t delimiter start
         then let end = start + delimiter_len delimiter
              in push_token lim t (case delimiter of DelimBacktick \<Rightarrow> Backtick | DelimMultiline \<Rightarrow> MultilineStringDelimiter) start end
                   ((at_offset end l)\<lparr>lx_modes := butlast (lx_modes l)\<rparr>)
         else if text_starts ''${'' rest
         then (case push_mode lim t (ModeInterpolation start 0) start (at_offset (start + 2) l) of
                 (False, l) \<Rightarrow> l
               | (True, l) \<Rightarrow> push_token lim t TemplateExprStart start (lx_offset l) l)
         else if text_starts [BACKSLASH] rest
         then (case template_escape_len rest of
                 Some n \<Rightarrow> push_token lim t TemplateEscape start (start + n) (at_offset (start + n) l)
               | None \<Rightarrow>
                   let end = start + invalid_escape_len rest
                   in lex_error lim t ''S0002'' ''malformed template escape'' start end (at_offset end l))
         else if delimiter = DelimBacktick \<and> is_control rest
         then let end = start + scalar_len rest
              in lex_error lim t ''S0002'' ''unescaped control character in template'' start end (at_offset end l)
         else let end = template_text_end t delimiter start
              in push_token lim t TemplateTextScalar start end (at_offset end l))"

definition lex_step :: "syntax_limits \<Rightarrow> string \<Rightarrow> lexer \<Rightarrow> lexer" where
  "lex_step lim t l =
     (case last_mode l of
        ModeTemplate _ delimiter \<Rightarrow> lex_template_segment lim t delimiter l
      | _ \<Rightarrow> lex_normal lim t l)"

text \<open>The loop of \<open>run\<close>. That a step does not make the offset smaller or leave it is a theorem about
  well-formed texts, so the loop is a partial function.\<close>

partial_function (option) lex_loop :: "syntax_limits \<Rightarrow> string \<Rightarrow> lexer \<Rightarrow> lexer option" where
  "lex_loop lim t l =
     (if \<not> lx_terminated l \<and> lx_offset l < length t then lex_loop lim t (lex_step lim t l) else Some l)"

declare lex_loop.simps [code]

definition unterminated :: "syntax_limits \<Rightarrow> lexer \<Rightarrow> lexer" where
  "unterminated lim l =
     (if lx_terminated l then l
      else
        (case last_mode l of
           ModeTemplate opener delimiter \<Rightarrow>
             snd (push_diagnostic lim ''S0004'' ''unterminated template literal'' opener (opener + delimiter_len delimiter) l)
         | ModeInterpolation opener _ \<Rightarrow>
             snd (push_diagnostic lim ''S0004'' ''unterminated template interpolation'' opener (opener + 2) l)
         | ModeNormal \<Rightarrow> l))"

definition lex_with_limits :: "syntax_limits \<Rightarrow> string \<Rightarrow> (lex_token list \<times> syntax_diagnostic list) option" where
  "lex_with_limits lim t =
     map_option (\<lambda>l. let l = unterminated lim l in (lx_tokens l @ [(Eof, length t, length t)], lx_diagnostics l))
       (lex_loop lim t (if length t > sl_source_bytes lim then limit_at lim t 0 lexer_new else lexer_new))"

text \<open>\<open>LexToken::text\<close> and \<open>Lexed::round_trip\<close>.\<close>

definition token_text :: "string \<Rightarrow> lex_token \<Rightarrow> string" where
  "token_text t token = (case token of (_, start, end) \<Rightarrow> take (end - start) (drop start t))"

definition round_trip :: "string \<Rightarrow> lex_token list \<Rightarrow> string" where
  "round_trip t tokens = concat (map (token_text t) (filter (\<lambda>(kind, _). kind \<noteq> Eof) tokens))"

text \<open>\<open>SourceFile::range\<close>: the ranges that exist.\<close>

definition is_char_boundary :: "string \<Rightarrow> nat \<Rightarrow> bool" where
  "is_char_boundary t i \<longleftrightarrow> i = 0 \<or> i = length t \<or> i < length t \<and> \<not> utf8_cont (t ! i)"

definition source_range :: "string \<Rightarrow> nat \<Rightarrow> nat \<Rightarrow> bool" where
  "source_range t start end \<longleftrightarrow> start \<le> end \<and> end \<le> length t \<and> is_char_boundary t start \<and> is_char_boundary t end"

end
