(* ===== verification/Lexer_Lossless.thy ===== *)
theory Lexer_Lossless
  imports Lexer
begin

text \<open>
  The lexer loses nothing: it returns for every UTF-8 text, its tokens tile the text, all its ranges are ranges of the
  source, and their number stays within the limits.
\<close>

named_theorems bounded \<open>positions between characters\<close>

section \<open>Positions between characters\<close>

definition boundary :: "string \<Rightarrow> nat \<Rightarrow> bool" where
  "boundary t i \<longleftrightarrow> i \<le> length t \<and> utf8_valid (drop i t)"

lemma utf8_scalar: "utf8_valid s \<Longrightarrow> s \<noteq> [] \<Longrightarrow> scalar_len s \<le> length s \<and> utf8_valid (drop (scalar_len s) s)"
  by (cases s) (auto simp: scalar_len_def split: if_splits list.splits)

lemma boundary_scalar: "boundary t i \<Longrightarrow> i < length t \<Longrightarrow> boundary t (i + scalar_len (drop i t))"
  using utf8_scalar [of "drop i t"] by (auto simp: boundary_def add.commute)

lemma boundary_prefix:
  assumes "boundary t i" "text_starts p (drop i t)" "list_all (in_range 0 127) p"
  shows "boundary t (i + length p)"
proof -
  have "drop i t = p @ drop (length p) (drop i t)"
    using assms(2) append_take_drop_id [of "length p" "drop i t"] by (simp add: text_starts_def)
  moreover have "utf8_valid p" using assms(3) by (rule utf8_valid_ascii)
  moreover have "i + length p \<le> length t"
    using assms(1,2) by (metis add_le_cancel_left boundary_def le_add_diff_inverse length_drop length_take min.cobounded1 text_starts_def)
  ultimately show ?thesis
    using assms(1) utf8_valid_append by (metis add.commute boundary_def drop_drop)
qed

lemma boundary_ascii:
  assumes "boundary t i" "i < length t" "in_range 0 127 (t ! i)"
  shows "boundary t (Suc i)"
  using boundary_prefix [of t i "[t ! i]"] assms by (simp add: text_starts_def take_Suc_conv_app_nth)

lemma boundary_while:
  assumes "boundary t i" "\<And>b. P b \<Longrightarrow> in_range 0 127 b"
  shows "boundary t (i + length (takeWhile P (drop i t)))"
proof (rule boundary_prefix [OF assms(1)])
  show "text_starts (takeWhile P (drop i t)) (drop i t)"
    by (metis append_eq_conv_conj takeWhile_dropWhile_id text_starts_def)
  show "list_all (in_range 0 127) (takeWhile P (drop i t))"
    using assms(2) by (auto simp: list_all_iff dest: set_takeWhileD)
qed

lemma text_starts_length: "text_starts p (drop i t) \<Longrightarrow> p \<noteq> [] \<Longrightarrow> i < length t"
  by (cases "i < length t") (auto simp: text_starts_def)

lemma ascii_chars:
  "in_range 0 127 LF" "in_range 0 127 CR" "in_range 0 127 TAB" "in_range 0 127 QUOTE" "in_range 0 127 BACKSLASH"
  "in_range 0 127 BACKTICK"
  by (simp_all add: in_range_def LF_def CR_def TAB_def QUOTE_def BACKSLASH_def BACKTICK_def)

lemma boundary_is_char: "boundary t i \<Longrightarrow> is_char_boundary t i"
proof (cases "i < length t")
  case True
  assume "boundary t i"
  then have "utf8_valid (t ! i # drop (Suc i) t)" using True by (simp add: boundary_def Cons_nth_drop_Suc)
  then have "\<not> utf8_cont (t ! i)" by (auto simp: utf8_cont_def in_range_def split: if_splits)
  with True show ?thesis by (simp add: is_char_boundary_def)
qed (simp add: boundary_def is_char_boundary_def)

section \<open>Scanning stops between characters\<close>

text \<open>A scan from one position to a later one.\<close>

definition scans :: "string \<Rightarrow> nat \<Rightarrow> nat \<Rightarrow> bool" where
  "scans t i j \<longleftrightarrow> i \<le> j \<and> boundary t j"

lemma scans_refl: "boundary t i \<Longrightarrow> scans t i i" by (simp add: scans_def)

lemma scans_further: "scans t (i + n) k \<Longrightarrow> scans t i k" by (simp add: scans_def)

lemma scans_Suc: "scans t (Suc i) k \<Longrightarrow> scans t i k" by (simp add: scans_def)

lemma scans_line_comment: "boundary t i \<Longrightarrow> scans t i (line_comment_end t i)"
proof (induction t i rule: line_comment_end.induct)
  case (1 t i)
  then show ?case
    using boundary_scalar [of t i] scans_further [of t i "scalar_len (drop i t)"]
    by (simp add: line_comment_end.simps [of t i] scans_refl)
qed

lemma scans_raw_string:
  assumes "boundary t i"
  shows "case raw_string_close t hashes i of (x, j) \<Rightarrow> scans t i j \<and> (\<forall>e. x = Some e \<longrightarrow> e = j)"
  using assms
proof (induction t hashes i rule: raw_string_close.induct)
  case (1 t hashes i)
  show ?case
  proof (cases "i < length t")
    case False
    with 1 show ?thesis by (subst raw_string_close.simps) (simp add: scans_refl)
  next
    case True
    let ?closes = "text_starts [QUOTE] (drop i t) \<and> i + 1 + hashes \<le> length t \<and> list_all ((=) (CHR ''#'')) (take hashes (drop (i + 1) t))"
    show ?thesis
    proof (cases ?closes)
      case closes: True
      then have "boundary t (i + 1)" using boundary_prefix [of t i "[QUOTE]"] 1(2) by (simp add: ascii_chars)
      moreover have "list_all (in_range 0 127) (take hashes (drop (i + 1) t))"
        by (rule list.pred_mono_strong [OF conjunct2 [OF conjunct2 [OF closes]]]) (auto simp: in_range_def)
      moreover have "length (take hashes (drop (i + 1) t)) = hashes" using closes by auto
      ultimately have "boundary t (i + 1 + hashes)"
        using boundary_prefix [of t "i + 1" "take hashes (drop (i + 1) t)"] unfolding text_starts_def by metis
      with True closes show ?thesis by (subst raw_string_close.simps) (simp add: scans_def)
    next
      case open': False
      obtain x j where x: "raw_string_close t hashes (i + scalar_len (drop i t)) = (x, j)" by force
      with 1(1) [OF True open' boundary_scalar [OF 1(2) True]] scans_further [of t i "scalar_len (drop i t)" j]
      have "scans t i j \<and> (\<forall>e. x = Some e \<longrightarrow> e = j)" by simp
      moreover have "raw_string_close t hashes i = (x, j)" using True open' x by (subst raw_string_close.simps) (simp only: if_True if_False)
      ultimately show ?thesis by simp
    qed
  qed
qed

lemma scans_template_text: "boundary t i \<Longrightarrow> scans t i (template_text_end t d i)"
proof (induction t d i rule: template_text_end.induct)
  case (1 t d i)
  then show ?case
    using boundary_scalar [of t i] scans_further [of t i "scalar_len (drop i t)"]
    by (simp add: template_text_end.simps [of t d i] scans_refl)
qed

lemma digit_ascii: "is_ascii_digit b \<Longrightarrow> in_range 0 127 b" "is_ascii_hexdigit b \<Longrightarrow> in_range 0 127 b"
  "is_ascii_alphabetic b \<Longrightarrow> in_range 0 127 b" "is_ascii_alphanumeric b \<Longrightarrow> in_range 0 127 b"
  by (auto simp: is_ascii_digit_def is_ascii_hexdigit_def is_ascii_alphabetic_def is_ascii_alphanumeric_def is_ascii_lowercase_def is_ascii_uppercase_def in_range_def less_eq_char_def)

lemma scans_digits: "boundary t i \<Longrightarrow> scans t i (fst (consume_digits t i h p v))"
proof (induction t i h p v rule: consume_digits.induct)
  case (1 t i h p v)
  show ?case
  proof (cases "i < length t")
    case True
    have "boundary t (Suc i)" if "is_ascii_digit (t ! i) \<or> t ! i = CHR ''_''"
      using boundary_ascii [OF 1(3) True] that digit_ascii(1) by (auto simp: in_range_def)
    with 1 True scans_Suc [of t i] show ?thesis
      by (simp add: consume_digits.simps [of t i] byte_at_def scans_refl)
  next
    case False
    with 1 show ?thesis by (subst consume_digits.simps) (simp add: byte_at_def scans_refl)
  qed
qed

lemma is_ascii_escape: "c \<in> set ''nrt0bf'' \<Longrightarrow> in_range 0 127 c"
  by (auto simp: in_range_def)

lemma byte_at_drop: "byte_at (drop i t) k = byte_at t (i + k)"
  by (auto simp: byte_at_def)

lemma boundary_bytes:
  "boundary t i \<Longrightarrow> (\<And>k. k < n \<Longrightarrow> \<exists>b. byte_at t (i + k) = Some b \<and> in_range 0 127 b) \<Longrightarrow> boundary t (i + n)"
proof (induction n)
  case (Suc n)
  have "boundary t (i + n)" using Suc by simp
  moreover obtain b where "byte_at t (i + n) = Some b" "in_range 0 127 b" using Suc.prems(2) [of n] by auto
  ultimately show ?case using boundary_ascii [of t "i + n"] by (simp add: byte_at_def split: if_splits)
qed simp

lemma starts_byte: "text_starts [b] (drop i t) \<longleftrightarrow> byte_at t i = Some b"
  by (cases "i < length t") (auto simp: text_starts_def byte_at_def take_Suc_conv_app_nth hd_drop_conv_nth neq_Nil_conv take_Suc)

lemma backslash_byte: "text_starts [BACKSLASH] (drop i t) \<Longrightarrow> \<exists>b. byte_at t i = Some b \<and> in_range 0 127 b"
  by (simp add: starts_byte ascii_chars)

lemma ordinary_escape_boundary:
  assumes "boundary t i" "text_starts [BACKSLASH] (drop i t)" "ordinary_escape_len (drop i t) = Some n"
  shows "n = 2 \<and> boundary t (i + n)"
proof -
  from assms(3) obtain c where c: "byte_at t (i + 1) = Some c" "in_range 0 127 c" "n = 2"
    by (auto simp: ordinary_escape_len_def byte_at_drop ascii_chars is_ascii_escape split: option.splits if_splits simp del: list.set)
  then have "boundary t (i + 2)"
    using backslash_byte [OF assms(2)] by (intro boundary_bytes [OF assms(1)]) (auto simp: numeral_2_eq_2 less_Suc_eq)
  with c show ?thesis by simp
qed

lemma bytes_escape_boundary:
  assumes "boundary t i" "text_starts [BACKSLASH] (drop i t)" "bytes_escape_len (drop i t) = Some n"
  shows "0 < n \<and> boundary t (i + n)"
proof (cases "ordinary_escape_len (drop i t)")
  case None
  with assms(3) have n: "n = 4" and "byte_at t (i + 1) = Some (CHR ''x'')"
    "\<exists>b. byte_at t (i + 2) = Some b \<and> in_range 0 127 b" "\<exists>b. byte_at t (i + 3) = Some b \<and> in_range 0 127 b"
    by (auto simp: bytes_escape_len_def byte_at_drop byte_is_def digit_ascii split: option.splits if_splits)
  then have "boundary t (i + 4)"
    using backslash_byte [OF assms(2)]
    by (intro boundary_bytes [OF assms(1)]) (auto simp: eval_nat_numeral less_Suc_eq in_range_def)
  with n show ?thesis by simp
next
  case (Some m)
  with ordinary_escape_boundary [OF assms(1,2) Some] assms(3) show ?thesis by (auto simp: bytes_escape_len_def)
qed

lemma template_escape_boundary:
  assumes "boundary t i" "text_starts [BACKSLASH] (drop i t)" "template_escape_len (drop i t) = Some n"
  shows "0 < n \<and> boundary t (i + n)"
proof (cases "ordinary_escape_len (drop i t)")
  case None
  have "boundary t (i + 2)" if "text_starts [BACKSLASH, BACKTICK] (drop i t)"
    using boundary_prefix [OF assms(1) that] by (simp add: ascii_chars)
  moreover have "boundary t (i + 3)" if "text_starts (BACKSLASH # ''${'') (drop i t)"
  proof -
    have "list_all (in_range 0 127) (BACKSLASH # ''${'')" by (simp add: in_range_def BACKSLASH_def)
    from boundary_prefix [OF assms(1) that this] show ?thesis by (simp add: numeral_3_eq_3)
  qed
  ultimately show ?thesis using None assms(3) by (auto simp: template_escape_len_def split: if_splits)
next
  case (Some m)
  with ordinary_escape_boundary [OF assms(1,2) Some] assms(3) show ?thesis by (auto simp: template_escape_len_def)
qed

lemma invalid_escape_boundary:
  assumes "boundary t i" "text_starts [BACKSLASH] (drop i t)"
  shows "0 < invalid_escape_len (drop i t) \<and> boundary t (i + invalid_escape_len (drop i t))"
proof -
  have 1: "boundary t (i + 1)" using boundary_prefix [OF assms] by (simp add: ascii_chars)
  show ?thesis
  proof (cases "length (drop i t) \<le> 1")
    case True
    with 1 show ?thesis by (simp add: invalid_escape_len_def)
  next
    case False
    then have "boundary t (i + 1 + scalar_len (drop (i + 1) t))" using boundary_scalar [OF 1] by simp
    with False show ?thesis by (simp add: invalid_escape_len_def add.assoc add.commute)
  qed
qed

lemma scans_quoted: "boundary t i \<Longrightarrow> scans t i (fst (quoted_loop t bytes i valid))"
proof (induction t bytes i valid rule: quoted_loop.induct)
  case (1 t bytes i valid)
  show ?case
  proof (cases "i < length t")
    case False
    with 1 show ?thesis by (simp add: quoted_loop.simps [of t bytes i] scans_refl)
  next
    case True
    let ?rest = "drop i t"
    consider "text_starts [QUOTE] ?rest" | "\<not> text_starts [QUOTE] ?rest" "is_control ?rest"
      | "\<not> text_starts [QUOTE] ?rest" "\<not> is_control ?rest" "text_starts [BACKSLASH] ?rest"
      | "\<not> text_starts [QUOTE] ?rest" "\<not> is_control ?rest" "\<not> text_starts [BACKSLASH] ?rest" by blast
    then show ?thesis
    proof cases
      case 1
      then have "boundary t (i + 1)" using boundary_prefix [of t i "[QUOTE]"] \<open>boundary t i\<close> by (simp add: ascii_chars)
      with 1 True show ?thesis by (simp add: quoted_loop.simps [of t bytes i] scans_def)
    next
      case 2
      with True \<open>boundary t i\<close> show ?thesis by (simp add: quoted_loop.simps [of t bytes i] scans_refl)
    next
      case 3
      let ?n = "if bytes then bytes_escape_len ?rest else ordinary_escape_len ?rest"
      show ?thesis
      proof (cases ?n)
        case None
        with 3 True "1.IH"(1,2) [OF True refl] invalid_escape_boundary [OF \<open>boundary t i\<close> 3(3)]
          scans_further [of t i "invalid_escape_len ?rest"]
        show ?thesis by (simp add: quoted_loop.simps [of t bytes i] Let_def)
      next
        case (Some n)
        then have "boundary t (i + n)"
          using bytes_escape_boundary [OF \<open>boundary t i\<close> 3(3)] ordinary_escape_boundary [OF \<open>boundary t i\<close> 3(3)]
          by (auto split: if_splits)
        with 3 True Some "1.IH"(1,2) [OF True refl] scans_further [of t i n]
        show ?thesis by (simp add: quoted_loop.simps [of t bytes i] Let_def)
      qed
    next
      case 4
      with True "1.IH"(3) [OF True refl] boundary_scalar [OF \<open>boundary t i\<close> True] scans_further [of t i "scalar_len ?rest"]
      show ?thesis by (simp add: quoted_loop.simps [of t bytes i] Let_def)
    qed
  qed
qed

text \<open>Openers of comments are followed by a character of two bytes' width.\<close>

definition opener_ok :: "string \<Rightarrow> nat \<Rightarrow> bool" where
  "opener_ok t i \<longleftrightarrow> boundary t i \<and> boundary t (i + 2)"

lemma starts_two:
  assumes "boundary t i" "text_starts [a, b] (drop i t)" "in_range 0 127 a" "in_range 0 127 b"
  shows "opener_ok t i"
  using boundary_prefix [OF assms(1,2)] assms by (simp add: opener_ok_def)

lemma scans_block_comment:
  assumes "boundary t i" "\<forall>j\<in>set openers. opener_ok t j" "\<forall>j. overflow = Some j \<longrightarrow> opener_ok t j"
  shows "case block_comment_loop t i depth openers overflow of (e, d, os, ov) \<Rightarrow>
    scans t i e \<and> (\<forall>j\<in>set os. opener_ok t j) \<and> (\<forall>j. ov = Some j \<longrightarrow> opener_ok t j)"
  using assms
proof (induction t i depth openers overflow rule: block_comment_loop.induct)
  case (1 t i depth openers overflow)
  let ?P = "\<lambda>i (e, d, os, ov). scans t i e \<and> (\<forall>j\<in>set os. opener_ok t j) \<and> (\<forall>j. ov = Some j \<longrightarrow> opener_ok t j)"
  have further: "?P (i + n) x \<Longrightarrow> ?P i x" for n x by (auto dest: scans_further)
  have sub: "\<forall>j\<in>set (butlast openers). opener_ok t j" using "1.prems"(2) by (meson in_set_butlastD)
  show ?case
  proof (cases "i < length t")
    case False
    with "1.prems" show ?thesis by (simp add: block_comment_loop.simps [of t i] scans_refl)
  next
    case True
    consider "text_starts ''/*'' (drop i t)" | "\<not> text_starts ''/*'' (drop i t)" "text_starts ''*/'' (drop i t)"
      | "\<not> text_starts ''/*'' (drop i t)" "\<not> text_starts ''*/'' (drop i t)" by blast
    then show ?thesis
    proof cases
      case 1
      have "opener_ok t i" using starts_two [OF \<open>boundary t i\<close> 1] by (simp add: in_range_def)
      with 1 True "1.IH"(1) [OF True 1 refl] "1.prems" further [of 2] show ?thesis
        by (auto simp: block_comment_loop.simps [of t i] Let_def opener_ok_def split: option.splits)
    next
      case 2
      have "opener_ok t i" using starts_two [OF \<open>boundary t i\<close> 2(2)] by (simp add: in_range_def)
      then have two: "boundary t (i + 2)" by (simp add: opener_ok_def)
      show ?thesis
      proof (cases "depth - 1 = 0")
        case zero: True
        with 2 True two sub "1.prems" show ?thesis
          by (simp add: block_comment_loop.simps [of t i] Let_def scans_def)
      next
        case False
        let ?os = "if depth - 1 < 128 then butlast openers else openers"
        have "\<forall>j\<in>set ?os. opener_ok t j" using sub "1.prems"(2) by simp
        from further [OF "1.IH"(2) [OF True 2 refl refl False two this "1.prems"(3)]]
        show ?thesis using 2 True False by (simp add: block_comment_loop.simps [of t i] Let_def cong: if_cong)
      qed
    next
      case 3
      with True "1.IH"(3) [OF True 3] boundary_scalar [OF \<open>boundary t i\<close> True] "1.prems" further [of "scalar_len (drop i t)"]
      show ?thesis by (simp add: block_comment_loop.simps [of t i])
    qed
  qed
qed

section \<open>The invariant\<close>

fun tiles :: "nat \<Rightarrow> nat \<Rightarrow> lex_token list \<Rightarrow> bool" where
  "tiles a b [] \<longleftrightarrow> a = b"
| "tiles a b ((k, s, e) # ts) \<longleftrightarrow> k \<noteq> Eof \<and> s = a \<and> s < e \<and> tiles e b ts"

lemma tiles_append: "tiles a b ts \<Longrightarrow> k \<noteq> Eof \<Longrightarrow> b < c \<Longrightarrow> tiles a c (ts @ [(k, b, c)])"
  by (induction a b ts rule: tiles.induct) auto

fun mode_ok :: "string \<Rightarrow> mode \<Rightarrow> bool" where
  "mode_ok t ModeNormal \<longleftrightarrow> True"
| "mode_ok t (ModeTemplate opener d) \<longleftrightarrow> boundary t opener \<and> boundary t (opener + delimiter_len d)"
| "mode_ok t (ModeInterpolation opener _) \<longleftrightarrow> opener_ok t opener"

definition reports_ok :: "syntax_limits \<Rightarrow> string \<Rightarrow> lexer \<Rightarrow> bool" where
  "reports_ok lim t l \<longleftrightarrow>
     length (lx_diagnostics l) \<le> sl_diagnostics lim \<and>
     (\<forall>(code, message, start, end)\<in>set (lx_diagnostics l). start \<le> end \<and> boundary t start \<and> boundary t end) \<and>
     (\<forall>(kind, start, end)\<in>set (lx_tokens l). boundary t start \<and> boundary t end) \<and>
     (\<forall>m\<in>set (lx_modes l). mode_ok t m)"

text \<open>Between steps the tokens tile the text up to the offset, and there is room for one more token unless
  the text is at its end.\<close>

definition good :: "syntax_limits \<Rightarrow> string \<Rightarrow> lexer \<Rightarrow> bool" where
  "good lim t l \<longleftrightarrow>
     boundary t (lx_offset l) \<and> tiles 0 (lx_offset l) (lx_tokens l) \<and> reports_ok lim t l \<and>
     length (lx_tokens l) \<le> source_token_capacity lim \<and>
     (lx_offset l < length t \<longrightarrow> length (lx_tokens l) < source_token_capacity lim \<and> \<not> lx_terminated l)"

text \<open>Within a step the text from \<open>start\<close> to the offset has no token yet.\<close>

definition pending :: "syntax_limits \<Rightarrow> string \<Rightarrow> nat \<Rightarrow> lexer \<Rightarrow> bool" where
  "pending lim t start l \<longleftrightarrow>
     boundary t start \<and> boundary t (lx_offset l) \<and> start < lx_offset l \<and> tiles 0 start (lx_tokens l) \<and> reports_ok lim t l \<and>
     length (lx_tokens l) < source_token_capacity lim \<and> \<not> lx_terminated l"

definition advanced :: "syntax_limits \<Rightarrow> string \<Rightarrow> nat \<Rightarrow> lexer \<Rightarrow> bool" where
  "advanced lim t start l \<longleftrightarrow> good lim t l \<and> start < lx_offset l"

lemma boundary_end: "boundary t (length t)" by (simp add: boundary_def)

lemma boundary_le: "boundary t i \<Longrightarrow> i \<le> length t" by (simp add: boundary_def)

lemma limit_advances:
  assumes "pending lim t start l"
  shows "advanced lim t start (limit_at lim t start l)"
proof -
  have "start < length t" using assms boundary_le [of t "lx_offset l"] by (auto simp: pending_def)
  with assms show ?thesis
    by (auto simp: pending_def advanced_def good_def reports_ok_def limit_at_def Let_def boundary_end tiles_append)
qed

lemma token_advances:
  assumes "pending lim t start l" "kind \<noteq> Eof" "end = lx_offset l"
  shows "advanced lim t start (push_token lim t kind start end l)"
proof (cases "token_would_exceed lim t l end")
  case True
  with assms limit_advances [OF assms(1)] show ?thesis by (simp add: push_token_def pending_def)
next
  case False
  with assms show ?thesis
    by (auto simp: push_token_def pending_def advanced_def good_def reports_ok_def token_would_exceed_def Let_def tiles_append)
qed

lemma diagnostic_pending:
  assumes "pending lim t start l" "boundary t a" "boundary t b" "a \<le> b"
  shows "pending lim t start (snd (push_diagnostic lim code message a b l))"
    "lx_offset (snd (push_diagnostic lim code message a b l)) = lx_offset l"
  using assms by (auto simp: push_diagnostic_def pending_def reports_ok_def)

lemma diagnostic_advances:
  assumes "pending lim t start l" "boundary t a" "boundary t b" "a \<le> b" "kind \<noteq> Eof" "end = lx_offset l"
  shows "advanced lim t start
    (case push_diagnostic lim code message a b l of (False, l) \<Rightarrow> limit_at lim t start l | (True, l) \<Rightarrow> push_token lim t kind start end l)"
proof -
  obtain ok l' where p: "push_diagnostic lim code message a b l = (ok, l')" by force
  with diagnostic_pending [OF assms(1-4), of code message] have l': "pending lim t start l'" "end = lx_offset l'"
    using assms(6) by simp_all
  show ?thesis using p limit_advances [OF l'(1)] token_advances [OF l'(1) assms(5) l'(2)] by (cases ok) auto
qed

lemma error_advances:
  assumes "pending lim t start l" "end = lx_offset l"
  shows "advanced lim t start (lex_error lim t code message start end l)"
  unfolding lex_error_def using assms
  by (intro diagnostic_advances) (auto simp: pending_def)

lemma mode_advances:
  assumes "pending lim t start l" "mode_ok t m"
  shows "case push_mode lim t m start l of (False, l') \<Rightarrow> advanced lim t start l' | (True, l') \<Rightarrow> pending lim t start l' \<and> lx_offset l' = lx_offset l"
  using assms limit_advances [OF assms(1)] by (auto simp: push_mode_def pending_def reports_ok_def)

lemma last_mode_ok: "reports_ok lim t l \<Longrightarrow> mode_ok t (last_mode l)"
  by (auto simp: reports_ok_def last_mode_def)

lemma pending_modes:
  "pending lim t start l \<Longrightarrow> (\<And>m. m \<in> set ms \<Longrightarrow> m \<in> set (lx_modes l) \<or> mode_ok t m) \<Longrightarrow> pending lim t start (l\<lparr>lx_modes := ms\<rparr>)"
  by (auto simp: pending_def reports_ok_def)

lemma brace_advances:
  assumes "pending lim t start l"
  shows "case increment_interpolation_brace lim t start l of
    (False, l') \<Rightarrow> advanced lim t start l' | (True, l') \<Rightarrow> pending lim t start l' \<and> lx_offset l' = lx_offset l"
  using assms limit_advances [OF assms] last_mode_ok [of lim t l]
  by (auto simp: increment_interpolation_brace_def pending_def reports_ok_def dest: in_set_butlastD split: mode.splits)

lemma close_advances:
  assumes "pending lim t start l"
  shows "advanced lim t start (close_interpolation_or_brace lim t start l)"
proof -
  have "mode_ok t (last_mode l)" using assms last_mode_ok unfolding pending_def by blast
  then have "pending lim t start (l\<lparr>lx_modes := butlast (lx_modes l) @ [ModeInterpolation o' d']\<rparr>)"
    if "last_mode l = ModeInterpolation o' d" for o' d d'
    using that by (intro pending_modes [OF assms]) (auto dest: in_set_butlastD)
  moreover have "pending lim t start (l\<lparr>lx_modes := butlast (lx_modes l)\<rparr>)"
    by (intro pending_modes [OF assms]) (auto dest: in_set_butlastD)
  ultimately show ?thesis
    using assms by (auto simp: close_interpolation_or_brace_def intro!: token_advances split: mode.splits)
qed

lemma pending_at:
  assumes "good lim t l" "start = lx_offset l" "start < length t" "scans t (Suc start) end"
  shows "pending lim t start (at_offset end l)" "lx_offset (at_offset end l) = end"
  using assms by (auto simp: good_def pending_def at_offset_def scans_def reports_ok_def)

lemma scans_prefix:
  "boundary t i \<Longrightarrow> text_starts p (drop i t) \<Longrightarrow> list_all (in_range 0 127) p \<Longrightarrow> p \<noteq> [] \<Longrightarrow> scans t (Suc i) (i + length p)"
  using boundary_prefix [of t i p] by (cases p) (auto simp: scans_def)

section \<open>Every step advances\<close>

text \<open>A state at the beginning of a step.\<close>

definition at_step :: "syntax_limits \<Rightarrow> string \<Rightarrow> lexer \<Rightarrow> bool" where
  "at_step lim t l \<longleftrightarrow> good lim t l \<and> lx_offset l < length t"

lemma at_step_boundary: "at_step lim t l \<Longrightarrow> boundary t (lx_offset l)" by (simp add: at_step_def good_def)

lemma step_token:
  assumes "at_step lim t l" "scans t (Suc (lx_offset l)) e" "kind \<noteq> Eof"
  shows "advanced lim t (lx_offset l) (push_token lim t kind (lx_offset l) e (at_offset e l))"
  using assms pending_at [of lim t l "lx_offset l" e] by (intro token_advances) (auto simp: at_step_def)

lemma step_error:
  assumes "at_step lim t l" "scans t (Suc (lx_offset l)) e"
  shows "advanced lim t (lx_offset l) (lex_error lim t code message (lx_offset l) e (at_offset e l))"
  using assms pending_at [of lim t l "lx_offset l" e] by (intro error_advances) (auto simp: at_step_def)

lemma step_mode:
  assumes "at_step lim t l" "scans t (Suc (lx_offset l)) e" "mode_ok t m" "kind \<noteq> Eof"
  shows "advanced lim t (lx_offset l) (case push_mode lim t m (lx_offset l) (at_offset e l) of
    (False, l') \<Rightarrow> l' | (True, l') \<Rightarrow> push_token lim t kind (lx_offset l) (lx_offset l') l')"
proof -
  have "pending lim t (lx_offset l) (at_offset e l)" using assms(1,2) pending_at by (simp add: at_step_def)
  note pushed = mode_advances [OF this assms(3)]
  obtain ok l' where p: "push_mode lim t m (lx_offset l) (at_offset e l) = (ok, l')" by force
  show ?thesis using pushed p token_advances [OF _ assms(4) refl, of lim t "lx_offset l" l'] by (cases ok) auto
qed

lemma step_scalar: "at_step lim t l \<Longrightarrow> scans t (Suc (lx_offset l)) (lx_offset l + scalar_len (drop (lx_offset l) t))"
  using boundary_scalar [of t "lx_offset l"] scalar_len_pos [of "drop (lx_offset l) t"]
  by (auto simp: at_step_def good_def scans_def Suc_le_eq simp del: scalar_len_pos)

lemma step_prefix:
  "at_step lim t l \<Longrightarrow> text_starts p (drop (lx_offset l) t) \<Longrightarrow> list_all (in_range 0 127) p \<Longrightarrow> p \<noteq> [] \<Longrightarrow>
   scans t (Suc (lx_offset l)) (lx_offset l + length p)"
  by (rule scans_prefix [OF at_step_boundary])

lemma scans_trans: "scans t i j \<Longrightarrow> scans t j k \<Longrightarrow> scans t i k" by (simp add: scans_def)

lemma scans_boundary: "scans t i j \<Longrightarrow> boundary t j" by (simp add: scans_def)

lemma line_comment_advances:
  assumes "at_step lim t l" "text_starts ''//'' (drop (lx_offset l) t)"
  shows "advanced lim t (lx_offset l) (lex_line_comment lim t l)"
proof -
  have two: "scans t (Suc (lx_offset l)) (lx_offset l + 2)" using step_prefix [OF assms] by (simp add: in_range_def)
  from scans_trans [OF two scans_line_comment [OF scans_boundary [OF two]]] show ?thesis
    unfolding lex_line_comment_def Let_def by (intro step_token [OF assms(1)]) simp_all
qed

lemma block_comment_advances:
  assumes "at_step lim t l" "text_starts ''/*'' (drop (lx_offset l) t)"
  shows "advanced lim t (lx_offset l) (lex_block_comment lim t l)"
proof -
  let ?s = "lx_offset l"
  have two: "scans t (Suc ?s) (?s + 2)" using step_prefix [OF assms] by (simp add: in_range_def)
  have opener: "opener_ok t ?s" using starts_two [OF at_step_boundary [OF assms(1)] assms(2)] by (simp add: in_range_def)
  obtain e d os ov where b: "block_comment_loop t (?s + 2) 1 [?s] None = (e, d, os, ov)" by (metis prod_cases4)
  with scans_block_comment [of t "?s + 2" "[?s]" None 1] opener scans_boundary [OF two]
  have loop: "scans t (?s + 2) e" "\<forall>j\<in>set os. opener_ok t j" "\<forall>j. ov = Some j \<longrightarrow> opener_ok t j" by auto
  have e: "scans t (Suc ?s) e" using scans_trans [OF two loop(1)] .
  have p: "pending lim t ?s (at_offset e l)" "lx_offset (at_offset e l) = e"
    using pending_at [of lim t l ?s e] assms(1) e by (auto simp: at_step_def)
  have diagnosed: "advanced lim t ?s (case push_diagnostic lim code message j (j + 2) (at_offset e l) of
      (False, l) \<Rightarrow> limit_at lim t ?s l | (True, l) \<Rightarrow> push_token lim t ErrorToken ?s e l)" if "opener_ok t j" for code message j
    using that p by (intro diagnostic_advances) (auto simp: opener_ok_def)
  have "opener_ok t (if os = [] then ?s else last os)" using opener loop(2) by simp
  with loop(3) b diagnosed step_token [OF assms(1) e, of BlockComment] show ?thesis
    unfolding lex_block_comment_def by (auto simp: Let_def split: option.splits)
qed

lemma quoted_advances:
  assumes "at_step lim t l" "text_starts p (drop (lx_offset l) t)" "list_all (in_range 0 127) p"
    "length p = (if bytes then 2 else 1)"
  shows "advanced lim t (lx_offset l) (lex_quoted lim t (lx_offset l) bytes l)"
proof -
  let ?s = "lx_offset l"
  have first: "scans t (Suc ?s) (?s + length p)" using step_prefix [OF assms(1-3)] assms(4) by (cases p) (auto split: if_splits)
  obtain e v c where q: "quoted_loop t bytes (?s + (if bytes then 2 else 1)) True = (e, v, c)" by (metis prod_cases3)
  with scans_quoted [OF scans_boundary [OF first], of bytes True] assms(4) have "scans t (?s + length p) e" by simp
  from scans_trans [OF first this] have e: "scans t (Suc ?s) e" .
  show ?thesis
    using q step_token [OF assms(1) e] step_error [OF assms(1) e] by (simp add: lex_quoted_def Let_def)
qed

lemma number_advances:
  assumes "at_step lim t l" "scans t (Suc (lx_offset l)) (fst (consume_digits t (lx_offset l) False False True))"
  shows "advanced lim t (lx_offset l) (lex_number lim t l)"
proof -
  let ?s = "lx_offset l"
  obtain i h v where i: "consume_digits t ?s False False True = (i, h, v)" by (metis prod_cases3)
  then have si: "scans t (Suc ?s) i" using assms(2) by simp
  obtain j h1 v1 where j: "consume_digits t (i + 1) False False True = (j, h1, v1)" by (metis prod_cases3)
  have sj: "scans t (Suc ?s) j" if "text_starts ''.'' (drop i t)"
  proof -
    have "scans t (Suc i) (i + 1)" using scans_prefix [OF scans_boundary [OF si] that] by (simp add: in_range_def)
    then have "scans t (i + 1) j" using scans_digits [of t "i + 1" False False True] j scans_boundary by (metis fst_conv)
    with si show ?thesis by (auto simp: scans_def)
  qed
  have ascii: "boundary t (Suc k)" if "boundary t k" "byte_is P (byte_at t k)" "\<And>b. P b \<Longrightarrow> in_range 0 127 b" for k P
    using that boundary_ascii [of t k] by (auto simp: byte_is_def byte_at_def split: option.splits if_splits)
  have sk: "scans t (Suc ?s) (fst (consume_digits t k False False True))" if "boundary t k" "Suc ?s \<le> k" for k
    using scans_digits [OF that(1)] that(2) by (auto simp: scans_def intro: order_trans)
  have exponent: "scans t (Suc ?s) (fst (consume_digits t
      (if byte_is (\<lambda>b. b = CHR ''+'' \<or> b = CHR ''-'') (byte_at t (j + 1)) then j + 1 + 1 else j + 1) False False True))"
    if "text_starts ''.'' (drop i t)" "byte_is (\<lambda>b. b = CHR ''e'' \<or> b = CHR ''E'') (byte_at t j)"
  proof -
    have 1: "boundary t (j + 1)" by (simp, rule ascii [OF scans_boundary [OF sj [OF that(1)]] that(2)]) (auto simp: in_range_def)
    have "boundary t (j + 1 + 1)" if "byte_is (\<lambda>b. b = CHR ''+'' \<or> b = CHR ''-'') (byte_at t (j + 1))"
      by (simp, rule ascii [OF 1 [simplified] that [simplified]]) (auto simp: in_range_def)
    with 1 sj [OF that(1)] show ?thesis by (auto simp: scans_def intro!: sk [unfolded scans_def])
  qed
  show ?thesis
    using i j si sj exponent step_token [OF assms(1)] step_error [OF assms(1)]
    by (auto simp: lex_number_def Let_def split: prod.splits)
qed

lemma digits_first:
  assumes "boundary t i" "byte_is (\<lambda>b. is_ascii_digit b \<or> b = CHR ''_'') (byte_at t i)"
  shows "scans t (Suc i) (fst (consume_digits t i h p v))"
proof -
  have i: "i < length t" "is_ascii_digit (t ! i) \<or> t ! i = CHR ''_''"
    using assms(2) by (auto simp: byte_is_def byte_at_def split: if_splits)
  then have "boundary t (Suc i)" using boundary_ascii [OF assms(1) i(1)] digit_ascii(1) by (auto simp: in_range_def)
  with i scans_digits [of t "Suc i"] show ?thesis by (auto simp: consume_digits.simps [of t i] byte_at_def)
qed

lemma identifier_advances:
  assumes "at_step lim t l" "byte_is is_ident_start (byte_at t (lx_offset l))"
  shows "advanced lim t (lx_offset l) (lex_identifier lim t l)"
proof -
  let ?s = "lx_offset l"
  let ?n = "length (takeWhile (\<lambda>b. is_ascii_alphanumeric b \<or> b = CHR ''_'') (drop (Suc ?s) t))"
  have first: "boundary t (Suc ?s)"
    using assms boundary_ascii [OF at_step_boundary [OF assms(1)]] digit_ascii(3)
    by (auto simp: at_step_def byte_is_def byte_at_def is_ident_start_def in_range_def)
  then have "boundary t (Suc ?s + ?n)" using digit_ascii(4) by (intro boundary_while) (auto simp: in_range_def)
  then have "scans t (Suc ?s) (?s + Suc ?n)" by (simp add: scans_def)
  moreover have "(case keyword_kind w of None \<Rightarrow> Ident | Some k \<Rightarrow> k) \<noteq> Eof" for w
    by (auto simp: keyword_kind_def)
  ultimately show ?thesis unfolding lex_identifier_def Let_def by (intro step_token [OF assms(1)])
qed

lemma operators_ascii: "p \<in> set OPERATORS \<Longrightarrow> p \<noteq> [] \<and> list_all (in_range 0 127) p"
proof -
  have "list_all (\<lambda>p. p \<noteq> [] \<and> list_all (in_range 0 127) p) OPERATORS" by (simp add: OPERATORS_def in_range_def)
  then show "p \<in> set OPERATORS \<Longrightarrow> p \<noteq> [] \<and> list_all (in_range 0 127) p" by (auto simp: list_all_iff)
qed

lemma operator_advances:
  assumes "at_step lim t l"
  shows "advanced lim t (lx_offset l) (lex_operator lim t l)"
proof (cases "find (\<lambda>p. text_starts p (drop (lx_offset l) t)) OPERATORS")
  case None
  then show ?thesis using step_error [OF assms step_scalar [OF assms]] by (simp add: lex_operator_def Let_def)
next
  case (Some p)
  then have "p \<in> set OPERATORS" "text_starts p (drop (lx_offset l) t)" by (auto simp: find_Some_iff)
  with operators_ascii [of p] step_prefix [OF assms, of p] show ?thesis
    using step_token [OF assms] Some by (simp add: lex_operator_def Let_def)
qed

lemma multiline_advances:
  assumes "at_step lim t l" "text_starts [QUOTE, QUOTE, QUOTE] (drop (lx_offset l) t)"
  shows "advanced lim t (lx_offset l) (lex_multiline_start lim t (lx_offset l) l)"
proof -
  have three: "scans t (Suc (lx_offset l)) (lx_offset l + 3)"
    using step_prefix [OF assms] by (simp add: ascii_chars numeral_3_eq_3)
  have "mode_ok t (ModeTemplate (lx_offset l) DelimMultiline)"
    using at_step_boundary [OF assms(1)] scans_boundary [OF three] by (simp add: delimiter_len_def)
  from step_mode [OF assms(1) three this, of MultilineStringDelimiter] step_error [OF assms(1) three]
  show ?thesis by (simp add: lex_multiline_start_def Let_def at_offset_def)
qed

lemma raw_string_advances:
  assumes "at_step lim t l" "lex_raw_string lim t l = Some l'"
  shows "advanced lim t (lx_offset l) l'"
proof -
  let ?s = "lx_offset l"
  let ?h = "raw_hashes (drop ?s t)"
  from assms(2) have r: "text_starts ''r'' (drop ?s t)" and q: "byte_at t (?s + (1 + ?h)) = Some QUOTE"
    by (auto simp: lex_raw_string_def Let_def byte_at_drop split: if_splits)
  have "boundary t (?s + 1)" using boundary_prefix [OF at_step_boundary [OF assms(1)] r] by (simp add: in_range_def)
  then have "boundary t (?s + 1 + length (takeWhile ((=) (CHR ''#'')) (drop (?s + 1) t)))"
    by (rule boundary_while) (auto simp: in_range_def)
  then have "boundary t (?s + 1 + ?h)" by (simp add: raw_hashes_def)
  with q boundary_ascii [of t "?s + 1 + ?h"] have "boundary t (Suc (?s + 1 + ?h))"
    by (auto simp: byte_at_def ascii_chars split: if_splits)
  then have e: "scans t (Suc ?s) (?s + (1 + ?h) + 1)" by (simp add: scans_def)
  obtain x j where x: "raw_string_close t ?h (?s + (1 + ?h) + 1) = (x, j)" by force
  with scans_raw_string [OF scans_boundary [OF e], of ?h] e have j: "scans t (Suc ?s) j" "\<And>k. x = Some k \<Longrightarrow> k = j"
    by (auto dest: scans_trans)
  have p: "pending lim t ?s (at_offset j l)" "lx_offset (at_offset j l) = j"
    using pending_at [of lim t l ?s j] assms(1) j(1) by (auto simp: at_step_def)
  have unclosed: "advanced lim t ?s (push_token lim t ErrorToken ?s j
      (snd (push_diagnostic lim code message ?s (?s + (1 + ?h) + 1) (at_offset j l))))" for code message
    using diagnostic_pending [OF p(1) at_step_boundary [OF assms(1)] scans_boundary [OF e], of code message] p(2)
    by (intro token_advances) simp_all
  show ?thesis
    using assms(2) r q x step_error [OF assms(1) e] step_token [OF assms(1) j(1)] j(2) unclosed
    by (cases x) (auto simp: lex_raw_string_def Let_def byte_at_drop at_offset_def split: if_splits)
qed

lemma advanced_if:
  "(c \<Longrightarrow> advanced lim t s x) \<Longrightarrow> (\<not> c \<Longrightarrow> advanced lim t s y) \<Longrightarrow> advanced lim t s (if c then x else y)"
  by simp

lemma advanced_option:
  "(\<And>l. o' = Some l \<Longrightarrow> advanced lim t s l) \<Longrightarrow> (o' = None \<Longrightarrow> advanced lim t s y) \<Longrightarrow>
   advanced lim t s (case o' of Some l \<Rightarrow> l | None \<Rightarrow> y)"
  by (cases o') auto

lemma brace_step:
  assumes "at_step lim t l" "text_starts ''{'' (drop (lx_offset l) t)"
  shows "advanced lim t (lx_offset l) (case increment_interpolation_brace lim t (lx_offset l) (at_offset (lx_offset l + 1) l) of
    (False, l') \<Rightarrow> l' | (True, l') \<Rightarrow> push_token lim t (Operator ''{'') (lx_offset l) (lx_offset l') l')"
proof -
  have one: "scans t (Suc (lx_offset l)) (lx_offset l + 1)" using step_prefix [OF assms] by (simp add: in_range_def)
  have "pending lim t (lx_offset l) (at_offset (lx_offset l + 1) l)"
    using assms(1) pending_at [OF _ refl _ one] by (simp add: at_step_def)
  note pushed = brace_advances [OF this]
  obtain ok l' where p: "increment_interpolation_brace lim t (lx_offset l) (at_offset (lx_offset l + 1) l) = (ok, l')" by force
  show ?thesis using pushed p token_advances [OF _ _ refl, of lim t "lx_offset l" l'] by (cases ok) auto
qed

lemma normal_advances:
  assumes "at_step lim t l"
  shows "advanced lim t (lx_offset l) (lex_normal lim t l)"
proof -
  let ?s = "lx_offset l"
  let ?r = "drop ?s t"
  have b: "boundary t ?s" using assms by (rule at_step_boundary)
  have spaces: "advanced lim t ?s (push_token lim t Whitespace ?s e (at_offset e l))"
    if "text_starts '' '' ?r \<or> text_starts [TAB] ?r" "e = ?s + length (takeWhile (\<lambda>b. b = CHR '' '' \<or> b = TAB) ?r)" for e
  proof (rule step_token [OF assms])
    have "boundary t e" unfolding that(2) by (rule boundary_while [OF b]) (auto simp: TAB_def in_range_def)
    moreover have "takeWhile (\<lambda>b. b = CHR '' '' \<or> b = TAB) ?r \<noteq> []"
      using that(1) by (cases ?r) (auto simp: text_starts_def)
    ultimately show "scans t (Suc ?s) e" using that(2) by (cases "takeWhile (\<lambda>b. b = CHR '' '' \<or> b = TAB) ?r") (auto simp: scans_def)
  qed simp
  have single: "scans t (Suc ?s) (?s + 1)" if "text_starts [c] ?r" "in_range 0 127 c" for c
    using step_prefix [OF assms that(1)] that(2) by simp
  have newline: "scans t (Suc ?s) (?s + 2)" if "text_starts [CR, LF] ?r"
    using step_prefix [OF assms that] by (simp add: ascii_chars)
  have close: "advanced lim t ?s (close_interpolation_or_brace lim t ?s (at_offset (?s + 1) l))" if "text_starts ''}'' ?r"
    using close_advances [OF pending_at(1) [OF _ refl _ single [OF that]]] assms by (simp add: at_step_def in_range_def)
  have tick: "advanced lim t ?s (case push_mode lim t (ModeTemplate ?s DelimBacktick) ?s (at_offset (?s + 1) l) of
      (False, l') \<Rightarrow> l' | (True, l') \<Rightarrow> push_token lim t Backtick ?s (lx_offset l') l')" if "text_starts [BACKTICK] ?r"
    using step_mode [OF assms single [OF that ascii_chars(6)], of "ModeTemplate ?s DelimBacktick" Backtick]
      scans_boundary [OF single [OF that ascii_chars(6)]] b by (simp add: delimiter_len_def)
  have number: "advanced lim t ?s (lex_number lim t l)"
    if "byte_is is_ascii_digit (byte_at ?r 0) \<or> text_starts ''_'' ?r \<and> byte_is is_ascii_digit (byte_at ?r 1)"
    using that by (intro number_advances [OF assms] digits_first [OF b]) (auto simp: byte_at_drop starts_byte byte_is_def split: option.splits)
  have quoted: "advanced lim t ?s (lex_quoted lim t ?s True l)" if "text_starts [CHR ''b'', QUOTE] ?r"
    by (rule quoted_advances [OF assms that]) (simp_all add: ascii_chars, simp add: in_range_def)
  have string: "advanced lim t ?s (lex_quoted lim t ?s False l)" if "text_starts [QUOTE] ?r"
    by (rule quoted_advances [OF assms that]) (simp_all add: ascii_chars)
  have newlines: "advanced lim t ?s (push_token lim t Newline ?s (?s + 1) (at_offset (?s + 1) l))"
    if "text_starts [CR] ?r \<or> text_starts [LF] ?r"
    using that single ascii_chars by (intro step_token [OF assms]) auto
  show ?thesis
    unfolding lex_normal_def Let_def
    by (intro advanced_if advanced_option)
      (simp_all add: spaces newlines [simplified] step_token [OF assms newline, simplified] line_comment_advances [OF assms] block_comment_advances [OF assms]
        raw_string_advances [OF assms] quoted multiline_advances [OF assms] string close [simplified] brace_step [OF assms, simplified] tick [simplified]
        number identifier_advances [OF assms] operator_advances [OF assms] byte_at_drop)
qed

lemma template_advances:
  assumes "at_step lim t l"
  shows "advanced lim t (lx_offset l) (lex_template_segment lim t d l)"
proof -
  let ?s = "lx_offset l"
  let ?r = "drop ?s t"
  have b: "boundary t ?s" using assms by (rule at_step_boundary)
  have closing: "scans t (Suc ?s) (?s + delimiter_len d)" if "template_closes t d ?s"
    using that step_prefix [OF assms, of "[BACKTICK]"] step_prefix [OF assms, of "[QUOTE, QUOTE, QUOTE]"]
    by (auto simp: template_closes_def delimiter_len_def ascii_chars numeral_3_eq_3 split: template_delimiter.splits)
  have closed: "advanced lim t ?s (push_token lim t k ?s e ((at_offset e l)\<lparr>lx_modes := butlast (lx_modes l)\<rparr>))"
    if "scans t (Suc ?s) e" "k \<noteq> Eof" for e k
  proof (rule token_advances [OF pending_modes that(2)])
    show "pending lim t ?s (at_offset e l)" using pending_at [OF _ refl _ that(1)] assms by (simp add: at_step_def)
  qed (auto simp: at_offset_def dest: in_set_butlastD)
  have two: "scans t (Suc ?s) (?s + 2)" "opener_ok t ?s" if "text_starts ''${'' ?r"
    using step_prefix [OF assms that] starts_two [OF b that] by (simp_all add: in_range_def)
  have interpolation: "advanced lim t ?s (case push_mode lim t (ModeInterpolation ?s 0) ?s (at_offset (?s + 2) l) of
      (False, l') \<Rightarrow> l' | (True, l') \<Rightarrow> push_token lim t TemplateExprStart ?s (lx_offset l') l')" if "text_starts ''${'' ?r"
    by (rule step_mode [OF assms two(1) [OF that]]) (use two(2) [OF that] in simp_all)
  have escape: "advanced lim t ?s (push_token lim t TemplateEscape ?s (?s + n) (at_offset (?s + n) l))"
    if "text_starts [BACKSLASH] ?r" "template_escape_len ?r = Some n" for n
    using template_escape_boundary [OF b that] by (intro step_token [OF assms]) (auto simp: scans_def)
  have malformed: "scans t (Suc ?s) (?s + invalid_escape_len ?r)" if "text_starts [BACKSLASH] ?r"
    using invalid_escape_boundary [OF b that] by (auto simp: scans_def)
  have plain: "scans t (Suc ?s) (template_text_end t d ?s)"
    if "\<not> template_closes t d ?s" "\<not> text_starts ''${'' ?r" "\<not> text_starts [BACKSLASH] ?r" "\<not> (d = DelimBacktick \<and> is_control ?r)"
  proof -
    have "template_text_end t d ?s = template_text_end t d (?s + scalar_len ?r)"
      using assms that by (auto simp: at_step_def template_text_end.simps [of t d ?s])
    then show ?thesis
      using scans_template_text [OF scans_boundary [OF step_scalar [OF assms]], of d] scans_trans [OF step_scalar [OF assms]] by simp
  qed
  show ?thesis
    unfolding lex_template_segment_def Let_def
  proof (intro advanced_if)
    show "advanced lim t ?s (push_token lim t (case d of DelimBacktick \<Rightarrow> Backtick | DelimMultiline \<Rightarrow> MultilineStringDelimiter) ?s
        (?s + delimiter_len d) ((at_offset (?s + delimiter_len d) l)\<lparr>lx_modes := butlast (lx_modes l)\<rparr>))" if "template_closes t d ?s"
      using closed [OF closing [OF that]] by (cases d) simp_all
  qed (auto simp: step_error [OF assms malformed] step_error [OF assms step_scalar [OF assms]] step_token [OF assms plain] escape interpolation [simplified]
      split: option.splits)
qed

lemma step_advances: "at_step lim t l \<Longrightarrow> advanced lim t (lx_offset l) (lex_step lim t l)"
  by (simp add: lex_step_def normal_advances template_advances split: mode.split)

section \<open>The whole text\<close>

lemma lex_loop_ends:
  "good lim t l \<Longrightarrow> \<exists>l'. lex_loop lim t l = Some l' \<and> good lim t l' \<and> lx_offset l' = length t"
proof (induction "length t - lx_offset l" arbitrary: l rule: less_induct)
  case less
  show ?case
  proof (cases "lx_offset l < length t")
    case True
    then have step: "at_step lim t l" "\<not> lx_terminated l" using less.prems by (simp_all add: at_step_def good_def)
    then have adv: "good lim t (lex_step lim t l)" "lx_offset l < lx_offset (lex_step lim t l)"
      using step_advances by (simp_all add: advanced_def)
    have "length t - lx_offset (lex_step lim t l) < length t - lx_offset l" using adv(2) True by arith
    from less.hyps [OF this adv(1)]
    obtain l' where "lex_loop lim t (lex_step lim t l) = Some l'" "good lim t l'" "lx_offset l' = length t" by blast
    then show ?thesis using True step(2) by (auto simp: lex_loop.simps [of lim t l])
  next
    case False
    with less.prems show ?thesis by (auto simp: lex_loop.simps [of lim t l] good_def boundary_def)
  qed
qed

lemma capacity_pos: "0 < source_token_capacity lim" by (simp add: source_token_capacity_def)

lemma initial_good:
  assumes "utf8_valid t"
  shows "good lim t (if length t > sl_source_bytes lim then limit_at lim t 0 lexer_new else lexer_new)"
proof -
  have 0: "boundary t 0" using assms by (simp add: boundary_def)
  have "good lim t lexer_new"
    using 0 capacity_pos [of lim] by (simp add: good_def lexer_new_def reports_ok_def)
  moreover have "good lim t (limit_at lim t 0 lexer_new)" if "length t > sl_source_bytes lim"
    using that 0 boundary_end [of t] capacity_pos [of lim]
    by (auto simp: good_def lexer_new_def reports_ok_def limit_at_def Let_def)
  ultimately show ?thesis by simp
qed

lemma unterminated_good:
  assumes "good lim t l"
  shows "good lim t (unterminated lim l)" "lx_tokens (unterminated lim l) = lx_tokens l"
proof -
  have m: "mode_ok t (last_mode l)" using assms last_mode_ok by (auto simp: good_def)
  have "good lim t (snd (push_diagnostic lim code message a b l))" if "boundary t a" "boundary t b" "a \<le> b" for code message a b
    using assms that by (auto simp: push_diagnostic_def good_def reports_ok_def)
  with assms m show "good lim t (unterminated lim l)"
    by (auto simp: unterminated_def opener_ok_def split: mode.splits)
  show "lx_tokens (unterminated lim l) = lx_tokens l" by (simp add: unterminated_def push_diagnostic_def split: mode.split)
qed

lemma lexed:
  assumes "utf8_valid t"
  obtains l where "lex_with_limits lim t = Some (lx_tokens l @ [(Eof, length t, length t)], lx_diagnostics l)"
    "good lim t l" "tiles 0 (length t) (lx_tokens l)"
proof -
  from lex_loop_ends [OF initial_good [OF assms]] obtain l where
    l: "lex_loop lim t (if length t > sl_source_bytes lim then limit_at lim t 0 lexer_new else lexer_new) = Some l"
    "good lim t l" "lx_offset l = length t" by blast
  show thesis
  proof (rule that)
    show "lex_with_limits lim t = Some (lx_tokens (unterminated lim l) @ [(Eof, length t, length t)], lx_diagnostics (unterminated lim l))"
      using l(1) by (simp add: lex_with_limits_def Let_def)
    show "good lim t (unterminated lim l)" using unterminated_good(1) [OF l(2)] .
    show "tiles 0 (length t) (lx_tokens (unterminated lim l))"
      using l unterminated_good(2) [OF l(2)] by (simp add: good_def)
  qed
qed

lemma tiles_text:
  "tiles a b ts \<Longrightarrow> b \<le> length t \<Longrightarrow> a \<le> b \<and> concat (map (token_text t) ts) = take (b - a) (drop a t)"
proof (induction a b ts rule: tiles.induct)
  case (2 a b k s e ts)
  then have e: "a < e" "e \<le> b" "s = a" "concat (map (token_text t) ts) = take (b - e) (drop e t)" by auto
  then have "take (e - a) (drop a t) @ take (b - e) (drop e t) = take (b - a) (drop a t)"
    using take_add [of "e - a" "b - e" "drop a t"] by (simp add: add.commute)
  with e show ?case by (simp add: token_text_def [of t "(k, a, e)"])
qed simp

lemma tiles_no_eof: "tiles a b ts \<Longrightarrow> filter (\<lambda>(kind, _). kind \<noteq> Eof) ts = ts"
  by (induction a b ts rule: tiles.induct) auto

text \<open>(C7) The lexer returns for every text and loses nothing: the texts of its tokens, put together, are the
  source, whatever the limits are and however malformed the source is.\<close>

theorem lexer_is_lossless:
  assumes "utf8_valid t"
  shows "\<exists>tokens diagnostics. lex_with_limits lim t = Some (tokens, diagnostics) \<and> round_trip t tokens = t"
proof -
  obtain l where l: "lex_with_limits lim t = Some (lx_tokens l @ [(Eof, length t, length t)], lx_diagnostics l)"
    "good lim t l" "tiles 0 (length t) (lx_tokens l)" by (rule lexed [OF assms])
  have "round_trip t (lx_tokens l @ [(Eof, length t, length t)]) = t"
    using tiles_text [OF l(3)] tiles_no_eof [OF l(3)] by (simp add: round_trip_def)
  with l(1) show ?thesis by blast
qed

definition syntax_default :: syntax_limits where
  "syntax_default =
     \<lparr>sl_source_bytes = 64 * 1024 * 1024, sl_tokens = 1048576, sl_lexer_mode_depth = 256, sl_interpolation_brace_depth = 256,
      sl_diagnostics = 1024\<rparr>"

theorem lexer_is_lossless_witness:
  "\<exists>tokens diagnostics. lex_with_limits syntax_default ''let x = 1'' = Some (tokens, diagnostics) \<and> round_trip ''let x = 1'' tokens = ''let x = 1''"
proof -
  have "utf8_valid ''let x = 1''" by (simp add: in_range_def)
  from lexer_is_lossless [OF this] show ?thesis .
qed

text \<open>(C40) Every range the lexer reports exists in the source, so that none of its lookups fails, no token but the last is
  empty, and neither tokens nor diagnostics exceed their limits.\<close>

theorem lexer_ranges_exist:
  assumes "utf8_valid t" "lex_with_limits lim t = Some (tokens, diagnostics)"
  shows "(\<forall>(kind, start, end)\<in>set tokens. source_range t start end \<and> (kind = Eof \<or> start < end)) \<and>
    (\<forall>(code, message, start, end)\<in>set diagnostics. source_range t start end) \<and>
    length tokens \<le> max (sl_tokens lim) 2 \<and> length diagnostics \<le> sl_diagnostics lim"
proof -
  obtain l where l: "tokens = lx_tokens l @ [(Eof, length t, length t)]" "diagnostics = lx_diagnostics l"
    "good lim t l" "tiles 0 (length t) (lx_tokens l)"
    using lexed [OF assms(1), of lim] assms(2) by (metis option.inject prod.inject)
  have range: "source_range t a b" if "a \<le> b" "boundary t a" "boundary t b" for a b
    using that boundary_is_char boundary_le by (auto simp: source_range_def)
  have proper: "tiles a b ts \<Longrightarrow> (k, s, e) \<in> set ts \<Longrightarrow> s < e" for a b ts k s e
    by (induction a b ts rule: tiles.induct) auto
  have "source_range t s e \<and> (k = Eof \<or> s < e)" if "(k, s, e) \<in> set tokens" for k s e
  proof (cases "(k, s, e) \<in> set (lx_tokens l)")
    case True
    with proper [OF l(4) True] l(3) range show ?thesis by (fastforce simp: good_def reports_ok_def)
  next
    case False
    with that l(1) range [OF _ boundary_end boundary_end] show ?thesis by simp
  qed
  moreover have "source_range t s e" if "(c, m, s, e) \<in> set diagnostics" for c m s e
    using that l(2,3) range by (fastforce simp: good_def reports_ok_def)
  moreover have "length tokens \<le> max (sl_tokens lim) 2" "length diagnostics \<le> sl_diagnostics lim"
    using l(1-3) by (auto simp: good_def reports_ok_def source_token_capacity_def)
  ultimately show ?thesis by auto
qed

theorem lexer_ranges_exist_witness:
  "\<exists>tokens diagnostics. lex_with_limits syntax_default ''let x = 1'' = Some (tokens, diagnostics) \<and> length tokens \<le> 1048576 \<and>
     list_all (\<lambda>(kind, start, end). source_range ''let x = 1'' start end \<and> (kind = Eof \<or> start < end)) tokens"
proof -
  have v: "utf8_valid ''let x = 1''" by (simp add: in_range_def)
  obtain tokens diagnostics where l: "lex_with_limits syntax_default ''let x = 1'' = Some (tokens, diagnostics)"
    by (rule lexed [OF v]) blast
  from lexer_ranges_exist [OF v l] l show ?thesis by (auto simp: syntax_default_def list_all_iff)
qed

end
