(* ===== verification/Bytecode_Cfg.thy ===== *)
theory Bytecode_Cfg
  imports Bytecode_Code
begin

text \<open>
  The control-flow check of the bytecode verifier (\<open>verify_cfg_function\<close> of
  \<open>allen-bytecode/src/verifier.rs\<close>): targets are in range, no register is read before it is written, no path
  runs off the end of the code and every instruction is reachable. The check runs after the check of the types of the
  instructions, which rejects register numbers that are out of range: \<open>registers_in_range\<close>.
\<close>

section \<open>What instructions read and write\<close>

fun scalar_destination :: "scalar_instruction \<Rightarrow> register" where
  "scalar_destination (IConst d _) = d"
| "scalar_destination (IMove d _) = d"
| "scalar_destination (IIntBinary d _ _ _) = d"
| "scalar_destination (IIntRemainder d _ _) = d"
| "scalar_destination (IFloatBinary d _ _ _) = d"
| "scalar_destination (IIntNegate d _) = d"
| "scalar_destination (IFloatNegate d _) = d"
| "scalar_destination (ICompare d _ _ _) = d"
| "scalar_destination (IBoolNot d _) = d"
| "scalar_destination (IBoolBinary d _ _ _) = d"
| "scalar_destination (IRangeNew d _ _ _) = d"
| "scalar_destination (IRangeStart d _) = d"
| "scalar_destination (IRangeEnd d _) = d"
| "scalar_destination (IRangeInclusive d _) = d"
| "scalar_destination (IConvert d _ _) = d"

fun scalar_sources :: "scalar_instruction \<Rightarrow> register list" where
  "scalar_sources (IConst _ _) = []"
| "scalar_sources (IMove _ s) = [s]"
| "scalar_sources (IIntBinary _ a b _) = [a, b]"
| "scalar_sources (IIntRemainder _ a b) = [a, b]"
| "scalar_sources (IFloatBinary _ a b _) = [a, b]"
| "scalar_sources (IIntNegate _ s) = [s]"
| "scalar_sources (IFloatNegate _ s) = [s]"
| "scalar_sources (ICompare _ a b _) = [a, b]"
| "scalar_sources (IBoolNot _ s) = [s]"
| "scalar_sources (IBoolBinary _ a b _) = [a, b]"
| "scalar_sources (IRangeNew _ a b _) = [a, b]"
| "scalar_sources (IRangeStart _ r) = [r]"
| "scalar_sources (IRangeEnd _ r) = [r]"
| "scalar_sources (IRangeInclusive _ r) = [r]"
| "scalar_sources (IConvert _ s _) = [s]"

fun aggregate_destination :: "aggregate_instruction \<Rightarrow> register" where
  "aggregate_destination (IListNew d _) = d"
| "aggregate_destination (IListLiteralBuild d _) = d"
| "aggregate_destination (IMapNew d _) = d"
| "aggregate_destination (IMapLiteralBuild d _) = d"
| "aggregate_destination (ITupleNew d _) = d"
| "aggregate_destination (IIndexGet d _ _) = d"
| "aggregate_destination (ISliceGet d _ _ _) = d"
| "aggregate_destination (IMapEntryAt d _ _) = d"
| "aggregate_destination (ILength d _) = d"
| "aggregate_destination (IListAppend d _ _) = d"
| "aggregate_destination (IListSet d _ _ _) = d"
| "aggregate_destination (ITupleGet d _ _) = d"
| "aggregate_destination (IRecordNew d _) = d"
| "aggregate_destination (INewtypeWrap d _) = d"
| "aggregate_destination (INewtypeUnwrap d _) = d"
| "aggregate_destination (IFieldGet d _ _) = d"
| "aggregate_destination (IEnumNew d _ _) = d"
| "aggregate_destination (IToUnknown d _) = d"
| "aggregate_destination (INarrow d _ _) = d"

fun list_item_source :: "list_literal_item \<Rightarrow> register" where
  "list_item_source (ListElement r) = r"
| "list_item_source (ListSpread r) = r"

fun map_item_sources :: "map_literal_item \<Rightarrow> register list" where
  "map_item_sources (MapEntry k v) = [k, v]"
| "map_item_sources (MapSpread r) = [r]"

fun aggregate_sources :: "aggregate_instruction \<Rightarrow> register list" where
  "aggregate_sources (IListNew _ rs) = rs"
| "aggregate_sources (IListLiteralBuild _ items) = map list_item_source items"
| "aggregate_sources (IMapNew _ entries) = concat (map (\<lambda>(k, v). [k, v]) entries)"
| "aggregate_sources (IMapLiteralBuild _ items) = concat (map map_item_sources items)"
| "aggregate_sources (ITupleNew _ rs) = rs"
| "aggregate_sources (IIndexGet _ c i) = [c, i]"
| "aggregate_sources (ISliceGet _ c s e) = [c, s, e]"
| "aggregate_sources (IMapEntryAt _ m i) = [m, i]"
| "aggregate_sources (ILength _ c) = [c]"
| "aggregate_sources (IListAppend _ vs v) = [vs, v]"
| "aggregate_sources (IListSet _ vs i v) = [vs, i, v]"
| "aggregate_sources (ITupleGet _ t _) = [t]"
| "aggregate_sources (IRecordNew _ fs) = map snd fs"
| "aggregate_sources (INewtypeWrap _ s) = [s]"
| "aggregate_sources (INewtypeUnwrap _ s) = [s]"
| "aggregate_sources (IFieldGet _ r _) = [r]"
| "aggregate_sources (IEnumNew _ _ payload) = payload"
| "aggregate_sources (IToUnknown _ s) = [s]"
| "aggregate_sources (INarrow _ s _) = [s]"

fun library_destination :: "library_instruction \<Rightarrow> register" where
  "library_destination (IStringCall d _ _) = d"
| "library_destination (ITemplateRender d _ _) = d"
| "library_destination (IStandardCall d _ _) = d"
| "library_destination (ICapabilityInspect d _ _) = d"
| "library_destination (ISafeCollectionCall d _ _) = d"
| "library_destination (ICheckedIntCall d _ _) = d"
| "library_destination (ICollectionCall d _ _) = d"
| "library_destination (IDecode d _ _) = d"
| "library_destination (IClosureNew d _ _) = d"
| "library_destination (IAsyncCall d _ _) = d"
| "library_destination (IEffectCall d _ _) = d"
| "library_destination (IToolInvoke d _ _) = d"
| "library_destination (IWorkspaceGet d) = d"

fun library_sources :: "library_instruction \<Rightarrow> register list" where
  "library_sources (IStringCall _ _ rs) = rs"
| "library_sources (ITemplateRender _ _ rs) = rs"
| "library_sources (IStandardCall _ _ rs) = rs"
| "library_sources (ICapabilityInspect _ _ rs) = rs"
| "library_sources (ISafeCollectionCall _ _ rs) = rs"
| "library_sources (ICheckedIntCall _ _ rs) = rs"
| "library_sources (ICollectionCall _ _ rs) = rs"
| "library_sources (IDecode _ s _) = [s]"
| "library_sources (IClosureNew _ _ rs) = rs"
| "library_sources (IAsyncCall _ _ rs) = rs"
| "library_sources (IEffectCall _ _ rs) = rs"
| "library_sources (IToolInvoke _ _ s) = [s]"
| "library_sources (IWorkspaceGet _) = []"

fun control_destination :: "control_instruction \<Rightarrow> register option" where
  "control_destination (IBranchBool _ _ _) = None"
| "control_destination (ISwitchEnum _ _) = None"
| "control_destination (IJump _) = None"
| "control_destination (ITryResult d _) = Some d"
| "control_destination (ITryOption d _) = Some d"
| "control_destination (IDirectCall d _ _) = Some d"
| "control_destination (IClosureCall d _ _) = Some d"
| "control_destination (IStop _) = None"
| "control_destination (IFail _) = None"
| "control_destination (IReturn _) = None"

fun control_sources :: "control_instruction \<Rightarrow> register list" where
  "control_sources (IBranchBool c _ _) = [c]"
| "control_sources (ISwitchEnum s _) = [s]"
| "control_sources (IJump _) = []"
| "control_sources (ITryResult _ s) = [s]"
| "control_sources (ITryOption _ s) = [s]"
| "control_sources (IDirectCall _ _ rs) = rs"
| "control_sources (IClosureCall _ c rs) = c # rs"
| "control_sources (IStop r) = [r]"
| "control_sources (IFail r) = [r]"
| "control_sources (IReturn s) = [s]"

fun task_destination :: "task_instruction \<Rightarrow> register option" where
  "task_destination (ISpawn d _ _) = Some d"
| "task_destination (IAwait d _) = Some d"
| "task_destination (ITaskSnapshot d _) = Some d"
| "task_destination (ITaskScopeEnter _) = None"
| "task_destination (ITaskScopeExit _) = None"

fun task_sources :: "task_instruction \<Rightarrow> register list" where
  "task_sources (ISpawn _ f _) = [f]"
| "task_sources (IAwait _ s) = [s]"
| "task_sources (ITaskSnapshot _ s) = [s]"
| "task_sources (ITaskScopeEnter _) = []"
| "task_sources (ITaskScopeExit _) = []"

fun loop_destination :: "loop_instruction \<Rightarrow> register" where
  "loop_destination (IListFold d _ _ _) = d"
| "loop_destination (IListCombinator d _ _ _ _ _) = d"
| "loop_destination (ISequenceFromList d _) = d"
| "loop_destination (ISequenceTake d _ _) = d"
| "loop_destination (ISequenceMap d _ _) = d"
| "loop_destination (ISequenceFilter d _ _) = d"
| "loop_destination (ISequenceToList d _) = d"
| "loop_destination (ISequenceFind d _ _) = d"
| "loop_destination (ISequenceAny d _ _) = d"
| "loop_destination (ISequenceAll d _ _) = d"
| "loop_destination (ISequenceFold d _ _ _) = d"

fun loop_sources :: "loop_instruction \<Rightarrow> register list" where
  "loop_sources (IListFold _ vs initial callback) = [vs, initial, callback]"
| "loop_sources (IListCombinator _ _ vs initial callback _) =
     [vs, callback] @ (case initial of None \<Rightarrow> [] | Some r \<Rightarrow> [r])"
| "loop_sources (ISequenceFromList _ vs) = [vs]"
| "loop_sources (ISequenceTake _ s n) = [s, n]"
| "loop_sources (ISequenceMap _ s callback) = [s, callback]"
| "loop_sources (ISequenceFilter _ s callback) = [s, callback]"
| "loop_sources (ISequenceToList _ s) = [s]"
| "loop_sources (ISequenceFind _ s callback) = [s, callback]"
| "loop_sources (ISequenceAny _ s callback) = [s, callback]"
| "loop_sources (ISequenceAll _ s callback) = [s, callback]"
| "loop_sources (ISequenceFold _ s initial callback) = [s, initial, callback]"

fun instruction_destination :: "instruction \<Rightarrow> register option" where
  "instruction_destination (Scalar i) = Some (scalar_destination i)"
| "instruction_destination (Aggregate i) = Some (aggregate_destination i)"
| "instruction_destination (Library i) = Some (library_destination i)"
| "instruction_destination (Control i) = control_destination i"
| "instruction_destination (Tasking i) = task_destination i"
| "instruction_destination (Looping i) = Some (loop_destination i)"

fun instruction_sources :: "instruction \<Rightarrow> register list" where
  "instruction_sources (Scalar i) = scalar_sources i"
| "instruction_sources (Aggregate i) = aggregate_sources i"
| "instruction_sources (Library i) = library_sources i"
| "instruction_sources (Control i) = control_sources i"
| "instruction_sources (Tasking i) = task_sources i"
| "instruction_sources (Looping i) = loop_sources i"

section \<open>The check\<close>

type_synonym verify_error = "nat \<times> string"

definition validate_target :: "nat \<Rightarrow> u32 \<Rightarrow> nat \<Rightarrow> verify_error + unit" where
  "validate_target instruction_index target code_len =
     (if unat target < code_len then Inr () else Inl (instruction_index, ''control-flow target is out of range''))"

fun validate_all :: "nat \<Rightarrow> nat \<Rightarrow> u32 list \<Rightarrow> verify_error + unit" where
  "validate_all i code_len [] = Inr ()"
| "validate_all i code_len (t # ts) = result_bind (validate_target i t code_len) (\<lambda>_. validate_all i code_len ts)"

fun branch_targets :: "instruction \<Rightarrow> u32 list" where
  "branch_targets (Control (IBranchBool _ a b)) = [a, b]"
| "branch_targets (Control (ISwitchEnum _ arms)) = map sa_target arms"
| "branch_targets (Control (IJump t)) = [t]"
| "branch_targets _ = []"

fun validate_targets :: "nat \<Rightarrow> nat \<Rightarrow> instruction list \<Rightarrow> verify_error + unit" where
  "validate_targets i code_len [] = Inr ()"
| "validate_targets i code_len (ins # code) =
     result_bind (validate_all i code_len (branch_targets ins)) (\<lambda>_. validate_targets (Suc i) code_len code)"

type_synonym entry_states = "bool list option list"

fun mark_registers :: "register list \<Rightarrow> bool list \<Rightarrow> bool list" where
  "mark_registers [] state = state"
| "mark_registers (r # rs) state = mark_registers rs (state[unat r := True])"

definition merge_state :: "bool list \<Rightarrow> bool list \<Rightarrow> bool list" where
  "merge_state current incoming =
     map (\<lambda>(i, c). c \<and> (i < length incoming \<longrightarrow> incoming ! i)) (enumerate 0 current)"

definition merge_edge :: "nat \<Rightarrow> bool list \<Rightarrow> entry_states \<times> nat list \<Rightarrow> entry_states \<times> nat list" where
  "merge_edge target incoming = (\<lambda>(states, worklist).
     case states ! target of
       None \<Rightarrow> (states[target := Some incoming], worklist @ [target])
     | Some current \<Rightarrow>
         let merged = merge_state current incoming
         in (states[target := Some merged], if merged \<noteq> current then worklist @ [target] else worklist))"

text \<open>The edges out of an instruction, with the registers each binds; an instruction that falls through may leave the code.\<close>

fun edges :: "nat \<Rightarrow> instruction \<Rightarrow> (nat \<times> register list) list" where
  "edges i (Control (IReturn _)) = []"
| "edges i (Control (IStop _)) = []"
| "edges i (Control (IFail _)) = []"
| "edges i (Control (IJump t)) = [(unat t, [])]"
| "edges i (Control (IBranchBool _ a b)) = [(unat a, []), (unat b, [])]"
| "edges i (Control (ISwitchEnum _ arms)) = map (\<lambda>arm. (unat (sa_target arm), sa_bindings arm)) arms"
| "edges i _ = [(Suc i, [])]"

fun merge_edges :: "bool list \<Rightarrow> (nat \<times> register list) list \<Rightarrow> entry_states \<times> nat list \<Rightarrow> entry_states \<times> nat list" where
  "merge_edges state [] sw = sw"
| "merge_edges state ((target, bindings) # es) sw =
     merge_edges state es (merge_edge target (mark_registers bindings state) sw)"

fun falls_through :: "instruction \<Rightarrow> bool" where
  "falls_through (Control (IReturn _)) = False"
| "falls_through (Control (IStop _)) = False"
| "falls_through (Control (IFail _)) = False"
| "falls_through (Control (IJump _)) = False"
| "falls_through (Control (IBranchBool _ _ _)) = False"
| "falls_through (Control (ISwitchEnum _ _)) = False"
| "falls_through _ = True"

definition visit :: "function_def \<Rightarrow> nat \<Rightarrow> entry_states \<Rightarrow> nat list \<Rightarrow> verify_error + entry_states \<times> nat list" where
  "visit fn i states worklist =
     (let state = the (states ! i);
          ins = fn_code fn ! i
      in if list_all (\<lambda>r. state ! unat r) (instruction_sources ins)
         then
           let state = (case instruction_destination ins of None \<Rightarrow> state | Some d \<Rightarrow> state[unat d := True])
           in if falls_through ins \<and> Suc i = length (fn_code fn)
              then Inl (i, ''reachable path falls through the function'')
              else Inr (merge_edges state (edges i ins) (states, worklist))
         else Inl (i, ''register is not initialized''))"

partial_function (option) cfg_loop ::
  "function_def \<Rightarrow> entry_states \<Rightarrow> nat list \<Rightarrow> (verify_error + entry_states) option" where
  "cfg_loop fn states worklist =
     (case worklist of
        [] \<Rightarrow> Some (Inr states)
      | i # rest \<Rightarrow>
          (case visit fn i states rest of
             Inl e \<Rightarrow> Some (Inl e)
           | Inr sw \<Rightarrow> cfg_loop fn (fst sw) (snd sw)))"

declare cfg_loop.simps [code]

definition initial_state :: "function_def \<Rightarrow> bool list" where
  "initial_state fn = mark_registers (fn_parameters fn @ fn_captures fn) (replicate (length (fn_registers fn)) False)"

definition initial_states :: "function_def \<Rightarrow> entry_states" where
  "initial_states fn = (replicate (length (fn_code fn)) None)[0 := Some (initial_state fn)]"

fun position :: "('a \<Rightarrow> bool) \<Rightarrow> 'a list \<Rightarrow> nat option" where
  "position P [] = None"
| "position P (x # xs) = (if P x then Some 0 else map_option Suc (position P xs))"

definition verify_initialization :: "function_def \<Rightarrow> (verify_error + entry_states) option" where
  "verify_initialization fn =
     (if fn_code fn = [] then Some (Inl (0, ''function has no reachable terminal instruction''))
      else
        (case validate_targets 0 (length (fn_code fn)) (fn_code fn) of
           Inl e \<Rightarrow> Some (Inl e)
         | Inr _ \<Rightarrow>
             Option.bind (cfg_loop fn (initial_states fn) [0]) (\<lambda>result.
               case result of
                 Inl e \<Rightarrow> Some (Inl e)
               | Inr states \<Rightarrow>
                   (case position (\<lambda>s. s = None) states of
                      Some unreachable \<Rightarrow> Some (Inl (unreachable, ''instruction is unreachable''))
                    | None \<Rightarrow> Some (Inr states)))))"

definition registers_in_range :: "function_def \<Rightarrow> bool" where
  "registers_in_range fn \<longleftrightarrow>
     (\<forall>r\<in>set (fn_parameters fn @ fn_captures fn). unat r < length (fn_registers fn)) \<and>
     (\<forall>i<length (fn_code fn). \<forall>r\<in>set (instruction_sources (fn_code fn ! i)) \<union> set_option (instruction_destination (fn_code fn ! i)) \<union>
        (\<Union>(target, bindings)\<in>set (edges i (fn_code fn ! i)). set bindings). unat r < length (fn_registers fn))"

section \<open>Paths\<close>

text \<open>The paths through the code: an instruction and the registers written before it.\<close>

inductive cfg_reach :: "function_def \<Rightarrow> nat \<Rightarrow> register set \<Rightarrow> bool" for fn where
  cfg_start: "cfg_reach fn 0 (set (fn_parameters fn) \<union> set (fn_captures fn))"
| cfg_step: "cfg_reach fn i R \<Longrightarrow> i < length (fn_code fn) \<Longrightarrow> (j, bindings) \<in> set (edges i (fn_code fn ! i)) \<Longrightarrow>
    cfg_reach fn j (R \<union> set_option (instruction_destination (fn_code fn ! i)) \<union> set bindings)"

end
