(* ===== verification/Work_List.thy ===== *)
theory Work_List
  imports Prelude
begin

text \<open>
  Loops over a work list of instructions, as the checks of the bytecode verifier run them: an instruction is taken from the front
  and visiting it refuses the program or gives a new state and a new list. What a client provides is an
  invariant that visits keep and a rank that they lower; it gets that the loop ends, with the invariant or with a
  refusal that is justified.
\<close>

locale visiting_loop =
  fixes visit :: "nat \<Rightarrow> 's \<Rightarrow> nat list \<Rightarrow> 'e + 's \<times> nat list"
    and iterate :: "'s \<Rightarrow> nat list \<Rightarrow> ('e + 's) option"
    and inv :: "'s \<Rightarrow> nat list \<Rightarrow> bool"
    and refused :: "'e \<Rightarrow> bool"
    and rank :: "'s \<Rightarrow> nat list \<Rightarrow> nat \<times> nat"
  assumes iterate_Nil: "iterate s [] = Some (Inr s)"
    and iterate_Cons: "iterate s (i # rest) = (case visit i s rest of Inl e \<Rightarrow> Some (Inl e) | Inr sw \<Rightarrow> iterate (fst sw) (snd sw))"
    and visit_refused: "inv s (i # rest) \<Longrightarrow> visit i s rest = Inl e \<Longrightarrow> refused e"
    and visit_inv: "inv s (i # rest) \<Longrightarrow> visit i s rest = Inr (s', wl) \<Longrightarrow> inv s' wl"
    and visit_rank: "inv s (i # rest) \<Longrightarrow> visit i s rest = Inr (s', wl) \<Longrightarrow> (rank s' wl, rank s (i # rest)) \<in> less_than <*lex*> less_than"
begin

lemma iterate_returns:
  "inv s wl \<Longrightarrow> \<exists>result. iterate s wl = Some result \<and> (case result of Inl e \<Rightarrow> refused e | Inr s' \<Rightarrow> inv s' [])"
proof (induction "rank s wl" arbitrary: s wl rule: wf_induct_rule [OF wf_lex_prod [OF wf_less_than wf_less_than]])
  case 1
  show ?case
  proof (cases wl)
    case Nil
    with 1 show ?thesis by (simp add: iterate_Nil)
  next
    case (Cons i rest)
    show ?thesis
    proof (cases "visit i s rest")
      case (Inl e)
      with 1 Cons visit_refused show ?thesis by (auto simp: iterate_Cons)
    next
      case (Inr sw)
      then have v: "visit i s rest = Inr (fst sw, snd sw)" by simp
      from 1 Cons have inv: "inv s (i # rest)" by simp
      from 1(1) [OF _ visit_inv [OF inv v]] visit_rank [OF inv v] Cons v show ?thesis by (simp add: iterate_Cons)
    qed
  qed
qed

end

end
