(* ===== verification/Bytecode_Cfg_Exact.thy ===== *)
theory Bytecode_Cfg_Exact
  imports Bytecode_Cfg Work_List
begin

text \<open>
  The control-flow check is exact: it accepts a function when, and only when, its targets are in range, every
  instruction is on a path from the entry, and on every path registers are written before they are read and the code is not
  left but by a return, a stop or a failure.
\<close>

section \<open>Register sets\<close>

definition inits :: "bool list \<Rightarrow> register set" where
  "inits s = {r. unat r < length s \<and> s ! unat r}"

lemma inits_set: "unat r < length s \<Longrightarrow> inits (s[unat r := True]) = insert r (inits s)"
  by (auto simp: inits_def nth_list_update word_unat_eq_iff)

lemma length_mark [simp]: "length (mark_registers rs s) = length s"
  by (induction rs s rule: mark_registers.induct) auto

lemma inits_mark: "(\<And>r. r \<in> set rs \<Longrightarrow> unat r < length s) \<Longrightarrow> inits (mark_registers rs s) = inits s \<union> set rs"
  by (induction rs s rule: mark_registers.induct) (auto simp: inits_set)

lemma length_merge [simp]: "length (merge_state c i) = length c"
  by (simp add: merge_state_def)

lemma merge_nth: "k < length c \<Longrightarrow> merge_state c i ! k \<longleftrightarrow> c ! k \<and> (k < length i \<longrightarrow> i ! k)"
  by (simp add: merge_state_def nth_enumerate_eq)

lemma inits_merge: "length i = length c \<Longrightarrow> inits (merge_state c i) = inits c \<inter> inits i"
  by (auto simp: inits_def merge_nth)

definition weight :: "nat \<Rightarrow> bool list option \<Rightarrow> nat" where
  "weight n x = (case x of None \<Rightarrow> Suc n | Some s \<Rightarrow> length (filter (\<lambda>b. b) s))"

lemma filter_less: "length xs = length ys \<Longrightarrow> (\<And>k. k < length ys \<Longrightarrow> xs ! k \<Longrightarrow> ys ! k) \<Longrightarrow> xs \<noteq> ys \<Longrightarrow>
  length (filter (\<lambda>b. b) xs) < length (filter (\<lambda>b. b) ys)"
proof (induction xs ys rule: list_induct2)
  case (Cons x xs y ys)
  have sub: "k < length ys \<Longrightarrow> xs ! k \<Longrightarrow> ys ! k" for k using Cons.prems(1) [of "Suc k"] by simp
  have "x \<Longrightarrow> y" using Cons.prems(1) [of 0] by simp
  moreover have "length (filter (\<lambda>b. b) xs) \<le> length (filter (\<lambda>b. b) ys)" 
    using Cons.IH [OF sub] by (metis less_imp_le order_refl)
  moreover have "xs \<noteq> ys \<Longrightarrow> length (filter (\<lambda>b. b) xs) < length (filter (\<lambda>b. b) ys)" using Cons.IH [OF sub] by blast
  ultimately show ?case using Cons.prems(2) by (cases x; cases y) auto
qed simp

lemma weight_merge: "merge_state c i \<noteq> c \<Longrightarrow> weight n (Some (merge_state c i)) < weight n (Some c)"
  by (simp add: weight_def) (rule filter_less, auto simp: merge_nth)

definition total_weight :: "nat \<Rightarrow> entry_states \<Rightarrow> nat" where
  "total_weight n st = sum_list (map (weight n) st)"

lemma total_weight_update:
  "k < length st \<Longrightarrow> weight n x < weight n (st ! k) \<Longrightarrow> total_weight n (st[k := x]) < total_weight n st"
proof (induction st arbitrary: k)
  case (Cons a st)
  then show ?case by (cases k) (auto simp: total_weight_def)
qed simp

section \<open>One edge\<close>

definition states_wf :: "nat \<Rightarrow> nat \<Rightarrow> entry_states \<Rightarrow> bool" where
  "states_wf len n st \<longleftrightarrow> length st = len \<and> (\<forall>j<len. \<forall>s. st ! j = Some s \<longrightarrow> length s = n)"

text \<open>The states change at most from one to another that knows less, and where they change there is work.\<close>

definition lowers :: "nat \<Rightarrow> entry_states \<times> nat list \<Rightarrow> entry_states \<times> nat list \<Rightarrow> bool" where
  "lowers n sw sw' \<longleftrightarrow>
     (\<forall>j s. j < length (fst sw) \<longrightarrow> fst sw ! j = Some s \<longrightarrow> (\<exists>s'. fst sw' ! j = Some s' \<and> inits s' \<subseteq> inits s)) \<and>
     set (snd sw) \<subseteq> set (snd sw') \<and>
     (\<forall>j<length (fst sw). fst sw' ! j \<noteq> fst sw ! j \<longrightarrow> j \<in> set (snd sw')) \<and>
     (total_weight n (fst sw') < total_weight n (fst sw) \<or> sw' = sw)"

lemma lowers_refl: "lowers n sw sw" by (auto simp: lowers_def)

lemma lowers_trans:
  assumes "lowers n a b" "lowers n b c" "length (fst b) = length (fst a)"
  shows "lowers n a c"
proof -
  have "\<exists>s'. fst c ! j = Some s' \<and> inits s' \<subseteq> inits s" if "j < length (fst a)" "fst a ! j = Some s" for j s
    using assms that unfolding lowers_def by (metis order_trans)
  moreover have "j \<in> set (snd c)" if "j < length (fst a)" "fst c ! j \<noteq> fst a ! j" for j
    using assms that unfolding lowers_def by (metis subsetD)
  ultimately show ?thesis using assms unfolding lowers_def by (auto 0 3)
qed

lemma merge_edge_lowers:
  assumes "states_wf len n st" "target < len" "length inc = n"
  shows "lowers n (st, wl) (merge_edge target inc (st, wl))"
    "states_wf len n (fst (merge_edge target inc (st, wl)))"
    "\<exists>s'. fst (merge_edge target inc (st, wl)) ! target = Some s' \<and> inits s' \<subseteq> inits inc"
    "set (snd (merge_edge target inc (st, wl))) \<subseteq> insert target (set wl)"
    "(\<And>j s. j < len \<Longrightarrow> st ! j = Some s \<Longrightarrow> Q j (inits s)) \<Longrightarrow> Q target (inits inc) \<Longrightarrow>
       (\<And>A B. Q target A \<Longrightarrow> Q target B \<Longrightarrow> Q target (A \<inter> B)) \<Longrightarrow>
       j < len \<Longrightarrow> fst (merge_edge target inc (st, wl)) ! j = Some s \<Longrightarrow> Q j (inits s)"
proof -
  have len: "length st = len" "target < length st" using assms by (auto simp: states_wf_def)
  have all: "lowers n (st, wl) (merge_edge target inc (st, wl)) \<and> states_wf len n (fst (merge_edge target inc (st, wl))) \<and>
    (\<exists>s'. fst (merge_edge target inc (st, wl)) ! target = Some s' \<and> inits s' \<subseteq> inits inc \<and>
      inits s' = (case st ! target of None \<Rightarrow> inits inc | Some c \<Rightarrow> inits c \<inter> inits inc)) \<and>
    set (snd (merge_edge target inc (st, wl))) \<subseteq> insert target (set wl) \<and>
    (\<forall>j<len. j \<noteq> target \<longrightarrow> fst (merge_edge target inc (st, wl)) ! j = st ! j)"
  proof (cases "st ! target")
    case None
    have "weight n (Some inc) < weight n (st ! target)"
      using None assms(3) le_imp_less_Suc [OF length_filter_le [of "\<lambda>b. b" inc]] by (simp add: weight_def)
    with total_weight_update [OF len(2)] have "total_weight n (st[target := Some inc]) < total_weight n st" by blast
    with None len assms show ?thesis
      by (auto simp: merge_edge_def lowers_def states_wf_def nth_list_update)
  next
    case (Some c)
    then have c: "length c = n" "inits (merge_state c inc) = inits c \<inter> inits inc"
      using assms by (auto simp: states_wf_def inits_merge)
    show ?thesis
    proof (cases "merge_state c inc = c")
      case True
      then have "merge_edge target inc (st, wl) = (st, wl)" using Some len(2) by (simp add: merge_edge_def list_update_same_conv)
      then show ?thesis using Some True c assms(1) by (auto simp: lowers_refl)
    next
      case False
      have "total_weight n (st[target := Some (merge_state c inc)]) < total_weight n st"
        using total_weight_update [OF len(2)] weight_merge [OF False] Some by simp
      with Some False c len assms show ?thesis
        by (auto simp: merge_edge_def lowers_def states_wf_def nth_list_update Let_def)
    qed
  qed
  then show "lowers n (st, wl) (merge_edge target inc (st, wl))"
    "states_wf len n (fst (merge_edge target inc (st, wl)))"
    "\<exists>s'. fst (merge_edge target inc (st, wl)) ! target = Some s' \<and> inits s' \<subseteq> inits inc"
    "set (snd (merge_edge target inc (st, wl))) \<subseteq> insert target (set wl)" by blast+
  assume Q: "\<And>j s. j < len \<Longrightarrow> st ! j = Some s \<Longrightarrow> Q j (inits s)" "Q target (inits inc)"
    "\<And>A B. Q target A \<Longrightarrow> Q target B \<Longrightarrow> Q target (A \<inter> B)" "j < len" "fst (merge_edge target inc (st, wl)) ! j = Some s"
  then show "Q j (inits s)" using all assms(2) by (cases "j = target"; cases "st ! target") auto
qed


section \<open>The edges of an instruction\<close>

abbreviation edges_ok :: "nat \<Rightarrow> nat \<Rightarrow> (nat \<times> register list) list \<Rightarrow> bool" where
  "edges_ok len n es \<equiv> \<forall>(t, bs)\<in>set es. t < len \<and> (\<forall>r\<in>set bs. unat r < n)"

lemma lowers_state: "lowers n (st, wl) (st', wl') \<Longrightarrow> j < length st \<Longrightarrow> st ! j = Some s \<Longrightarrow> \<exists>s'. st' ! j = Some s' \<and> inits s' \<subseteq> inits s"
  by (auto simp: lowers_def)

lemma merge_edges_lowers:
  assumes "states_wf len n st" "edges_ok len n es" "length s = n" "merge_edges s es (st, wl) = (st', wl')"
  shows "lowers n (st, wl) (st', wl') \<and> states_wf len n st' \<and> set wl' \<subseteq> fst ` set es \<union> set wl \<and>
    (\<forall>(t, bs)\<in>set es. \<exists>s'. st' ! t = Some s' \<and> inits s' \<subseteq> inits s \<union> set bs)"
  using assms
proof (induction es arbitrary: st wl)
  case Nil
  then show ?case by (simp add: lowers_refl)
next
  case (Cons e es)
  obtain t bs where e: "e = (t, bs)" by force
  obtain st1 wl1 where m: "merge_edge t (mark_registers bs s) (st, wl) = (st1, wl1)" by force
  have t: "t < len" and inc: "inits (mark_registers bs s) = inits s \<union> set bs" using Cons.prems e by (auto simp: inits_mark)
  note one = merge_edge_lowers(1-4) [OF Cons.prems(1) t, of "mark_registers bs s" wl, unfolded m fst_conv snd_conv]
  from one Cons.prems(3) have st1: "lowers n (st, wl) (st1, wl1)" "states_wf len n st1" "set wl1 \<subseteq> insert t (set wl)"
    and target: "\<exists>s'. st1 ! t = Some s' \<and> inits s' \<subseteq> inits s \<union> set bs" by (simp_all add: inc)
  have IH: "lowers n (st1, wl1) (st', wl')" "states_wf len n st'" "set wl' \<subseteq> fst ` set es \<union> set wl1"
    "\<forall>(t, bs)\<in>set es. \<exists>s'. st' ! t = Some s' \<and> inits s' \<subseteq> inits s \<union> set bs"
    using Cons.IH [OF st1(2)] Cons.prems e m by auto
  have len: "length st1 = len" "length st = len" using st1(2) Cons.prems(1) by (auto simp: states_wf_def)
  have "lowers n (st, wl) (st', wl')" using lowers_trans [OF st1(1) IH(1)] len by simp
  moreover from target obtain s1 where s1: "st1 ! t = Some s1" "inits s1 \<subseteq> inits s \<union> set bs" by blast
  with lowers_state [OF IH(1), of t s1] t len(1) obtain s2 where "st' ! t = Some s2" "inits s2 \<subseteq> inits s1" by auto
  with s1(2) have "\<exists>s'. st' ! t = Some s' \<and> inits s' \<subseteq> inits s \<union> set bs" by auto
  ultimately show ?case using IH st1(3) e by auto
qed

lemma merge_edges_keep:
  assumes "states_wf len n st" "edges_ok len n es" "length s = n" "merge_edges s es (st, wl) = (st', wl')"
    and "\<And>j s. j < len \<Longrightarrow> st ! j = Some s \<Longrightarrow> Q j (inits s)" "\<And>t bs. (t, bs) \<in> set es \<Longrightarrow> Q t (inits s \<union> set bs)"
    and meet: "\<And>j A B. Q j A \<Longrightarrow> Q j B \<Longrightarrow> Q j (A \<inter> B)"
    and "j < len" "st' ! j = Some s'"
  shows "Q j (inits s')"
  using assms(1-6)
proof (induction es arbitrary: st wl)
  case Nil
  then show ?case using assms(8,9) by simp
next
  case (Cons e es)
  obtain t bs where e: "e = (t, bs)" by force
  obtain st1 wl1 where m: "merge_edge t (mark_registers bs s) (st, wl) = (st1, wl1)" by force
  have t: "t < len" and inc: "inits (mark_registers bs s) = inits s \<union> set bs" using Cons.prems e by (auto simp: inits_mark)
  have l: "length (mark_registers bs s) = n" using Cons.prems(3) by simp
  have Q1: "Q j (inits s1)" if "j < len" "st1 ! j = Some s1" for j s1
    using merge_edge_lowers(5) [OF Cons.prems(1) t l, where Q = Q and wl = wl, unfolded m fst_conv] that Cons.prems(5) Cons.prems(6) [of t bs] meet
    unfolding inc e by simp
  show ?case
  proof (rule Cons.IH [OF _ _ Cons.prems(3) _ Q1])
    show "states_wf len n st1" using merge_edge_lowers(2) [OF Cons.prems(1) t l, of wl] m by simp
    show "merge_edges s es (st1, wl1) = (st', wl')" using Cons.prems(4) e m by simp
    show "Q t (inits s \<union> set bs)" if "(t, bs) \<in> set es" for t bs using Cons.prems(6) that by simp
  qed (use Cons.prems(2) in auto)
qed

lemma edges_target: "(t, bs) \<in> set (edges i ins) \<Longrightarrow> falls_through ins \<and> t = Suc i \<or> (\<exists>u\<in>set (branch_targets ins). t = unat u)"
  by (cases "(i, ins)" rule: edges.cases) auto

lemma falls_through_edge: "falls_through ins \<Longrightarrow> (Suc i, []) \<in> set (edges i ins)"
  by (cases "(i, ins)" rule: edges.cases) auto

lemma branch_edge: "u \<in> set (branch_targets ins) \<Longrightarrow> \<exists>bs. (unat u, bs) \<in> set (edges i ins)"
  by (cases "(i, ins)" rule: edges.cases) (auto simp: image_iff)

lemma validate_all_iff: "validate_all i len ts = Inr () \<longleftrightarrow> (\<forall>t\<in>set ts. unat t < len)"
  by (induction i len ts rule: validate_all.induct) (auto simp: validate_target_def result_bind_Inr_iff split: if_splits)

lemma validate_targets_iff: "validate_targets i len code = Inr () \<longleftrightarrow> (\<forall>ins\<in>set code. \<forall>t\<in>set (branch_targets ins). unat t < len)"
  by (induction i len code rule: validate_targets.induct) (auto simp: result_bind_Inr_iff validate_all_iff)


section \<open>The loop\<close>

text \<open>What a state knows: a path leads to the instruction, and a register it does not count as written has a path without.\<close>

definition justified :: "function_def \<Rightarrow> nat \<Rightarrow> register set \<Rightarrow> bool" where
  "justified fn i A \<longleftrightarrow> (\<exists>R. cfg_reach fn i R) \<and>
     (\<forall>r. unat r < length (fn_registers fn) \<longrightarrow> r \<notin> A \<longrightarrow> (\<exists>R. cfg_reach fn i R \<and> r \<notin> R))"

text \<open>An instruction is settled when its state passes the checks and reaches its successors.\<close>

definition settled :: "function_def \<Rightarrow> entry_states \<Rightarrow> nat \<Rightarrow> register set \<Rightarrow> bool" where
  "settled fn st i A \<longleftrightarrow> set (instruction_sources (fn_code fn ! i)) \<subseteq> A \<and>
     (\<forall>(t, bs)\<in>set (edges i (fn_code fn ! i)). t < length (fn_code fn) \<and>
        (\<exists>s'. st ! t = Some s' \<and> inits s' \<subseteq> A \<union> set_option (instruction_destination (fn_code fn ! i)) \<union> set bs))"

definition cfg_inv :: "function_def \<Rightarrow> entry_states \<Rightarrow> nat list \<Rightarrow> bool" where
  "cfg_inv fn st wl \<longleftrightarrow> states_wf (length (fn_code fn)) (length (fn_registers fn)) st \<and>
     (\<forall>i\<in>set wl. i < length (fn_code fn) \<and> st ! i \<noteq> None) \<and>
     (\<forall>i<length (fn_code fn). \<forall>s. st ! i = Some s \<longrightarrow> justified fn i (inits s)) \<and>
     (\<exists>s. st ! 0 = Some s \<and> inits s \<subseteq> set (fn_parameters fn) \<union> set (fn_captures fn)) \<and>
     (\<forall>i<length (fn_code fn). \<forall>s. st ! i = Some s \<longrightarrow> i \<notin> set wl \<longrightarrow> settled fn st i (inits s))"

definition paths_safe :: "function_def \<Rightarrow> bool" where
  "paths_safe fn \<longleftrightarrow> (\<forall>i R. cfg_reach fn i R \<longrightarrow> i < length (fn_code fn) \<and> set (instruction_sources (fn_code fn ! i)) \<subseteq> R)"

definition targets_ok :: "function_def \<Rightarrow> bool" where
  "targets_ok fn \<longleftrightarrow> (\<forall>ins\<in>set (fn_code fn). \<forall>t\<in>set (branch_targets ins). unat t < length (fn_code fn))"

lemma justified_meet: "justified fn i A \<Longrightarrow> justified fn i B \<Longrightarrow> justified fn i (A \<inter> B)"
  by (auto simp: justified_def)

lemma justified_edge:
  assumes "justified fn i A" "i < length (fn_code fn)" "(t, bs) \<in> set (edges i (fn_code fn ! i))"
  shows "justified fn t (A \<union> set_option (instruction_destination (fn_code fn ! i)) \<union> set bs)"
proof -
  have "\<exists>R. cfg_reach fn t R" using assms unfolding justified_def by (blast intro: cfg_step)
  moreover have "\<exists>R. cfg_reach fn t R \<and> r \<notin> R"
    if r: "unat r < length (fn_registers fn)" "r \<notin> A \<union> set_option (instruction_destination (fn_code fn ! i)) \<union> set bs" for r
  proof -
    from r assms(1) obtain R where "cfg_reach fn i R" "r \<notin> R" unfolding justified_def by blast
    with cfg_step [OF this(1) assms(2,3)] r(2) show ?thesis by blast
  qed
  ultimately show ?thesis unfolding justified_def by blast
qed

text \<open>A refusal is deserved: there is a path on which the code is unsafe.\<close>

lemma visit_refuses:
  assumes "cfg_inv fn st (i # wl)" "registers_in_range fn" "visit fn i st wl = Inl e"
  shows "\<not> paths_safe fn"
proof -
  from assms(1) obtain s where s: "i < length (fn_code fn)" "st ! i = Some s" "justified fn i (inits s)" "length s = length (fn_registers fn)"
    by (fastforce simp: cfg_inv_def states_wf_def)
  show ?thesis
  proof (cases "list_all (\<lambda>r. s ! unat r) (instruction_sources (fn_code fn ! i))")
    case True
    with assms(3) s(2) have f: "falls_through (fn_code fn ! i)" "Suc i = length (fn_code fn)"
      by (auto simp: visit_def Let_def split: if_splits)
    from s(3) obtain R where "cfg_reach fn i R" unfolding justified_def by blast
    from cfg_step [OF this s(1) falls_through_edge [OF f(1)]] f(2) show ?thesis unfolding paths_safe_def by (metis less_irrefl)
  next
    case False
    then obtain r where r: "r \<in> set (instruction_sources (fn_code fn ! i))" "\<not> s ! unat r" by (auto simp: list_all_iff)
    with assms(2) s(1) have "unat r < length (fn_registers fn)" by (auto simp: registers_in_range_def)
    with s r(2) obtain R where "cfg_reach fn i R" "r \<notin> R" unfolding justified_def inits_def by auto
    with r(1) show ?thesis unfolding paths_safe_def by blast
  qed
qed

lemma edges_in_range:
  assumes "registers_in_range fn" "targets_ok fn" "i < length (fn_code fn)"
    "\<not> (falls_through (fn_code fn ! i) \<and> Suc i = length (fn_code fn))"
  shows "edges_ok (length (fn_code fn)) (length (fn_registers fn)) (edges i (fn_code fn ! i))"
proof safe
  fix t bs assume e: "(t, bs) \<in> set (edges i (fn_code fn ! i))"
  show "t < length (fn_code fn)" using edges_target [OF e] assms(2-4) nth_mem [OF assms(3)] by (auto simp: targets_ok_def)
  show "unat r < length (fn_registers fn)" if "r \<in> set bs" for r
    using assms(1,3) e that unfolding registers_in_range_def by fastforce
qed

lemma settled_mono:
  assumes "\<And>j s. j < length (fn_code fn) \<Longrightarrow> st ! j = Some s \<Longrightarrow> \<exists>s'. st' ! j = Some s' \<and> inits s' \<subseteq> inits s"
    and "settled fn st i A"
  shows "settled fn st' i A"
proof -
  have "\<exists>s'. st' ! t = Some s' \<and> inits s' \<subseteq> A \<union> set_option (instruction_destination (fn_code fn ! i)) \<union> set bs"
    if "(t, bs) \<in> set (edges i (fn_code fn ! i))" for t bs
  proof -
    from that assms(2) obtain s where s: "t < length (fn_code fn)" "st ! t = Some s"
      "inits s \<subseteq> A \<union> set_option (instruction_destination (fn_code fn ! i)) \<union> set bs" unfolding settled_def by blast
    from assms(1) [OF s(1,2)] s(3) show ?thesis by blast
  qed
  with assms(2) show ?thesis unfolding settled_def by blast
qed

lemma lowers_inv:
  assumes inv: "cfg_inv fn st (i # wl)" and s: "i < length (fn_code fn)" "st ! i = Some s"
    and low: "lowers (length (fn_registers fn)) (st, wl) (st', wl')" and wf': "states_wf (length (fn_code fn)) (length (fn_registers fn)) st'"
    and wl': "set wl' \<subseteq> fst ` set (edges i (fn_code fn ! i)) \<union> set wl"
    and just: "\<And>j s'. j < length (fn_code fn) \<Longrightarrow> st' ! j = Some s' \<Longrightarrow> justified fn j (inits s')"
    and here: "settled fn st' i (inits s)"
    and targets: "\<forall>(t, bs)\<in>set (edges i (fn_code fn ! i)). t < length (fn_code fn) \<and> st' ! t \<noteq> None"
  shows "cfg_inv fn st' wl'"
proof -
  let ?len = "length (fn_code fn)" and ?ins = "fn_code fn ! i"
  have wf: "states_wf ?len (length (fn_registers fn)) st" using inv by (simp add: cfg_inv_def)
  have still: "\<exists>s'. st' ! j = Some s' \<and> inits s' \<subseteq> inits s" if "j < ?len" "st ! j = Some s" for j s
    using lowers_state [OF low] that wf by (simp add: states_wf_def)
  have work: "j < ?len \<and> st' ! j \<noteq> None" if "j \<in> set wl'" for j
  proof -
    from wl' that consider (edge) bs where "(j, bs) \<in> set (edges i ?ins)" | (old) "j \<in> set wl" by force
    then show ?thesis
    proof cases
      case edge
      with targets show ?thesis by force
    next
      case old
      with inv have "j < ?len" "st ! j \<noteq> None" by (auto simp: cfg_inv_def)
      with still show ?thesis by fastforce
    qed
  qed
  have pos: "0 < ?len" using s(1) by (rule le_less_trans [OF le0])
  have start: "\<exists>s. st' ! 0 = Some s \<and> inits s \<subseteq> set (fn_parameters fn) \<union> set (fn_captures fn)"
  proof -
    from inv obtain s0 where s0: "st ! 0 = Some s0" "inits s0 \<subseteq> set (fn_parameters fn) \<union> set (fn_captures fn)" by (auto simp: cfg_inv_def)
    from still [OF pos s0(1)] s0(2) show ?thesis by blast
  qed
  have keep: "settled fn st' j (inits s')" if j: "j < ?len" "st' ! j = Some s'" "j \<notin> set wl'" for j s'
  proof -
    have same: "st ! j = Some s'" "j \<notin> set wl" using low j wf unfolding lowers_def states_wf_def by auto
    show ?thesis
    proof (cases "j = i")
      case True
      with here same(1) s(2) show ?thesis by simp
    next
      case False
      with inv same j(1) have "settled fn st j (inits s')" by (auto simp: cfg_inv_def)
      with settled_mono [OF still] show ?thesis by blast
    qed
  qed
  from wf' work just start keep show ?thesis by (simp add: cfg_inv_def)
qed

lemma visit_keeps:
  assumes inv: "cfg_inv fn st (i # wl)" and reg: "registers_in_range fn" "targets_ok fn" and v: "visit fn i st wl = Inr (st', wl')"
  shows "cfg_inv fn st' wl' \<and>
    (total_weight (length (fn_registers fn)) st' < total_weight (length (fn_registers fn)) st \<or> (st', wl') = (st, wl))"
proof -
  let ?len = "length (fn_code fn)" and ?n = "length (fn_registers fn)" and ?ins = "fn_code fn ! i"
  from inv obtain s where s: "i < ?len" "st ! i = Some s" "justified fn i (inits s)" "length s = ?n" and wf: "states_wf ?len ?n st"
    by (fastforce simp: cfg_inv_def states_wf_def)
  define out where "out = (case instruction_destination ?ins of None \<Rightarrow> s | Some d \<Rightarrow> s[unat d := True])"
  from v s(2) have src: "list_all (\<lambda>r. s ! unat r) (instruction_sources ?ins)" and nf: "\<not> (falls_through ?ins \<and> Suc i = ?len)"
    and m: "merge_edges out (edges i ?ins) (st, wl) = (st', wl')"
    by (auto simp: visit_def Let_def out_def split: if_splits)
  have dest: "unat d < ?n" if "instruction_destination ?ins = Some d" for d
    using reg(1) s(1) that by (auto simp: registers_in_range_def)
  have out: "length out = ?n" "inits out = inits s \<union> set_option (instruction_destination ?ins)"
    using s(4) dest by (auto simp: out_def inits_set split: option.splits)
  note ok = edges_in_range [OF reg s(1) nf]
  from merge_edges_lowers [OF wf ok out(1) m] have low: "lowers ?n (st, wl) (st', wl')" and wf': "states_wf ?len ?n st'"
    and wl': "set wl' \<subseteq> fst ` set (edges i ?ins) \<union> set wl"
    and targets: "\<forall>(t, bs)\<in>set (edges i ?ins). \<exists>s'. st' ! t = Some s' \<and> inits s' \<subseteq> inits out \<union> set bs" by auto
  have just: "justified fn j (inits s')" if "j < ?len" "st' ! j = Some s'" for j s'
  proof (rule merge_edges_keep [OF wf ok out(1) m, where Q = "justified fn", OF _ _ justified_meet that])
    show "justified fn j (inits s)" if "j < ?len" "st ! j = Some s" for j s using inv that by (auto simp: cfg_inv_def)
    show "justified fn t (inits out \<union> set bs)" if "(t, bs) \<in> set (edges i ?ins)" for t bs
      using justified_edge [OF s(3,1) that] by (simp add: out(2))
  qed
  have here: "settled fn st' i (inits s)"
  proof -
    have "set (instruction_sources ?ins) \<subseteq> inits s"
      using src reg(1) s(1,4) by (auto simp: inits_def list_all_iff registers_in_range_def)
    then show ?thesis using targets ok out(2) by (auto simp: settled_def)
  qed
  from lowers_inv [OF inv s(1,2) low wf' wl' just here] targets ok have "cfg_inv fn st' wl'" by fast
  with low show ?thesis by (simp add: lowers_def)
qed


interpretation cfg: visiting_loop "visit fn" "cfg_loop fn" "\<lambda>st wl. registers_in_range fn \<and> targets_ok fn \<and> cfg_inv fn st wl"
  "\<lambda>e. \<not> paths_safe fn" "\<lambda>st wl. (total_weight (length (fn_registers fn)) st, length wl)" for fn
proof unfold_locales
  show "cfg_loop fn st [] = Some (Inr st)" for st by (simp add: cfg_loop.simps)
  show "cfg_loop fn st (i # rest) = (case visit fn i st rest of Inl e \<Rightarrow> Some (Inl e) | Inr sw \<Rightarrow> cfg_loop fn (fst sw) (snd sw))" for st i rest
    by (simp add: cfg_loop.simps [of _ _ "i # rest"])
  show "\<not> paths_safe fn" if "registers_in_range fn \<and> targets_ok fn \<and> cfg_inv fn st (i # rest)" "visit fn i st rest = Inl e" for st i rest e
    using visit_refuses that by blast
  fix st i rest st' wl
  assume "registers_in_range fn \<and> targets_ok fn \<and> cfg_inv fn st (i # rest)" "visit fn i st rest = Inr (st', wl)"
  with visit_keeps [of fn st i rest st' wl] show "registers_in_range fn \<and> targets_ok fn \<and> cfg_inv fn st' wl"
    "((total_weight (length (fn_registers fn)) st', length wl), (total_weight (length (fn_registers fn)) st, length (i # rest)))
       \<in> less_than <*lex*> less_than" by auto
qed

lemma initial_states_inv:
  assumes "registers_in_range fn" "fn_code fn \<noteq> []"
  shows "cfg_inv fn (initial_states fn) [0]"
proof -
  have i: "inits (initial_state fn) = set (fn_parameters fn) \<union> set (fn_captures fn)"
  proof -
    have "inits (replicate n False) = {}" for n by (auto simp: inits_def)
    then show ?thesis using assms(1) unfolding initial_state_def registers_in_range_def by (subst inits_mark) auto
  qed
  have l: "length (initial_state fn) = length (fn_registers fn)" by (simp add: initial_state_def)
  have st: "initial_states fn ! j = (if j = 0 then Some (initial_state fn) else None)" if "j < length (fn_code fn)" for j
    using that by (cases "j = 0") (simp_all add: initial_states_def nth_list_update)
  have n: "length (initial_states fn) = length (fn_code fn)" by (simp add: initial_states_def)
  have "justified fn 0 (inits (initial_state fn))" unfolding justified_def i using cfg_start by blast
  with assms(2) i l show ?thesis by (auto simp: cfg_inv_def states_wf_def st n split: if_splits)
qed

text \<open>The states the loop ends with hold on every path.\<close>

lemma paths_covered:
  assumes "cfg_inv fn st []" "fn_code fn \<noteq> []" "cfg_reach fn i R"
  shows "i < length (fn_code fn) \<and> (\<exists>s. st ! i = Some s \<and> inits s \<subseteq> R \<and> settled fn st i (inits s))"
  using assms(3)
proof induction
  case cfg_start
  with assms(1,2) show ?case by (auto simp: cfg_inv_def)
next
  case (cfg_step i R j bs)
  then obtain s where s: "st ! i = Some s" "inits s \<subseteq> R" "settled fn st i (inits s)" by blast
  with cfg_step.hyps obtain s' where "j < length (fn_code fn)" "st ! j = Some s'"
    "inits s' \<subseteq> inits s \<union> set_option (instruction_destination (fn_code fn ! i)) \<union> set bs" unfolding settled_def by blast
  with s(2) assms(1) show ?case by (auto simp: cfg_inv_def)
qed

lemma position_None: "position P xs = None \<longleftrightarrow> (\<forall>x\<in>set xs. \<not> P x)"
  by (induction P xs rule: position.induct) auto

lemma position_Some: "position P xs = Some k \<Longrightarrow> k < length xs \<and> P (xs ! k)"
  by (induction P xs arbitrary: k rule: position.induct) (auto split: if_splits)

lemma cfg_outcome:
  assumes "cfg_inv fn st []" "fn_code fn \<noteq> []"
  shows "paths_safe fn"
    "i < length (fn_code fn) \<Longrightarrow> st ! i = None \<longleftrightarrow> (\<nexists>R. cfg_reach fn i R)"
    "i < length (fn_code fn) \<Longrightarrow> st ! i = Some s \<Longrightarrow>
       inits s = {r. unat r < length (fn_registers fn) \<and> (\<forall>R. cfg_reach fn i R \<longrightarrow> r \<in> R)}"
proof -
  show "paths_safe fn" unfolding paths_safe_def using paths_covered [OF assms] unfolding settled_def by blast
  show "i < length (fn_code fn) \<Longrightarrow> st ! i = None \<longleftrightarrow> (\<nexists>R. cfg_reach fn i R)"
    using assms(1) paths_covered [OF assms, of i] by (cases "st ! i") (auto simp: cfg_inv_def justified_def)
  assume i: "i < length (fn_code fn)" "st ! i = Some s"
  with assms(1) have "justified fn i (inits s)" "length s = length (fn_registers fn)" by (auto simp: cfg_inv_def states_wf_def)
  then show "inits s = {r. unat r < length (fn_registers fn) \<and> (\<forall>R. cfg_reach fn i R \<longrightarrow> r \<in> R)}"
    using paths_covered [OF assms, of i] i(2) unfolding justified_def by (fastforce simp: inits_def)
qed


section \<open>The check is exact\<close>

definition paths_complete :: "function_def \<Rightarrow> bool" where
  "paths_complete fn \<longleftrightarrow> (\<forall>i<length (fn_code fn). \<exists>R. cfg_reach fn i R)"

definition exact_states :: "function_def \<Rightarrow> entry_states \<Rightarrow> bool" where
  "exact_states fn st \<longleftrightarrow> length st = length (fn_code fn) \<and> (\<forall>i<length (fn_code fn). \<exists>s. st ! i = Some s \<and>
     inits s = {r. unat r < length (fn_registers fn) \<and> (\<forall>R. cfg_reach fn i R \<longrightarrow> r \<in> R)})"

lemma unsafe_targets:
  assumes "\<not> targets_ok fn" "paths_complete fn"
  shows "\<not> paths_safe fn"
proof -
  from assms(1) obtain i u where u: "i < length (fn_code fn)" "u \<in> set (branch_targets (fn_code fn ! i))" "\<not> unat u < length (fn_code fn)"
    unfolding targets_ok_def by (metis in_set_conv_nth)
  from branch_edge [OF u(2)] obtain bs where "(unat u, bs) \<in> set (edges i (fn_code fn ! i))" by blast
  with assms(2) u(1) have "\<exists>R. cfg_reach fn (unat u) R" unfolding paths_complete_def by (blast intro: cfg_step)
  with u(3) show ?thesis unfolding paths_safe_def by blast
qed

text \<open>The part of the check before the loop refuses only what is unsafe.\<close>

lemma refused_early:
  assumes "\<not> (fn_code fn \<noteq> [] \<and> targets_ok fn)"
  shows "(\<exists>e. verify_initialization fn = Some (Inl e)) \<and> \<not> (paths_safe fn \<and> paths_complete fn)"
proof -
  have "\<not> paths_safe fn" if "fn_code fn = []" using that cfg_start [of fn] by (auto simp: paths_safe_def)
  with unsafe_targets assms have "\<not> (paths_safe fn \<and> paths_complete fn)" by blast
  moreover have "\<exists>e. verify_initialization fn = Some (Inl e)"
  proof (cases "validate_targets 0 (length (fn_code fn)) (fn_code fn)")
    case (Inr u)
    with assms show ?thesis by (auto simp: verify_initialization_def validate_targets_iff targets_ok_def)
  qed (auto simp: verify_initialization_def)
  ultimately show ?thesis by blast
qed

lemma states_outcome:
  assumes "cfg_inv fn st []" "fn_code fn \<noteq> []"
  shows "case position (\<lambda>s. s = None) st of Some k \<Rightarrow> \<not> paths_complete fn | None \<Rightarrow> paths_complete fn \<and> exact_states fn st"
proof -
  note out = cfg_outcome [OF assms]
  have l: "length st = length (fn_code fn)" using assms(1) by (simp add: cfg_inv_def states_wf_def)
  show ?thesis
  proof (cases "position (\<lambda>s. s = None) st")
    case None
    then have st: "i < length (fn_code fn) \<Longrightarrow> \<exists>s. st ! i = Some s" for i using l by (auto simp: position_None in_set_conv_nth)
    have "exact_states fn st" unfolding exact_states_def
    proof (intro conjI allI impI)
      show "length st = length (fn_code fn)" by (fact l)
    next
      fix i assume i: "i < length (fn_code fn)"
      with st obtain s where "st ! i = Some s" by blast
      with out(3) [OF i this] show "\<exists>s. st ! i = Some s \<and> inits s = {r. unat r < length (fn_registers fn) \<and> (\<forall>R. cfg_reach fn i R \<longrightarrow> r \<in> R)}"
        by blast
    qed
    moreover have "\<exists>R. cfg_reach fn i R" if "i < length (fn_code fn)" for i using st [OF that] out(2) [OF that] by auto
    then have "paths_complete fn" by (simp add: paths_complete_def)
    ultimately show ?thesis using None by simp
  next
    case (Some k)
    then have "k < length (fn_code fn)" "st ! k = None" using position_Some l by fastforce+
    with Some out(2) show ?thesis unfolding paths_complete_def by auto
  qed
qed

lemma verify_initialization_exact:
  assumes "registers_in_range fn"
  shows "\<exists>result. verify_initialization fn = Some result \<and> (is_ok result \<longleftrightarrow> paths_safe fn \<and> paths_complete fn) \<and>
    (\<forall>states. result = Inr states \<longrightarrow> exact_states fn states)"
proof (cases "fn_code fn \<noteq> [] \<and> targets_ok fn")
  case True
  with cfg.iterate_returns [of fn "initial_states fn" "[0]"] initial_states_inv [OF assms] assms obtain result where
    r: "cfg_loop fn (initial_states fn) [0] = Some result" "case result of Inl e \<Rightarrow> \<not> paths_safe fn | Inr st \<Rightarrow> cfg_inv fn st []"
    by (fastforce split: sum.splits)
  have v: "validate_targets 0 (length (fn_code fn)) (fn_code fn) = Inr ()"
    using True by (simp add: validate_targets_iff targets_ok_def)
  show ?thesis
  proof (cases result)
    case (Inl e)
    with r True v show ?thesis by (auto simp: verify_initialization_def)
  next
    case (Inr st)
    with r(2) True cfg_outcome(1) states_outcome have "paths_safe fn"
      "case position (\<lambda>s. s = None) st of Some k \<Rightarrow> \<not> paths_complete fn | None \<Rightarrow> paths_complete fn \<and> exact_states fn st" by auto
    with r(1) Inr True v show ?thesis by (auto simp: verify_initialization_def split: option.splits)
  qed
next
  case False
  from refused_early [OF this] show ?thesis by auto
qed

text \<open>(C8) The verifier's data-flow check of initialisation always ends, and it accepts a function exactly when no path from its
  entry leaves the code other than by a return, a stop or a failure or reads a register before it is written, and every
  instruction is on a path. The state it records before an instruction is exact: the registers written on every path to it.
\<close>

theorem initialization_check_exact:
  assumes "registers_in_range fn"
  shows "\<exists>result. verify_initialization fn = Some result \<and>
    (is_ok result \<longleftrightarrow>
       (\<forall>i R. cfg_reach fn i R \<longrightarrow> i < length (fn_code fn) \<and> set (instruction_sources (fn_code fn ! i)) \<subseteq> R) \<and>
       (\<forall>i<length (fn_code fn). \<exists>R. cfg_reach fn i R)) \<and>
    (\<forall>states. result = Inr states \<longrightarrow> length states = length (fn_code fn) \<and> (\<forall>i<length (fn_code fn). \<exists>state. states ! i = Some state \<and>
       inits state = {r. unat r < length (fn_registers fn) \<and> (\<forall>R. cfg_reach fn i R \<longrightarrow> r \<in> R)}))"
  using verify_initialization_exact [OF assms] unfolding paths_safe_def paths_complete_def exact_states_def .

text \<open>A function with two branches that meet: each writes the register the last instruction returns.\<close>

definition diamond :: function_def where
  "diamond = \<lparr>fn_name = ''diamond'', fn_parameters = [0], fn_captures = [], fn_registers = [TBool, TInt],
     fn_code = [Control (IBranchBool 0 1 3), Scalar (IConst 1 0), Control (IJump 4), Scalar (IConst 1 1), Control (IReturn 1)]\<rparr>"

theorem initialization_check_exact_witness:
  "\<exists>states. verify_initialization diamond = Some (Inr states) \<and>
     {(i, R). cfg_reach diamond i R} \<subseteq> {(i, R). i < 5 \<and> set (instruction_sources (fn_code diamond ! i)) \<subseteq> R}"
proof -
  have r: "registers_in_range diamond"
    by (auto simp: registers_in_range_def diamond_def less_Suc_eq numeral_eq_Suc)
  have "verify_initialization diamond =
    Some (Inr [Some [True, False], Some [True, False], Some [True, True], Some [True, False], Some [True, True]])" by code_simp
  then obtain states where s: "verify_initialization diamond = Some (Inr states)" by blast
  with initialization_check_exact [OF r] have "cfg_reach diamond i R \<Longrightarrow> i < length (fn_code diamond) \<and> set (instruction_sources (fn_code diamond ! i)) \<subseteq> R" for i R
    by auto
  moreover have "length (fn_code diamond) = 5" by (simp add: diamond_def)
  ultimately show ?thesis using s by auto
qed

end
