(* ===== verification/Bytecode_Agents.thy ===== *)
theory Bytecode_Agents
  imports Bytecode_Cfg_Exact
begin

text \<open>
  The check of sub-agents of the bytecode verifier (\<open>verify_sub_agent_cfg\<close> of
  \<open>allen-bytecode/src/verifier.rs\<close>): a register that holds a sub-agent is available until the task scope in which the
  sub-agent was made is left. The check runs on the states the data-flow check of initialisation ends with. Where the
  code would panic the model returns \<open>Panicked\<close>.
\<close>

section \<open>Availability\<close>

fun contains_stored_sub_agent :: "value_type \<Rightarrow> bool" where
  "contains_stored_sub_agent TSubAgent = True"
| "contains_stored_sub_agent (TList v) = contains_stored_sub_agent v"
| "contains_stored_sub_agent (TOption v) = contains_stored_sub_agent v"
| "contains_stored_sub_agent (TFuture v) = contains_stored_sub_agent v"
| "contains_stored_sub_agent (TTask v) = contains_stored_sub_agent v"
| "contains_stored_sub_agent (TNewtype _ v) = contains_stored_sub_agent v"
| "contains_stored_sub_agent (TMap k v) = (contains_stored_sub_agent k \<or> contains_stored_sub_agent v)"
| "contains_stored_sub_agent (TResult a b) = (contains_stored_sub_agent a \<or> contains_stored_sub_agent b)"
| "contains_stored_sub_agent (TTuple vs) = list_ex contains_stored_sub_agent vs"
| "contains_stored_sub_agent (TRecord fs) = list_ex (\<lambda>f. contains_stored_sub_agent (snd f)) fs"
| "contains_stored_sub_agent _ = False"

datatype sub_agent_availability = Unavailable | Available (av_scope: u32) (av_provenance: u64)

record sub_agent_state =
  ss_registers :: "sub_agent_availability list"
  ss_scopes :: "u32 list"

datatype check_error = Rejected verify_error | Panicked

abbreviation holds_agent :: "function_def \<Rightarrow> register \<Rightarrow> bool" where
  "holds_agent fn r \<equiv> contains_stored_sub_agent (fn_registers fn ! unat r)"

definition instruction_provenance :: "nat \<Rightarrow> u64" where
  "instruction_provenance i = or (push_bit 63 1) (word_of_nat i)"

definition sub_agent_scope_depth :: "sub_agent_availability \<Rightarrow> u32 list \<Rightarrow> nat option" where
  "sub_agent_scope_depth a active_scopes =
     (case a of
        Unavailable \<Rightarrow> None
      | Available scope _ \<Rightarrow>
          if scope = 0 then Some 0 else map_option Suc (position (\<lambda>active. active = scope) active_scopes))"

definition combine_sub_agent_sources ::
  "nat \<Rightarrow> u32 list \<Rightarrow> sub_agent_availability \<Rightarrow> sub_agent_availability \<Rightarrow> sub_agent_availability option" where
  "combine_sub_agent_sources i active_scopes left right =
     (case (left, right) of
        (Available left_scope left_provenance, Available right_scope right_provenance) \<Rightarrow>
          (case (sub_agent_scope_depth left active_scopes, sub_agent_scope_depth right active_scopes) of
             (Some l, Some r) \<Rightarrow>
               Some (Available (if r \<le> l then left_scope else right_scope)
                 (if left_provenance = right_provenance then left_provenance else instruction_provenance i))
           | _ \<Rightarrow> None)
      | _ \<Rightarrow> None)"

fun combine_all :: "nat \<Rightarrow> u32 list \<Rightarrow> sub_agent_availability \<Rightarrow> sub_agent_availability list \<Rightarrow> sub_agent_availability option" where
  "combine_all i scopes combined [] = Some combined"
| "combine_all i scopes combined (s # ss) =
     Option.bind (combine_sub_agent_sources i scopes combined s) (\<lambda>c. combine_all i scopes c ss)"

definition call_availability ::
  "function_def \<Rightarrow> nat \<Rightarrow> string \<Rightarrow> register list \<Rightarrow> sub_agent_state \<Rightarrow> check_error + sub_agent_availability" where
  "call_availability fn i message arguments state =
     (case map (\<lambda>r. ss_registers state ! unat r) (filter (holds_agent fn) arguments) of
        [] \<Rightarrow> Inl (Rejected (i, message))
      | first # rest \<Rightarrow>
          (case combine_all i (ss_scopes state) first rest of None \<Rightarrow> Inl Panicked | Some a \<Rightarrow> Inr a))"

fun sub_agent_result_availability ::
  "function_def \<Rightarrow> nat \<Rightarrow> instruction \<Rightarrow> sub_agent_state \<Rightarrow> check_error + sub_agent_availability" where
  "sub_agent_result_availability fn i (Scalar (IMove _ s)) state = Inr (ss_registers state ! unat s)"
| "sub_agent_result_availability fn i (Tasking (IAwait _ s)) state = Inr (ss_registers state ! unat s)"
| "sub_agent_result_availability fn i (Control (ITryResult _ s)) state = Inr (ss_registers state ! unat s)"
| "sub_agent_result_availability fn i (Control (ITryOption _ s)) state = Inr (ss_registers state ! unat s)"
| "sub_agent_result_availability fn i (Tasking (ISpawn _ f _)) state = Inr (ss_registers state ! unat f)"
| "sub_agent_result_availability fn i (Control (IDirectCall _ _ arguments)) state =
     call_availability fn i ''direct call returning SubAgent requires a SubAgent-containing argument'' arguments state"
| "sub_agent_result_availability fn i (Control (IClosureCall _ _ arguments)) state =
     call_availability fn i ''closure call returning SubAgent requires a SubAgent-containing argument'' arguments state"
| "sub_agent_result_availability fn i (Library (IAsyncCall _ _ _)) state =
     Inr (Available (if ss_scopes state = [] then 0 else last (ss_scopes state)) (instruction_provenance i))"
| "sub_agent_result_availability fn i (Library (IEffectCall _ operation _)) state =
     (if operation = SubAgentCreate
      then Inr (Available (if ss_scopes state = [] then 0 else last (ss_scopes state)) (instruction_provenance i))
      else Inl (Rejected (i, ''instruction cannot produce a SubAgent-containing value'')))"
| "sub_agent_result_availability fn i _ state = Inl (Rejected (i, ''instruction cannot produce a SubAgent-containing value''))"

section \<open>One instruction\<close>

definition leave_scope :: "u32 \<Rightarrow> sub_agent_availability \<Rightarrow> sub_agent_availability" where
  "leave_scope scope a = (case a of Unavailable \<Rightarrow> Unavailable | Available origin _ \<Rightarrow> if origin = scope then Unavailable else a)"

fun scope_effect :: "nat \<Rightarrow> instruction \<Rightarrow> sub_agent_state \<Rightarrow> check_error + sub_agent_state" where
  "scope_effect i (Tasking (ITaskScopeEnter scope)) state = Inr (state\<lparr>ss_scopes := ss_scopes state @ [scope]\<rparr>)"
| "scope_effect i (Tasking (ITaskScopeExit scope)) state =
     (if ss_scopes state \<noteq> [] \<and> last (ss_scopes state) = scope
      then Inr \<lparr>ss_registers = map (leave_scope scope) (ss_registers state), ss_scopes = butlast (ss_scopes state)\<rparr>
      else Inl (Rejected (i, ''task scope exit does not match the current scope'')))"
| "scope_effect i _ state = Inr state"

definition agent_transfer :: "function_def \<Rightarrow> nat \<Rightarrow> sub_agent_state \<Rightarrow> check_error + sub_agent_state" where
  "agent_transfer fn i state =
     (let ins = fn_code fn ! i
      in if list_ex (\<lambda>r. holds_agent fn r \<and> ss_registers state ! unat r = Unavailable) (instruction_sources ins)
         then Inl (Rejected (i, ''SubAgent register is not available in this lexical scope''))
         else
           result_bind (scope_effect i ins state) (\<lambda>state.
             case instruction_destination ins of
               None \<Rightarrow> Inr state
             | Some d \<Rightarrow>
                 if holds_agent fn d
                 then result_bind (sub_agent_result_availability fn i ins state) (\<lambda>a.
                   Inr (state\<lparr>ss_registers := (ss_registers state)[unat d := a]\<rparr>))
                 else Inr state))"

fun bind_registers :: "function_def \<Rightarrow> register \<Rightarrow> register list \<Rightarrow> sub_agent_availability list \<Rightarrow> sub_agent_availability list" where
  "bind_registers fn source [] registers = registers"
| "bind_registers fn source (b # bs) registers =
     bind_registers fn source bs (if holds_agent fn b then registers[unat b := registers ! unat source] else registers)"

fun bind_agents :: "function_def \<Rightarrow> instruction \<Rightarrow> register list \<Rightarrow> sub_agent_state \<Rightarrow> sub_agent_state" where
  "bind_agents fn (Control (ISwitchEnum source _)) bs state =
     state\<lparr>ss_registers := bind_registers fn source bs (ss_registers state)\<rparr>"
| "bind_agents fn _ bs state = state"

definition normalize_uninitialized_sub_agents :: "function_def \<Rightarrow> bool list \<Rightarrow> sub_agent_state \<Rightarrow> sub_agent_state" where
  "normalize_uninitialized_sub_agents fn initialized state =
     state\<lparr>ss_registers :=
       map (\<lambda>(r, a). if r < length (fn_registers fn) \<and> r < length initialized \<and>
              contains_stored_sub_agent (fn_registers fn ! r) \<and> \<not> initialized ! r then Unavailable else a)
         (enumerate 0 (ss_registers state))\<rparr>"

section \<open>The check\<close>

type_synonym agent_states = "sub_agent_state option list"

definition merge_sub_agent_edge ::
  "function_def \<Rightarrow> entry_states \<Rightarrow> nat \<Rightarrow> nat \<Rightarrow> sub_agent_state \<Rightarrow> agent_states \<times> nat list \<Rightarrow> check_error + agent_states \<times> nat list" where
  "merge_sub_agent_edge fn definite i target incoming = (\<lambda>(states, worklist).
     if length definite \<le> target then Inl Panicked
     else
       (case definite ! target of
          None \<Rightarrow> Inl Panicked
        | Some initialized \<Rightarrow>
            if target \<le> i \<and> list_ex (\<lambda>a. a \<noteq> Unavailable) (ss_registers incoming)
            then Inl (Rejected (i, ''backward control-flow edge cannot carry an available SubAgent''))
            else
              let incoming = normalize_uninitialized_sub_agents fn initialized incoming
              in (case states ! target of
                    None \<Rightarrow> Inr (states[target := Some incoming], worklist @ [target])
                  | Some existing \<Rightarrow>
                      if existing = incoming then Inr (states, worklist)
                      else Inl (Rejected (target,
                        ''control-flow join has inconsistent SubAgent availability or lexical scopes'')))))"

fun merge_agent_edges ::
  "function_def \<Rightarrow> entry_states \<Rightarrow> nat \<Rightarrow> sub_agent_state \<Rightarrow> (nat \<times> register list) list \<Rightarrow> agent_states \<times> nat list \<Rightarrow>
   check_error + agent_states \<times> nat list" where
  "merge_agent_edges fn definite i state [] sw = Inr sw"
| "merge_agent_edges fn definite i state ((target, bindings) # es) sw =
     result_bind (merge_sub_agent_edge fn definite i target (bind_agents fn (fn_code fn ! i) bindings state) sw)
       (merge_agent_edges fn definite i state es)"

definition agent_visit ::
  "function_def \<Rightarrow> entry_states \<Rightarrow> nat \<Rightarrow> agent_states \<Rightarrow> nat list \<Rightarrow> check_error + agent_states \<times> nat list" where
  "agent_visit fn definite i states worklist =
     result_bind (agent_transfer fn i (the (states ! i))) (\<lambda>state.
       merge_agent_edges fn definite i state (edges i (fn_code fn ! i)) (states, worklist))"

partial_function (option) agent_loop ::
  "function_def \<Rightarrow> entry_states \<Rightarrow> agent_states \<times> nat list \<Rightarrow> (check_error + agent_states) option" where
  "agent_loop fn definite sw =
     (case snd sw of
        [] \<Rightarrow> Some (Inr (fst sw))
      | i # rest \<Rightarrow>
          (case agent_visit fn definite i (fst sw) rest of
             Inl e \<Rightarrow> Some (Inl e)
           | Inr sw \<Rightarrow> agent_loop fn definite sw))"

declare agent_loop.simps [code]

fun start_registers :: "function_def \<Rightarrow> register list \<Rightarrow> sub_agent_availability list \<Rightarrow> sub_agent_availability list" where
  "start_registers fn [] registers = registers"
| "start_registers fn (r # rs) registers =
     start_registers fn rs (if holds_agent fn r then registers[unat r := Available 0 (ucast r)] else registers)"

definition start_agents :: "function_def \<Rightarrow> sub_agent_state" where
  "start_agents fn =
     \<lparr>ss_registers = start_registers fn (fn_parameters fn @ fn_captures fn) (replicate (length (fn_registers fn)) Unavailable),
      ss_scopes = []\<rparr>"

definition verify_sub_agent_cfg :: "function_def \<Rightarrow> entry_states \<Rightarrow> (check_error + unit) option" where
  "verify_sub_agent_cfg fn definite =
     (if \<not> list_ex contains_stored_sub_agent (fn_registers fn) then Some (Inr ())
      else map_option (map_sum id (\<lambda>_. ()))
        (agent_loop fn definite ((replicate (length (fn_code fn)) None)[0 := Some (start_agents fn)], [0])))"

section \<open>Paths\<close>

text \<open>The availability of registers and the open scopes on the paths through the code.\<close>

inductive agent_path :: "function_def \<Rightarrow> nat \<Rightarrow> sub_agent_state \<Rightarrow> bool" for fn where
  agent_start: "agent_path fn 0 (start_agents fn)"
| agent_step: "agent_path fn i p \<Longrightarrow> i < length (fn_code fn) \<Longrightarrow> agent_transfer fn i p = Inr p' \<Longrightarrow>
    (t, bs) \<in> set (edges i (fn_code fn ! i)) \<Longrightarrow> agent_path fn t (bind_agents fn (fn_code fn ! i) bs p')"

end
