(* ===== verification/Bytecode_Agents_Safe.thy ===== *)
theory Bytecode_Agents_Safe
  imports Bytecode_Agents
begin

text \<open>
  What the check of sub-agents guarantees: it ends and none of its panics happens, and in a function it accepts no path
  reads a sub-agent whose scope has been left.
\<close>

section \<open>Open scopes\<close>

definition open_in :: "u32 list \<Rightarrow> sub_agent_availability \<Rightarrow> bool" where
  "open_in scopes a \<longleftrightarrow> a = Unavailable \<or> av_scope a = 0 \<or> av_scope a \<in> set scopes"

definition agents_wf :: "function_def \<Rightarrow> sub_agent_state \<Rightarrow> bool" where
  "agents_wf fn s \<longleftrightarrow> length (ss_registers s) = length (fn_registers fn) \<and> (\<forall>a\<in>set (ss_registers s). open_in (ss_scopes s) a)"

lemma open_depth: "a \<noteq> Unavailable \<Longrightarrow> open_in scopes a \<Longrightarrow> \<exists>d. sub_agent_scope_depth a scopes = Some d"
proof (cases a)
  case (Available scope prov)
  assume "open_in scopes a"
  with Available have "scope = 0 \<or> position (\<lambda>active. active = scope) scopes \<noteq> None" by (auto simp: open_in_def position_None)
  with Available show ?thesis by (auto simp: sub_agent_scope_depth_def)
qed simp

lemma combine_open:
  assumes "a \<noteq> Unavailable" "b \<noteq> Unavailable" "open_in scopes a" "open_in scopes b"
  shows "\<exists>c. combine_sub_agent_sources i scopes a b = Some c \<and> c \<noteq> Unavailable \<and> open_in scopes c"
proof -
  from open_depth assms obtain l r where "sub_agent_scope_depth a scopes = Some l" "sub_agent_scope_depth b scopes = Some r" by blast
  with assms show ?thesis by (cases a; cases b) (auto simp: combine_sub_agent_sources_def open_in_def)
qed

lemma combine_all_open:
  "a \<noteq> Unavailable \<Longrightarrow> open_in scopes a \<Longrightarrow> (\<And>b. b \<in> set bs \<Longrightarrow> b \<noteq> Unavailable \<and> open_in scopes b) \<Longrightarrow>
   \<exists>c. combine_all i scopes a bs = Some c \<and> open_in scopes c"
proof (induction bs arbitrary: a)
  case (Cons b bs)
  then have b: "b \<noteq> Unavailable" "open_in scopes b" by auto
  from combine_open [OF Cons.prems(1) b(1) Cons.prems(2) b(2)] obtain c where
    c: "combine_sub_agent_sources i scopes a b = Some c" "c \<noteq> Unavailable" "open_in scopes c" by blast
  with Cons.IH [OF c(2,3)] Cons.prems(3) show ?case by simp
qed simp

lemma call_open:
  assumes "agents_wf fn s" "\<And>r. r \<in> set arguments \<Longrightarrow> unat r < length (fn_registers fn)"
    "\<And>r. r \<in> set arguments \<Longrightarrow> holds_agent fn r \<Longrightarrow> ss_registers s ! unat r \<noteq> Unavailable"
  shows "call_availability fn i message arguments s \<noteq> Inl Panicked \<and>
    (\<forall>a. call_availability fn i message arguments s = Inr a \<longrightarrow> open_in (ss_scopes s) a)"
proof (cases "map (\<lambda>r. ss_registers s ! unat r) (filter (holds_agent fn) arguments)")
  case Nil
  then show ?thesis by (simp add: call_availability_def)
next
  case (Cons first rest)
  have "b \<noteq> Unavailable \<and> open_in (ss_scopes s) b" if "b \<in> set (first # rest)" for b
    using that assms unfolding Cons [symmetric] by (auto simp: agents_wf_def)
  with combine_all_open [of first "ss_scopes s" rest i] obtain c where "combine_all i (ss_scopes s) first rest = Some c" "open_in (ss_scopes s) c"
    by auto
  with Cons show ?thesis by (simp add: call_availability_def)
qed

lemma result_open:
  assumes "agents_wf fn s" "\<And>r. r \<in> set (instruction_sources ins) \<Longrightarrow> unat r < length (fn_registers fn)"
    "\<And>r. r \<in> set (instruction_sources ins) \<Longrightarrow> holds_agent fn r \<Longrightarrow> ss_registers s ! unat r \<noteq> Unavailable"
  shows "sub_agent_result_availability fn i ins s \<noteq> Inl Panicked \<and>
    (\<forall>a. sub_agent_result_availability fn i ins s = Inr a \<longrightarrow> open_in (ss_scopes s) a)"
proof -
  have reg: "open_in (ss_scopes s) (ss_registers s ! unat r)" if "r \<in> set (instruction_sources ins)" for r
    using assms(1) assms(2) [OF that] by (auto simp: agents_wf_def)
  have cur: "open_in (ss_scopes s) (Available (if ss_scopes s = [] then 0 else last (ss_scopes s)) p)" for p by (simp add: open_in_def)
  have call: "\<forall>m args. set args \<subseteq> set (instruction_sources ins) \<longrightarrow> call_availability fn i m args s \<noteq> Inl Panicked \<and>
    (\<forall>a. call_availability fn i m args s = Inr a \<longrightarrow> open_in (ss_scopes s) a)"
    using call_open [OF assms(1)] assms(2,3) by blast
  show ?thesis using reg cur call
    by (cases "(fn, i, ins, s)" rule: sub_agent_result_availability.cases) (simp_all, (blast intro: subset_insertI)+)
qed

lemma scope_effect_wf:
  "agents_wf fn s \<Longrightarrow> scope_effect i ins s \<noteq> Inl Panicked \<and> (\<forall>s'. scope_effect i ins s = Inr s' \<longrightarrow> agents_wf fn s')"
proof (cases "(i, ins, s)" rule: scope_effect.cases)
  case (2 _ scope _)
  assume wf: "agents_wf fn s"
  have "open_in (butlast scopes) (leave_scope scope a)" if "open_in scopes a" "scopes \<noteq> []" "last scopes = scope" for a scopes
  proof -
    have "set scopes = insert scope (set (butlast scopes))" using that(2,3) by (metis append_butlast_last_id list.simps(15) rotate1.simps(2) set_rotate1)
    with that(1) show ?thesis by (cases a) (auto simp: open_in_def leave_scope_def)
  qed
  with wf 2 show ?thesis by (auto simp: agents_wf_def)
qed (auto simp: agents_wf_def open_in_def)

lemma scope_effect_destination: "instruction_destination ins = Some d \<Longrightarrow> scope_effect i ins s = Inr s"
  by (cases "(i, ins, s)" rule: scope_effect.cases) auto

lemma set_update: "a \<in> set (xs[k := x]) \<Longrightarrow> a \<in> set xs \<or> a = x"
  using set_update_subset_insert by fastforce

lemma transfer_wf:
  assumes "agents_wf fn s" "registers_in_range fn" "i < length (fn_code fn)"
  shows "agent_transfer fn i s \<noteq> Inl Panicked \<and> (\<forall>s'. agent_transfer fn i s = Inr s' \<longrightarrow> agents_wf fn s')"
proof (cases "list_ex (\<lambda>r. holds_agent fn r \<and> ss_registers s ! unat r = Unavailable) (instruction_sources (fn_code fn ! i))")
  case False
  let ?ins = "fn_code fn ! i"
  have src: "unat r < length (fn_registers fn)" "holds_agent fn r \<Longrightarrow> ss_registers s ! unat r \<noteq> Unavailable"
    if "r \<in> set (instruction_sources ?ins)" for r
    using that False assms(2,3) by (auto simp: list_ex_iff registers_in_range_def)
  show ?thesis
  proof (cases "instruction_destination ?ins")
    case None
    with False scope_effect_wf [OF assms(1), of i ?ins] show ?thesis by (cases "scope_effect i ?ins s") (auto simp: agent_transfer_def Let_def)
  next
    case (Some d)
    with False result_open [OF assms(1) src, where i = i] assms(1) show ?thesis
      by (cases "sub_agent_result_availability fn i ?ins s")
        (auto simp: agent_transfer_def Let_def scope_effect_destination [OF Some] agents_wf_def dest!: set_update)
  qed
qed (simp add: agent_transfer_def Let_def)

lemma bind_registers_set: "unat source < length xs \<Longrightarrow> length (bind_registers fn source bs xs) = length xs \<and> set (bind_registers fn source bs xs) \<subseteq> set xs"
proof (induction fn source bs xs rule: bind_registers.induct)
  case (2 fn source b bs xs)
  then show ?case by (auto dest!: set_update subsetD simp: nth_mem)
qed simp

lemma bind_wf:
  assumes "agents_wf fn s" "\<And>r. r \<in> set (instruction_sources ins) \<Longrightarrow> unat r < length (fn_registers fn)"
  shows "agents_wf fn (bind_agents fn ins bs s)"
  using assms bind_registers_set [where xs = "ss_registers s" and fn = fn and bs = bs]
  by (cases "(fn, ins, bs, s)" rule: bind_agents.cases) (simp_all add: agents_wf_def, blast)

lemma length_normalize [simp]: "length (ss_registers (normalize_uninitialized_sub_agents fn ini s)) = length (ss_registers s)"
  by (simp add: normalize_uninitialized_sub_agents_def)

lemma normalize_registers: "a \<in> set (ss_registers (normalize_uninitialized_sub_agents fn ini s)) \<Longrightarrow> a = Unavailable \<or> a \<in> set (ss_registers s)"
  by (auto simp: normalize_uninitialized_sub_agents_def in_set_enumerate_eq split: if_splits)

lemma normalize_scopes [simp]: "ss_scopes (normalize_uninitialized_sub_agents fn ini s) = ss_scopes s"
  by (simp add: normalize_uninitialized_sub_agents_def)

lemma normalize_wf: "agents_wf fn s \<Longrightarrow> agents_wf fn (normalize_uninitialized_sub_agents fn ini s)"
  by (auto simp: agents_wf_def open_in_def dest!: normalize_registers)

lemma start_registers_wf:
  "\<forall>a\<in>set xs. open_in [] a \<Longrightarrow> length (start_registers fn rs xs) = length xs \<and> (\<forall>a\<in>set (start_registers fn rs xs). open_in [] a)"
proof (induction fn rs xs rule: start_registers.induct)
  case (2 fn r rs xs)
  then have "\<forall>a\<in>set (if holds_agent fn r then xs[unat r := Available 0 (ucast r)] else xs). open_in [] a"
    by (auto simp: open_in_def dest!: set_update)
  from "2.IH" [OF this] show ?case by simp
qed simp

lemma start_wf: "agents_wf fn (start_agents fn)"
  using start_registers_wf [of "replicate (length (fn_registers fn)) Unavailable" fn "fn_parameters fn @ fn_captures fn"]
  by (simp add: agents_wf_def start_agents_def open_in_def)


section \<open>Agreement with a path\<close>

text \<open>The state of the check and that of a path have the same scopes and agree on the registers that are written and on those
  that never hold a sub-agent.\<close>

definition agree :: "function_def \<Rightarrow> register set \<Rightarrow> sub_agent_state \<Rightarrow> sub_agent_state \<Rightarrow> bool" where
  "agree fn A s p \<longleftrightarrow> ss_scopes s = ss_scopes p \<and>
     length (ss_registers s) = length (fn_registers fn) \<and> length (ss_registers p) = length (fn_registers fn) \<and>
     (\<forall>r. unat r < length (fn_registers fn) \<longrightarrow> r \<in> A \<or> \<not> holds_agent fn r \<longrightarrow> ss_registers s ! unat r = ss_registers p ! unat r)"

lemma result_agree:
  assumes "agree fn A s p" "set (instruction_sources ins) \<subseteq> A" "\<And>r. r \<in> set (instruction_sources ins) \<Longrightarrow> unat r < length (fn_registers fn)"
  shows "sub_agent_result_availability fn i ins s = sub_agent_result_availability fn i ins p"
proof -
  have reg: "ss_registers s ! unat r = ss_registers p ! unat r" if "r \<in> set (instruction_sources ins)" for r
    using assms(1,2) assms(3) [OF that] that unfolding agree_def by blast
  have sc: "ss_scopes s = ss_scopes p" using assms(1) by (simp add: agree_def)
  have call: "\<forall>m args. set args \<subseteq> set (instruction_sources ins) \<longrightarrow> call_availability fn i m args s = call_availability fn i m args p"
  proof (intro allI impI)
    fix m args assume "set args \<subseteq> set (instruction_sources ins)"
    with reg have m: "map (\<lambda>r. ss_registers s ! unat r) (filter (holds_agent fn) args) = map (\<lambda>r. ss_registers p ! unat r) (filter (holds_agent fn) args)"
      by auto
    then show "call_availability fn i m args s = call_availability fn i m args p" by (simp only: call_availability_def m sc)
  qed
  show ?thesis using reg sc call
    by (cases "(fn, i, ins, s)" rule: sub_agent_result_availability.cases) (simp_all, (blast intro: subset_insertI)+)
qed

lemma scope_effect_agree:
  assumes "agree fn A s p" "scope_effect i ins s = Inr s'"
  shows "\<exists>p'. scope_effect i ins p = Inr p' \<and> agree fn A s' p'"
  using assms by (cases "(i, ins, s)" rule: scope_effect.cases) (auto simp: agree_def split: if_splits)

lemma transfer_agree:
  assumes "agree fn A s p" "set (instruction_sources (fn_code fn ! i)) \<subseteq> A" "registers_in_range fn" "i < length (fn_code fn)"
    "agent_transfer fn i s = Inr s'"
  shows "\<exists>p'. agent_transfer fn i p = Inr p' \<and> agree fn (A \<union> set_option (instruction_destination (fn_code fn ! i))) s' p'"
proof -
  let ?ins = "fn_code fn ! i"
  have src: "unat r < length (fn_registers fn)" if "r \<in> set (instruction_sources ?ins)" for r
    using that assms(3,4) by (auto simp: registers_in_range_def)
  have same: "ss_registers s ! unat r = ss_registers p ! unat r" if "r \<in> set (instruction_sources ?ins)" for r
    using assms(1,2) src [OF that] that unfolding agree_def by blast
  from assms(5) have ok: "\<not> list_ex (\<lambda>r. holds_agent fn r \<and> ss_registers s ! unat r = Unavailable) (instruction_sources ?ins)"
    by (auto simp: agent_transfer_def Let_def split: if_splits)
  with same have okp: "\<not> list_ex (\<lambda>r. holds_agent fn r \<and> ss_registers p ! unat r = Unavailable) (instruction_sources ?ins)"
    by (auto simp: list_ex_iff)
  show ?thesis
  proof (cases "instruction_destination ?ins")
    case None
    with assms(5) ok have "scope_effect i ?ins s = Inr s'" by (auto simp: agent_transfer_def Let_def result_bind_Inr_iff)
    from scope_effect_agree [OF assms(1) this] None okp show ?thesis by (auto simp: agent_transfer_def Let_def)
  next
    case (Some d)
    note eff = scope_effect_destination [OF Some]
    have d: "unat d < length (fn_registers fn)" using Some assms(3,4) by (auto simp: registers_in_range_def)
    show ?thesis
    proof (cases "holds_agent fn d")
      case True
      with assms(5) ok Some eff obtain a where a: "sub_agent_result_availability fn i ?ins s = Inr a"
        and s': "s' = s\<lparr>ss_registers := (ss_registers s)[unat d := a]\<rparr>" by (auto simp: agent_transfer_def Let_def result_bind_Inr_iff)
      from a result_agree [OF assms(1,2) src, where i = i] have "sub_agent_result_availability fn i ?ins p = Inr a" by simp
      with True Some okp eff have "agent_transfer fn i p = Inr (p\<lparr>ss_registers := (ss_registers p)[unat d := a]\<rparr>)"
        by (simp add: agent_transfer_def Let_def)
      moreover have "agree fn (insert d A) s' (p\<lparr>ss_registers := (ss_registers p)[unat d := a]\<rparr>)"
        using assms(1) d by (auto simp: agree_def s' nth_list_update)
      ultimately show ?thesis using Some by auto
    next
      case False
      with assms(1,5) ok okp Some eff show ?thesis by (auto simp: agent_transfer_def Let_def agree_def)
    qed
  qed
qed

lemma bind_registers_agree:
  assumes "agree fn A s p" "source \<in> A" "unat source < length (fn_registers fn)" "\<And>b. b \<in> set bs \<Longrightarrow> unat b < length (fn_registers fn)"
  shows "agree fn (A \<union> set bs) (s\<lparr>ss_registers := bind_registers fn source bs (ss_registers s)\<rparr>)
    (p\<lparr>ss_registers := bind_registers fn source bs (ss_registers p)\<rparr>)"
  using assms
proof (induction bs arbitrary: A s p)
  case (Cons b bs)
  define up where "up x = x\<lparr>ss_registers := (if holds_agent fn b then (ss_registers x)[unat b := ss_registers x ! unat source] else ss_registers x)\<rparr>"
    for x :: sub_agent_state
  have "agree fn (insert b A) (up s) (up p)"
    using Cons.prems by (auto simp: agree_def up_def nth_list_update)
  from Cons.IH [OF this] Cons.prems show ?case by (simp add: up_def)
qed simp

lemma bind_agree:
  assumes "agree fn A s p" "registers_in_range fn" "i < length (fn_code fn)" "set (instruction_sources (fn_code fn ! i)) \<subseteq> A"
    "(t, bs) \<in> set (edges i (fn_code fn ! i))"
  shows "agree fn (A \<union> set bs) (bind_agents fn (fn_code fn ! i) bs s) (bind_agents fn (fn_code fn ! i) bs p)"
proof (cases "\<exists>source arms. fn_code fn ! i = Control (ISwitchEnum source arms)")
  case True
  then obtain source arms where ins: "fn_code fn ! i = Control (ISwitchEnum source arms)" by blast
  have "unat source < length (fn_registers fn)" "\<And>b. b \<in> set bs \<Longrightarrow> unat b < length (fn_registers fn)"
    using assms(2,3,5) ins unfolding registers_in_range_def by fastforce+
  with bind_registers_agree [OF assms(1)] assms(4) ins show ?thesis by simp
next
  case False
  then have "bs = []" "bind_agents fn (fn_code fn ! i) bs x = x" for x
    using assms(5) by (cases "(i, fn_code fn ! i)" rule: edges.cases; auto)+
  with assms(1) show ?thesis by simp
qed

lemma normalize_agree:
  assumes "agree fn A s p" "inits ini \<subseteq> A"
  shows "agree fn (inits ini) (normalize_uninitialized_sub_agents fn ini s) p"
  using assms by (auto simp: agree_def normalize_uninitialized_sub_agents_def nth_enumerate_eq inits_def)


section \<open>The loop\<close>

definition unvisited :: "agent_states \<Rightarrow> nat" where
  "unvisited st = length (filter (\<lambda>x. x = None) st)"

lemma unvisited_visit: "k < length st \<Longrightarrow> st ! k = None \<Longrightarrow> Suc (unvisited (st[k := Some x])) = unvisited st"
proof (induction st arbitrary: k)
  case (Cons a st)
  then show ?case by (cases k) (auto simp: unvisited_def)
qed simp

text \<open>States are set once, and what is set is put on the work list.\<close>

definition extends :: "function_def \<Rightarrow> agent_states \<times> nat list \<Rightarrow> agent_states \<times> nat list \<Rightarrow> bool" where
  "extends fn sw sw' \<longleftrightarrow> length (fst sw') = length (fst sw) \<and>
     (\<forall>j s. j < length (fst sw) \<longrightarrow> fst sw ! j = Some s \<longrightarrow> fst sw' ! j = Some s) \<and>
     (\<forall>j s. j < length (fst sw) \<longrightarrow> fst sw ! j = None \<longrightarrow> fst sw' ! j = Some s \<longrightarrow> j \<in> set (snd sw') \<and> agents_wf fn s) \<and>
     set (snd sw) \<subseteq> set (snd sw') \<and>
     (\<forall>j\<in>set (snd sw'). j \<in> set (snd sw) \<or> j < length (fst sw) \<and> fst sw' ! j \<noteq> None) \<and>
     2 * unvisited (fst sw') + length (snd sw') \<le> 2 * unvisited (fst sw) + length (snd sw)"

lemma extends_refl: "extends fn sw sw"
  by (simp add: extends_def)

lemma extends_trans:
  assumes "extends fn a b" "extends fn b c"
  shows "extends fn a c"
proof -
  have "j \<in> set (snd c) \<and> agents_wf fn s" if j: "j < length (fst a)" "fst a ! j = None" "fst c ! j = Some s" for j s
  proof (cases "fst b ! j")
    case None
    with j assms show ?thesis by (simp add: extends_def)
  next
    case (Some s')
    with j assms have "fst c ! j = Some s'" "j \<in> set (snd b)" "agents_wf fn s'" by (simp_all add: extends_def)
    with j(3) assms(2) show ?thesis by (auto simp: extends_def)
  qed
  moreover have "j \<in> set (snd a) \<or> j < length (fst a) \<and> fst c ! j \<noteq> None" if "j \<in> set (snd c)" for j
    using assms that unfolding extends_def by (metis option.exhaust)
  ultimately show ?thesis using assms unfolding extends_def by auto
qed

definition definite_ok :: "function_def \<Rightarrow> entry_states \<Rightarrow> bool" where
  "definite_ok fn D \<longleftrightarrow> length D = length (fn_code fn) \<and> (\<forall>i<length (fn_code fn). D ! i \<noteq> None)"

lemma merge_agent_edge:
  assumes "definite_ok fn D" "length st = length (fn_code fn)" "t < length (fn_code fn)" "agents_wf fn inc"
  shows "merge_sub_agent_edge fn D i t inc (st, wl) \<noteq> Inl Panicked"
    "merge_sub_agent_edge fn D i t inc (st, wl) = Inr sw' \<Longrightarrow> extends fn (st, wl) sw' \<and>
       fst sw' ! t = Some (normalize_uninitialized_sub_agents fn (the (D ! t)) inc)"
proof -
  from assms(1,3) obtain ini where D: "D ! t = Some ini" "t < length D" by (auto simp: definite_ok_def)
  then show "merge_sub_agent_edge fn D i t inc (st, wl) \<noteq> Inl Panicked"
    by (auto simp: merge_sub_agent_edge_def Let_def split: option.splits)
  assume m: "merge_sub_agent_edge fn D i t inc (st, wl) = Inr sw'"
  show "extends fn (st, wl) sw' \<and> fst sw' ! t = Some (normalize_uninitialized_sub_agents fn (the (D ! t)) inc)"
  proof (cases "st ! t")
    case None
    with m D have sw': "sw' = (st[t := Some (normalize_uninitialized_sub_agents fn ini inc)], wl @ [t])"
      by (auto simp: merge_sub_agent_edge_def Let_def split: if_splits)
    have "extends fn (st, wl) sw'"
      using None assms(2,3) normalize_wf [OF assms(4)] unvisited_visit [of t st "normalize_uninitialized_sub_agents fn ini inc"]
      by (auto simp: extends_def sw' nth_list_update)
    with sw' D assms(2,3) show ?thesis by simp
  next
    case (Some e)
    with m D show ?thesis by (auto simp: merge_sub_agent_edge_def Let_def extends_refl split: if_splits)
  qed
qed

lemma merge_agent_edges_ok:
  assumes "definite_ok fn D" "length st = length (fn_code fn)"
    "\<And>t bs. (t, bs) \<in> set es \<Longrightarrow> t < length (fn_code fn) \<and> agents_wf fn (bind_agents fn (fn_code fn ! i) bs s)"
  shows "merge_agent_edges fn D i s es (st, wl) \<noteq> Inl Panicked \<and>
    (\<forall>sw'. merge_agent_edges fn D i s es (st, wl) = Inr sw' \<longrightarrow> extends fn (st, wl) sw' \<and>
       (\<forall>(t, bs)\<in>set es. fst sw' ! t = Some (normalize_uninitialized_sub_agents fn (the (D ! t)) (bind_agents fn (fn_code fn ! i) bs s))))"
  using assms(2,3)
proof (induction es arbitrary: st wl)
  case Nil
  then show ?case by (simp add: extends_refl)
next
  case (Cons e es)
  obtain t bs where e: "e = (t, bs)" by force
  let ?inc = "bind_agents fn (fn_code fn ! i) bs s"
  have t: "t < length (fn_code fn)" "agents_wf fn ?inc" using Cons.prems(2) e by auto
  note one = merge_agent_edge [OF assms(1) Cons.prems(1) t, of i wl]
  show ?case
  proof (cases "merge_sub_agent_edge fn D i t ?inc (st, wl)")
    case (Inl x)
    with one(1) show ?thesis by (simp add: e)
  next
    case (Inr sw1)
    obtain st1 wl1 where sw1: "sw1 = (st1, wl1)" by force
    from one(2) [OF Inr] have ext: "extends fn (st, wl) (st1, wl1)" and here: "st1 ! t = Some (normalize_uninitialized_sub_agents fn (the (D ! t)) ?inc)"
      by (simp_all add: sw1)
    then have l: "length st1 = length (fn_code fn)" using Cons.prems(1) by (simp add: extends_def)
    have IH: "merge_agent_edges fn D i s es (st1, wl1) \<noteq> Inl Panicked \<and>
      (\<forall>sw'. merge_agent_edges fn D i s es (st1, wl1) = Inr sw' \<longrightarrow> extends fn (st1, wl1) sw' \<and>
        (\<forall>(t, bs)\<in>set es. fst sw' ! t = Some (normalize_uninitialized_sub_agents fn (the (D ! t)) (bind_agents fn (fn_code fn ! i) bs s))))"
      by (rule Cons.IH [OF l]) (use Cons.prems(2) in auto)
    have still: "fst sw' ! t = st1 ! t" if "extends fn (st1, wl1) sw'" for sw' using that here t(1) l by (simp add: extends_def)
    show ?thesis using IH extends_trans [OF ext] still here Inr by (auto simp: e sw1)
  qed
qed


definition agent_settled :: "function_def \<Rightarrow> entry_states \<Rightarrow> agent_states \<Rightarrow> nat \<Rightarrow> sub_agent_state \<Rightarrow> bool" where
  "agent_settled fn D st i s \<longleftrightarrow> (\<exists>s'. agent_transfer fn i s = Inr s' \<and>
     (\<forall>(t, bs)\<in>set (edges i (fn_code fn ! i)). t < length (fn_code fn) \<and>
        st ! t = Some (normalize_uninitialized_sub_agents fn (the (D ! t)) (bind_agents fn (fn_code fn ! i) bs s'))))"

definition agent_inv :: "function_def \<Rightarrow> entry_states \<Rightarrow> agent_states \<Rightarrow> nat list \<Rightarrow> bool" where
  "agent_inv fn D st wl \<longleftrightarrow> length st = length (fn_code fn) \<and> (\<forall>i\<in>set wl. i < length (fn_code fn) \<and> st ! i \<noteq> None) \<and>
     (\<forall>i<length (fn_code fn). \<forall>s. st ! i = Some s \<longrightarrow> agents_wf fn s) \<and> st ! 0 = Some (start_agents fn) \<and>
     (\<forall>i<length (fn_code fn). \<forall>s. st ! i = Some s \<longrightarrow> i \<notin> set wl \<longrightarrow> agent_settled fn D st i s)"

lemma agent_settled_extends:
  assumes "extends fn (st, wl) (st', wl')" "length st = length (fn_code fn)" "agent_settled fn D st i s"
  shows "agent_settled fn D st' i s"
proof -
  from assms(3) obtain s' where s': "agent_transfer fn i s = Inr s'"
    "\<forall>(t, bs)\<in>set (edges i (fn_code fn ! i)). t < length (fn_code fn) \<and>
        st ! t = Some (normalize_uninitialized_sub_agents fn (the (D ! t)) (bind_agents fn (fn_code fn ! i) bs s'))" unfolding agent_settled_def by blast
  have "\<forall>(t, bs)\<in>set (edges i (fn_code fn ! i)). t < length (fn_code fn) \<and>
        st' ! t = Some (normalize_uninitialized_sub_agents fn (the (D ! t)) (bind_agents fn (fn_code fn ! i) bs s'))"
    using s'(2) assms(1,2) by (auto simp: extends_def)
  with s'(1) show ?thesis unfolding agent_settled_def by blast
qed

lemma extends_inv:
  assumes inv: "agent_inv fn D st (i # wl)" and s: "i < length (fn_code fn)" "st ! i = Some s"
    and ext: "extends fn (st, wl) (st', wl')" and here: "agent_settled fn D st' i s"
  shows "agent_inv fn D st' wl'"
proof -
  have l: "length st = length (fn_code fn)" using inv by (simp add: agent_inv_def)
  have keep: "agents_wf fn x \<and> (j \<notin> set wl' \<longrightarrow> agent_settled fn D st' j x)" if j: "j < length (fn_code fn)" "st' ! j = Some x" for j x
  proof (cases "st ! j")
    case None
    with ext j l show ?thesis by (auto simp: extends_def)
  next
    case (Some y)
    with ext j l have y: "y = x" by (auto simp: extends_def)
    have "agent_settled fn D st' j x" if "j \<notin> set wl'"
    proof (cases "j = i")
      case True
      with Some y s(2) here show ?thesis by simp
    next
      case False
      with that ext have "j \<notin> set (i # wl)" by (auto simp: extends_def)
      with inv Some y j(1) have "agent_settled fn D st j x" by (simp add: agent_inv_def)
      with agent_settled_extends [OF ext l] show ?thesis by blast
    qed
    with inv Some y j(1) show ?thesis by (simp add: agent_inv_def)
  qed
  have work: "j < length (fn_code fn) \<and> st' ! j \<noteq> None" if "j \<in> set wl'" for j
  proof (cases "j \<in> set wl")
    case True
    with inv have "j < length (fn_code fn)" "st ! j \<noteq> None" by (auto simp: agent_inv_def)
    with ext l show ?thesis by (auto simp: extends_def)
  next
    case False
    with that ext l show ?thesis by (auto simp: extends_def)
  qed
  have "st' ! 0 = Some (start_agents fn)" "length st' = length (fn_code fn)"
    using ext inv l le_less_trans [OF le0 s(1)] by (simp_all add: extends_def agent_inv_def)
  with keep work show ?thesis by (simp add: agent_inv_def)
qed

text \<open>What the check of initialisation gives: successors are instructions.\<close>

definition edges_inside :: "function_def \<Rightarrow> bool" where
  "edges_inside fn \<longleftrightarrow> (\<forall>i<length (fn_code fn). \<forall>(t, bs)\<in>set (edges i (fn_code fn ! i)). t < length (fn_code fn))"

lemma agent_visit_ok:
  assumes inv: "agent_inv fn D st (i # wl)" and reg: "registers_in_range fn" "edges_inside fn" "definite_ok fn D"
  shows "agent_visit fn D i st wl \<noteq> Inl Panicked \<and>
    (\<forall>st' wl'. agent_visit fn D i st wl = Inr (st', wl') \<longrightarrow> agent_inv fn D st' wl' \<and>
       2 * unvisited st' + length wl' \<le> 2 * unvisited st + length wl)"
proof -
  from inv obtain s where s: "i < length (fn_code fn)" "st ! i = Some s" "agents_wf fn s" and l: "length st = length (fn_code fn)"
    by (fastforce simp: agent_inv_def)
  note tr = transfer_wf [OF s(3) reg(1) s(1)]
  show ?thesis
  proof (cases "agent_transfer fn i s")
    case (Inl e)
    with tr s(2) show ?thesis by (simp add: agent_visit_def)
  next
    case (Inr s')
    have es: "t < length (fn_code fn) \<and> agents_wf fn (bind_agents fn (fn_code fn ! i) bs s')" if "(t, bs) \<in> set (edges i (fn_code fn ! i))" for t bs
    proof -
      have "agents_wf fn s'" using tr Inr by blast
      moreover have "unat r < length (fn_registers fn)" if "r \<in> set (instruction_sources (fn_code fn ! i))" for r
        using that reg(1) s(1) by (auto simp: registers_in_range_def)
      ultimately show ?thesis using that reg(2) s(1) bind_wf unfolding edges_inside_def by blast
    qed
    note m = merge_agent_edges_ok [OF reg(3) l es, where wl = wl]
    have v: "agent_visit fn D i st wl = merge_agent_edges fn D i s' (edges i (fn_code fn ! i)) (st, wl)"
      using s(2) Inr by (simp add: agent_visit_def)
    have "agent_inv fn D st' wl' \<and> 2 * unvisited st' + length wl' \<le> 2 * unvisited st + length wl"
      if r: "merge_agent_edges fn D i s' (edges i (fn_code fn ! i)) (st, wl) = Inr (st', wl')" for st' wl'
    proof -
      from m r have ext: "extends fn (st, wl) (st', wl')"
        and out: "\<forall>(t, bs)\<in>set (edges i (fn_code fn ! i)). st' ! t = Some (normalize_uninitialized_sub_agents fn (the (D ! t)) (bind_agents fn (fn_code fn ! i) bs s'))"
        by auto
      have here: "agent_settled fn D st' i s" unfolding agent_settled_def using Inr out es by blast
      from extends_inv [OF inv s(1,2) ext here] ext show ?thesis by (simp add: extends_def)
    qed
    with m v show ?thesis by simp
  qed
qed

interpretation agents: visiting_loop "agent_visit fn D" "\<lambda>st wl. agent_loop fn D (st, wl)"
  "\<lambda>st wl. registers_in_range fn \<and> edges_inside fn \<and> definite_ok fn D \<and> agent_inv fn D st wl"
  "\<lambda>e. e \<noteq> Panicked" "\<lambda>st wl. (0, 2 * unvisited st + length wl)" for fn D
proof unfold_locales
  show "agent_loop fn D (st, []) = Some (Inr st)" for st by (simp add: agent_loop.simps)
  show "agent_loop fn D (st, i # rest) =
    (case agent_visit fn D i st rest of Inl e \<Rightarrow> Some (Inl e) | Inr sw \<Rightarrow> agent_loop fn D (fst sw, snd sw))" for st i rest
    by (simp add: agent_loop.simps [of _ _ "(st, i # rest)"] split: sum.split)
  fix st i rest
  assume inv: "registers_in_range fn \<and> edges_inside fn \<and> definite_ok fn D \<and> agent_inv fn D st (i # rest)"
  note v = agent_visit_ok [of fn D st i rest] inv
  show "e \<noteq> Panicked" if "agent_visit fn D i st rest = Inl e" for e using v that by blast
  show "registers_in_range fn \<and> edges_inside fn \<and> definite_ok fn D \<and> agent_inv fn D st' wl" if "agent_visit fn D i st rest = Inr (st', wl)" for st' wl
    using v that by blast
  show "((0, 2 * unvisited st' + length wl), (0, 2 * unvisited st + length (i # rest))) \<in> less_than <*lex*> less_than"
    if "agent_visit fn D i st rest = Inr (st', wl)" for st' wl
    using v that by fastforce
qed

section \<open>What the check of initialisation provides\<close>

lemma initialised:
  assumes "registers_in_range fn" "verify_initialization fn = Some (Inr D)"
  shows "paths_safe fn" "paths_complete fn" "exact_states fn D"
  using verify_initialization_exact [OF assms(1)] assms(2) by auto

lemma initialised_edges:
  assumes "registers_in_range fn" "verify_initialization fn = Some (Inr D)"
  shows "edges_inside fn" "definite_ok fn D" "fn_code fn \<noteq> []"
proof -
  note d = initialised [OF assms]
  have "t < length (fn_code fn)" if "i < length (fn_code fn)" "(t, bs) \<in> set (edges i (fn_code fn ! i))" for i t bs
  proof -
    from d(2) that(1) obtain R where "cfg_reach fn i R" unfolding paths_complete_def by blast
    from cfg_step [OF this that] d(1) show ?thesis unfolding paths_safe_def by blast
  qed
  then show "edges_inside fn" unfolding edges_inside_def by blast
  show "definite_ok fn D" using d(3) unfolding exact_states_def definite_ok_def by auto
  show "fn_code fn \<noteq> []" using d(1) cfg_start [of fn] unfolding paths_safe_def by (metis list.size(3) less_nat_zero_code)
qed

lemma initialised_flow:
  assumes "registers_in_range fn" "verify_initialization fn = Some (Inr D)" "i < length (fn_code fn)"
  shows "set (instruction_sources (fn_code fn ! i)) \<subseteq> inits (the (D ! i))"
    "(t, bs) \<in> set (edges i (fn_code fn ! i)) \<Longrightarrow>
       inits (the (D ! t)) \<subseteq> inits (the (D ! i)) \<union> set_option (instruction_destination (fn_code fn ! i)) \<union> set bs"
proof -
  note d = initialised [OF assms(1,2)]
  have at: "inits (the (D ! j)) = {r. unat r < length (fn_registers fn) \<and> (\<forall>R. cfg_reach fn j R \<longrightarrow> r \<in> R)}" if "j < length (fn_code fn)" for j
  proof -
    from d(3) that obtain s where "D ! j = Some s"
      "inits s = {r. unat r < length (fn_registers fn) \<and> (\<forall>R. cfg_reach fn j R \<longrightarrow> r \<in> R)}" unfolding exact_states_def by blast
    then show ?thesis by simp
  qed
  have "unat r < length (fn_registers fn)" if "r \<in> set (instruction_sources (fn_code fn ! i))" for r
    using that assms(1,3) by (auto simp: registers_in_range_def)
  with d(1) show "set (instruction_sources (fn_code fn ! i)) \<subseteq> inits (the (D ! i))"
    unfolding at [OF assms(3)] paths_safe_def by blast
  assume e: "(t, bs) \<in> set (edges i (fn_code fn ! i))"
  then have t: "t < length (fn_code fn)" using initialised_edges(1) [OF assms(1,2)] assms(3) unfolding edges_inside_def by blast
  show "inits (the (D ! t)) \<subseteq> inits (the (D ! i)) \<union> set_option (instruction_destination (fn_code fn ! i)) \<union> set bs"
    unfolding at [OF assms(3)] at [OF t] using cfg_step [OF _ assms(3) e] by blast
qed

lemma agent_path_inside:
  assumes "registers_in_range fn" "verify_initialization fn = Some (Inr D)" "agent_path fn i p"
  shows "i < length (fn_code fn) \<and> agents_wf fn p"
  using assms(3)
proof induction
  case agent_start
  then show ?case using initialised_edges(3) [OF assms(1,2)] start_wf by simp
next
  case (agent_step i p p' t bs)
  then have "agents_wf fn p'" using transfer_wf [OF _ assms(1)] by blast
  moreover have "unat r < length (fn_registers fn)" if "r \<in> set (instruction_sources (fn_code fn ! i))" for r
    using that assms(1) agent_step.hyps by (auto simp: registers_in_range_def)
  ultimately show ?case using bind_wf initialised_edges(1) [OF assms(1,2)] agent_step.hyps unfolding edges_inside_def by blast
qed

lemma agent_path_agrees:
  assumes "registers_in_range fn" "verify_initialization fn = Some (Inr D)" "agent_inv fn D st []" "agent_path fn i p"
  shows "\<exists>s. st ! i = Some s \<and> agree fn (inits (the (D ! i))) s p"
  using assms(4)
proof induction
  case agent_start
  then show ?case using assms(3) start_wf by (simp add: agent_inv_def agree_def agents_wf_def)
next
  case (agent_step i p p' t bs)
  then obtain s where s: "st ! i = Some s" "agree fn (inits (the (D ! i))) s p" by blast
  note flow = initialised_flow [OF assms(1,2) agent_step.hyps(2)]
  from assms(3) s(1) agent_step.hyps(2) have "agent_settled fn D st i s" by (simp add: agent_inv_def)
  then obtain s' where s': "agent_transfer fn i s = Inr s'"
    "st ! t = Some (normalize_uninitialized_sub_agents fn (the (D ! t)) (bind_agents fn (fn_code fn ! i) bs s'))"
    unfolding agent_settled_def using agent_step.hyps(4) by blast
  let ?A = "inits (the (D ! i)) \<union> set_option (instruction_destination (fn_code fn ! i))"
  from transfer_agree [OF s(2) flow(1) assms(1) agent_step.hyps(2) s'(1)] agent_step.hyps(3) have "agree fn ?A s' p'" by auto
  from bind_agree [OF this assms(1) agent_step.hyps(2) _ agent_step.hyps(4)] flow(1)
  have "agree fn (?A \<union> set bs) (bind_agents fn (fn_code fn ! i) bs s') (bind_agents fn (fn_code fn ! i) bs p')" by blast
  from normalize_agree [OF this flow(2) [OF agent_step.hyps(4)]] s'(2) show ?case by blast
qed


section \<open>Sub-agents stay in their scopes\<close>

lemma sub_agent_check_returns:
  assumes "registers_in_range fn" "verify_initialization fn = Some (Inr D)"
  shows "\<exists>result. verify_sub_agent_cfg fn D = Some result \<and> result \<noteq> Inl Panicked \<and>
    (result = Inr () \<longrightarrow> list_ex contains_stored_sub_agent (fn_registers fn) \<longrightarrow> (\<exists>st. agent_inv fn D st []))"
proof (cases "list_ex contains_stored_sub_agent (fn_registers fn)")
  case True
  note d = initialised_edges [OF assms]
  let ?st = "(replicate (length (fn_code fn)) None)[0 := Some (start_agents fn)]"
  have at: "?st ! j = (if j = 0 then Some (start_agents fn) else None)" if "j < length (fn_code fn)" for j
    using that by (cases "j = 0") (simp_all add: nth_list_update)
  have "agent_inv fn D ?st [0]" using d(3) start_wf by (auto simp: agent_inv_def at split: if_splits)
  with agents.iterate_returns [of fn D ?st "[0]"] assms(1) d(1,2) obtain result where r: "agent_loop fn D (?st, [0]) = Some result"
    "result \<noteq> Inl Panicked" "\<forall>st'. result = Inr st' \<longrightarrow> agent_inv fn D st' []" by (fastforce split: sum.splits)
  with True show ?thesis by (cases result) (auto simp: verify_sub_agent_cfg_def)
qed (simp add: verify_sub_agent_cfg_def)

text \<open>(C9) On the states the check of initialisation ends with, the check of sub-agents ends and none of the panics in its code
  happens. In a function it accepts, every sub-agent that a path reads is available and the scope it belongs to is
  the function or still open; where registers can hold sub-agents, every instruction of a path, the exits of scopes
  among them, passes, and all paths to an instruction have the same open scopes.\<close>

theorem sub_agents_stay_in_scope:
  assumes "registers_in_range fn" "verify_initialization fn = Some (Inr D)"
  shows "\<exists>result. verify_sub_agent_cfg fn D = Some result \<and> result \<noteq> Inl Panicked \<and>
    (result = Inr () \<longrightarrow>
       (\<forall>i p. agent_path fn i p \<longrightarrow>
          (\<forall>r\<in>set (instruction_sources (fn_code fn ! i)). contains_stored_sub_agent (fn_registers fn ! unat r) \<longrightarrow>
             (\<exists>scope provenance. ss_registers p ! unat r = Available scope provenance \<and> (scope = 0 \<or> scope \<in> set (ss_scopes p)))) \<and>
          (list_ex contains_stored_sub_agent (fn_registers fn) \<longrightarrow>
             (\<exists>p'. agent_transfer fn i p = Inr p') \<and> (\<forall>q. agent_path fn i q \<longrightarrow> ss_scopes q = ss_scopes p))))"
proof -
  from sub_agent_check_returns [OF assms] obtain result where r: "verify_sub_agent_cfg fn D = Some result" "result \<noteq> Inl Panicked"
    "result = Inr () \<Longrightarrow> list_ex contains_stored_sub_agent (fn_registers fn) \<Longrightarrow> \<exists>st. agent_inv fn D st []" by blast
  have moves: "(\<exists>p'. agent_transfer fn i p = Inr p') \<and> (\<forall>q. agent_path fn i q \<longrightarrow> ss_scopes q = ss_scopes p)"
    if ok: "result = Inr ()" "list_ex contains_stored_sub_agent (fn_registers fn)" and path: "agent_path fn i p" for i p
  proof -
    from r(3) [OF ok] obtain st where st: "agent_inv fn D st []" by blast
    note i = agent_path_inside [OF assms path, THEN conjunct1]
    from agent_path_agrees [OF assms st path] obtain s where s: "st ! i = Some s" "agree fn (inits (the (D ! i))) s p" by blast
    with st i have "agent_settled fn D st i s" by (simp add: agent_inv_def)
    then obtain s' where "agent_transfer fn i s = Inr s'" unfolding agent_settled_def by blast
    from transfer_agree [OF s(2) initialised_flow(1) [OF assms i] assms(1) i this] have "\<exists>p'. agent_transfer fn i p = Inr p'" by blast
    moreover have "ss_scopes q = ss_scopes p" if "agent_path fn i q" for q
      using agent_path_agrees [OF assms st that] s by (auto simp: agree_def)
    ultimately show ?thesis by blast
  qed
  have reads: "\<exists>scope provenance. ss_registers p ! unat x = Available scope provenance \<and> (scope = 0 \<or> scope \<in> set (ss_scopes p))"
    if ok: "result = Inr ()" and path: "agent_path fn i p" and x: "x \<in> set (instruction_sources (fn_code fn ! i))" "holds_agent fn x" for i p x
  proof -
    from agent_path_inside [OF assms path] have i: "i < length (fn_code fn)" "agents_wf fn p" by auto
    have n: "unat x < length (fn_registers fn)" using x(1) i(1) assms(1) by (auto simp: registers_in_range_def)
    with x(2) have "list_ex contains_stored_sub_agent (fn_registers fn)" by (auto simp: list_ex_iff)
    from moves [OF ok this path] obtain p' where "agent_transfer fn i p = Inr p'" by blast
    with x have "ss_registers p ! unat x \<noteq> Unavailable" by (auto simp: agent_transfer_def Let_def list_ex_iff split: if_splits)
    moreover have "open_in (ss_scopes p) (ss_registers p ! unat x)" using i(2) n by (simp add: agents_wf_def)
    ultimately show ?thesis by (cases "ss_registers p ! unat x") (simp_all add: open_in_def)
  qed
  from r(1,2) moves reads show ?thesis by blast
qed

text \<open>A function that makes a sub-agent, uses it in a scope and returns it when the scope is left.\<close>

definition agent_sample :: function_def where
  "agent_sample = \<lparr>fn_name = ''sample'', fn_parameters = [], fn_captures = [], fn_registers = [TSubAgent, TSubAgent],
     fn_code = [Library (IEffectCall 0 SubAgentCreate []), Tasking (ITaskScopeEnter 1), Scalar (IMove 1 0), Tasking (ITaskScopeExit 1),
       Control (IReturn 1)]\<rparr>"

theorem sub_agents_stay_in_scope_witness:
  "\<exists>D. verify_initialization agent_sample = Some (Inr D) \<and> verify_sub_agent_cfg agent_sample D = Some (Inr ()) \<and>
     (\<exists>p'. agent_transfer agent_sample 0 (start_agents agent_sample) = Inr p')"
proof -
  have range: "registers_in_range agent_sample"
    by (auto simp: registers_in_range_def agent_sample_def less_Suc_eq numeral_eq_Suc)
  have D: "verify_initialization agent_sample =
    Some (Inr [Some [False, False], Some [True, False], Some [True, False], Some [True, True], Some [True, True]])" by code_simp
  have ok: "verify_sub_agent_cfg agent_sample [Some [False, False], Some [True, False], Some [True, False], Some [True, True], Some [True, True]] = Some (Inr ())"
    by code_simp
  have "list_ex contains_stored_sub_agent (fn_registers agent_sample)" by code_simp
  with sub_agents_stay_in_scope [OF range D] ok agent_start have "\<exists>p'. agent_transfer agent_sample 0 (start_agents agent_sample) = Inr p'" by force
  with D ok show ?thesis by blast
qed

end
