(* ===== verification/Spec2Isabelle.thy ===== *)
theory Spec2Isabelle
  imports Writer Tracker_Safety Versions Handshake Agent_Payload Permission Events
    Vm_Canonical_Round Vm_Time Vm_Turns Exec_Authority Lexer_Lossless Bytecode_Agents_Safe
begin

text \<open>
  Verification of the Josh protocol and of the core of the Allen virtual machine.

  \<^bold>\<open>The program.\<close> A host starts a Josh runtime as a child process and talks to it over a byte
  stream: frames (\<open>josh-protocol/src/framing.rs\<close>) hold JSON messages (\<open>message.rs\<close>,
  \<open>strict_json.rs\<close>), a handshake (\<open>handshake.rs\<close>, \<open>version.rs\<close>) fixes versions and limits, and
  a state machine (\<open>state.rs\<close>) admits requests, responses, cancellations and notifications whose
  payloads (\<open>payload.rs\<close>) are validated. Permissions the host grants are kept in a registry
  (\<open>josh-host/src/grants.rs\<close>). Programs are compiled to bytecode (\<open>allen-bytecode\<close>) and run by a
  virtual machine (\<open>allen-vm\<close>) whose values cross the boundary in a canonical binary form
  (\<open>canonical.rs\<close>) and whose use of resources is bounded by a budget (\<open>lib.rs\<close>).

  \<^bold>\<open>The theories.\<close> All paths are below \<open>src/crates\<close>.
  \<^item> \<open>Prelude\<close>: results as sums, bytes and ASCII, UTF-8, decimal text, words.
    \<open>Ordered_Map\<close>: \<open>BTreeMap\<close> as a sorted association list. \<open>Machine\<close>: the locale of
    invariants of step relations.
  \<^item> \<open>Json_Value\<close>: \<open>strict_json.rs\<close>, the visitor over the events of a JSON text,
    with the value every input is read as. \<open>Json_Text\<close>: what is relied on of the text level of the
    \<open>serde_json\<close> crate, and a writer and a parser that satisfy it. \<open>Wire_Message\<close>: \<open>message.rs\<close>, envelopes and their codec. \<open>Framing\<close> and \<open>Writer\<close>:
    \<open>framing.rs\<close>, the frame reader and encoder and the ticketed writer of several threads.
  \<^item> \<open>Versions\<close>: \<open>allen-schema/src/version.rs\<close>. \<open>Handshake\<close>: \<open>handshake.rs\<close>, \<open>version.rs\<close>
    and the version checks of \<open>payload.rs\<close>.
  \<^item> \<open>Tracker\<close>, \<open>Tracker_Safety\<close>: \<open>state.rs\<close>, one function per operation of
    \<open>ProtocolTracker\<close>, the invariant of its tables and the safety of its histories: answers and
    capacity with disconnects and changes of the limit included, late responses, bindings, phases.
  \<^item> \<open>Payload_Text\<close>, \<open>Payload\<close>, \<open>Agent_Payload\<close>, \<open>Permission\<close>, \<open>Events\<close>: \<open>payload.rs\<close>
    (text validators, protocol payloads, agent payloads and transcripts, permissions, execution
    events) and \<open>grants.rs\<close>, whose registry is compared with the history of its operations.
  \<^item> \<open>Bytecode_Model\<close>: \<open>allen-bytecode/src/model.rs\<close>, types and operation enums.
    \<open>Vm_Value\<close>: \<open>allen-vm/src/lib.rs\<close>, values, errors, equality and order.
  \<^item> \<open>Vm_Canonical\<close> and \<open>Vm_Canonical_Decode\<close>: \<open>allen-vm/src/canonical.rs\<close>, encoder and
    decoder. \<open>Vm_Canonical_Spec\<close> states the canonical form as one function of a value,
    \<open>Vm_Canonical_Encode\<close> proves that the encoder computes it, \<open>Vm_Canonical_Read\<close>,
    \<open>Vm_Canonical_Accept\<close> and \<open>Vm_Canonical_Round\<close> that the decoder inverts it and accepts
    nothing else.
  \<^item> \<open>Vm_Budget\<close>: limits, use and warnings of an execution; operations of the machine are
    functions of the budget that return an error or a value and the new budget.
    \<open>Vm_Registers\<close>, \<open>Vm_Int\<close>, \<open>Vm_Time\<close>, \<open>Vm_Strings\<close>, \<open>Vm_Collections\<close>: register access
    and construction of values, integer operations and text, the calendar and UTC text, strings
    and bytes, lists and maps.
  \<^item> \<open>Bytecode_Code\<close>: programs, functions, handlers and instructions of \<open>model.rs\<close>.
    \<open>Bytecode_Cfg\<close> and \<open>Bytecode_Cfg_Exact\<close>: the data-flow check of \<open>verify_cfg_function\<close>
    (\<open>allen-bytecode/src/verifier.rs\<close>), which ends and accepts exactly the functions whose paths
    stay in the code and write registers before they read them. \<open>Bytecode_Agents\<close> and
    \<open>Bytecode_Agents_Safe\<close>: the check of sub-agents that follows it, which never panics and keeps
    the sub-agents of every path in their scopes.
    \<open>Vm_Types\<close>: the well-formedness of types and \<open>value_matches_type\<close>, with what a typed value
    guarantees. \<open>Vm_Json\<close> and \<open>Vm_Library\<close>: projection to and decoding from JSON, conversions,
    templates, standard calls and capabilities.
  \<^item> \<open>Vm_Machine\<close>: tasks, frames, scopes, futures and the machine as records. \<open>Vm_Tasks\<close>:
    spawning, joining, returning, cancelling and waking. \<open>Vm_Scheduler\<close>: the rotating choice of
    a ready task and how far it lets a task wait, that a
    cancellation removes exactly the task and its descendants, and what an early return out of
    two nested scopes does. \<open>Vm_Step\<close>: every instruction and \<open>machine_step\<close>. \<open>Vm_Execute\<close>: a
    turn of the scheduler loop, its iteration and the start of a program. \<open>Vm_Spending\<close>: every
    operation of the machine changes the budget only through the steps of \<open>Vm_Budget\<close>.
    \<open>Vm_Progress\<close> and \<open>Vm_Turns\<close>: an instruction makes at most one task and everything else none,
    so that the limit on instructions bounds the turns that do anything else than wait for an
    effect; instructions, allocated bytes, call depth, tasks and concurrent effects of an execution
    are within its limits at every turn and at its end; and the turns of an execution move the
    rotation cursor to the task they run, so that a task that stays ready is run.
  \<^item> \<open>Exec_Authority\<close>: command patterns (\<open>allen-exec/src/lib.rs\<close>) and the authority over
    subprocesses (\<open>allen-runtime/src/lib.rs\<close>), with what a program can start.
    \<open>Lexer\<close> and \<open>Lexer_Lossless\<close>: the lexer of the language (\<open>allen-syntax/src/lexer.rs\<close>), and
    that it ends, loses nothing and reports existing ranges only.

  \<^bold>\<open>Interfaces.\<close> What a component promises another is a locale with an interpretation on the
  definitions of the code: step relations with an invariant (tracker, writer, registry, budget),
  ordered maps, codecs whose decoder inverts the encoder and accepts only encodings, and loops over
  a work list whose visits keep an invariant (\<open>Work_List\<close>, for the checks of the verifier).

  \<^bold>\<open>Parameters.\<close> The text level of JSON (\<open>serde_json\<close>), semantic versions (\<open>semver\<close>), Base64
  and URL parsing and the typed reading of payloads are arguments of the definitions that use
  them, with what the code relies on as hypotheses. Of the JSON text level that is the round trip of
  trees without floats, with UTF-8 strings and at most 127 nested arrays and objects. So are the byte sink of the writer, the clock
  and the cancellation source of the budget, and the sizes of the target's values and the
  allocator of the decoder. A lock is a single step: a poisoned mutex is not modelled.

  The effects of a running program (tools, agents, host calls), its clock and its cancellation
  are functions on a state of the world that the machine threads through its steps, and floating
  point arithmetic is a record of functions on the bit patterns.

  \<^bold>\<open>Bounds.\<close> Machine integers are words or carry their range checks; \<open>usize\<close> has 64 bits. Loops
  are recursive functions that terminate; the decoder recurses on the nesting depth left below
  \<open>MAX_VALUE_NESTING\<close>, so no fuel is needed. The scheduler loop takes the number of turns as an
  argument: a program may wait for its effects without end. The loops of the verifier over a work
  list are partial functions, proved to end on every function whose registers are in range. \<open>value_matches_type\<close> is modelled
  without the table in which the code remembers the pairs it has already compared.

  \<^bold>\<open>Not modelled.\<close> The entry points that set up a machine from an artifact and report its
  outcome, the other checks of the bytecode verifier and the artifact codec, tool schemas, the compiler and the
  parser, packages, the brokers for files and HTTP and the running of processes (operating system
  I/O), the threads of the host server, the runtime facade and the command line programs.
\<close>

end
